(* ===== verification/Prelude.thy ===== *)
theory Prelude
  imports Main "HOL-Library.Word"
begin

text \<open>
  Shared vocabulary of the development: names for the machine integers of the target (a 32-bit
  little-endian ARM), the byte orders the code converts between, the multi-word numbers of the
  signature code, and the facts on lists and words that several components use.
  The collection \<open>word_arith\<close> holds the equations that move a word expression to the
  natural numbers; \<open>byte_order\<close> holds the lengths and inverses of the byte conversions.
\<close>

unbundle bit_operations_syntax

named_theorems word_arith \<open>word expressions read as natural numbers\<close>
named_theorems byte_order \<open>lengths and inverses of the byte-order conversions\<close>

type_synonym u8 = "8 word"
type_synonym u16 = "16 word"
type_synonym u32 = "32 word"
type_synonym u64 = "64 word"
type_synonym bytes = "u8 list"

section \<open>Words as natural numbers\<close>

lemma unat_less_pow: "unat (x :: 'a::len word) < 2 ^ LENGTH('a)"
  by (rule unsigned_less)

lemma unat_u8_less: "unat (x :: u8) < 256"
  using unat_less_pow [of x] by simp

lemma unat_u16_less: "unat (x :: u16) < 65536"
  using unat_less_pow [of x] by simp

lemma unat_u32_less: "unat (x :: u32) < 4294967296"
  using unat_less_pow [of x] by simp

lemma unat_u64_less: "unat (x :: u64) < 18446744073709551616"
  using unat_less_pow [of x] by simp

lemma unat_drop_bit [word_arith]: "unat (drop_bit k x) = unat (x :: 'a::len word) div 2 ^ k"
  by (metis drop_bit_eq_div unat_drop_bit_eq)

lemma unat_ucast_u64_u32 [word_arith]: "unat (ucast (x :: u64) :: u32) = unat x mod 4294967296"
  by (simp add: unsigned_ucast_eq take_bit_eq_mod)

lemma unat_ucast_u32_u64 [word_arith]: "unat (ucast (x :: u32) :: u64) = unat x"
  using unat_u32_less [of x] by (simp add: unsigned_ucast_eq take_bit_nat_eq_self_iff)

lemma unat_ucast_u8_u32 [word_arith]: "unat (ucast (x :: u8) :: u32) = unat x"
  using unat_u8_less [of x] by (simp add: unsigned_ucast_eq take_bit_nat_eq_self_iff)

lemma ucast_u8_u32_eq_0: "(ucast (x :: u8) :: u32) = 0 \<longleftrightarrow> x = 0"
  by (metis unat_ucast_u8_u32 unsigned_eq_0_iff)

lemma unat_ucast_u32_u8 [word_arith]: "unat (ucast (x :: u32) :: u8) = unat x mod 256"
  by (simp add: unsigned_ucast_eq take_bit_eq_mod)

lemma unat_add_small:
  "unat x + unat y < 2 ^ LENGTH('a) \<Longrightarrow> unat (x + y :: 'a::len word) = unat x + unat y"
  by (simp add: unat_word_ariths)

lemma unat_mult_small:
  "unat x * unat y < 2 ^ LENGTH('a) \<Longrightarrow> unat (x * y :: 'a::len word) = unat x * unat y"
  by (simp add: unat_word_ariths)

lemma unat_sub_small:
  "unat y \<le> unat x \<Longrightarrow> unat (x - y :: 'a::len word) = unat x - unat y"
  by (simp add: unat_sub word_le_nat_alt)

lemma unat_and_mask: "unat (x AND mask k :: 'a::len word) = unat x mod 2 ^ k"
proof -
  have "unat (take_bit k x) = unat x mod 2 ^ k"
    by (simp only: unsigned_take_bit_eq) (simp add: take_bit_eq_mod)
  then show ?thesis by (simp add: take_bit_eq_mask)
qed

lemma unat_and_63 [word_arith]: "unat (c AND 63 :: u64) = unat c mod 64"
proof -
  have m: "(63 :: u64) = mask 6" by (simp add: mask_eq_exp_minus_1)
  have "unat (take_bit 6 c) = unat c mod 64"
    by (simp add: unsigned_take_bit_eq take_bit_eq_mod unat_mod)
  then show ?thesis unfolding m take_bit_eq_mask .
qed

lemma unat_add_mod_64 [word_arith]:
  "unat (c + of_nat n :: u64) mod 64 = (unat c + n) mod 64"
  by (simp add: unat_word_ariths unsigned_of_nat take_bit_eq_mod mod_mod_cancel mod_simps)

lemma word_of_int_unat: "word_of_int (int (unat (x :: 'a::len word))) = (ucast x :: 'b::len word)"
  by simp

lemma low_word_of_int: "int (unat (ucast (word_of_int k :: u64) :: u32)) = k mod 2 ^ 32"
  by (simp add: unsigned_ucast_eq unsigned_of_int take_bit_eq_mod mod_mod_cancel)

lemma word_xor_eq_0: "x XOR y = 0 \<longleftrightarrow> x = (y :: 'a::len word)"
proof
  assume "x XOR y = 0"
  then have "(x XOR y) XOR y = y" by simp
  then show "x = y" by (simp add: xor.assoc)
qed simp

text \<open>Facts on the residues of small negative numbers, for accumulators that hold a borrow.\<close>

lemma mod_one_borrow:
  fixes k p :: int
  assumes "- p \<le> k" and "k < p"
  shows "k mod p = (if k < 0 then k + p else k)"
proof (cases "k < 0")
  case True
  have "k mod p = (k + p) mod p" by simp
  also have "\<dots> = k + p" using True assms by (intro mod_pos_pos_trivial) simp_all
  finally show ?thesis using True by simp
next
  case False
  then show ?thesis using assms by (simp add: mod_pos_pos_trivial)
qed

lemma div_one_borrow:
  fixes k p :: int
  assumes "- p \<le> k" and "k < p"
  shows "k div p = (if k < 0 then - 1 else 0)"
proof (cases "k < 0")
  case True
  with assms have "0 < p" by linarith
  then have "k div p + 1 = (k + p) div p" by (simp only: div_add_self2)
  also have "\<dots> = 0" using True assms by (intro div_pos_pos_trivial) simp_all
  finally show ?thesis using True by simp
next
  case False
  then show ?thesis using assms by (simp add: div_pos_pos_trivial)
qed

lemma map_nth_prefix: "n \<le> length xs \<Longrightarrow> map (\<lambda>i. xs ! i) [0..<n] = take n xs"
  by (rule nth_equalityI) simp_all

section \<open>Byte orders\<close>

text \<open>
  \<open>le_word\<close> reads a byte list with the least significant byte first, \<open>be_word\<close> with the most
  significant byte first; \<open>le_bytes n\<close> and \<open>be_bytes n\<close> write the low \<open>n\<close> bytes of a word.
\<close>

fun le_word :: "bytes \<Rightarrow> 'a::len word" where
  "le_word [] = 0"
| "le_word (b # bs) = ucast b OR push_bit 8 (le_word bs)"

definition be_word :: "bytes \<Rightarrow> 'a::len word" where
  "be_word bs = le_word (rev bs)"

fun le_bytes :: "nat \<Rightarrow> 'a::len word \<Rightarrow> bytes" where
  "le_bytes 0 w = []"
| "le_bytes (Suc n) w = ucast w # le_bytes n (drop_bit 8 w)"

definition be_bytes :: "nat \<Rightarrow> 'a::len word \<Rightarrow> bytes" where
  "be_bytes n w = rev (le_bytes n w)"

lemma length_le_bytes [simp, byte_order]: "length (le_bytes n w) = n"
  by (induction n arbitrary: w) simp_all

lemma length_be_bytes [simp, byte_order]: "length (be_bytes n w) = n"
  by (simp add: be_bytes_def)

lemma bit_le_word_byte:
  "bit (ucast (b :: u8) OR push_bit 8 (w :: 'a::len word)) i
     \<longleftrightarrow> i < LENGTH('a) \<and> (if i < 8 then bit b i else bit w (i - 8))"
  using bit_imp_le_length [of b i] by (auto simp: bit_simps)

lemma le_word_le_bytes [byte_order]: "le_word (le_bytes n w) = take_bit (8 * n) (w :: 'a::len word)"
proof (induction n arbitrary: w)
  case 0
  then show ?case by simp
next
  case (Suc n)
  show ?case
    by (rule bit_word_eqI) (auto simp: Suc bit_le_word_byte bit_simps)
qed

lemma be_word_be_bytes [byte_order]: "be_word (be_bytes n w) = take_bit (8 * n) (w :: 'a::len word)"
  by (simp add: be_word_def be_bytes_def le_word_le_bytes)

lemma le_word_bit_bound: "bit (le_word bs :: 'a::len word) i \<Longrightarrow> i < 8 * length bs"
proof (induction bs arbitrary: i)
  case Nil
  then show ?case by simp
next
  case (Cons b bs)
  then show ?case
    by (auto simp: bit_le_word_byte split: if_splits dest!: Cons.IH)
qed

lemma le_bytes_le_word [byte_order]:
  "8 * length bs \<le> LENGTH('a) \<Longrightarrow> le_bytes (length bs) (le_word bs :: 'a::len word) = bs"
proof (induction bs)
  case Nil
  then show ?case by simp
next
  case (Cons b bs)
  have "ucast (ucast b OR push_bit 8 (le_word bs) :: 'a word) = b"
    using Cons.prems by (intro bit_word_eqI) (auto simp: bit_simps)
  moreover have "drop_bit 8 (ucast b OR push_bit 8 (le_word bs) :: 'a word) = le_word bs"
    using Cons.prems
    by (intro bit_word_eqI) (auto simp: bit_simps dest: bit_imp_le_length le_word_bit_bound)
  ultimately show ?case using Cons by simp
qed

lemma le_word_32_iff: "length b = 4 \<Longrightarrow> w = (le_word b :: u32) \<longleftrightarrow> b = le_bytes 4 w"
  using le_bytes_le_word [of b, where 'a = 32] le_word_le_bytes [of 4 w]
  by (auto simp: take_bit_word_eq_self)

text \<open>The numbers that byte strings stand for, least significant byte first and last.\<close>

fun le_val :: "bytes \<Rightarrow> nat" where
  "le_val [] = 0"
| "le_val (b # bs) = unat b + 256 * le_val bs"

definition be_val :: "bytes \<Rightarrow> nat" where
  "be_val bs = le_val (rev bs)"

lemma le_val_append: "le_val (as @ bs) = le_val as + 256 ^ length as * le_val bs"
  by (induction as) (simp_all add: algebra_simps)

lemma be_val_append: "be_val (as @ bs) = be_val bs + 256 ^ length bs * be_val as"
  by (simp add: be_val_def le_val_append)

lemma be_val_Nil [simp]: "be_val [] = 0"
  by (simp add: be_val_def)

lemma le_val_less: "le_val bs < 256 ^ length bs"
proof (induction bs)
  case Nil
  then show ?case by simp
next
  case (Cons b bs)
  then show ?case using unat_u8_less [of b] by simp
qed

lemma be_val_less: "be_val bs < 256 ^ length bs"
  using le_val_less [of "rev bs"] by (simp add: be_val_def)

lemma le_val_inject: "length as = length bs \<Longrightarrow> le_val as = le_val bs \<longleftrightarrow> as = bs"
proof (induction as bs rule: list_induct2)
  case Nil
  then show ?case by simp
next
  case (Cons a as b bs)
  have "unat a = le_val (a # as) mod 256" "unat b = le_val (b # bs) mod 256"
    "le_val as = le_val (a # as) div 256" "le_val bs = le_val (b # bs) div 256"
    using unat_u8_less [of a] unat_u8_less [of b] by simp_all
  then show ?case using Cons.IH by (metis list.inject unsigned_word_eqI le_val.simps(2))
qed

lemma be_val_inject: "length as = length bs \<Longrightarrow> be_val as = be_val bs \<longleftrightarrow> as = bs"
  by (simp add: be_val_def le_val_inject)

lemma unat_le_word [word_arith]:
  "8 * length bs \<le> LENGTH('a) \<Longrightarrow> unat (le_word bs :: 'a::len word) = le_val bs"
proof (induction bs)
  case Nil
  then show ?case by simp
next
  case (Cons b bs)
  have dis: "ucast b AND push_bit 8 (le_word bs) = (0 :: 'a word)"
    by (rule bit_word_eqI) (auto simp: bit_simps dest: bit_imp_le_length)
  have l8: "8 \<le> LENGTH('a)" using Cons.prems by simp
  then have ub: "unat (ucast b :: 'a word) = unat b"
    using unat_u8_less [of b] power_increasing [of 8 "LENGTH('a)" "2::nat"]
    by (simp add: unsigned_ucast_eq take_bit_nat_eq_self_iff)
  have "256 * le_val bs + 256 \<le> 256 ^ length (b # bs)" using le_val_less [of bs] by simp
  also have "(256 :: nat) ^ length (b # bs) = 2 ^ (8 * length (b # bs))"
    by (simp add: power_mult power_add)
  also have "(2 :: nat) ^ (8 * length (b # bs)) \<le> 2 ^ LENGTH('a)"
    using Cons.prems by (intro power_increasing) simp_all
  finally have bnd: "256 * le_val bs + 256 \<le> 2 ^ LENGTH('a)" .
  have up: "unat (push_bit 8 (le_word bs :: 'a word)) = 256 * le_val bs"
    using bnd Cons
    by (subst unsigned_push_bit_eq) (simp_all add: push_bit_eq_mult take_bit_nat_eq_self mult.commute)
  have "unat (ucast b + push_bit 8 (le_word bs) :: 'a word) = unat b + 256 * le_val bs"
    using bnd unat_u8_less [of b] by (subst unat_add_small) (simp_all add: ub up)
  then show ?case using dis by (simp add: disjunctive_add_eq_or)
qed

lemma unat_be_word [word_arith]:
  "8 * length bs \<le> LENGTH('a) \<Longrightarrow> unat (be_word bs :: 'a::len word) = be_val bs"
  by (simp add: be_word_def be_val_def unat_le_word)

end
