(* ===== verification/Montgomery.thy ===== *)
theory Montgomery
  imports Prelude
begin

text \<open>
  The multi-word arithmetic of secure\_verify/rsa.c: \<open>subM\<close>, \<open>geM\<close>, \<open>montMulAdd\<close>, \<open>montMul\<close> and
  \<open>modpow\<close> over little-endian arrays of 32-bit words, with the 64-bit accumulators of the code kept
  at their width.  An array is the list of its words; a loop over \<open>key->len\<close> words is a recursion
  over the first \<open>len\<close> words, and words past them are left as they are.
  The lemmas relate an array to the number it stands for (\<open>val\<close>) and show that the
  interleaved Montgomery step, the product and the two exponentiation chains compute what they
  should modulo the key's modulus, for every key that satisfies \<open>key_wf\<close>.
\<close>

section \<open>The key and the word loops\<close>

definition RSANUMWORDS :: nat where
  "RSANUMWORDS = 64"

definition RSANUMBYTES :: nat where
  "RSANUMBYTES = 256"

record RSAPublicKey =
  key_len :: int
  n0inv :: u32
  key_n :: "u32 list"
  key_rr :: "u32 list"
  exponent :: int

definition klen :: "RSAPublicKey \<Rightarrow> nat" where
  "klen key = nat (key_len key)"

text \<open>The words of the modulus and of the square of the radix that the loops visit.\<close>

definition nwords :: "RSAPublicKey \<Rightarrow> u32 list" where
  "nwords key = take (klen key) (key_n key)"

definition rrwords :: "RSAPublicKey \<Rightarrow> u32 list" where
  "rrwords key = take (klen key) (key_rr key)"

fun subM_loop :: "u64 \<Rightarrow> u32 list \<Rightarrow> u32 list \<Rightarrow> u32 list" where
  "subM_loop A (x # a) (m # n) =
     (let A' = A + (ucast x - ucast m)
      in ucast A' # subM_loop (signed_drop_bit 32 A') a n)"
| "subM_loop A a n = a"

definition subM :: "RSAPublicKey \<Rightarrow> u32 list \<Rightarrow> u32 list" where
  "subM key a = subM_loop 0 a (nwords key)"

text \<open>\<open>geM\<close> walks down from the most significant word.\<close>

fun geM_loop :: "u32 list \<Rightarrow> u32 list \<Rightarrow> bool" where
  "geM_loop (x # a) (m # n) =
     (if x < m then False else if m < x then True else geM_loop a n)"
| "geM_loop a n = True"

definition geM :: "RSAPublicKey \<Rightarrow> u32 list \<Rightarrow> bool" where
  "geM key a = geM_loop (rev (take (klen key) a)) (rev (nwords key))"

text \<open>
  The body of \<open>montMulAdd\<close> for the words from index 1 on: \<open>A\<close> accumulates \<open>a * b + c\<close>, \<open>B\<close>
  accumulates \<open>d0 * n\<close> plus the low word of \<open>A\<close>; the low word of \<open>B\<close> is stored one index down.
\<close>

fun montMulAdd_loop ::
  "u32 \<Rightarrow> u32 \<Rightarrow> u64 \<Rightarrow> u64 \<Rightarrow> u32 list \<Rightarrow> u32 list \<Rightarrow> u32 list \<Rightarrow> u32 list \<times> u64 \<times> u64" where
  "montMulAdd_loop a d0 A B (b # bs) (n # ns) (c # cs) =
     (let A' = drop_bit 32 A + ucast a * ucast b + ucast c;
          B' = drop_bit 32 B + ucast d0 * ucast n + ucast (ucast A' :: u32);
          (out, A'', B'') = montMulAdd_loop a d0 A' B' bs ns cs
      in (ucast B' # out, A'', B''))"
| "montMulAdd_loop a d0 A B bs ns cs = ([], A, B)"

definition montMulAdd :: "RSAPublicKey \<Rightarrow> u32 list \<Rightarrow> u32 \<Rightarrow> u32 list \<Rightarrow> u32 list" where
  "montMulAdd key c a b =
     (let n = nwords key;
          A0 = ucast a * ucast (hd b) + ucast (hd c) :: u64;
          d0 = ucast A0 * n0inv key :: u32;
          B0 = ucast d0 * ucast (hd n) + ucast (ucast A0 :: u32) :: u64;
          (out, A, B) = montMulAdd_loop a d0 A0 B0 (tl b) (tl n) (tl c);
          A' = drop_bit 32 A + drop_bit 32 B;
          c' = out @ [ucast A']
      in if drop_bit 32 A' \<noteq> 0 then subM key c' else c')"

fun montMul_loop :: "RSAPublicKey \<Rightarrow> u32 list \<Rightarrow> u32 list \<Rightarrow> u32 list \<Rightarrow> u32 list" where
  "montMul_loop key c [] b = c"
| "montMul_loop key c (x # a) b = montMul_loop key (montMulAdd key c x b) a b"

definition montMul :: "RSAPublicKey \<Rightarrow> u32 list \<Rightarrow> u32 list \<Rightarrow> u32 list" where
  "montMul key a b =
     montMul_loop key (replicate (klen key) 0) (take (klen key) a) b"

text \<open>
  \<open>modpow\<close> reads the big-endian buffer into words, runs the chain of the key's exponent and writes
  the result back.  For any other exponent the code dereferences a null pointer: \<open>None\<close>.
\<close>

definition words_of_be :: "nat \<Rightarrow> bytes \<Rightarrow> u32 list" where
  "words_of_be k inout =
     map (\<lambda>i. push_bit 24 (ucast (inout ! ((k - 1 - i) * 4 + 0)))
           OR push_bit 16 (ucast (inout ! ((k - 1 - i) * 4 + 1)))
           OR push_bit 8 (ucast (inout ! ((k - 1 - i) * 4 + 2)))
           OR push_bit 0 (ucast (inout ! ((k - 1 - i) * 4 + 3)))) [0..<k]"

definition be_of_words :: "u32 list \<Rightarrow> bytes" where
  "be_of_words aaa =
     concat (map (\<lambda>tmp. [ucast (drop_bit 24 tmp), ucast (drop_bit 16 tmp),
                        ucast (drop_bit 8 tmp), ucast (drop_bit 0 tmp)]) (rev aaa))"

text \<open>The squarings \<open>for (i = 0; i < 16; i += 2)\<close>: two per iteration, through \<open>aaR\<close>.\<close>

fun square_loop :: "RSAPublicKey \<Rightarrow> nat \<Rightarrow> u32 list \<Rightarrow> u32 list" where
  "square_loop key 0 aR = aR"
| "square_loop key (Suc i) aR =
     (let aaR = montMul key aR aR; aR' = montMul key aaR aaR in square_loop key i aR')"

definition modpow :: "RSAPublicKey \<Rightarrow> bytes \<Rightarrow> bytes option" where
  "modpow key inout =
     (let a = words_of_be (klen key) inout;
          finish = (\<lambda>aaa. be_of_words (if geM key aaa then subM key aaa else aaa))
      in if exponent key = 65537 then
           (let aR = montMul key a (rrwords key);
                aR = square_loop key 8 aR;
                aaa = montMul key aR a
            in Some (finish aaa))
         else if exponent key = 3 then
           (let aR = montMul key a (rrwords key);
                aaR = montMul key aR aR;
                aaa = montMul key aaR a
            in Some (finish aaa))
         else None)"

section \<open>Arrays as numbers\<close>

text \<open>The number a little-endian word array stands for.\<close>

fun val :: "u32 list \<Rightarrow> nat" where
  "val [] = 0"
| "val (w # ws) = unat w + 2 ^ 32 * val ws"

definition radix :: "nat \<Rightarrow> nat" where
  "radix k = 2 ^ (32 * k)"

lemma radix_0 [simp]: "radix 0 = 1"
  by (simp add: radix_def)

lemma radix_Suc: "radix (Suc k) = 2 ^ 32 * radix k"
  by (simp add: radix_def power_add)

lemma radix_pos [simp]: "0 < radix k"
  by (simp add: radix_def)

lemma radix_add: "radix (j + k) = radix j * radix k"
  by (simp add: radix_def power_add algebra_simps)

lemma val_less: "val ws < radix (length ws)"
proof (induction ws)
  case Nil
  then show ?case by simp
next
  case (Cons w ws)
  have "2 ^ 32 * Suc (val ws) \<le> 2 ^ 32 * radix (length ws)"
    using Cons.IH by (intro mult_le_mono2) simp
  with unat_u32_less [of w] show ?case by (simp add: radix_Suc)
qed

lemma val_append: "val (us @ vs) = val us + radix (length us) * val vs"
  by (induction us) (simp_all add: radix_Suc algebra_simps)

lemma val_replicate_0 [simp]: "val (replicate k 0) = 0"
  by (induction k) simp_all

lemma val_inject: "length us = length vs \<Longrightarrow> val us = val vs \<longleftrightarrow> us = vs"
proof (induction us vs rule: list_induct2)
  case Nil
  then show ?case by simp
next
  case (Cons u us v vs)
  have "unat u = val (u # us) mod 2 ^ 32" "unat v = val (v # vs) mod 2 ^ 32"
    "val us = val (u # us) div 2 ^ 32" "val vs = val (v # vs) div 2 ^ 32"
    using unat_u32_less [of u] unat_u32_less [of v] by simp_all
  then show ?case using Cons.IH by (metis list.inject unsigned_word_eqI val.simps(2))
qed

section \<open>The word loops compute on numbers\<close>

text \<open>One step of the subtraction: the borrow is kept as 0 or -1 in the 64-bit accumulator.\<close>

lemma subM_step:
  fixes x m :: u32
  assumes "b \<le> 1"
  defines "A \<equiv> - of_nat b + (ucast x - ucast m) :: u64"
  shows "signed_drop_bit 32 A = - of_nat (if unat x < unat m + b then 1 else 0)"
    and "unat (ucast A :: u32) + unat m + b = unat x + (if unat x < unat m + b then 2 ^ 32 else 0)"
proof -
  let ?k = "int (unat x) - int (unat m) - int b"
  have A: "A = word_of_int ?k"
    unfolding A_def
    by (simp only: of_int_diff word_of_int_unat of_int_of_nat_eq) (simp add: algebra_simps)
  have "int (unat x) < 4294967296" "int (unat m) < 4294967296" "int b \<le> 1"
    using unat_u32_less [of x] unat_u32_less [of m] \<open>b \<le> 1\<close> by linarith+
  moreover have "(2 :: int) ^ 32 = 4294967296" by simp
  ultimately have rng: "- (2 ^ 32) \<le> ?k" "?k < 2 ^ 32" by linarith+
  have neg: "?k < 0 \<longleftrightarrow> unat x < unat m + b" by linarith
  have s: "sint A = ?k"
    unfolding A sint_sbintrunc' by (rule signed_take_bit_int_eq_self) (use rng in simp_all)
  have "sint (signed_drop_bit 32 A) = (if unat x < unat m + b then - 1 else 0)"
    unfolding sint_signed_drop_bit_eq s drop_bit_eq_div div_one_borrow [OF rng] neg ..
  also have "\<dots> = sint (- of_nat (if unat x < unat m + b then 1 else 0) :: u64)"
    by simp
  finally show "signed_drop_bit 32 A = - of_nat (if unat x < unat m + b then 1 else 0)"
    by (rule signed_word_eqI)
  have "int (unat (ucast A :: u32)) = ?k mod 2 ^ 32"
    unfolding A by (rule low_word_of_int)
  also have "\<dots> = (if unat x < unat m + b then ?k + 2 ^ 32 else ?k)"
    unfolding mod_one_borrow [OF rng] neg ..
  finally have e: "int (unat (ucast A :: u32)) = (if unat x < unat m + b then ?k + 2 ^ 32 else ?k)" .
  show "unat (ucast A :: u32) + unat m + b = unat x + (if unat x < unat m + b then 2 ^ 32 else 0)"
  proof (cases "unat x < unat m + b")
    case True
    with e have "int (unat (ucast A :: u32)) = ?k + 4294967296" by (simp only: if_True) simp
    then show ?thesis using True by (simp del: of_nat_unat)
  next
    case False
    with e have "int (unat (ucast A :: u32)) = ?k" by (simp only: if_False)
    then show ?thesis using False by (simp del: of_nat_unat)
  qed
qed

lemma subM_loop_val:
  assumes "length a = length n" and "b \<le> 1"
  shows "\<exists>b'\<le>1. val (subM_loop (- of_nat b) a n) + val n + b = val a + radix (length n) * b'
    \<and> length (subM_loop (- of_nat b) a n) = length n"
  using assms
proof (induction a n arbitrary: b rule: list_induct2)
  case Nil
  then show ?case by auto
next
  case (Cons x a m n)
  let ?A = "- of_nat b + (ucast x - ucast m) :: u64"
  let ?b = "if unat x < unat m + b then 1 else 0 :: nat"
  note step = subM_step [OF Cons.prems, of x m]
  have b1: "?b \<le> 1" by simp
  obtain b' where b': "b' \<le> 1"
    and v: "val (subM_loop (- of_nat ?b) a n) + val n + ?b = val a + radix (length n) * b'"
    and l: "length (subM_loop (- of_nat ?b) a n) = length n"
    using Cons.IH [OF b1] by blast
  have out: "subM_loop (- of_nat b) (x # a) (m # n) = ucast ?A # subM_loop (- of_nat ?b) a n"
    using step(1) by (simp add: Let_def)
  have "val (subM_loop (- of_nat b) (x # a) (m # n)) + val (m # n) + b
     = (unat (ucast ?A :: u32) + unat m + b) + 2 ^ 32 * (val (subM_loop (- of_nat ?b) a n) + val n)"
    unfolding out by simp
  also have "\<dots> = unat x + 2 ^ 32 * (val (subM_loop (- of_nat ?b) a n) + val n + ?b)"
    unfolding step(2) by simp
  also have "\<dots> = val (x # a) + radix (length (m # n)) * b'"
    unfolding v by (simp add: radix_Suc)
  finally show ?case using b' l out by auto
qed

text \<open>\<open>subM\<close> subtracts the modulus modulo the radix.\<close>

lemma subM_val:
  assumes "length a = klen key" and "klen key \<le> length (key_n key)"
  shows "length (subM key a) = klen key"
    and "val (nwords key) \<le> val a \<Longrightarrow> val (subM key a) = val a - val (nwords key)"
    and "val a < val (nwords key) \<Longrightarrow>
      val (subM key a) = val a + radix (klen key) - val (nwords key)"
proof -
  have ln: "length (nwords key) = klen key" using assms by (simp add: nwords_def)
  obtain b where b: "b \<le> 1"
    and v: "val (subM key a) + val (nwords key) = val a + radix (klen key) * b"
    and l: "length (subM key a) = klen key"
    using subM_loop_val [of a "nwords key" 0] assms ln by (auto simp: subM_def)
  show "length (subM key a) = klen key" by (rule l)
  have lt: "val (subM key a) < radix (klen key)" using val_less [of "subM key a"] l by simp
  have na: "val (nwords key) < radix (klen key)" using val_less [of "nwords key"] ln by simp
  have b01: "b = 0 \<or> b = 1" using b by linarith
  { assume "val (nwords key) \<le> val a"
    with v lt b01 show "val (subM key a) = val a - val (nwords key)" by auto }
  { assume "val a < val (nwords key)"
    with v lt na b01 show "val (subM key a) = val a + radix (klen key) - val (nwords key)"
      by auto }
qed

lemma geM_loop_val:
  "length a = length n \<Longrightarrow> geM_loop a n \<longleftrightarrow> val (rev n) \<le> val (rev a)"
proof (induction a n rule: list_induct2)
  case Nil
  then show ?case by simp
next
  case (Cons x a m n)
  have la: "val (rev a) < radix (length n)" "val (rev n) < radix (length n)"
    using val_less [of "rev a"] val_less [of "rev n"] Cons.hyps by simp_all
  have lt: "p + radix (length n) * i < q + radix (length n) * j"
    if "i < j" "p < radix (length n)" for p q i j :: nat
  proof -
    have "p + radix (length n) * i < radix (length n) * Suc i" using that by simp
    also have "\<dots> \<le> radix (length n) * j" using that by (intro mult_le_mono2) simp
    finally show ?thesis by simp
  qed
  consider "x < m" | "m < x" | "x = m" by force
  then show ?case
  proof cases
    case 1
    then have "val (rev (x # a)) < val (rev (m # n))"
      using lt [of "unat x" "unat m" "val (rev a)" "val (rev n)"] la Cons.hyps
      by (simp add: val_append word_less_nat_alt)
    with 1 show ?thesis by simp
  next
    case 2
    then have "val (rev (m # n)) < val (rev (x # a))"
      using lt [of "unat m" "unat x" "val (rev n)" "val (rev a)"] la Cons.hyps
      by (simp add: val_append word_less_nat_alt)
    with 2 show ?thesis by (simp add: not_less_iff_gr_or_eq less_not_sym)
  next
    case 3
    then show ?thesis using Cons.IH Cons.hyps by (simp add: val_append)
  qed
qed

lemma geM_val:
  assumes "length a = klen key" and "klen key \<le> length (key_n key)"
  shows "geM key a \<longleftrightarrow> val (nwords key) \<le> val a"
  using assms by (simp add: geM_def geM_loop_val nwords_def)

section \<open>The Montgomery step\<close>

text \<open>A multiply-accumulate of 32-bit words never overflows the 64-bit accumulator.\<close>

lemma mac_bound:
  assumes "h < (2::nat) ^ 32" and "a < 2 ^ 32" and "b < 2 ^ 32" and "c < 2 ^ 32"
  shows "h + a * b + c < 2 ^ 64"
proof -
  have "a * b \<le> (2 ^ 32 - 1) * (2 ^ 32 - 1)" using assms by (intro mult_le_mono) simp_all
  then show ?thesis using assms by simp
qed

lemma mac_unat:
  fixes h :: u64 and a b c :: u32
  assumes "unat h < 2 ^ 32"
  shows "unat (h + ucast a * ucast b + ucast c) = unat h + unat a * unat b + unat c"
proof -
  have t: "unat h + unat a * unat b + unat c < 2 ^ 64"
    using assms unat_u32_less [of a] unat_u32_less [of b] unat_u32_less [of c]
    by (intro mac_bound) simp_all
  have p: "unat (ucast a * ucast b :: u64) = unat a * unat b"
    using t by (subst unat_mult_small) (simp_all add: word_arith)
  have q: "unat (h + ucast a * ucast b) = unat h + unat a * unat b"
    using t by (subst unat_add_small) (simp_all add: p)
  show ?thesis
    using t by (subst unat_add_small) (simp_all add: q word_arith)
qed

lemma high_word_less: "unat (drop_bit 32 (A :: u64)) < 2 ^ 32"
  using unat_u64_less [of A] by (simp add: unat_drop_bit less_mult_imp_div_less)

lemma montMulAdd_loop_val:
  fixes a d0 :: u32
  assumes "length bs = length ns" and "length ns = length cs"
    and "montMulAdd_loop a d0 A B bs ns cs = (out, A', B')"
  shows "length out = length bs \<and>
    val out + radix (length bs) * (unat A' div 2 ^ 32 + unat B' div 2 ^ 32)
      = unat A div 2 ^ 32 + unat B div 2 ^ 32
        + unat a * val bs + val cs + unat d0 * val ns"
  using assms
proof (induction bs ns cs arbitrary: A B out A' B' rule: list_induct3)
  case Nil
  then show ?case by simp
next
  case (Cons b bs n ns c cs)
  let ?A = "drop_bit 32 A + ucast a * ucast b + ucast c :: u64"
  let ?B = "drop_bit 32 B + ucast d0 * ucast n + ucast (ucast ?A :: u32) :: u64"
  obtain out1 A1 B1 where rec: "montMulAdd_loop a d0 ?A ?B bs ns cs = (out1, A1, B1)"
    by (cases "montMulAdd_loop a d0 ?A ?B bs ns cs")
  note IH = Cons.IH [OF rec]
  have uA: "unat ?A = unat A div 2 ^ 32 + unat a * unat b + unat c"
    by (subst mac_unat [OF high_word_less]) (simp add: unat_drop_bit)
  have uB: "unat ?B = unat B div 2 ^ 32 + unat d0 * unat n + unat ?A mod 2 ^ 32"
    by (subst mac_unat [OF high_word_less]) (simp add: unat_drop_bit unat_ucast_u64_u32)
  have "montMulAdd_loop a d0 A B (b # bs) (n # ns) (c # cs) = (ucast ?B # out1, A1, B1)"
    by (simp add: Let_def rec)
  with Cons.prems have out: "out = ucast ?B # out1" "A' = A1" "B' = B1" by simp_all
  have "val out + radix (length (b # bs)) * (unat A' div 2 ^ 32 + unat B' div 2 ^ 32)
    = unat ?B mod 2 ^ 32 + 2 ^ 32 * (val out1 + radix (length bs) * (unat A1 div 2 ^ 32 + unat B1 div 2 ^ 32))"
    unfolding out by (simp add: radix_Suc unat_ucast_u64_u32 algebra_simps)
  also have "\<dots> = (unat ?B mod 2 ^ 32 + 2 ^ 32 * (unat ?B div 2 ^ 32)) + 2 ^ 32 * (unat ?A div 2 ^ 32)
    + 2 ^ 32 * (unat a * val bs + val cs + unat d0 * val ns)"
    unfolding IH [THEN conjunct2] by (simp add: algebra_simps)
  also have "unat ?B mod 2 ^ 32 + 2 ^ 32 * (unat ?B div 2 ^ 32) = unat ?B"
    by (rule mod_mult_div_eq)
  also have "unat ?B + 2 ^ 32 * (unat ?A div 2 ^ 32)
    = unat B div 2 ^ 32 + unat d0 * unat n + (unat ?A mod 2 ^ 32 + 2 ^ 32 * (unat ?A div 2 ^ 32))"
    unfolding uB by (simp only: add.assoc)
  also have "unat ?A mod 2 ^ 32 + 2 ^ 32 * (unat ?A div 2 ^ 32) = unat ?A"
    by (rule mod_mult_div_eq)
  also note uA
  finally have "val out + radix (length (b # bs)) * (unat A' div 2 ^ 32 + unat B' div 2 ^ 32)
    = unat A div 2 ^ 32 + unat B div 2 ^ 32
      + unat a * val (b # bs) + val (c # cs) + unat d0 * val (n # ns)"
    by (simp add: algebra_simps)
  with IH out show ?case by simp
qed

section \<open>Well-formed keys and the Montgomery product\<close>

text \<open>
  What a generated key promises: a positive length within its arrays, \<open>n0inv\<close> the negated inverse
  of the lowest modulus word, and \<open>rr\<close> the square of the radix modulo the modulus.
\<close>

definition key_wf :: "RSAPublicKey \<Rightarrow> bool" where
  "key_wf key \<longleftrightarrow>
     0 < klen key \<and> klen key \<le> length (key_n key) \<and> klen key \<le> length (key_rr key) \<and>
     n0inv key * hd (key_n key) = - 1 \<and>
     val (rrwords key) mod val (nwords key) = radix (klen key) * radix (klen key) mod val (nwords key)"

lemma key_wf_lengths:
  assumes "key_wf key"
  shows "length (nwords key) = klen key" "length (rrwords key) = klen key"
    "0 < klen key" "klen key \<le> length (key_n key)"
    "n0inv key * hd (nwords key) = - 1"
  using assms by (auto simp: key_wf_def nwords_def rrwords_def)

lemma even_word_iff_unat: "even (unat n) \<longleftrightarrow> even (n :: 'a::len word)"
proof -
  have "bit (unat n) 0 \<longleftrightarrow> bit n 0" by (simp add: bit_unsigned_iff del: bit_0)
  then show ?thesis unfolding bit_0 by blast
qed

lemma odd_of_inverse: "n' * n = - 1 \<Longrightarrow> odd (unat (n :: 'a::len word))"
proof
  assume h: "n' * n = - 1" and e: "even (unat n)"
  have "bit (n' * n) 0" using h by (simp add: bit_0)
  moreover have "even n" using e even_word_iff_unat by blast
  then have "even (n' * n)" by simp
  ultimately show False by (simp add: bit_0)
qed

lemma odd_modulus:
  assumes "key_wf key"
  shows "odd (val (nwords key))"
proof -
  note w = key_wf_lengths [OF assms]
  obtain n ns where n: "nwords key = n # ns" using w(1,3) by (cases "nwords key") auto
  have "odd (unat n)" using odd_of_inverse [of "n0inv key" n] w(5) n by simp
  then show ?thesis using n by simp
qed

lemma coprime_radix_modulus:
  assumes "key_wf key"
  shows "coprime (radix k) (val (nwords key))"
  using odd_modulus [OF assms] by (simp add: radix_def coprime_power_left_iff)

text \<open>
  One interleaved step: \<open>2 ^ 32\<close> times the new accumulator is \<open>a * b + c\<close> modulo the modulus, and
  the conditional subtraction keeps it within the array.
\<close>

lemma montMulAdd_wide:
  assumes wf: "key_wf key" and lb: "length b = klen key" and lc: "length c = klen key"
  obtains r t and d :: u32 where
    "montMulAdd key c a b = (if t \<noteq> 0 then subM key r else r)" and "length r = klen key"
    and "2 ^ 32 * (val r + radix (klen key) * t)
      = unat a * val b + val c + unat d * val (nwords key)"
proof -
  note w = key_wf_lengths [OF wf]
  obtain n0 ns where n: "nwords key = n0 # ns" using w(1,3) by (cases "nwords key") auto
  obtain b0 bs where b: "b = b0 # bs" using lb w(3) by (cases b) auto
  obtain c0 cs where c: "c = c0 # cs" using lc w(3) by (cases c) auto
  have lens: "length bs = length ns" "length ns = length cs" "length bs = klen key - 1"
    using w(1) lb lc n b c by auto
  define A0 :: u64 where "A0 = ucast a * ucast b0 + ucast c0"
  define d0 :: u32 where "d0 = ucast A0 * n0inv key"
  define B0 :: u64 where "B0 = ucast d0 * ucast n0 + ucast (ucast A0 :: u32)"
  obtain out A B where loop: "montMulAdd_loop a d0 A0 B0 bs ns cs = (out, A, B)"
    by (cases "montMulAdd_loop a d0 A0 B0 bs ns cs")
  define T :: u64 where "T = drop_bit 32 A + drop_bit 32 B"
  have uA0: "unat A0 = unat a * unat b0 + unat c0"
    using mac_unat [of 0 a b0 c0] by (simp add: A0_def)
  have uB0: "unat B0 = unat d0 * unat n0 + unat A0 mod 2 ^ 32"
    using mac_unat [of 0 d0 n0 "ucast A0"] by (simp add: B0_def unat_ucast_u64_u32)
  have "d0 * n0 + ucast A0 = 0"
    using w(5) n by (simp add: d0_def mult.assoc)
  then have "unat (d0 * n0 + ucast A0) = 0" by simp
  then have B0_0: "unat B0 mod 2 ^ 32 = 0"
    by (simp add: uB0 unat_word_ariths unat_ucast_u64_u32 mod_simps)
  have lo: "length out = klen key - 1"
    and vo: "val out + radix (klen key - 1) * (unat A div 2 ^ 32 + unat B div 2 ^ 32)
      = unat A0 div 2 ^ 32 + unat B0 div 2 ^ 32 + unat a * val bs + val cs + unat d0 * val ns"
    using montMulAdd_loop_val [OF lens(1,2) loop] lens by simp_all
  have uT: "unat T = unat A div 2 ^ 32 + unat B div 2 ^ 32"
    using high_word_less [of A] high_word_less [of B]
    by (simp add: T_def unat_add_small unat_drop_bit)
  define r :: "u32 list" where "r = out @ [ucast T]"
  have lr: "length r = klen key" using lo w(3) by (simp add: r_def)
  have rad: "radix (klen key) = 2 ^ 32 * radix (klen key - 1)"
    using w(3) radix_Suc [of "klen key - 1"] by simp
  define V where "V = val r + radix (klen key) * (unat T div 2 ^ 32)"
  have "V = val out + (radix (klen key - 1) * (unat T mod 2 ^ 32)
      + radix (klen key - 1) * (2 ^ 32 * (unat T div 2 ^ 32)))"
    by (simp add: V_def r_def val_append lo unat_ucast_u64_u32 rad)
  then have V1: "V = val out + radix (klen key - 1) * unat T"
    by (simp only: add_mult_distrib2 [symmetric] mod_mult_div_eq)
  have "2 ^ 32 * V + unat A0 mod 2 ^ 32
    = (unat A0 mod 2 ^ 32 + 2 ^ 32 * (unat A0 div 2 ^ 32)) + 2 ^ 32 * (unat B0 div 2 ^ 32)
      + 2 ^ 32 * (unat a * val bs + val cs + unat d0 * val ns)"
    unfolding V1 uT vo by (simp only: add_mult_distrib2 add_mult_distrib ac_simps)
  also have "2 ^ 32 * (unat B0 div 2 ^ 32) = unat B0"
    using B0_0 mod_mult_div_eq [of "unat B0" "2 ^ 32"] by simp
  also have "(unat A0 mod 2 ^ 32 + 2 ^ 32 * (unat A0 div 2 ^ 32)) = unat A0"
    by (rule mod_mult_div_eq)
  finally have V: "2 ^ 32 * V = unat a * val b + val c + unat d0 * val (nwords key)"
    by (simp add: uA0 uB0 b c n algebra_simps)
  have "montMulAdd key c a b = (if unat T div 2 ^ 32 \<noteq> 0 then subM key r else r)"
    using loop unfolding montMulAdd_def n b c A0_def d0_def B0_def T_def r_def
    by (simp add: Let_def unat_drop_bit flip: unat_eq_0)
  then show thesis using lr V unfolding V_def by (rule that)
qed

lemma montMulAdd_val:
  assumes wf: "key_wf key" and lb: "length b = klen key" and lc: "length c = klen key"
  shows "length (montMulAdd key c a b) = klen key"
    and "(2 ^ 32 * val (montMulAdd key c a b)) mod val (nwords key)
      = (unat a * val b + val c) mod val (nwords key)"
proof -
  note w = key_wf_lengths [OF wf]
  let ?N = "val (nwords key)" and ?R = "radix (klen key)"
  obtain r t and d :: u32 where res: "montMulAdd key c a b = (if t \<noteq> 0 then subM key r else r)"
    and lr: "length r = klen key"
    and V: "2 ^ 32 * (val r + ?R * t) = unat a * val b + val c + unat d * ?N"
    using montMulAdd_wide [OF assms] .
  have N: "?N < ?R" using val_less [of "nwords key"] w(1) by simp
  have "unat a * val b + val c + unat d * ?N < 2 ^ 32 * (?R + ?N)"
  proof -
    have "unat a * val b \<le> (2 ^ 32 - 1) * ?R"
      using unat_u32_less [of a] val_less [of b] lb by (intro mult_le_mono) simp_all
    moreover have "unat d * ?N \<le> 2 ^ 32 * ?N"
      using unat_u32_less [of d] by (intro mult_le_mono) simp_all
    moreover have "val c < ?R" using val_less [of c] lc by simp
    moreover have "(2 ^ 32 - 1) * ?R + ?R = 2 ^ 32 * ?R" by simp
    ultimately show ?thesis unfolding add_mult_distrib2 by linarith
  qed
  then have bound: "val r + ?R * t < ?R + ?N" unfolding V [symmetric] by simp
  have t: "t = 0 \<or> t = 1"
  proof (rule ccontr)
    assume "\<not> (t = 0 \<or> t = 1)"
    then have "?R * 2 \<le> ?R * t" by (intro mult_le_mono2) simp
    with bound N show False by linarith
  qed
  show "length (montMulAdd key c a b) = klen key"
    using res lr subM_val(1) [OF lr w(4)] by simp
  have "val (montMulAdd key c a b) + t * ?N = val r + ?R * t"
  proof (cases "t = 0")
    case True
    then show ?thesis using res by simp
  next
    case False
    with t have t1: "t = 1" by simp
    with bound have "val r < ?N" by simp
    with False t1 N show ?thesis using res subM_val(3) [OF lr w(4)] by simp
  qed
  then have "2 ^ 32 * val (montMulAdd key c a b) + (2 ^ 32 * t) * ?N
    = unat a * val b + val c + unat d * ?N"
    using V by (metis add_mult_distrib2 mult.assoc)
  then show "(2 ^ 32 * val (montMulAdd key c a b)) mod ?N = (unat a * val b + val c) mod ?N"
    by (metis mod_mult_self1 mult.commute)
qed

text \<open>The product: the radix times the result is the product of the operands.\<close>

lemma montMul_loop_val:
  assumes wf: "key_wf key" and lb: "length b = klen key" and lc: "length c = klen key"
  shows "length (montMul_loop key c a b) = klen key \<and>
    (radix (length a) * val (montMul_loop key c a b)) mod val (nwords key)
      = (val a * val b + val c) mod val (nwords key)"
  using lc
proof (induction a arbitrary: c)
  case Nil
  then show ?case by simp
next
  case (Cons x a)
  let ?N = "val (nwords key)"
  let ?c = "montMulAdd key c x b"
  note step = montMulAdd_val [OF wf lb Cons.prems, of x]
  have IH: "length (montMul_loop key ?c a b) = klen key"
    "(radix (length a) * val (montMul_loop key ?c a b)) mod ?N = (val a * val b + val ?c) mod ?N"
    using Cons.IH [OF step(1)] by simp_all
  have "(radix (length (x # a)) * val (montMul_loop key ?c a b)) mod ?N
    = (2 ^ 32 * (radix (length a) * val (montMul_loop key ?c a b))) mod ?N"
    by (simp add: radix_Suc mult.assoc)
  also have "\<dots> = (2 ^ 32 * (val a * val b + val ?c)) mod ?N"
    using IH(2) by (metis mod_mult_right_eq)
  also have "\<dots> = (2 ^ 32 * (val a * val b) + 2 ^ 32 * val ?c) mod ?N"
    by (simp add: add_mult_distrib2)
  also have "\<dots> = (2 ^ 32 * (val a * val b) + (unat x * val b + val c)) mod ?N"
    using step(2) by (metis mod_add_right_eq)
  finally show ?case using IH(1) by (simp add: algebra_simps)
qed

lemma montMul_val:
  assumes "key_wf key" and "length a = klen key" and "length b = klen key"
  shows "length (montMul key a b) = klen key"
    and "(radix (klen key) * val (montMul key a b)) mod val (nwords key)
      = (val a * val b) mod val (nwords key)"
  using montMul_loop_val [OF assms(1,3), of "replicate (klen key) 0" a] assms(2)
  by (simp_all add: montMul_def)

section \<open>The interface of a Montgomery product, and exponentiation over it\<close>

text \<open>
  What \<open>modpow\<close> needs of the product: on operands of the right shape the result has that shape
  and, times the radix, is the product modulo the modulus.  An operand \<^emph>\<open>represents\<close> \<open>u\<close> when it
  is \<open>u\<close> times the radix modulo the modulus.
\<close>

locale montgomery_product =
  fixes wf :: "'k \<Rightarrow> bool"
    and ok :: "'k \<Rightarrow> 'w \<Rightarrow> bool"
    and num :: "'w \<Rightarrow> nat"
    and modulus rad :: "'k \<Rightarrow> nat"
    and mul :: "'k \<Rightarrow> 'w \<Rightarrow> 'w \<Rightarrow> 'w"
  assumes mul_ok: "wf k \<Longrightarrow> ok k x \<Longrightarrow> ok k y \<Longrightarrow> ok k (mul k x y)"
    and mul_num: "wf k \<Longrightarrow> ok k x \<Longrightarrow> ok k y \<Longrightarrow>
      (rad k * num (mul k x y)) mod modulus k = (num x * num y) mod modulus k"
    and rad_coprime: "wf k \<Longrightarrow> coprime (rad k) (modulus k)"
begin

definition represents :: "'k \<Rightarrow> 'w \<Rightarrow> nat \<Rightarrow> bool" where
  "represents k x u \<longleftrightarrow> ok k x \<and> num x mod modulus k = (u * rad k) mod modulus k"

lemma cancel_rad:
  assumes "wf k" and "(rad k * u) mod modulus k = (rad k * v) mod modulus k"
  shows "u mod modulus k = v mod modulus k"
proof -
  have "int (modulus k) dvd int (rad k * u) - int (rad k * v)"
    using assms(2) by (metis mod_eq_dvd_iff of_nat_mod)
  then have "int (modulus k) dvd int (rad k) * (int u - int v)"
    by (simp add: right_diff_distrib)
  moreover have "coprime (int (modulus k)) (int (rad k))"
    using rad_coprime [OF assms(1)] by (simp add: ac_simps)
  ultimately have "int (modulus k) dvd int u - int v"
    by (simp add: coprime_dvd_mult_right_iff)
  then show ?thesis
    by (metis mod_eq_dvd_iff of_nat_eq_iff of_nat_mod)
qed

lemma into_form:
  assumes "wf k" and "ok k x" and "ok k rr"
    and "num rr mod modulus k = (rad k * rad k) mod modulus k"
  shows "represents k (mul k x rr) (num x)"
proof -
  have "(rad k * num (mul k x rr)) mod modulus k = (num x * num rr) mod modulus k"
    using assms by (simp add: mul_num)
  also have "\<dots> = (num x * (rad k * rad k)) mod modulus k"
    using assms(4) by (metis mod_mult_right_eq)
  also have "\<dots> = (rad k * (num x * rad k)) mod modulus k"
    by (simp only: ac_simps)
  finally have "num (mul k x rr) mod modulus k = (num x * rad k) mod modulus k"
    by (rule cancel_rad [OF assms(1)])
  then show ?thesis
    using assms by (simp add: represents_def mul_ok)
qed

lemma mul_represents:
  assumes "wf k" and "represents k x u" and "represents k y v"
  shows "represents k (mul k x y) (u * v)"
proof -
  have "(rad k * num (mul k x y)) mod modulus k = (num x * num y) mod modulus k"
    using assms by (simp add: mul_num represents_def)
  also have "\<dots> = ((u * rad k) * (v * rad k)) mod modulus k"
    using assms(2,3) unfolding represents_def by (metis mod_mult_eq)
  also have "\<dots> = (rad k * ((u * v) * rad k)) mod modulus k"
    by (simp only: ac_simps)
  finally have "num (mul k x y) mod modulus k = ((u * v) * rad k) mod modulus k"
    by (rule cancel_rad [OF assms(1)])
  then show ?thesis
    using assms by (simp add: represents_def mul_ok)
qed

lemma out_of_form:
  assumes "wf k" and "represents k x u" and "ok k y"
  shows "num (mul k x y) mod modulus k = (u * num y) mod modulus k"
proof -
  have "(rad k * num (mul k x y)) mod modulus k = (num x * num y) mod modulus k"
    using assms by (simp add: mul_num represents_def)
  also have "\<dots> = ((u * rad k) * num y) mod modulus k"
    using assms(2) unfolding represents_def by (metis mod_mult_left_eq)
  also have "\<dots> = (rad k * (u * num y)) mod modulus k"
    by (simp only: ac_simps)
  finally show ?thesis
    by (rule cancel_rad [OF assms(1)])
qed

end

interpretation mp: montgomery_product key_wf "\<lambda>key ws. length ws = klen key" val
  "\<lambda>key. val (nwords key)" "\<lambda>key. radix (klen key)" montMul
  by unfold_locales (simp_all add: montMul_val coprime_radix_modulus)

lemma square_loop_represents:
  assumes "key_wf key" and "mp.represents key aR u"
  shows "mp.represents key (square_loop key i aR) (u ^ (4 ^ i))"
  using assms(2)
proof (induction i arbitrary: aR u)
  case 0
  then show ?case by simp
next
  case (Suc i)
  have "mp.represents key (montMul key (montMul key aR aR) (montMul key aR aR)) ((u * u) * (u * u))"
    using Suc.prems assms(1) by (intro mp.mul_represents)
  from Suc.IH [OF this] show ?case
    by (simp add: Let_def power_mult power4_eq_xxxx mult.assoc)
qed

section \<open>The byte buffer\<close>

lemma be_word_expand:
  "push_bit 24 (ucast b0) OR push_bit 16 (ucast b1) OR push_bit 8 (ucast b2) OR push_bit 0 (ucast b3)
    = (be_word [b0, b1, b2, b3] :: u32)"
  by (simp add: be_word_def) (rule bit_word_eqI, auto simp: bit_simps)

lemma words_of_be_val:
  "length inout = 4 * k \<Longrightarrow> length (words_of_be k inout) = k \<and> val (words_of_be k inout) = be_val inout"
proof (induction k arbitrary: inout)
  case 0
  then show ?case by (simp add: words_of_be_def)
next
  case (Suc k)
  obtain b0 b1 b2 b3 rest where i: "inout = b0 # b1 # b2 # b3 # rest" and l: "length rest = 4 * k"
    using Suc.prems by (auto simp: length_Suc_conv numeral_eq_Suc)
  have tl: "inout ! ((k - j) * 4 + m) = rest ! ((k - 1 - j) * 4 + m)" if "j < k" for j m
  proof -
    have "(k - j) * 4 + m = Suc (Suc (Suc (Suc ((k - 1 - j) * 4 + m))))"
      using that by (simp add: diff_mult_distrib)
    then show ?thesis unfolding i by (simp del: diff_mult_distrib)
  qed
  have "words_of_be (Suc k) inout
    = map (\<lambda>j. be_word [inout ! ((k - j) * 4 + 0), inout ! ((k - j) * 4 + 1),
        inout ! ((k - j) * 4 + 2), inout ! ((k - j) * 4 + 3)]) [0..<k]
      @ [be_word [b0, b1, b2, b3]]"
    unfolding words_of_be_def be_word_expand by (simp add: i)
  also have "map (\<lambda>j. be_word [inout ! ((k - j) * 4 + 0), inout ! ((k - j) * 4 + 1),
        inout ! ((k - j) * 4 + 2), inout ! ((k - j) * 4 + 3)]) [0..<k] = words_of_be k rest"
    unfolding words_of_be_def be_word_expand by (rule map_cong) (simp_all only: tl set_upt atLeastLessThan_iff)
  finally have "words_of_be (Suc k) inout = words_of_be k rest @ [be_word [b0, b1, b2, b3]]" .
  then show ?case
    using Suc.IH [OF l] l
    by (simp add: i val_append unat_be_word be_val_append [of "[b0, b1, b2, b3]" rest, simplified]
        radix_def power_mult)
qed

lemma be_word_bytes:
  "[ucast (drop_bit 24 w), ucast (drop_bit 16 w), ucast (drop_bit 8 w), ucast (drop_bit 0 w)]
    = be_bytes 4 (w :: u32)"
  by (simp add: be_bytes_def numeral_eq_Suc)

lemma be_of_words_val:
  "length (be_of_words ws) = 4 * length ws \<and> be_val (be_of_words ws) = val ws"
proof (induction ws)
  case Nil
  then show ?case by (simp add: be_of_words_def)
next
  case (Cons w ws)
  have "be_val (be_bytes 4 w) = unat (be_word (be_bytes 4 w) :: u32)"
    by (rule unat_be_word [symmetric]) simp
  also have "\<dots> = unat w"
    by (simp add: be_word_be_bytes take_bit_word_eq_self)
  finally have "be_val (be_bytes 4 w) = unat w" .
  moreover have "be_of_words (w # ws) = be_of_words ws @ be_bytes 4 w"
    unfolding be_of_words_def be_word_bytes by simp
  ultimately show ?case using Cons.IH by (simp add: be_val_append)
qed

section \<open>Public exponentiation\<close>

text \<open>After the chain the accumulator is the power, up to a multiple of the modulus.\<close>

lemma chain_65537:
  assumes "key_wf key" and "length a = klen key"
  shows "length (montMul key (square_loop key 8 (montMul key a (rrwords key))) a) = klen key"
    and "val (montMul key (square_loop key 8 (montMul key a (rrwords key))) a) mod val (nwords key)
      = val a ^ 65537 mod val (nwords key)"
proof -
  have "mp.represents key (montMul key a (rrwords key)) (val a)"
    using assms key_wf_lengths [OF assms(1)] by (intro mp.into_form) (auto simp: key_wf_def)
  then have "mp.represents key (square_loop key 8 (montMul key a (rrwords key))) (val a ^ (4 ^ 8))"
    by (rule square_loop_represents [OF assms(1)])
  then have r: "mp.represents key (square_loop key 8 (montMul key a (rrwords key))) (val a ^ 65536)"
    by simp
  then show "length (montMul key (square_loop key 8 (montMul key a (rrwords key))) a) = klen key"
    using assms by (intro montMul_val) (simp_all add: mp.represents_def)
  have "val a ^ 65536 * val a = val a ^ Suc 65536"
    by (simp only: power_Suc2)
  then show "val (montMul key (square_loop key 8 (montMul key a (rrwords key))) a) mod val (nwords key)
      = val a ^ 65537 mod val (nwords key)"
    using mp.out_of_form [OF assms(1) r assms(2)] by simp
qed

lemma chain_3:
  assumes "key_wf key" and "length a = klen key"
  defines "aR \<equiv> montMul key a (rrwords key)"
  shows "length (montMul key (montMul key aR aR) a) = klen key"
    and "val (montMul key (montMul key aR aR) a) mod val (nwords key)
      = val a ^ 3 mod val (nwords key)"
proof -
  have aR: "mp.represents key aR (val a)"
    unfolding aR_def
    using assms key_wf_lengths [OF assms(1)] by (intro mp.into_form) (auto simp: key_wf_def)
  then have r: "mp.represents key (montMul key aR aR) (val a * val a)"
    using aR by (intro mp.mul_represents assms(1))
  then show "length (montMul key (montMul key aR aR) a) = klen key"
    using assms(1,2) by - (rule montMul_val(1), simp_all only: mp.represents_def)
  show "val (montMul key (montMul key aR aR) a) mod val (nwords key)
      = val a ^ 3 mod val (nwords key)"
    using mp.out_of_form [OF assms(1) r assms(2)] by (simp add: power3_eq_cube)
qed

text \<open>The last subtraction brings the accumulator below a modulus of at least half the radix.\<close>

lemma final_reduce:
  assumes wf: "key_wf key" and l: "length aaa = klen key" and half: "radix (klen key) \<le> 2 * val (nwords key)"
  shows "length (if geM key aaa then subM key aaa else aaa) = klen key"
    and "val (if geM key aaa then subM key aaa else aaa) = val aaa mod val (nwords key)"
proof -
  note w = key_wf_lengths [OF wf]
  have ge: "geM key aaa \<longleftrightarrow> val (nwords key) \<le> val aaa" by (rule geM_val [OF l w(4)])
  show "length (if geM key aaa then subM key aaa else aaa) = klen key"
    using subM_val(1) [OF l w(4)] l by simp
  have "val aaa < 2 * val (nwords key)" using val_less [of aaa] l half by simp
  then have "val aaa mod val (nwords key)
      = (if val (nwords key) \<le> val aaa then val aaa - val (nwords key) else val aaa)"
    by (simp add: mod_if)
  then show "val (if geM key aaa then subM key aaa else aaa) = val aaa mod val (nwords key)"
    using ge subM_val(2) [OF l w(4)] by simp
qed

lemma modpow_power:
  assumes "key_wf key" and "radix (klen key) \<le> 2 * val (nwords key)"
    and "exponent key = 3 \<or> exponent key = 65537" and "length inout = 4 * klen key"
  shows "\<exists>out. modpow key inout = Some out \<and> length out = length inout \<and>
    be_val out = be_val inout ^ nat (exponent key) mod val (nwords key)"
proof -
  define a where "a = words_of_be (klen key) inout"
  have a: "length a = klen key" "val a = be_val inout"
    using words_of_be_val [OF assms(4)] by (simp_all add: a_def)
  have fin: "length (be_of_words (if geM key aaa then subM key aaa else aaa)) = length inout \<and>
      be_val (be_of_words (if geM key aaa then subM key aaa else aaa)) = be_val inout ^ e mod val (nwords key)"
    if "length aaa = klen key" "val aaa mod val (nwords key) = val a ^ e mod val (nwords key)" for aaa e
    using that final_reduce [OF assms(1) that(1) assms(2)] a assms(4) be_of_words_val by metis
  show ?thesis
  proof (cases "exponent key = 3")
    case True
    then have e: "nat (exponent key) = 3" by simp
    have "modpow key inout = Some (be_of_words
        (let aR = montMul key a (rrwords key); aaa = montMul key (montMul key aR aR) a
         in if geM key aaa then subM key aaa else aaa))"
      using True by (simp add: modpow_def Let_def a_def)
    then show ?thesis
      using fin [OF chain_3 [OF assms(1) a(1)]] unfolding e Let_def by blast
  next
    case False
    then have e: "nat (exponent key) = 65537" "exponent key = 65537" using assms(3) by simp_all
    have "modpow key inout = Some (be_of_words
        (let aaa = montMul key (square_loop key 8 (montMul key a (rrwords key))) a
         in if geM key aaa then subM key aaa else aaa))"
      using e(2) by (simp add: modpow_def Let_def a_def)
    then show ?thesis
      using fin [OF chain_65537 [OF assms(1) a(1)]] unfolding e(1) Let_def by blast
  qed
qed

text \<open>
  C6. Modular exponentiation is right: for a well-formed key whose modulus has its top bit set, and
  either supported exponent, the in-place exponentiation turns the big-endian number in the buffer
  into its power modulo the modulus, in a buffer of the same size.
\<close>

theorem modpow_correct:
  assumes "key_wf key" and "radix (klen key) \<le> 2 * val (nwords key)"
    and "exponent key = 3 \<or> exponent key = 65537" and "length inout = 4 * klen key"
  shows "\<exists>out. modpow key inout = Some out \<and> length out = length inout \<and>
    be_val out = be_val inout ^ nat (exponent key) mod val (nwords key)"
  by (rule modpow_power [OF assms])

text \<open>A one-word key with the prime modulus 2 ^ 32 - 5.\<close>

definition small_key :: RSAPublicKey where
  "small_key = \<lparr>key_len = 1, n0inv = 0xCCCCCCCD, key_n = [0xFFFFFFFB], key_rr = [25], exponent = 3\<rparr>"

lemma small_key_wf: "key_wf small_key" "radix (klen small_key) \<le> 2 * val (nwords small_key)"
  by (simp_all add: small_key_def key_wf_def klen_def nwords_def rrwords_def radix_def)

theorem modpow_correct_witness:
  "\<exists>out. modpow small_key [0, 0, 1, 2] = Some out \<and> length out = length ([0, 0, 1, 2] :: bytes) \<and>
    be_val out = 258 ^ 3 mod 4294967291"
  using modpow_correct [OF small_key_wf, of "[0, 0, 1, 2]"]
  by (simp add: small_key_def klen_def nwords_def be_val_def)

end
