(* ===== verification/Sha256.thy ===== *)
theory Sha256
  imports Prelude
begin

text \<open>
  secure\_verify/sha256.c: the software half of SHA-256.  The code buffers bytes, pads the message
  and hands 64-byte blocks to a hash engine behind memory-mapped registers; the compression itself
  is hardware and enters as the parameter \<open>hw\<close> (\<open>hw_run\<close> for a command written to \<open>SHA_CTL\<close>,
  \<open>hw_digest\<close> for the registers \<open>SHA_H0\<close> to \<open>SHA_H7\<close>).  The poll of \<open>SHA_INTR\<close> is taken to end.
  The lemmas show that updates can be split anywhere, that the padding loop stops, and that the
  engine sees exactly the padded message of FIPS 180-4, the first block as a start and the others
  as restarts.
\<close>

section \<open>State and operations\<close>

record HASH_CTX =
  ctx_count :: u64
  ctx_buf :: bytes
  ctx_state :: "u32 list"

text \<open>The engine: \<open>hw_run mod in_type ctl W e\<close> is its state after a command over the words \<open>W\<close>.\<close>

record 'e sha_hw =
  hw_run :: "u32 \<Rightarrow> u32 \<Rightarrow> u32 \<Rightarrow> u32 list \<Rightarrow> 'e \<Rightarrow> 'e"
  hw_digest :: "'e \<Rightarrow> u32 list"

text \<open>The global \<open>updateNum\<close>, the mode registers and the engine.\<close>

record 'e sha_machine =
  updateNum :: u32
  SHA_MOD :: u32
  SHA_IN_TYPE :: u32
  engine :: 'e

definition SHA256_DIGEST_SIZE :: nat where
  "SHA256_DIGEST_SIZE = 32"

definition block_words :: "bytes \<Rightarrow> u32 list" where
  "block_words b =
     map (\<lambda>t. push_bit 24 (ucast (b ! (4 * t))) OR push_bit 16 (ucast (b ! (4 * t + 1)))
           OR push_bit 8 (ucast (b ! (4 * t + 2))) OR ucast (b ! (4 * t + 3))) [0..<16]"

definition SHA256_Transform :: "'e sha_hw \<Rightarrow> HASH_CTX \<Rightarrow> 'e sha_machine \<Rightarrow> 'e sha_machine" where
  "SHA256_Transform hw ctx m =
     (let W = block_words (ctx_buf ctx);
          ctl = (if updateNum m = 0 then 1 else 2)
      in m\<lparr>engine := hw_run hw (SHA_MOD m) (SHA_IN_TYPE m) ctl W (engine m),
           updateNum := updateNum m + 1\<rparr>)"

definition SHA256_init :: "HASH_CTX \<Rightarrow> HASH_CTX" where
  "SHA256_init ctx = ctx\<lparr>
     ctx_state := [0x6a09e667, 0xbb67ae85, 0x3c6ef372, 0xa54ff53a,
               0x510e527f, 0x9b05688c, 0x1f83d9ab, 0x5be0cd19],
     ctx_count := 0\<rparr>"

fun update_loop ::
  "'e sha_hw \<Rightarrow> nat \<Rightarrow> bytes \<Rightarrow> HASH_CTX \<Rightarrow> 'e sha_machine \<Rightarrow> HASH_CTX \<times> 'e sha_machine" where
  "update_loop hw i [] ctx m = (ctx, m)"
| "update_loop hw i (p # ps) ctx m =
     (let ctx' = ctx\<lparr>ctx_buf := (ctx_buf ctx)[i := p]\<rparr>
      in if i + 1 = 64 then update_loop hw 0 ps ctx' (SHA256_Transform hw ctx' m)
         else update_loop hw (i + 1) ps ctx' m)"

definition SHA256_update ::
  "'e sha_hw \<Rightarrow> bytes \<Rightarrow> HASH_CTX \<times> 'e sha_machine \<Rightarrow> HASH_CTX \<times> 'e sha_machine" where
  "SHA256_update hw data = (\<lambda>(ctx, m).
     let i = unat (ctx_count ctx AND 63);
         ctx' = ctx\<lparr>ctx_count := ctx_count ctx + of_nat (length data)\<rparr>;
         m' = m\<lparr>SHA_MOD := 1, SHA_IN_TYPE := 0\<rparr>
     in update_loop hw i data ctx' m')"

lemma count_Transform [simp]:
  "ctx_count (fst (update_loop hw i ps ctx m)) = ctx_count ctx"
  by (induction hw i ps ctx m rule: update_loop.induct) (simp_all add: Let_def)

lemma count_update [simp]:
  "ctx_count (fst (SHA256_update hw data s)) = ctx_count (fst s) + of_nat (length data)"
  by (cases s) (simp add: SHA256_update_def Let_def)

text \<open>The zero padding \<open>while ((ctx->count & 63) != 56)\<close>: the distance to 56 shrinks.\<close>

definition pad_distance :: "u64 \<Rightarrow> nat" where
  "pad_distance c = (if unat c mod 64 \<le> 56 then 56 - unat c mod 64 else 120 - unat c mod 64)"

lemma and_63_eq_56: "c AND 63 = (56 :: u64) \<longleftrightarrow> unat c mod 64 = 56"
proof
  assume "unat c mod 64 = 56"
  then have "unat (c AND 63) = unat (56 :: u64)" using unat_and_63 [of c] by simp
  then show "c AND 63 = 56" by (rule unsigned_word_eqI)
next
  assume "c AND 63 = 56"
  then show "unat c mod 64 = 56" using unat_and_63 [of c] by simp
qed

lemma pad_distance_less:
  assumes "c AND 63 \<noteq> (56 :: u64)"
  shows "pad_distance (c + 1) < pad_distance c"
proof -
  have "unat (c + 1) mod 64 = (unat c mod 64 + 1) mod 64"
    using unat_add_mod_64 [of c 1] by (simp add: mod_simps)
  also have "\<dots> = (if unat c mod 64 = 63 then 0 else unat c mod 64 + 1)"
    using mod_less_divisor [of 64 "unat c"] by (auto simp: mod_if)
  finally show ?thesis
    using assms mod_less_divisor [of 64 "unat c"] by (auto simp: pad_distance_def and_63_eq_56)
qed

function pad_loop ::
  "'e sha_hw \<Rightarrow> HASH_CTX \<times> 'e sha_machine \<Rightarrow> HASH_CTX \<times> 'e sha_machine" where
  "pad_loop hw s =
     (if ctx_count (fst s) AND 63 \<noteq> 56 then pad_loop hw (SHA256_update hw [0] s) else s)"
  by pat_completeness auto
termination
  by (relation "measure (\<lambda>(hw, s). pad_distance (ctx_count (fst s)))")
     (simp_all add: pad_distance_less)

declare pad_loop.simps [simp del]

fun length_loop ::
  "'e sha_hw \<Rightarrow> u64 \<Rightarrow> nat list \<Rightarrow> HASH_CTX \<times> 'e sha_machine \<Rightarrow> HASH_CTX \<times> 'e sha_machine" where
  "length_loop hw cnt [] s = s"
| "length_loop hw cnt (i # is) s =
     length_loop hw cnt is (SHA256_update hw [ucast (drop_bit ((7 - i) * 8) cnt)] s)"

definition digest_bytes :: "u32 list \<Rightarrow> bytes" where
  "digest_bytes r = concat (map (\<lambda>tmp. [ucast (drop_bit 24 tmp), ucast (drop_bit 16 tmp),
     ucast (drop_bit 8 tmp), ucast (drop_bit 0 tmp)]) r)"

definition SHA256_final ::
  "'e sha_hw \<Rightarrow> HASH_CTX \<times> 'e sha_machine \<Rightarrow> HASH_CTX \<times> 'e sha_machine" where
  "SHA256_final hw s =
     (let cnt = ctx_count (fst s) * 8;
          s = SHA256_update hw [0x80] s;
          s = pad_loop hw s;
          (ctx, m) = length_loop hw cnt [0..<8] s;
          p = digest_bytes (take 8 (hw_digest hw (engine m)))
      in (ctx\<lparr>ctx_buf := p @ drop (length p) (ctx_buf ctx)\<rparr>, m))"

text \<open>
  \<open>SHA256_hash\<close> returns the context's buffer, whose first 32 bytes are the digest; the pointer
  passed as \<open>digest\<close> is never written through.
\<close>

definition SHA256_hash ::
  "'e sha_hw \<Rightarrow> bytes \<Rightarrow> HASH_CTX \<Rightarrow> 'e sha_machine \<Rightarrow> bytes \<times> 'e sha_machine" where
  "SHA256_hash hw data ctx m =
     (let (ctx', m') = SHA256_final hw (SHA256_update hw data (SHA256_init ctx, m))
      in (ctx_buf ctx', m'))"

section \<open>Streaming\<close>

lemma regs_Transform [simp]:
  "SHA_MOD (SHA256_Transform hw ctx m) = SHA_MOD m"
  "SHA_IN_TYPE (SHA256_Transform hw ctx m) = SHA_IN_TYPE m"
  by (simp_all add: SHA256_Transform_def Let_def)

lemma regs_update_loop [simp]:
  "SHA_MOD (snd (update_loop hw i ps ctx m)) = SHA_MOD m"
  "SHA_IN_TYPE (snd (update_loop hw i ps ctx m)) = SHA_IN_TYPE m"
  by (induction hw i ps ctx m rule: update_loop.induct) (simp_all add: Let_def)

lemma Transform_cong: "ctx_buf ctx = ctx_buf ctx' \<Longrightarrow> SHA256_Transform hw ctx m = SHA256_Transform hw ctx' m"
  by (simp add: SHA256_Transform_def)

lemma update_loop_count:
  "update_loop hw i ps (ctx\<lparr>ctx_count := c\<rparr>) m
     = (let (ctx', m') = update_loop hw i ps ctx m in (ctx'\<lparr>ctx_count := c\<rparr>, m'))"
proof (induction hw i ps ctx m rule: update_loop.induct)
  case (1 hw i ctx m)
  then show ?case by simp
next
  case (2 hw i p ps ctx m)
  have upd: "ctx\<lparr>ctx_count := c, ctx_buf := b\<rparr> = ctx\<lparr>ctx_buf := b, ctx_count := c\<rparr>" for b
    by simp
  have tr: "SHA256_Transform hw (ctx\<lparr>ctx_buf := b, ctx_count := c\<rparr>) m
      = SHA256_Transform hw (ctx\<lparr>ctx_buf := b\<rparr>) m" for b
    by (rule Transform_cong) simp
  from 2 show ?case by (auto simp: Let_def upd tr simp del: HASH_CTX.update_convs)
qed

lemma update_loop_append:
  "i < 64 \<Longrightarrow> update_loop hw i (a @ b) ctx m
     = (let (ctx', m') = update_loop hw i a ctx m
        in update_loop hw ((i + length a) mod 64) b ctx' m')"
proof (induction hw i a ctx m rule: update_loop.induct)
  case (1 hw i ctx m)
  then show ?case by simp
next
  case (2 hw i p ps ctx m)
  show ?case
  proof (cases "i + 1 = 64")
    case True
    then have "(i + length (p # ps)) mod 64 = (0 + length ps) mod 64"
      by (simp add: mod_if)
    with True show ?thesis using "2.IH"(1) [OF refl True] by (simp add: Let_def)
  next
    case False
    with "2.prems" have "i + 1 < 64" by simp
    with False show ?thesis using "2.IH"(2) [OF refl False] by (simp add: Let_def)
  qed
qed

lemma update_append: "SHA256_update hw b (SHA256_update hw a s) = SHA256_update hw (a @ b) s"
proof -
  obtain ctx m where s: "s = (ctx, m)" by (cases s)
  let ?i = "unat (ctx_count ctx AND 63)"
  let ?m = "m\<lparr>SHA_MOD := 1, SHA_IN_TYPE := 0\<rparr>"
  obtain ctx1 m1 where l: "update_loop hw ?i a ctx ?m = (ctx1, m1)"
    by (cases "update_loop hw ?i a ctx ?m")
  have regs: "m1\<lparr>SHA_MOD := 1, SHA_IN_TYPE := 0\<rparr> = m1"
    using regs_update_loop [of hw ?i a ctx ?m] unfolding l by simp
  have idx: "unat ((ctx_count ctx + of_nat (length a)) AND 63) = (?i + length a) mod 64"
    by (simp add: unat_and_63 unat_add_mod_64 mod_simps)
  have i64: "?i < 64" by (simp add: unat_and_63)
  show ?thesis
    unfolding s SHA256_update_def
    by (simp add: Let_def update_loop_count l regs idx update_loop_append [OF i64]
        split: prod.splits)
qed

text \<open>
  The contract of a byte sink: two writes are one write of the concatenation.  Bytes can then be
  sent one at a time.
\<close>

locale byte_sink =
  fixes feed :: "bytes \<Rightarrow> 's \<Rightarrow> 's"
  assumes feed_append: "feed b (feed a s) = feed (a @ b) s"
begin

lemma feed_singles: "fold (\<lambda>x. feed [x]) bs (feed a s) = feed (a @ bs) s"
proof (induction bs arbitrary: a)
  case Nil
  then show ?case by simp
next
  case (Cons x bs)
  have "fold (\<lambda>x. feed [x]) (x # bs) (feed a s) = fold (\<lambda>x. feed [x]) bs (feed (a @ [x]) s)"
    by (simp add: feed_append)
  also have "\<dots> = feed ((a @ [x]) @ bs) s" by (rule Cons.IH)
  finally show ?case by simp
qed

end

interpretation sha: byte_sink "SHA256_update hw" for hw
  by unfold_locales (rule update_append)

lemma length_loop_fold:
  "length_loop hw cnt is s
     = fold (\<lambda>x. SHA256_update hw [x]) (map (\<lambda>i. ucast (drop_bit ((7 - i) * 8) cnt)) is) s"
  by (induction "is" arbitrary: s) simp_all

lemma pad_loop_fold:
  "pad_loop hw s = fold (\<lambda>x. SHA256_update hw [x]) (replicate (pad_distance (ctx_count (fst s))) 0) s"
proof (induction hw s rule: pad_loop.induct)
  case (1 hw s)
  show ?case
  proof (cases "ctx_count (fst s) AND 63 = 56")
    case True
    then show ?thesis
      by (subst pad_loop.simps) (simp add: pad_distance_def and_63_eq_56)
  next
    case False
    then have "pad_distance (ctx_count (fst s)) = Suc (pad_distance (ctx_count (fst s) + 1))"
      using unat_add_mod_64 [of "ctx_count (fst s)" 1] mod_less_divisor [of 64 "unat (ctx_count (fst s))"]
      by (auto simp: pad_distance_def and_63_eq_56 mod_simps mod_Suc)
    with False "1.IH" show ?thesis by (subst pad_loop.simps) simp
  qed
qed

section \<open>The padded message\<close>

text \<open>FIPS 180-4, 5.1.1: a one bit, zeros, and the bit length in 64 bits, to a multiple of 64 bytes.\<close>

definition sha_pad :: "bytes \<Rightarrow> bytes" where
  "sha_pad data = data @ [0x80] @ replicate ((119 - length data mod 64) mod 64) 0
     @ be_bytes 8 (of_nat (8 * length data) :: u64)"

lemma zeros_mod: "x < 64 \<Longrightarrow> (119 - x) mod 64 = (if x \<le> 55 then 55 - x else 119 - x :: nat)"
proof (cases "x \<le> 55")
  case True
  then have "119 - x = (55 - x) + 64" by simp
  then have "(119 - x) mod 64 = (55 - x) mod 64" by (simp only: mod_add_self2)
  with True show ?thesis by simp
qed simp

lemma length_sha_pad: "length (sha_pad data) mod 64 = 0"
proof -
  let ?x = "length data mod 64"
  have x: "?x < 64" by simp
  have "(?x + 9 + (119 - ?x) mod 64) mod 64 = (?x + 9 + (119 - ?x)) mod 64"
    by (rule mod_add_right_eq)
  also have "?x + 9 + (119 - ?x) = 128" using x by linarith
  finally have "(?x + (9 + (119 - ?x) mod 64)) mod 64 = 0" by (simp add: add.assoc)
  then have "(length data + (9 + (119 - ?x) mod 64)) mod 64 = 0" by (simp only: mod_add_left_eq)
  then show ?thesis by (simp add: sha_pad_def ac_simps)
qed

lemma pad_distance_after_marker: "pad_distance (of_nat (length data + 1)) = (119 - length data mod 64) mod 64"
proof -
  let ?x = "length data mod 64"
  have x: "?x < 64" by simp
  have "unat (of_nat (length data + 1) :: u64) mod 64 = (?x + 1) mod 64"
    using unat_add_mod_64 [of 0 "length data + 1"] by (simp add: mod_simps)
  also have "\<dots> = (if ?x = 63 then 0 else ?x + 1)"
    using x by (simp add: mod_Suc)
  finally show ?thesis
    unfolding zeros_mod [OF x] pad_distance_def using x by auto
qed

lemma length_bytes: "map (\<lambda>i. ucast (drop_bit ((7 - i) * 8) cnt)) [0..<8] = be_bytes 8 (cnt :: u64)"
  by (simp add: be_bytes_def numeral_eq_Suc upt_rec)

text \<open>Everything \<open>SHA256_hash\<close> sends to the buffer is one update with the padded message.\<close>

definition sha_stream :: "'e sha_hw \<Rightarrow> bytes \<Rightarrow> HASH_CTX \<Rightarrow> 'e sha_machine \<Rightarrow> HASH_CTX \<times> 'e sha_machine" where
  "sha_stream hw data ctx m = SHA256_update hw (sha_pad data) (SHA256_init ctx, m)"

lemma SHA256_final_stream:
  "SHA256_final hw (SHA256_update hw data (SHA256_init ctx, m))
     = (let (ctx', m') = sha_stream hw data ctx m;
            p = digest_bytes (take 8 (hw_digest hw (engine m')))
        in (ctx'\<lparr>ctx_buf := p @ drop (length p) (ctx_buf ctx')\<rparr>, m'))"
proof -
  let ?s = "SHA256_update hw data (SHA256_init ctx, m)"
  have c0: "ctx_count (SHA256_init ctx) = 0" by (simp add: SHA256_init_def)
  have pad: "pad_loop hw (SHA256_update hw [0x80] ?s)
    = SHA256_update hw (data @ [0x80] @ replicate ((119 - length data mod 64) mod 64) 0) (SHA256_init ctx, m)"
    using pad_distance_after_marker [of data]
    unfolding pad_loop_fold update_append sha.feed_singles by (simp add: c0 ac_simps)
  have "length_loop hw (ctx_count (fst ?s) * 8) [0..<8] (pad_loop hw (SHA256_update hw [0x80] ?s))
    = sha_stream hw data ctx m"
    unfolding length_loop_fold pad sha.feed_singles length_bytes sha_stream_def sha_pad_def
    by (simp add: c0 mult.commute)
  then show ?thesis unfolding SHA256_final_def by (simp add: Let_def)
qed

section \<open>What the engine sees\<close>

definition send_block :: "'e sha_hw \<Rightarrow> bytes \<Rightarrow> 'e sha_machine \<Rightarrow> 'e sha_machine" where
  "send_block hw b m = SHA256_Transform hw \<lparr>ctx_count = 0, ctx_buf = b, ctx_state = []\<rparr> m"

lemma send_block_fields:
  "engine (send_block hw b m)
    = hw_run hw (SHA_MOD m) (SHA_IN_TYPE m) (if updateNum m = 0 then 1 else 2) (block_words b) (engine m)"
  "updateNum (send_block hw b m) = updateNum m + 1"
  "SHA_MOD (send_block hw b m) = SHA_MOD m" "SHA_IN_TYPE (send_block hw b m) = SHA_IN_TYPE m"
  by (simp_all add: send_block_def SHA256_Transform_def Let_def)

lemma Transform_send_block: "SHA256_Transform hw ctx m = send_block hw (ctx_buf ctx) m"
  unfolding send_block_def by (rule Transform_cong) simp

function blocks64 :: "bytes \<Rightarrow> bytes list" where
  "blocks64 bs = (if length bs < 64 then [] else take 64 bs # blocks64 (drop 64 bs))"
  by pat_completeness auto
termination
  by (relation "measure length") auto

declare blocks64.simps [simp del]

lemma update_loop_fill:
  assumes "i + length ps = 64" and "ps \<noteq> []" and "length (ctx_buf ctx) = 64"
  shows "update_loop hw i (ps @ rest) ctx m
    = (let ctx' = ctx\<lparr>ctx_buf := take i (ctx_buf ctx) @ ps\<rparr>
       in update_loop hw 0 rest ctx' (send_block hw (ctx_buf ctx') m))"
  using assms
proof (induction ps arbitrary: i ctx)
  case Nil
  then show ?case by simp
next
  case (Cons p ps)
  have i: "i < length (ctx_buf ctx)" using Cons.prems by simp
  have upd: "take (Suc i) ((ctx_buf ctx)[i := p]) = take i (ctx_buf ctx) @ [p]"
    using i by (simp add: take_Suc_conv_app_nth)
  show ?case
  proof (cases "ps = []")
    case True
    with Cons.prems have "i + 1 = 64" by simp
    moreover have "(ctx_buf ctx)[i := p] = take i (ctx_buf ctx) @ [p]"
      using upd Cons.prems(3) \<open>i + 1 = 64\<close> by (metis Suc_eq_plus1 length_list_update take_all_iff order_refl)
    ultimately show ?thesis using True by (simp add: Let_def Transform_send_block)
  next
    case False
    with Cons.prems have "i + 1 \<noteq> 64" by (cases ps) simp_all
    then show ?thesis
      using Cons.IH [of "i + 1" "ctx\<lparr>ctx_buf := (ctx_buf ctx)[i := p]\<rparr>"] Cons.prems False upd
      by (simp add: Let_def)
  qed
qed

lemma update_loop_blocks:
  assumes "length bs mod 64 = 0" and "length (ctx_buf ctx) = 64"
  shows "snd (update_loop hw 0 bs ctx m) = fold (send_block hw) (blocks64 bs) m
    \<and> length (ctx_buf (fst (update_loop hw 0 bs ctx m))) = 64"
  using assms
proof (induction bs arbitrary: ctx m rule: blocks64.induct)
  case (1 bs)
  show ?case
  proof (cases "length bs < 64")
    case True
    with "1.prems" show ?thesis by (subst blocks64.simps) simp
  next
    case False
    let ?ctx = "ctx\<lparr>ctx_buf := take 64 bs\<rparr>"
    have "update_loop hw 0 (take 64 bs @ drop 64 bs) ctx m
      = update_loop hw 0 (drop 64 bs) ?ctx (send_block hw (take 64 bs) m)"
      using False "1.prems"
      by (subst update_loop_fill) (auto simp: Let_def)
    moreover have "length (drop 64 bs) mod 64 = 0"
      using "1.prems"(1) False by (simp add: le_mod_geq)
    ultimately show ?thesis
      using "1.IH" [OF False, of ?ctx "send_block hw (take 64 bs) m"] False "1.prems"
      by (subst blocks64.simps) simp
  qed
qed

text \<open>The engine after the blocks of the padded message have been sent, in order.\<close>

definition engine_run :: "'e sha_hw \<Rightarrow> bytes \<Rightarrow> 'e sha_machine \<Rightarrow> 'e sha_machine" where
  "engine_run hw data m =
     fold (send_block hw) (blocks64 (sha_pad data)) (m\<lparr>SHA_MOD := 1, SHA_IN_TYPE := 0\<rparr>)"

lemma sha_stream_engine:
  assumes "length (ctx_buf ctx) = 64"
  shows "snd (sha_stream hw data ctx m) = engine_run hw data m"
    and "length (ctx_buf (fst (sha_stream hw data ctx m))) = 64"
  using update_loop_blocks [OF length_sha_pad, of _ hw data] assms
  by (simp_all add: sha_stream_def SHA256_update_def SHA256_init_def Let_def engine_run_def)

lemma SHA256_hash_buffer:
  assumes "length (ctx_buf ctx) = 64"
  shows "snd (SHA256_hash hw data ctx m) = engine_run hw data m"
    and "\<exists>rest. fst (SHA256_hash hw data ctx m)
       = digest_bytes (take 8 (hw_digest hw (engine (engine_run hw data m)))) @ rest"
  using sha_stream_engine [OF assms(1), of hw data m]
  by (auto simp: SHA256_hash_def SHA256_final_stream Let_def split: prod.splits)

section \<open>The SHA-256 function\<close>

text \<open>
  The engine's documented behaviour is the compression function of FIPS 180-4 with the constants
  the source keeps in \<open>K\<close>; a start command begins from the initial hash value.
\<close>

definition K :: "u32 list" where
  "K = concat [
    [0x428a2f98, 0x71374491, 0xb5c0fbcf, 0xe9b5dba5],
    [0x3956c25b, 0x59f111f1, 0x923f82a4, 0xab1c5ed5],
    [0xd807aa98, 0x12835b01, 0x243185be, 0x550c7dc3],
    [0x72be5d74, 0x80deb1fe, 0x9bdc06a7, 0xc19bf174],
    [0xe49b69c1, 0xefbe4786, 0x0fc19dc6, 0x240ca1cc],
    [0x2de92c6f, 0x4a7484aa, 0x5cb0a9dc, 0x76f988da],
    [0x983e5152, 0xa831c66d, 0xb00327c8, 0xbf597fc7],
    [0xc6e00bf3, 0xd5a79147, 0x06ca6351, 0x14292967],
    [0x27b70a85, 0x2e1b2138, 0x4d2c6dfc, 0x53380d13],
    [0x650a7354, 0x766a0abb, 0x81c2c92e, 0x92722c85],
    [0xa2bfe8a1, 0xa81a664b, 0xc24b8b70, 0xc76c51a3],
    [0xd192e819, 0xd6990624, 0xf40e3585, 0x106aa070],
    [0x19a4c116, 0x1e376c08, 0x2748774c, 0x34b0bcb5],
    [0x391c0cb3, 0x4ed8aa4a, 0x5b9cca4f, 0x682e6ff3],
    [0x748f82ee, 0x78a5636f, 0x84c87814, 0x8cc70208],
    [0x90befffa, 0xa4506ceb, 0xbef9a3f7, 0xc67178f2]]"

definition ror :: "u32 \<Rightarrow> nat \<Rightarrow> u32" where
  "ror value bits = drop_bit bits value OR push_bit (32 - bits) value"

definition shr :: "u32 \<Rightarrow> nat \<Rightarrow> u32" where
  "shr value bits = drop_bit bits value"

definition sha_iv :: "u32 list" where
  "sha_iv = ctx_state (SHA256_init \<lparr>ctx_count = 0, ctx_buf = [], ctx_state = []\<rparr>)"

text \<open>The message schedule, newest word first.\<close>

definition next_word :: "u32 list \<Rightarrow> u32" where
  "next_word ws = ws ! 15 + (ror (ws ! 14) 7 XOR ror (ws ! 14) 18 XOR shr (ws ! 14) 3)
     + ws ! 6 + (ror (ws ! 1) 17 XOR ror (ws ! 1) 19 XOR shr (ws ! 1) 10)"

fun schedule :: "nat \<Rightarrow> u32 list \<Rightarrow> u32 list" where
  "schedule 0 ws = ws"
| "schedule (Suc n) ws = schedule n (next_word ws # ws)"

definition sha_t1 :: "u32 list \<Rightarrow> u32 \<times> u32 \<Rightarrow> u32" where
  "sha_t1 st kw = st ! 7 + (ror (st ! 4) 6 XOR ror (st ! 4) 11 XOR ror (st ! 4) 25)
     + ((st ! 4 AND st ! 5) XOR (NOT (st ! 4) AND st ! 6)) + fst kw + snd kw"

definition sha_t2 :: "u32 list \<Rightarrow> u32" where
  "sha_t2 st = (ror (st ! 0) 2 XOR ror (st ! 0) 13 XOR ror (st ! 0) 22)
     + ((st ! 0 AND st ! 1) XOR (st ! 0 AND st ! 2) XOR (st ! 1 AND st ! 2))"

definition sha_round :: "u32 list \<Rightarrow> u32 \<times> u32 \<Rightarrow> u32 list" where
  "sha_round st kw =
     [sha_t1 st kw + sha_t2 st, st ! 0, st ! 1, st ! 2, st ! 3 + sha_t1 st kw, st ! 4, st ! 5, st ! 6]"

definition sha_compress :: "u32 list \<Rightarrow> u32 list \<Rightarrow> u32 list" where
  "sha_compress H W =
     map2 (+) H (foldl sha_round H (zip K (rev (schedule 48 (rev W)))))"

definition sha256_spec :: "bytes \<Rightarrow> bytes" where
  "sha256_spec data =
     digest_bytes (foldl sha_compress sha_iv (map block_words (blocks64 (sha_pad data))))"

lemma length_rounds: "length st = 8 \<Longrightarrow> length (foldl sha_round st kws) = 8"
  by (induction kws arbitrary: st) (simp_all add: sha_round_def Let_def)

lemma length_sha_compress: "length H = 8 \<Longrightarrow> length (sha_compress H W) = 8"
  by (simp add: sha_compress_def length_rounds)

lemma length_sha_iv: "length sha_iv = 8"
  by (simp add: sha_iv_def SHA256_init_def)

lemma length_foldl_compress: "length H = 8 \<Longrightarrow> length (foldl sha_compress H Ws) = 8"
  by (induction Ws arbitrary: H) (simp_all add: length_sha_compress)

lemma length_digest_bytes: "length (digest_bytes r) = 4 * length r"
  by (induction r) (simp_all add: digest_bytes_def)

lemma length_sha256_spec [simp]: "length (sha256_spec data) = 32"
  by (simp add: sha256_spec_def length_digest_bytes length_foldl_compress length_sha_iv)

text \<open>
  The contract of the engine: in SHA-256 mode with CPU input, command 1 compresses the words into
  the initial value and command 2 into the value of the digest registers.
\<close>

locale sha_engine =
  fixes hw :: "'e sha_hw"
    and compress :: "u32 list \<Rightarrow> u32 list \<Rightarrow> u32 list"
    and iv :: "u32 list"
  assumes start: "hw_digest hw (hw_run hw 1 0 1 W e) = compress iv W"
    and restart: "hw_digest hw (hw_run hw 1 0 2 W e) = compress (hw_digest hw e) W"
begin

lemma send_blocks:
  assumes "updateNum m = 0" and "SHA_MOD m = 1" and "SHA_IN_TYPE m = 0"
    and "bs \<noteq> []" and "length bs < 2 ^ 32"
  shows "hw_digest hw (engine (fold (send_block hw) bs m)) = foldl compress iv (map block_words bs)
    \<and> updateNum (fold (send_block hw) bs m) = of_nat (length bs)
    \<and> SHA_MOD (fold (send_block hw) bs m) = 1 \<and> SHA_IN_TYPE (fold (send_block hw) bs m) = 0"
  using assms(4,5)
proof (induction bs rule: rev_induct)
  case Nil
  then show ?case by simp
next
  case (snoc b bs)
  show ?case
  proof (cases "bs = []")
    case True
    then show ?thesis
      using assms(1-3) by (simp add: send_block_fields start)
  next
    case False
    then have IH: "hw_digest hw (engine (fold (send_block hw) bs m)) = foldl compress iv (map block_words bs)"
      "updateNum (fold (send_block hw) bs m) = of_nat (length bs)"
      "SHA_MOD (fold (send_block hw) bs m) = 1" "SHA_IN_TYPE (fold (send_block hw) bs m) = 0"
      using snoc by simp_all
    have "unat (of_nat (length bs) :: u32) = length bs"
      using snoc.prems by (simp add: unsigned_of_nat take_bit_nat_eq_self)
    then have "(of_nat (length bs) :: u32) \<noteq> 0"
      using False by auto
    then show ?thesis
      using IH by (simp add: send_block_fields restart)
  qed
qed

end

definition fips_hw :: "u32 list sha_hw" where
  "fips_hw = \<lparr>hw_run = (\<lambda>md ty ctl W e. sha_compress (if ctl = 1 then sha_iv else e) W),
              hw_digest = (\<lambda>e. e)\<rparr>"

interpretation fips: sha_engine fips_hw sha_compress sha_iv
  by unfold_locales (simp_all add: fips_hw_def)

lemma length_blocks64: "length (blocks64 bs) = length bs div 64"
proof (induction bs rule: blocks64.induct)
  case (1 bs)
  show ?case
  proof (cases "length bs < 64")
    case True
    then show ?thesis by (subst blocks64.simps) simp
  next
    case False
    then show ?thesis using 1 by (subst blocks64.simps) (simp add: le_div_geq)
  qed
qed

lemma sha_pad_blocks:
  assumes "length data < 2 ^ 31"
  shows "blocks64 (sha_pad data) \<noteq> []" and "length (blocks64 (sha_pad data)) < 2 ^ 32"
proof -
  have l: "64 \<le> length (sha_pad data)"
  proof (rule ccontr)
    assume "\<not> 64 \<le> length (sha_pad data)"
    then have "length (sha_pad data) mod 64 = length (sha_pad data)" by simp
    with length_sha_pad [of data] show False by (simp add: sha_pad_def)
  qed
  then show "blocks64 (sha_pad data) \<noteq> []" by (subst blocks64.simps) simp
  have "length (sha_pad data) \<le> length data + 1 + 64 + 8"
    using mod_less_divisor [of 64 "119 - length data mod 64"] by (simp add: sha_pad_def)
  then have "length (sha_pad data) div 64 \<le> (length data + 73) div 64"
    by (intro div_le_mono) simp
  also have "\<dots> \<le> length data + 73" by (rule div_le_dividend)
  also have "\<dots> < 2 ^ 32" using assms by simp
  finally show "length (blocks64 (sha_pad data)) < 2 ^ 32"
    by (simp only: length_blocks64)
qed

lemma SHA256_hash_digest:
  assumes "sha_engine hw sha_compress sha_iv" and "length (ctx_buf ctx) = 64"
    and "updateNum m = 0" and "length data < 2 ^ 31"
  shows "take 32 (fst (SHA256_hash hw data ctx m)) = sha256_spec data"
proof -
  obtain rest where r: "fst (SHA256_hash hw data ctx m)
      = digest_bytes (take 8 (hw_digest hw (engine (engine_run hw data m)))) @ rest"
    using SHA256_hash_buffer(2) [OF assms(2)] by blast
  have "hw_digest hw (engine (engine_run hw data m))
      = foldl sha_compress sha_iv (map block_words (blocks64 (sha_pad data)))"
    using sha_engine.send_blocks [OF assms(1), of "m\<lparr>SHA_MOD := 1, SHA_IN_TYPE := 0\<rparr>"]
      sha_pad_blocks [OF assms(4)] assms(3)
    by (simp add: engine_run_def)
  then have "digest_bytes (take 8 (hw_digest hw (engine (engine_run hw data m)))) = sha256_spec data"
    by (simp add: sha256_spec_def length_foldl_compress length_sha_iv)
  with r show ?thesis by simp
qed

text \<open>
  C7. The hash is SHA-256: with an engine that computes the FIPS 180-4 compression and
  \<open>updateNum\<close> reset, as every caller does, the first 32 bytes of the returned buffer are the
  SHA-256 digest of the message, for any message a C \<open>int\<close> length can describe.
\<close>

theorem SHA256_hash_correct:
  assumes "sha_engine hw sha_compress sha_iv" and "length (ctx_buf ctx) = 64"
    and "updateNum m = 0" and "length data < 2 ^ 31"
  shows "take 32 (fst (SHA256_hash hw data ctx m)) = sha256_spec data"
  by (rule SHA256_hash_digest [OF assms])

theorem SHA256_hash_correct_witness:
  "take 32 (fst (SHA256_hash fips_hw [0x61, 0x62, 0x63]
      \<lparr>ctx_count = 7, ctx_buf = replicate 64 0, ctx_state = []\<rparr>
      \<lparr>updateNum = 0, SHA_MOD = 0, SHA_IN_TYPE = 0, engine = []\<rparr>))
    = sha256_spec [0x61, 0x62, 0x63]"
  by (rule SHA256_hash_correct [OF fips.sha_engine_axioms]) simp_all

end
