(* ===== verification/Rsa.thy ===== *)
theory Rsa
  imports Montgomery Sha256
begin

text \<open>
  The signature check \<open>RSA_verify\<close> of secure\_verify/rsa.c: the guards on the key, the lengths and
  the exponent, the in-place exponentiation, the exclusive or of the expected hash into the tail of
  the block, and the comparison of the block's SHA-256 with a constant.  The lemmas give its
  result in terms of modular exponentiation and of the SHA-256 function.
\<close>

section \<open>The check\<close>

definition kExpectedPadSha256Rsa2048 :: bytes where
  "kExpectedPadSha256Rsa2048 = [
    0xab, 0x28, 0x8d, 0x8a, 0xd7, 0xd9, 0x59, 0x92,
    0xba, 0xcc, 0xf8, 0x67, 0x20, 0xe1, 0x15, 0x2e,
    0x39, 0x8d, 0x80, 0x36, 0xd6, 0x6f, 0xf0, 0xfd,
    0x90, 0xe8, 0x7d, 0x8b, 0xe1, 0x7c, 0x87, 0x59]"

text \<open>\<open>for (i = len - hash_len; i < len; ++i) buf[i] ^= *hash++\<close>\<close>

fun xor_loop :: "nat list \<Rightarrow> bytes \<Rightarrow> bytes \<Rightarrow> bytes" where
  "xor_loop (i # is) (h # hash) buf = xor_loop is hash (buf[i := buf ! i XOR h])"
| "xor_loop is hash buf = buf"

definition same_prefix :: "nat \<Rightarrow> bytes \<Rightarrow> bytes \<Rightarrow> bool" where
  "same_prefix n xs ys \<longleftrightarrow> list_all (\<lambda>i. xs ! i = ys ! i) [0..<n]"

text \<open>
  The result is 1 for a verified signature and 0 otherwise.  \<open>ctx\<close> is the content of the local hash
  context before it is initialised; the null dereference of \<open>modpow\<close> is excluded by the exponent
  guard (lemma \<open>modpow_supported\<close>).
\<close>

definition RSA_verify ::
  "'e sha_hw \<Rightarrow> HASH_CTX \<Rightarrow> RSAPublicKey \<Rightarrow> bytes \<Rightarrow> int \<Rightarrow> bytes \<Rightarrow> int
     \<Rightarrow> 'e sha_machine \<Rightarrow> int \<times> 'e sha_machine" where
  "RSA_verify hw ctx key signature len hash hash_len m =
     (if key_len key \<noteq> int RSANUMWORDS then (0, m)
      else if len \<noteq> int RSANUMBYTES then (0, m)
      else if hash_len \<noteq> int SHA256_DIGEST_SIZE then (0, m)
      else if exponent key \<noteq> 3 \<and> exponent key \<noteq> 65537 then (0, m)
      else (case modpow key (take (nat len) signature) of
          None \<Rightarrow> (0, m)
        | Some buf \<Rightarrow>
            let buf = xor_loop [nat (len - hash_len)..<nat len] hash buf;
                (final_hash, m') = SHA256_hash hw buf ctx m
            in if same_prefix (nat hash_len) final_hash kExpectedPadSha256Rsa2048
               then (1, m') else (0, m')))"

section \<open>What it decides\<close>

lemma modpow_supported:
  "exponent key = 3 \<or> exponent key = 65537 \<Longrightarrow> modpow key inout \<noteq> None"
  by (auto simp: modpow_def Let_def)

lemma length_xor_loop [simp]: "length (xor_loop is hash buf) = length buf"
  by (induction "is" hash buf rule: xor_loop.induct) simp_all

lemma xor_loop_upt:
  "i + length hash = length buf \<Longrightarrow>
    xor_loop [i..<length buf] hash buf = take i buf @ map2 (XOR) (drop i buf) hash"
proof (induction hash arbitrary: i buf)
  case Nil
  then show ?case by simp
next
  case (Cons h hash)
  then have i: "i < length buf" by simp
  let ?buf = "buf[i := buf ! i XOR h]"
  have "xor_loop [i..<length buf] (h # hash) buf = xor_loop [Suc i..<length ?buf] hash ?buf"
    using i by (simp add: upt_conv_Cons)
  also have "\<dots> = take (Suc i) ?buf @ map2 (XOR) (drop (Suc i) ?buf) hash"
    using Cons.prems by (intro Cons.IH) simp
  also have "take (Suc i) ?buf = take i buf @ [buf ! i XOR h]"
    using i by (simp add: take_Suc_conv_app_nth)
  finally have run: "xor_loop [i..<length buf] (h # hash) buf
      = (take i buf @ [buf ! i XOR h]) @ map2 (XOR) (drop (Suc i) buf) hash"
    by simp
  show ?case
    unfolding run Cons_nth_drop_Suc [OF i, symmetric] by simp
qed

lemma same_prefix_iff:
  assumes "n \<le> length xs" and "length ys = n"
  shows "same_prefix n xs ys \<longleftrightarrow> take n xs = ys"
proof
  assume eq: "same_prefix n xs ys"
  show "take n xs = ys"
  proof (rule nth_equalityI)
    show "length (take n xs) = length ys" using assms by simp
    fix i assume "i < length (take n xs)"
    then have "i < n" by simp
    then show "take n xs ! i = ys ! i" using eq by (simp add: same_prefix_def list_all_iff)
  qed
next
  assume t: "take n xs = ys"
  show "same_prefix n xs ys"
    unfolding same_prefix_def t [symmetric] by (simp add: list_all_iff)
qed

text \<open>The block with the expected hash removed from its tail.\<close>

definition masked_block :: "bytes \<Rightarrow> bytes \<Rightarrow> bytes" where
  "masked_block em hash = take (256 - 32) em @ map2 (XOR) (drop (256 - 32) em) hash"

lemma xor_tail:
  assumes "length em = 256" and "length hash = 32"
  shows "xor_loop [256 - 32..<256] hash em = masked_block em hash"
  using xor_loop_upt [of "256 - 32" hash em] assms by (simp add: masked_block_def)

text \<open>
  Once the guards have passed, the result is decided by the block and the constant: the hash of the
  masked block is compared over all of its bytes.
\<close>

lemma RSA_verify_block:
  assumes eng: "sha_engine hw sha_compress sha_iv" and buf: "length (ctx_buf ctx) = 64"
    and num: "updateNum m = 0" and em: "modpow key signature = Some em" "length em = 256"
    and l: "length signature = 256" "length hash = 32" and g: "key_len key = 64"
    "exponent key = 3 \<or> exponent key = 65537"
  shows "fst (RSA_verify hw ctx key signature 256 hash 32 m)
    = (if sha256_spec (masked_block em hash) = kExpectedPadSha256Rsa2048 then 1 else 0)"
proof -
  define mb where "mb = masked_block em hash"
  obtain fh m' where fh: "SHA256_hash hw mb ctx m = (fh, m')" by fastforce
  have "length mb = 256" using em(2) l(2) by (simp add: mb_def masked_block_def)
  then have d: "take 32 fh = sha256_spec mb"
    using SHA256_hash_digest [OF eng buf num, of mb] fh by simp
  have "32 \<le> length fh"
    using arg_cong [OF d, of length] by simp
  then have "same_prefix 32 fh kExpectedPadSha256Rsa2048
      \<longleftrightarrow> sha256_spec mb = kExpectedPadSha256Rsa2048"
    using d by (subst same_prefix_iff) (simp_all add: kExpectedPadSha256Rsa2048_def)
  moreover have "xor_loop [224..<256] hash em = mb"
    using xor_tail [OF em(2) l(2)] by (simp add: mb_def)
  ultimately show ?thesis
    using em l g fh
    by (auto simp: RSA_verify_def RSANUMWORDS_def RSANUMBYTES_def SHA256_DIGEST_SIZE_def
        mb_def [symmetric])
qed

lemma RSA_verify_guards:
  "fst (RSA_verify hw ctx key signature len hash hash_len m) \<noteq> 0 \<Longrightarrow>
    key_len key = 64 \<and> len = 256 \<and> hash_len = 32 \<and> (exponent key = 3 \<or> exponent key = 65537)"
  by (auto simp: RSA_verify_def RSANUMWORDS_def RSANUMBYTES_def SHA256_DIGEST_SIZE_def
      split: if_splits)

lemma RSA_verify_range: "fst (RSA_verify hw ctx key signature len hash hash_len m) \<in> {0, 1}"
  by (simp add: RSA_verify_def split: option.split prod.split)

text \<open>The specification of a valid signature over a hash, in numbers and strings only.\<close>

definition rsa_valid :: "RSAPublicKey \<Rightarrow> bytes \<Rightarrow> bytes \<Rightarrow> bool" where
  "rsa_valid key signature hash \<longleftrightarrow>
     key_len key = 64 \<and> (exponent key = 3 \<or> exponent key = 65537) \<and>
     (\<exists>em. length em = 256 \<and> be_val em = be_val signature ^ nat (exponent key) mod val (nwords key) \<and>
       sha256_spec (masked_block em hash) = kExpectedPadSha256Rsa2048)"

text \<open>A key is sound when it is Montgomery-ready and its modulus has the top bit set.\<close>

definition key_sound :: "RSAPublicKey \<Rightarrow> bool" where
  "key_sound key \<longleftrightarrow> key_wf key \<and> radix (klen key) \<le> 2 * val (nwords key)"

lemma RSA_verify_valid:
  assumes eng: "sha_engine hw sha_compress sha_iv" and buf: "length (ctx_buf ctx) = 64"
    and num: "updateNum m = 0" and key: "key_sound key"
    and l: "length signature = 256" "length hash = 32"
  shows "fst (RSA_verify hw ctx key signature 256 hash 32 m) = (if rsa_valid key signature hash then 1 else 0)"
proof (cases "key_len key = 64 \<and> (exponent key = 3 \<or> exponent key = 65537)")
  case True
  then obtain em where em: "modpow key signature = Some em" "length em = 256"
      "be_val em = be_val signature ^ nat (exponent key) mod val (nwords key)"
    using modpow_power [of key signature] key l(1) by (auto simp: key_sound_def klen_def)
  have "rsa_valid key signature hash \<longleftrightarrow> sha256_spec (masked_block em hash) = kExpectedPadSha256Rsa2048"
    using True em(2,3) unfolding rsa_valid_def by (metis be_val_inject)
  then show ?thesis
    using RSA_verify_block [OF eng buf num em(1,2) l] True by simp
next
  case False
  then have "fst (RSA_verify hw ctx key signature 256 hash 32 m) = 0"
    using RSA_verify_guards by blast
  then show ?thesis using False by (auto simp: rsa_valid_def)
qed

text \<open>
  C5. The signature check decides validity: with a sound key, a 256-byte signature, a 32-byte hash
  and an engine that computes SHA-256, the result is 1 exactly for a key of 2048 bits with a
  supported exponent and a signature whose power modulo the modulus, as a 256-byte block with the
  hash removed from its tail, has the expected digest; otherwise the result is 0.
\<close>

theorem RSA_verify_correct:
  assumes "sha_engine hw sha_compress sha_iv" and "length (ctx_buf ctx) = 64"
    and "updateNum m = 0" and "key_sound key" and "length signature = 256" and "length hash = 32"
  shows "fst (RSA_verify hw ctx key signature 256 hash 32 m) = (if rsa_valid key signature hash then 1 else 0)"
  by (rule RSA_verify_valid [OF assms])

text \<open>The key whose modulus is the radix minus one.\<close>

definition mersenne_key :: RSAPublicKey where
  "mersenne_key = \<lparr>key_len = 64, n0inv = 1, key_n = replicate 64 0xFFFFFFFF,
     key_rr = 1 # replicate 63 0, exponent = 3\<rparr>"

lemma mersenne_key_sound: "key_sound mersenne_key"
proof -
  have v: "val (replicate k 0xFFFFFFFF) + 1 = radix k" for k
    by (induction k) (simp_all add: radix_Suc)
  have n: "val (nwords mersenne_key) = radix 64 - 1" and r: "val (rrwords mersenne_key) = 1"
    using v [of 64] by (simp_all add: mersenne_key_def nwords_def rrwords_def klen_def)
  have big: "2 \<le> radix 64" by (simp add: radix_def)
  have "radix 64 * radix 64 = (radix 64 - 1) * (radix 64 + 1) + 1"
    using big by (simp add: algebra_simps)
  then have "(radix 64 * radix 64) mod (radix 64 - 1) = 1 mod (radix 64 - 1)"
    by (metis mod_mult_self4)
  then show ?thesis
    using n r big
    by (simp add: key_sound_def key_wf_def klen_def mersenne_key_def)
qed

theorem RSA_verify_correct_witness:
  "fst (RSA_verify fips_hw \<lparr>ctx_count = 0, ctx_buf = replicate 64 0, ctx_state = []\<rparr> mersenne_key
      (replicate 256 0) 256 (replicate 32 0)
      32 \<lparr>updateNum = 0, SHA_MOD = 0, SHA_IN_TYPE = 0, engine = []\<rparr>)
    = (if rsa_valid mersenne_key (replicate 256 0) (replicate 32 0) then 1 else 0)"
  by (rule RSA_verify_correct [OF fips.sha_engine_axioms _ _ mersenne_key_sound]) simp_all

end
