(* ===== verification/Memory.thy ===== *)
theory Memory
  imports Prelude
begin

text \<open>
  The memory of the 32-bit machine as the string routines, the boot gate and the transfers to
  storage see it: a byte at every address, addresses that wrap, words stored with the least
  significant byte first.  \<open>blit\<close> is what a copy of a region means; \<open>cstr\<close> says which C string an address
  points to.
\<close>

type_synonym memory = "u32 \<Rightarrow> u8"

definition load_bytes :: "memory \<Rightarrow> u32 \<Rightarrow> nat \<Rightarrow> bytes" where
  "load_bytes mem a n = map (\<lambda>i. mem (a + of_nat i)) [0..<n]"

definition load_u32 :: "memory \<Rightarrow> u32 \<Rightarrow> u32" where
  "load_u32 mem a = le_word (load_bytes mem a 4)"

fun store_bytes :: "memory \<Rightarrow> u32 \<Rightarrow> bytes \<Rightarrow> memory" where
  "store_bytes mem a [] = mem"
| "store_bytes mem a (b # bs) = store_bytes (mem(a := b)) (a + 1) bs"

definition store_u32 :: "memory \<Rightarrow> u32 \<Rightarrow> u32 \<Rightarrow> memory" where
  "store_u32 mem a w = store_bytes mem a (le_bytes 4 w)"

section \<open>Loads\<close>

lemma length_load_bytes [simp]: "length (load_bytes mem a n) = n"
  by (simp add: load_bytes_def)

lemma nth_load_bytes: "i < n \<Longrightarrow> load_bytes mem a n ! i = mem (a + of_nat i)"
  by (simp add: load_bytes_def)

lemma load_bytes_0 [simp]: "load_bytes mem a 0 = []"
  by (simp add: load_bytes_def)

lemma load_bytes_append: "load_bytes mem a (m + n) = load_bytes mem a m @ load_bytes mem (a + of_nat m) n"
  by (rule nth_equalityI) (auto simp: load_bytes_def nth_append of_nat_diff algebra_simps)

lemma load_bytes_Suc: "load_bytes mem a (Suc n) = mem a # load_bytes mem (a + 1) n"
  using load_bytes_append [of mem a 1 n] by (simp add: load_bytes_def)

lemma load_bytes_cong:
  "(\<And>i. i < n \<Longrightarrow> m (a + of_nat i) = m' (b + of_nat i)) \<Longrightarrow> load_bytes m a n = load_bytes m' b n"
  by (simp add: load_bytes_def)

section \<open>Stores and copies\<close>

lemma unat_of_nat_u32: "i < 4294967296 \<Longrightarrow> unat (of_nat i :: u32) = i"
  by (simp add: unat_of_nat take_bit_eq_mod)

lemma unat_add_offset: "unat a + i < 4294967296 \<Longrightarrow> unat (a + of_nat i :: u32) = unat a + i"
  by (subst unat_add_small) (simp_all add: unat_of_nat_u32)

lemma unat_succ_diff: "a \<noteq> d \<Longrightarrow> unat (a - d :: u32) = Suc (unat (a - (d + 1)))"
proof -
  assume "a \<noteq> d"
  then have "a - d \<noteq> 0" by simp
  then have "unat (a - d - 1) = unat (a - d) - 1" and "unat (a - d) \<noteq> 0"
    by (simp_all add: unat_minus_one unat_gt_0)
  moreover have "a - d - 1 = a - (d + 1)" by simp
  ultimately show ?thesis by (metis Suc_pred' not_gr_zero One_nat_def)
qed

lemma unat_minus_1_u32 [simp]: "unat (- 1 :: u32) = 4294967295"
  by (simp add: unsigned_minus_1_eq_mask mask_eq_exp_minus_1)

lemma addr_offset: "(a :: u32) = d + of_nat (unat (a - d))"
  by simp

text \<open>A region of \<open>n\<close> bytes at \<open>d\<close> filled from \<open>f\<close>.\<close>

definition patch :: "memory \<Rightarrow> u32 \<Rightarrow> nat \<Rightarrow> (nat \<Rightarrow> u8) \<Rightarrow> memory" where
  "patch m d n f = (\<lambda>a. if unat (a - d) < n then f (unat (a - d)) else m a)"

definition blit :: "memory \<Rightarrow> u32 \<Rightarrow> u32 \<Rightarrow> nat \<Rightarrow> memory" where
  "blit m d s n = patch m d n (\<lambda>i. m (s + of_nat i))"

lemma patch_0 [simp]: "patch m d 0 f = m"
  by (simp add: patch_def)

lemma patch_Suc:
  assumes "n < 4294967296"
  shows "patch (m(d := f 0)) (d + 1) n (\<lambda>i. f (Suc i)) = patch m d (Suc n) f"
proof (rule ext)
  fix a
  show "patch (m(d := f 0)) (d + 1) n (\<lambda>i. f (Suc i)) a = patch m d (Suc n) f a"
    using assms unat_succ_diff [of a d] by (cases "a = d") (auto simp: patch_def)
qed

lemma patch_cong: "(\<And>i. i < n \<Longrightarrow> f i = g i) \<Longrightarrow> patch m d n f = patch m d n g"
  by (simp add: patch_def fun_eq_iff)

lemma patch_load:
  "n \<le> 4294967296 \<Longrightarrow> load_bytes (patch m d n f) d n = map f [0..<n]"
  by (auto simp: load_bytes_def patch_def unat_of_nat take_bit_eq_mod)

lemma unat_diff_add:
  "unat (x - (d + of_nat a) :: u32) = (if a \<le> unat (x - d) then unat (x - d) - a else 4294967296 + unat (x - d) - a)"
  if "a < 4294967296"
proof -
  have ua: "unat (of_nat a :: u32) = a" using that by (simp add: unat_of_nat take_bit_eq_mod)
  have e: "x - (d + of_nat a) = (x - d) - of_nat a" by simp
  show ?thesis
    unfolding e by (subst unat_sub_if') (use ua that in auto)
qed

lemma patch_add:
  assumes "a < 4294967296" and "a + b \<le> 4294967296"
  shows "patch (patch m d a f) (d + of_nat a) b (\<lambda>i. f (a + i)) = patch m d (a + b) f"
proof (rule ext)
  fix x
  show "patch (patch m d a f) (d + of_nat a) b (\<lambda>i. f (a + i)) x = patch m d (a + b) f x"
    using assms unat_u32_less [of "x - d"]
    by (auto simp: patch_def unat_diff_add)
qed

lemma patch_outside: "n \<le> unat (a - d) \<Longrightarrow> patch m d n f a = m a"
  by (simp add: patch_def)

lemma store_bytes_patch:
  "length bs < 4294967296 \<Longrightarrow> store_bytes m d bs = patch m d (length bs) ((!) bs)"
proof (induction bs arbitrary: m d)
  case Nil
  then show ?case by simp
next
  case (Cons b bs)
  have "store_bytes m d (b # bs) = patch (m(d := b)) (d + 1) (length bs) ((!) bs)"
    using Cons by simp
  also have "\<dots> = patch m d (Suc (length bs)) ((!) (b # bs))"
    using patch_Suc [of "length bs" m d "(!) (b # bs)"] Cons.prems by simp
  finally show ?case by simp
qed

lemma store_bytes_append:
  "store_bytes m d (as @ bs) = store_bytes (store_bytes m d as) (d + of_nat (length as)) bs"
  by (induction as arbitrary: m d) (simp_all add: algebra_simps)

lemma load_store_same:
  "length bs < 4294967296 \<Longrightarrow> load_bytes (store_bytes m d bs) d (length bs) = bs"
  by (simp add: store_bytes_patch patch_load map_nth)

section \<open>C strings\<close>

text \<open>The bytes up to the terminating zero.\<close>

fun cstr :: "memory \<Rightarrow> u32 \<Rightarrow> bytes \<Rightarrow> bool" where
  "cstr m s [] \<longleftrightarrow> m s = 0"
| "cstr m s (c # cs) \<longleftrightarrow> m s = c \<and> c \<noteq> 0 \<and> cstr m (s + 1) cs"

lemma cstr_iff: "cstr m s cs \<longleftrightarrow> load_bytes m s (Suc (length cs)) = cs @ [0] \<and> 0 \<notin> set cs"
  by (induction cs arbitrary: s) (auto simp: load_bytes_Suc)

lemma cstr_nth: "cstr m s cs \<Longrightarrow> i < length cs \<Longrightarrow> m (s + of_nat i) = cs ! i"
proof (induction cs arbitrary: s i)
  case (Cons c cs)
  then show ?case by (cases i) (auto simp: add.assoc [symmetric])
qed simp

lemma cstr_end: "cstr m s cs \<Longrightarrow> m (s + of_nat (length cs)) = 0"
  by (induction cs arbitrary: s) (simp_all add: add.assoc [symmetric])

lemma cstr_nonzero: "cstr m s cs \<Longrightarrow> 0 \<notin> set cs"
  by (simp add: cstr_iff)

lemma cstr_append: "cstr m s (as @ bs) \<longleftrightarrow> load_bytes m s (length as) = as \<and> 0 \<notin> set as
    \<and> cstr m (s + of_nat (length as)) bs"
  by (induction as arbitrary: s) (auto simp: load_bytes_Suc add.assoc [symmetric])

lemma cstr_unique: "cstr m s as \<Longrightarrow> cstr m s bs \<Longrightarrow> as = bs"
proof (induction as arbitrary: s bs)
  case Nil
  then show ?case by (cases bs) auto
next
  case (Cons a as)
  then show ?case by (cases bs) auto
qed

lemma cstr_drop: "cstr m s cs \<Longrightarrow> k \<le> length cs \<Longrightarrow> cstr m (s + of_nat k) (drop k cs)"
  using cstr_append [of m s "take k cs" "drop k cs"] by simp

lemma cstr_cong:
  "cstr m s cs \<Longrightarrow> (\<And>i. i \<le> length cs \<Longrightarrow> m' (s + of_nat i) = m (s + of_nat i)) \<Longrightarrow> cstr m' s cs"
  unfolding cstr_iff by (metis load_bytes_cong less_Suc_eq_le)

text \<open>A string never fills the address space, so its length is a machine word.\<close>

lemma cstr_length: "cstr m s cs \<Longrightarrow> length cs < 4294967296"
proof (rule ccontr)
  assume c: "cstr m s cs" and "\<not> length cs < 4294967296"
  then have l: "4294967296 \<le> length cs" by simp
  define k where "k = unat (of_nat (length cs) :: u32)"
  have "k < 4294967296" using unat_u32_less by (simp add: k_def)
  then have "m (s + of_nat k) = cs ! k" and "cs ! k \<in> set cs"
    using cstr_nth [OF c, of k] l by simp_all
  moreover have "of_nat k = (of_nat (length cs) :: u32)" by (simp add: k_def)
  ultimately show False using cstr_end [OF c] cstr_nonzero [OF c] by simp
qed

end
