(* ===== verification/SecureVerify.thy ===== *)
theory SecureVerify
  imports Rsa Memory
begin

text \<open>
  secure\_verify/decode.c and secure\_verify/secure\_verify.c: the boot gate.  The loader places the
  kernel and the ramdisk in memory behind a signed header; \<open>getverifyimage\<close> copies the header into
  globals, \<open>rsaPubKey_sha256_verify\<close> compares the digest of the public key with fuse registers and
  \<open>image_rsa_verify\<close> checks the signature over the image.  Memory is read only here: a function from
  addresses to bytes.  Debug dumps are left out.
\<close>

section \<open>State\<close>

record verify_globals =
  ORIGIN_IMAGE_LEN :: u32
  RSASIGNATURE :: "u32 list"
  RSAPUBKEYSTRU :: "u32 list"
  ORIGIN_IMAGE_SHA :: bytes
  ORIGIN_IMAGE_BASEADDR :: u32
  image_data_all :: u32

definition CONFIG_KERNEL_LOADADDR :: u32 where
  "CONFIG_KERNEL_LOADADDR = 100 * 1024 * 1024 + 0x8000"

definition CONFIG_RAMDISK_LOADADDR :: u32 where
  "CONFIG_RAMDISK_LOADADDR = 0x07400000"

definition HEADINFOLEN :: nat where
  "HEADINFOLEN = 512 * 3"

definition RSASIGNEDLEN :: nat where
  "RSASIGNEDLEN = 512"

definition RSAPUBKEYLEN :: nat where
  "RSAPUBKEYLEN = 768"

definition VERIFY_KERNEL :: int where
  "VERIFY_KERNEL = 1"

definition VERIFY_RAMDISK :: int where
  "VERIFY_RAMDISK = 2"

section \<open>Operations\<close>

text \<open>The word array seen as bytes, and as the structure \<open>RSAPublicKey\<close>.\<close>

definition word_bytes :: "u32 list \<Rightarrow> bytes" where
  "word_bytes ws = concat (map (le_bytes 4) ws)"

definition as_key :: "u32 list \<Rightarrow> RSAPublicKey" where
  "as_key ws = \<lparr>key_len = sint (ws ! 0), n0inv = ws ! 1, key_n = take 64 (drop 2 ws),
     key_rr = take 64 (drop 66 ws), exponent = sint (ws ! 130)\<rparr>"

definition getverifyimage :: "memory \<Rightarrow> int \<Rightarrow> verify_globals \<Rightarrow> verify_globals" where
  "getverifyimage mem whichimage g =
     (let base = (if whichimage = VERIFY_KERNEL then CONFIG_KERNEL_LOADADDR - of_nat HEADINFOLEN
                  else if whichimage = VERIFY_RAMDISK then CONFIG_RAMDISK_LOADADDR - of_nat HEADINFOLEN
                  else image_data_all g);
          cfgInfor = (\<lambda>i. load_u32 mem (base + 4 * of_nat i))
      in g\<lparr>image_data_all := base, ORIGIN_IMAGE_LEN := cfgInfor 0,
           RSASIGNATURE := map (\<lambda>i. cfgInfor (i + RSASIGNEDLEN div 4)) [0..<256 div 4],
           RSAPUBKEYSTRU := map (\<lambda>i. cfgInfor (i + RSAPUBKEYLEN div 4)) [0..<524 div 4],
           ORIGIN_IMAGE_BASEADDR := base + of_nat HEADINFOLEN\<rparr>)"

text \<open>
  \<open>efuse\<close> are the registers \<open>RSA_SIGNATURE0\<close> to \<open>RSA_SIGNATURE7\<close>; \<open>ctx\<close> is the content of the local
  hash context before it is initialised.  The loop compares the digest word by word.
\<close>

fun digest_differs :: "nat list \<Rightarrow> u32 list \<Rightarrow> bytes \<Rightarrow> bool" where
  "digest_differs [] efuse digest = False"
| "digest_differs (i # is) efuse digest =
     (if (efuse ! i) XOR le_word (take 4 (drop (4 * i) digest)) \<noteq> 0 then True
      else digest_differs is efuse digest)"

definition rsaPubKey_sha256_verify ::
  "'e sha_hw \<Rightarrow> u32 list \<Rightarrow> HASH_CTX \<Rightarrow> verify_globals \<Rightarrow> 'e sha_machine \<Rightarrow> int \<times> 'e sha_machine" where
  "rsaPubKey_sha256_verify hw efuse ctx g m =
     (let (digest, m) = SHA256_hash hw (word_bytes (RSAPUBKEYSTRU g)) ctx m
      in (if digest_differs [0..<8] efuse digest then 1 else 0, m))"

text \<open>
  \<open>SHA256_hash\<close> takes its length as an \<open>int\<close>: for a header length of \<open>2 ^ 31\<close> or more the code counts
  a negative number down past its range, which has no defined result, \<open>None\<close>.  \<open>stk n\<close> is what the
  local context of the \<open>n\<close>-th hash of the call holds on entry.
\<close>

definition image_rsa_verify ::
  "'e sha_hw \<Rightarrow> u32 list \<Rightarrow> memory \<Rightarrow> (nat \<Rightarrow> HASH_CTX) \<Rightarrow> verify_globals \<times> 'e sha_machine
     \<Rightarrow> (int \<times> verify_globals \<times> 'e sha_machine) option" where
  "image_rsa_verify hw efuse mem stk = (\<lambda>(g, m).
     let m = m\<lparr>updateNum := 0\<rparr>;
         (value, m) = rsaPubKey_sha256_verify hw efuse (stk 0) g m
     in if value = 1 then Some (1, g, m)
        else if 2 ^ 31 \<le> unat (ORIGIN_IMAGE_LEN g) then None
        else
          let m = m\<lparr>updateNum := 0\<rparr>;
              data = load_bytes mem (ORIGIN_IMAGE_BASEADDR g) (unat (ORIGIN_IMAGE_LEN g));
              (image_sha256, m) = SHA256_hash hw data (stk 1) m;
              g = g\<lparr>ORIGIN_IMAGE_SHA := map (\<lambda>i. image_sha256 ! i) [0..<32]\<rparr>;
              m = m\<lparr>updateNum := 0\<rparr>;
              signature = word_bytes (RSASIGNATURE g);
              public_key = as_key (RSAPUBKEYSTRU g);
              (value, m) = RSA_verify hw (stk 2) public_key signature 256 (ORIGIN_IMAGE_SHA g) 32 m
          in Some (if value = 0 then 1 else 0, g, m))"

definition secure_verify ::
  "'e sha_hw \<Rightarrow> u32 list \<Rightarrow> memory \<Rightarrow> (nat \<Rightarrow> HASH_CTX) \<Rightarrow> verify_globals \<times> 'e sha_machine
     \<Rightarrow> (int \<times> verify_globals \<times> 'e sha_machine) option" where
  "secure_verify hw efuse mem stk = (\<lambda>(g, m).
     case image_rsa_verify hw efuse mem stk (getverifyimage mem VERIFY_KERNEL g, m) of
       None \<Rightarrow> None
     | Some (r, g, m) \<Rightarrow>
         if r \<noteq> 0 then Some (1, g, m)
         else (case image_rsa_verify hw efuse mem (\<lambda>n. stk (n + 3)) (getverifyimage mem VERIFY_RAMDISK g, m) of
             None \<Rightarrow> None
           | Some (r, g, m) \<Rightarrow> if r \<noteq> 0 then Some (1, g, m) else Some (0, g, m)))"

section \<open>What the gate decides\<close>

lemma length_word_bytes [simp]: "length (word_bytes ws) = 4 * length ws"
  by (induction ws) (simp_all add: word_bytes_def)

text \<open>Words taken from consecutive memory and put back as bytes are the memory's bytes.\<close>

lemma word_bytes_load:
  "word_bytes (map (\<lambda>i. load_u32 mem (a + 4 * of_nat i)) [0..<n]) = load_bytes mem a (4 * n)"
proof (induction n)
  case 0
  then show ?case by (simp add: word_bytes_def load_bytes_def)
next
  case (Suc n)
  have "le_bytes 4 (load_u32 mem b) = load_bytes mem b 4" for b
    using le_bytes_le_word [of "load_bytes mem b 4", where 'a = 32] by (simp add: load_u32_def)
  then have "word_bytes (map (\<lambda>i. load_u32 mem (a + 4 * of_nat i)) [0..<Suc n])
      = load_bytes mem a (4 * n) @ load_bytes mem (a + of_nat (4 * n)) 4"
    using Suc by (simp add: word_bytes_def)
  then show ?case using load_bytes_append [of mem a "4 * n" 4] by (simp add: add.commute)
qed

lemma digest_differs_iff:
  "digest_differs is efuse digest \<longleftrightarrow> (\<exists>i\<in>set is. efuse ! i \<noteq> le_word (take 4 (drop (4 * i) digest)))"
  by (induction "is" efuse digest rule: digest_differs.induct) (auto simp: word_xor_eq_0)

lemma words_match_iff:
  "4 * length ws \<le> length d \<Longrightarrow>
    (\<forall>i<length ws. ws ! i = le_word (take 4 (drop (4 * i) d))) \<longleftrightarrow> take (4 * length ws) d = word_bytes ws"
proof (induction ws arbitrary: d)
  case Nil
  then show ?case by (simp add: word_bytes_def)
next
  case (Cons w ws)
  have "(\<forall>i<length (w # ws). (w # ws) ! i = le_word (take 4 (drop (4 * i) d)))
      \<longleftrightarrow> w = le_word (take 4 d) \<and> (\<forall>i<length ws. ws ! i = le_word (take 4 (drop (4 * i) (drop 4 d))))"
    by (simp add: All_less_Suc2 add.commute)
  also have "\<dots> \<longleftrightarrow> take 4 d = le_bytes 4 w \<and> take (4 * length ws) (drop 4 d) = word_bytes ws"
    using Cons.IH [of "drop 4 d"] Cons.prems by (simp add: le_word_32_iff)
  also have "\<dots> \<longleftrightarrow> take 4 d @ take (4 * length ws) (drop 4 d) = le_bytes 4 w @ word_bytes ws"
    using Cons.prems by (subst append_eq_append_conv) simp_all
  finally show ?case
    by (simp add: take_add word_bytes_def)
qed

lemma digest_match:
  assumes "length efuse = 8" and "take 32 digest = d" and "length d = 32"
  shows "digest_differs [0..<8] efuse digest \<longleftrightarrow> d \<noteq> word_bytes efuse"
proof -
  have "32 \<le> length digest" using assms(2,3) by (metis length_take min.cobounded1)
  then show ?thesis
    using words_match_iff [of efuse digest] assms by (auto simp: digest_differs_iff)
qed

text \<open>
  An image behind the header at \<open>base\<close> is authentic when its key has the fused digest and its
  signature is valid for the digest of the image's bytes.
\<close>

definition header_key :: "memory \<Rightarrow> u32 \<Rightarrow> RSAPublicKey" where
  "header_key mem base = as_key (map (\<lambda>i. load_u32 mem (base + 768 + 4 * of_nat i)) [0..<131])"

definition image_authentic :: "u32 list \<Rightarrow> memory \<Rightarrow> u32 \<Rightarrow> bool" where
  "image_authentic efuse mem base \<longleftrightarrow>
     sha256_spec (load_bytes mem (base + 768) 524) = word_bytes efuse \<and>
     rsa_valid (header_key mem base) (load_bytes mem (base + 512) 256)
       (sha256_spec (load_bytes mem (base + 1536) (unat (load_u32 mem base))))"

text \<open>What \<open>getverifyimage\<close> leaves in the globals.\<close>

definition loaded :: "memory \<Rightarrow> u32 \<Rightarrow> verify_globals \<Rightarrow> bool" where
  "loaded mem base g \<longleftrightarrow>
     ORIGIN_IMAGE_LEN g = load_u32 mem base \<and> ORIGIN_IMAGE_BASEADDR g = base + 1536 \<and>
     word_bytes (RSASIGNATURE g) = load_bytes mem (base + 512) 256 \<and>
     word_bytes (RSAPUBKEYSTRU g) = load_bytes mem (base + 768) 524 \<and>
     as_key (RSAPUBKEYSTRU g) = header_key mem base"

definition KERNEL_BASE :: u32 where
  "KERNEL_BASE = 0x6407A00"

definition RAMDISK_BASE :: u32 where
  "RAMDISK_BASE = 0x73FFA00"

lemma getverifyimage_loaded:
  "loaded mem KERNEL_BASE (getverifyimage mem VERIFY_KERNEL g)"
  "loaded mem RAMDISK_BASE (getverifyimage mem VERIFY_RAMDISK g)"
proof -
  have w: "word_bytes (map (\<lambda>i. load_u32 mem (b + 4 * of_nat (i + k))) [0..<n])
      = load_bytes mem (b + 4 * of_nat k) (4 * n)" for b k n
    using word_bytes_load [of mem "b + 4 * of_nat k" n] by (simp add: algebra_simps)
  show "loaded mem KERNEL_BASE (getverifyimage mem VERIFY_KERNEL g)"
    using w [of KERNEL_BASE 128 64] w [of KERNEL_BASE 192 131]
    by (simp add: loaded_def getverifyimage_def Let_def VERIFY_KERNEL_def CONFIG_KERNEL_LOADADDR_def
        HEADINFOLEN_def RSASIGNEDLEN_def RSAPUBKEYLEN_def KERNEL_BASE_def header_key_def algebra_simps)
  show "loaded mem RAMDISK_BASE (getverifyimage mem VERIFY_RAMDISK g)"
    using w [of RAMDISK_BASE 128 64] w [of RAMDISK_BASE 192 131]
    by (simp add: loaded_def getverifyimage_def Let_def VERIFY_KERNEL_def VERIFY_RAMDISK_def CONFIG_RAMDISK_LOADADDR_def
        HEADINFOLEN_def RSASIGNEDLEN_def RSAPUBKEYLEN_def RAMDISK_BASE_def header_key_def algebra_simps)
qed

lemma image_rsa_verify_gate:
  assumes eng: "sha_engine hw sha_compress sha_iv" and bufs: "\<And>n. length (ctx_buf (stk n)) = 64"
    and efuse: "length efuse = 8" and len: "unat (load_u32 mem base) < 2 ^ 31"
    and sound: "sha256_spec (load_bytes mem (base + 768) 524) = word_bytes efuse \<longrightarrow>
      key_sound (header_key mem base)"
    and g: "loaded mem base g"
  shows "\<exists>g' m'. image_rsa_verify hw efuse mem stk (g, m)
    = Some (if image_authentic efuse mem base then 0 else 1, g', m')"
proof -
  define kb where "kb = load_bytes mem (base + 768) 524"
  define data where "data = load_bytes mem (base + 1536) (unat (load_u32 mem base))"
  have fields: "ORIGIN_IMAGE_LEN g = load_u32 mem base" "ORIGIN_IMAGE_BASEADDR g = base + 1536"
    "word_bytes (RSASIGNATURE g) = load_bytes mem (base + 512) 256"
    "word_bytes (RSAPUBKEYSTRU g) = kb" "as_key (RSAPUBKEYSTRU g) = header_key mem base"
    using g by (simp_all add: loaded_def kb_def)
  have hash: "take 32 (fst (SHA256_hash hw d (stk n) (u\<lparr>updateNum := 0\<rparr>))) = sha256_spec d"
    if "length d < 2 ^ 31" for d n u
    using that by (intro SHA256_hash_digest eng bufs) simp_all
  obtain dg m1 where h1: "SHA256_hash hw kb (stk 0) (m\<lparr>updateNum := 0\<rparr>) = (dg, m1)" by fastforce
  have d1: "take 32 dg = sha256_spec kb" using hash [of kb 0 m] h1 by (simp add: kb_def)
  have key: "digest_differs [0..<8] efuse dg \<longleftrightarrow> sha256_spec kb \<noteq> word_bytes efuse"
    by (rule digest_match [OF efuse d1]) simp
  show ?thesis
  proof (cases "sha256_spec kb = word_bytes efuse")
    case False
    then have "\<not> image_authentic efuse mem base" by (simp add: image_authentic_def kb_def)
    then show ?thesis
      using False key h1 by (simp add: image_rsa_verify_def rsaPubKey_sha256_verify_def fields)
  next
    case True
    obtain ig m2 where h2: "SHA256_hash hw data (stk 1) (m1\<lparr>updateNum := 0\<rparr>) = (ig, m2)" by fastforce
    have d2: "take 32 ig = sha256_spec data" using hash [of data 1 m1] h2 len by (simp add: data_def)
    have "32 \<le> length ig" using arg_cong [OF d2, of length] by simp
    then have sha: "map (\<lambda>i. ig ! i) [0..<32] = sha256_spec data"
      using d2 by (simp add: map_nth_prefix)
    have "fst (RSA_verify hw (stk 2) (header_key mem base) (load_bytes mem (base + 512) 256) 256
        (sha256_spec data) 32 (m2\<lparr>updateNum := 0\<rparr>))
      = (if rsa_valid (header_key mem base) (load_bytes mem (base + 512) 256) (sha256_spec data) then 1 else 0)"
      using True sound by (intro RSA_verify_valid eng bufs) (simp_all add: kb_def)
    moreover have "image_authentic efuse mem base \<longleftrightarrow>
        rsa_valid (header_key mem base) (load_bytes mem (base + 512) 256) (sha256_spec data)"
      using True by (simp add: image_authentic_def kb_def data_def)
    ultimately show ?thesis
      using True key h1 h2 sha len
      by (auto simp: image_rsa_verify_def rsaPubKey_sha256_verify_def fields data_def [symmetric]
          Let_def split: prod.splits)
  qed
qed

text \<open>
  C1. The boot gate opens only for authentic images: with a SHA-256 engine, fuses of eight words and
  image lengths below \<open>2 ^ 31\<close>, and provided a key with the fused digest is sound, \<open>secure_verify\<close>
  returns, and it returns 0 exactly when the kernel and the ramdisk are both authentic.
\<close>

theorem secure_verify_gate:
  assumes "sha_engine hw sha_compress sha_iv" and "\<And>n. length (ctx_buf (stk n)) = 64"
    and "length efuse = 8"
    and "\<And>base. base \<in> {KERNEL_BASE, RAMDISK_BASE} \<Longrightarrow> unat (load_u32 mem base) < 2 ^ 31"
    and "\<And>base. base \<in> {KERNEL_BASE, RAMDISK_BASE} \<Longrightarrow>
      sha256_spec (load_bytes mem (base + 768) 524) = word_bytes efuse \<longrightarrow> key_sound (header_key mem base)"
  shows "\<exists>r g' m'. secure_verify hw efuse mem stk (g, m) = Some (r, g', m') \<and>
    (r = 0 \<longleftrightarrow> image_authentic efuse mem KERNEL_BASE \<and> image_authentic efuse mem RAMDISK_BASE)"
proof -
  note gate = image_rsa_verify_gate [OF assms(1) _ assms(3) assms(4) assms(5)]
  from gate [OF assms(2) insertI1 insertI1 getverifyimage_loaded(1), of "\<lambda>n. n" g m]
  obtain g1 m1 where k: "image_rsa_verify hw efuse mem stk (getverifyimage mem VERIFY_KERNEL g, m)
      = Some (if image_authentic efuse mem KERNEL_BASE then 0 else 1, g1, m1)"
    by (elim exE)
  have in2: "RAMDISK_BASE \<in> {KERNEL_BASE, RAMDISK_BASE}" by (intro insertI2 insertI1)
  from gate [OF assms(2) in2 in2 getverifyimage_loaded(2), of "\<lambda>n. n + 3" g1 m1]
  obtain g2 m2 where r: "image_rsa_verify hw efuse mem (\<lambda>n. stk (n + 3))
      (getverifyimage mem VERIFY_RAMDISK g1, m1)
      = Some (if image_authentic efuse mem RAMDISK_BASE then 0 else 1, g2, m2)"
    by (elim exE)
  show ?thesis by (simp add: secure_verify_def k r)
qed

text \<open>A memory with the key \<open>mersenne_key\<close> behind both headers, and images of length 0.\<close>

definition key_words :: "u32 list" where
  "key_words = 64 # 1 # replicate 64 0xFFFFFFFF @ (1 # replicate 63 0) @ [3]"

definition key_memory :: memory where
  "key_memory a =
     (let off = (if a < RAMDISK_BASE then a - KERNEL_BASE else a - RAMDISK_BASE)
      in if 768 \<le> off \<and> off < 1292 then word_bytes key_words ! unat (off - 768) else 0)"

lemma word_bytes_inject:
  assumes "length us = length vs" and "word_bytes us = word_bytes vs"
  shows "us = vs"
proof (rule nth_equalityI)
  have "ws ! i = le_word (take 4 (drop (4 * i) (word_bytes ws)))" if "i < length ws" for ws i
    using words_match_iff [of ws "word_bytes ws"] that by simp
  then show "us ! i = vs ! i" if "i < length us" for i
    using assms that by metis
qed (rule assms(1))

lemma key_memory_bytes:
  assumes "base \<in> {KERNEL_BASE, RAMDISK_BASE}" and "k < 524"
  shows "key_memory (base + 768 + of_nat k) = word_bytes key_words ! k"
proof -
  have k: "unat (of_nat k :: u32) = k" using assms(2) by (simp add: unsigned_of_nat take_bit_nat_eq_self)
  have u: "unat (x + of_nat k :: u32) = unat x + k" if "unat x < 2 ^ 31" for x
    using that assms(2) k by (subst unat_add_small) simp_all
  have off: "(768 :: u32) \<le> 768 + of_nat k \<and> 768 + of_nat k < (1292 :: u32)"
    using u [of 768] assms(2) by (simp add: word_le_nat_alt word_less_nat_alt)
  have lt: "KERNEL_BASE + 768 + of_nat k < RAMDISK_BASE" "\<not> RAMDISK_BASE + 768 + of_nat k < RAMDISK_BASE"
    using u [of "KERNEL_BASE + 768"] u [of "RAMDISK_BASE + 768"] assms(2)
    by (simp_all add: word_less_nat_alt KERNEL_BASE_def RAMDISK_BASE_def)
  have sub: "b + 768 + of_nat k - b = 768 + (of_nat k :: u32)" for b by simp
  from assms(1) consider "base = KERNEL_BASE" | "base = RAMDISK_BASE" by blast
  then show ?thesis
    by cases (simp_all only: key_memory_def Let_def lt sub off if_True if_False simp_thms
        add_diff_cancel_left' k)
qed

lemma key_memory_words:
  assumes "base \<in> {KERNEL_BASE, RAMDISK_BASE}"
  shows "map (\<lambda>i. load_u32 key_memory (base + 768 + 4 * of_nat i)) [0..<131] = key_words"
proof (rule word_bytes_inject)
  have l: "length key_words = 131" by (simp add: key_words_def)
  then show "length (map (\<lambda>i. load_u32 key_memory (base + 768 + 4 * of_nat i)) [0..<131]) = length key_words"
    by simp
  have "load_bytes key_memory (base + 768) 524 = word_bytes key_words"
    using key_memory_bytes [OF assms] l
    by (intro nth_equalityI) (simp_all add: load_bytes_def)
  then show "word_bytes (map (\<lambda>i. load_u32 key_memory (base + 768 + 4 * of_nat i)) [0..<131])
      = word_bytes key_words"
    using word_bytes_load [of key_memory "base + 768" 131] by simp
qed

lemma key_memory_len:
  assumes "base \<in> {KERNEL_BASE, RAMDISK_BASE}"
  shows "load_u32 key_memory base = 0"
proof -
  have z: "key_memory (base + of_nat k) = 0" if "k < 4" for k
  proof -
    have "k \<in> {0, 1, 2, 3}" using that by auto
    then show ?thesis
      using assms by (auto simp: key_memory_def KERNEL_BASE_def RAMDISK_BASE_def word_le_nat_alt)
  qed
  have "load_bytes key_memory base 4 = replicate 4 0"
    by (rule nth_equalityI) (simp_all add: load_bytes_def z)
  then show ?thesis by (simp add: load_u32_def numeral_eq_Suc)
qed

lemma key_memory_key:
  assumes "base \<in> {KERNEL_BASE, RAMDISK_BASE}"
  shows "header_key key_memory base = mersenne_key"
proof -
  have "header_key key_memory base = as_key key_words"
    unfolding header_key_def key_memory_words [OF assms] ..
  also have "\<dots> = mersenne_key"
    by (simp add: as_key_def key_words_def mersenne_key_def nth_append)
  finally show ?thesis .
qed

theorem secure_verify_gate_witness:
  "\<exists>r g' m'. secure_verify fips_hw (replicate 8 0) key_memory
      (\<lambda>_. \<lparr>ctx_count = 0, ctx_buf = replicate 64 0, ctx_state = []\<rparr>)
      (\<lparr>ORIGIN_IMAGE_LEN = 0, RSASIGNATURE = [], RSAPUBKEYSTRU = [], ORIGIN_IMAGE_SHA = [],
         ORIGIN_IMAGE_BASEADDR = 0, image_data_all = 0\<rparr>,
       \<lparr>updateNum = 3, SHA_MOD = 0, SHA_IN_TYPE = 0, engine = []\<rparr>) = Some (r, g', m') \<and>
    (r = 0 \<longleftrightarrow> image_authentic (replicate 8 0) key_memory KERNEL_BASE \<and>
      image_authentic (replicate 8 0) key_memory RAMDISK_BASE)"
  by (rule secure_verify_gate [OF fips.sha_engine_axioms])
     (simp_all only: key_memory_len key_memory_key mersenne_key_sound, simp_all)

end
