(* ===== verification/CString.thy ===== *)
theory CString
  imports Memory "HOL-Library.Monad_Syntax" "HOL-Library.Sublist"
begin

text \<open>
  lib/string.c on the byte memory.  A pointer is an address, NULL is address 0, plain \<open>char\<close> is unsigned
  as the ARM ABI has it.  Loops bounded by a \<open>size_t\<close> recurse on its value; a loop that only a
  terminating zero stops is a partial function, so running for ever is the value \<open>None\<close>.
\<close>

section \<open>Copying strings\<close>

partial_function (option) strcpy_loop :: "memory \<Rightarrow> u32 \<Rightarrow> u32 \<Rightarrow> memory option" where
  "strcpy_loop m dest src =
     (let m' = m(dest := m src)
      in if m src \<noteq> 0 then strcpy_loop m' (dest + 1) (src + 1) else Some m')"

definition strcpy :: "memory \<Rightarrow> u32 \<Rightarrow> u32 \<Rightarrow> (u32 \<times> memory) option" where
  "strcpy m dest src = do { m' \<leftarrow> strcpy_loop m dest src; Some (dest, m') }"

fun strncpy_loop :: "memory \<Rightarrow> u32 \<Rightarrow> u32 \<Rightarrow> nat \<Rightarrow> memory" where
  "strncpy_loop m dest src 0 = m"
| "strncpy_loop m dest src (Suc count) =
     (let m' = m(dest := m src)
      in if m src \<noteq> 0 then strncpy_loop m' (dest + 1) (src + 1) count else m')"

definition strncpy :: "memory \<Rightarrow> u32 \<Rightarrow> u32 \<Rightarrow> u32 \<Rightarrow> u32 \<times> memory" where
  "strncpy m dest src count = (dest, strncpy_loop m dest src (unat count))"

text \<open>\<open>while (*p) p++\<close>\<close>

partial_function (option) str_end :: "memory \<Rightarrow> u32 \<Rightarrow> u32 option" where
  "str_end m p = (if m p \<noteq> 0 then str_end m (p + 1) else Some p)"

definition strcat :: "memory \<Rightarrow> u32 \<Rightarrow> u32 \<Rightarrow> (u32 \<times> memory) option" where
  "strcat m dest src = do {
     d \<leftarrow> str_end m dest;
     m' \<leftarrow> strcpy_loop m d src;
     Some (dest, m')
   }"

fun strncat_loop :: "memory \<Rightarrow> u32 \<Rightarrow> u32 \<Rightarrow> nat \<Rightarrow> memory" where
  "strncat_loop m dest src 0 = m"
| "strncat_loop m dest src (Suc count) =
     (let m' = m(dest := m src)
      in if m src \<noteq> 0
         then if count = 0 then m'(dest + 1 := 0)
              else strncat_loop m' (dest + 1) (src + 1) count
         else m')"

definition strncat :: "memory \<Rightarrow> u32 \<Rightarrow> u32 \<Rightarrow> u32 \<Rightarrow> (u32 \<times> memory) option" where
  "strncat m dest src count =
     (if count \<noteq> 0
      then do { d \<leftarrow> str_end m dest; Some (dest, strncat_loop m d src (unat count)) }
      else Some (dest, m))"

section \<open>Comparing and searching strings\<close>

text \<open>The difference of two characters is kept in a \<open>signed char\<close>.\<close>

partial_function (option) strcmp :: "memory \<Rightarrow> u32 \<Rightarrow> u32 \<Rightarrow> int option" where
  "strcmp m cs ct =
     (let res = m cs - m ct
      in if res \<noteq> 0 \<or> m cs = 0 then Some (sint res) else strcmp m (cs + 1) (ct + 1))"

fun strncmp_loop :: "memory \<Rightarrow> u32 \<Rightarrow> u32 \<Rightarrow> nat \<Rightarrow> u8 \<Rightarrow> int" where
  "strncmp_loop m cs ct 0 res = sint res"
| "strncmp_loop m cs ct (Suc count) res =
     (let res' = m cs - m ct
      in if res' \<noteq> 0 \<or> m cs = 0 then sint res' else strncmp_loop m (cs + 1) (ct + 1) count res')"

definition strncmp :: "memory \<Rightarrow> u32 \<Rightarrow> u32 \<Rightarrow> u32 \<Rightarrow> int" where
  "strncmp m cs ct count = strncmp_loop m cs ct (unat count) 0"

partial_function (option) strchr :: "memory \<Rightarrow> u32 \<Rightarrow> u8 \<Rightarrow> u32 option" where
  "strchr m s c = (if m s \<noteq> c then if m s = 0 then Some 0 else strchr m (s + 1) c else Some s)"

definition strlen :: "memory \<Rightarrow> u32 \<Rightarrow> u32 option" where
  "strlen m s = do { sc \<leftarrow> str_end m s; Some (sc - s) }"

partial_function (option) strrchr_loop :: "memory \<Rightarrow> u32 \<Rightarrow> u8 \<Rightarrow> u32 \<Rightarrow> u32 option" where
  "strrchr_loop m s c p =
     (if m p = c then Some p
      else let p = p - 1 in if s \<le> p then strrchr_loop m s c p else Some 0)"

definition strrchr :: "memory \<Rightarrow> u32 \<Rightarrow> u8 \<Rightarrow> u32 option" where
  "strrchr m s c = do { n \<leftarrow> strlen m s; strrchr_loop m s c (s + n) }"

fun strnlen_loop :: "memory \<Rightarrow> u32 \<Rightarrow> nat \<Rightarrow> u32" where
  "strnlen_loop m sc 0 = sc"
| "strnlen_loop m sc (Suc count) = (if m sc \<noteq> 0 then strnlen_loop m (sc + 1) count else sc)"

definition strnlen :: "memory \<Rightarrow> u32 \<Rightarrow> u32 \<Rightarrow> u32" where
  "strnlen m s count = strnlen_loop m s (unat count) - s"

text \<open>The inner loops of \<open>strspn\<close> and \<open>strpbrk\<close>: where a character stands in a set, or the set's end.\<close>

partial_function (option) char_scan :: "memory \<Rightarrow> u8 \<Rightarrow> u32 \<Rightarrow> u32 option" where
  "char_scan m c a =
     (if m a \<noteq> 0 then if c = m a then Some a else char_scan m c (a + 1) else Some a)"

partial_function (option) strspn_loop :: "memory \<Rightarrow> u32 \<Rightarrow> u32 \<Rightarrow> u32 \<Rightarrow> u32 option" where
  "strspn_loop m accept p count =
     (if m p \<noteq> 0
      then do {
        a \<leftarrow> char_scan m (m p) accept;
        if m a = 0 then Some count else strspn_loop m accept (p + 1) (count + 1)
      }
      else Some count)"

definition strspn :: "memory \<Rightarrow> u32 \<Rightarrow> u32 \<Rightarrow> u32 option" where
  "strspn m s accept = strspn_loop m accept s 0"

partial_function (option) strpbrk :: "memory \<Rightarrow> u32 \<Rightarrow> u32 \<Rightarrow> u32 option" where
  "strpbrk m sc1 ct =
     (if m sc1 \<noteq> 0
      then do {
        sc2 \<leftarrow> char_scan m (m sc1) ct;
        if m sc2 \<noteq> 0 then Some sc1 else strpbrk m (sc1 + 1) ct
      }
      else Some 0)"

section \<open>Tokens\<close>

text \<open>\<open>strtok\<close> keeps its place in the global \<open>___strtok\<close>; \<open>strsep\<close> in the caller's pointer \<open>*s\<close>.\<close>

definition strtok :: "memory \<Rightarrow> u32 \<Rightarrow> u32 \<Rightarrow> u32 \<Rightarrow> (u32 \<times> memory \<times> u32) option" where
  "strtok m s ct strtok_pos =
     (let sbegin = (if s \<noteq> 0 then s else strtok_pos)
      in if sbegin = 0 then Some (0, m, strtok_pos)
         else do {
           skip \<leftarrow> strspn m sbegin ct;
           let sbegin = sbegin + skip;
           if m sbegin = 0 then Some (0, m, 0)
           else do {
             send \<leftarrow> strpbrk m sbegin ct;
             Some (if send \<noteq> 0 \<and> m send \<noteq> 0 then (sbegin, m(send := 0), send + 1)
                   else (sbegin, m, send))
           }
         })"

definition strsep :: "memory \<Rightarrow> u32 \<Rightarrow> u32 \<Rightarrow> (u32 \<times> memory \<times> u32) option" where
  "strsep m sbegin ct =
     (if sbegin = 0 then Some (0, m, sbegin)
      else do {
        pos \<leftarrow> strpbrk m sbegin ct;
        Some (if pos \<noteq> 0 then (sbegin, m(pos := 0), pos + 1) else (sbegin, m, pos))
      })"

partial_function (option) strswab_loop :: "memory \<Rightarrow> u32 \<Rightarrow> u32 \<Rightarrow> memory option" where
  "strswab_loop m p q =
     (if m p \<noteq> 0 \<and> m q \<noteq> 0
      then let tmp = m p; m' = m(p := m q) in strswab_loop (m'(q := tmp)) (p + 2) (q + 2)
      else Some m)"

definition strswab :: "memory \<Rightarrow> u32 \<Rightarrow> (u32 \<times> memory) option" where
  "strswab m s =
     (if s = 0 \<or> m s = 0 then Some (0, m)
      else do { m' \<leftarrow> strswab_loop m s (s + 1); Some (s, m') })"

section \<open>Memory areas\<close>

fun memset_words :: "memory \<Rightarrow> u32 \<Rightarrow> u32 \<Rightarrow> nat \<Rightarrow> memory \<times> u32 \<times> nat" where
  "memset_words m sl cl count =
     (if 4 \<le> count then memset_words (store_u32 m sl cl) (sl + 4) cl (count - 4) else (m, sl, count))"

declare memset_words.simps [simp del]

fun memset_bytes :: "memory \<Rightarrow> u32 \<Rightarrow> u8 \<Rightarrow> nat \<Rightarrow> memory" where
  "memset_bytes m s8 c 0 = m"
| "memset_bytes m s8 c (Suc count) = memset_bytes (m(s8 := c)) (s8 + 1) c count"

definition memset :: "memory \<Rightarrow> u32 \<Rightarrow> u32 \<Rightarrow> u32 \<Rightarrow> u32 \<times> memory" where
  "memset m s c count =
     (let cl = ((\<lambda>cl. push_bit 8 cl OR (c AND 0xff)) ^^ 4) 0;
          (m', sl, rest) = (if s AND (4 - 1) = 0 then memset_words m s cl (unat count)
                            else (m, s, unat count))
      in (s, memset_bytes m' sl (ucast c) rest))"

fun copy_up :: "memory \<Rightarrow> u32 \<Rightarrow> u32 \<Rightarrow> nat \<Rightarrow> memory" where
  "copy_up m d8 s8 0 = m"
| "copy_up m d8 s8 (Suc count) = copy_up (m(d8 := m s8)) (d8 + 1) (s8 + 1) count"

text \<open>\<open>bcopy\<close> counts with an \<open>int\<close>: a negative count runs below \<open>INT_MIN\<close>, which C leaves undefined.\<close>

definition bcopy :: "memory \<Rightarrow> u32 \<Rightarrow> u32 \<Rightarrow> int \<Rightarrow> (u32 \<times> memory) option" where
  "bcopy m src dest count =
     (if count < 0 then None else Some (dest, copy_up m dest src (nat count)))"

fun copy_words :: "memory \<Rightarrow> u32 \<Rightarrow> u32 \<Rightarrow> nat \<Rightarrow> memory \<times> u32 \<times> u32 \<times> nat" where
  "copy_words m dl sl count =
     (if 4 \<le> count then copy_words (store_u32 m dl (load_u32 m sl)) (dl + 4) (sl + 4) (count - 4)
      else (m, dl, sl, count))"

declare copy_words.simps [simp del]

definition memcpy :: "memory \<Rightarrow> u32 \<Rightarrow> u32 \<Rightarrow> u32 \<Rightarrow> u32 \<times> memory" where
  "memcpy m dest src count =
     (if src = dest then (dest, m)
      else let (m', d8, s8, rest) = (if (dest OR src) AND (4 - 1) = 0
                                     then copy_words m dest src (unat count)
                                     else (m, dest, src, unat count))
           in (dest, copy_up m' d8 s8 rest))"

fun copy_down :: "memory \<Rightarrow> u32 \<Rightarrow> u32 \<Rightarrow> nat \<Rightarrow> memory" where
  "copy_down m tmp s 0 = m"
| "copy_down m tmp s (Suc count) = copy_down (m(tmp - 1 := m (s - 1))) (tmp - 1) (s - 1) count"

definition memmove :: "memory \<Rightarrow> u32 \<Rightarrow> u32 \<Rightarrow> u32 \<Rightarrow> u32 \<times> memory" where
  "memmove m dest src count =
     (if src = dest then (dest, m)
      else if dest \<le> src then (dest, copy_up m dest src (unat count))
      else (dest, copy_down m (dest + count) (src + count) (unat count)))"

fun memcmp_loop :: "memory \<Rightarrow> u32 \<Rightarrow> u32 \<Rightarrow> nat \<Rightarrow> int \<Rightarrow> int" where
  "memcmp_loop m su1 su2 0 res = res"
| "memcmp_loop m su1 su2 (Suc count) res =
     (let res' = uint (m su1) - uint (m su2)
      in if res' \<noteq> 0 then res' else memcmp_loop m (su1 + 1) (su2 + 1) count res')"

definition memcmp :: "memory \<Rightarrow> u32 \<Rightarrow> u32 \<Rightarrow> u32 \<Rightarrow> int" where
  "memcmp m cs ct count = memcmp_loop m cs ct (unat count) 0"

fun memscan_loop :: "memory \<Rightarrow> u32 \<Rightarrow> int \<Rightarrow> nat \<Rightarrow> u32" where
  "memscan_loop m p c 0 = p"
| "memscan_loop m p c (Suc n) = (if uint (m p) = c then p else memscan_loop m (p + 1) c n)"

definition memscan :: "memory \<Rightarrow> u32 \<Rightarrow> int \<Rightarrow> u32 \<Rightarrow> u32" where
  "memscan m addr c n = memscan_loop m addr c (unat n)"

text \<open>
  \<open>l1\<close> and \<open>l2\<close> are ints.  The loop counts \<open>l1\<close> down to \<open>l2\<close>; its measure is their distance.
\<close>

function strstr_loop :: "memory \<Rightarrow> u32 \<Rightarrow> int \<Rightarrow> int \<Rightarrow> u32 \<Rightarrow> u32" where
  "strstr_loop m s2 l2 l1 s1 =
     (if l2 \<le> l1
      then if memcmp m s1 s2 (word_of_int l2) = 0 then s1
           else strstr_loop m s2 l2 (l1 - 1) (s1 + 1)
      else 0)"
  by auto
termination
  by (relation "measure (\<lambda>(m, s2, l2, l1, s1). nat (l1 - l2 + 1))") simp_all

declare strstr_loop.simps [simp del]

definition strstr :: "memory \<Rightarrow> u32 \<Rightarrow> u32 \<Rightarrow> u32 option" where
  "strstr m s1 s2 = do {
     n2 \<leftarrow> strlen m s2;
     let l2 = sint n2;
     if l2 = 0 then Some s1
     else do {
       n1 \<leftarrow> strlen m s1;
       Some (strstr_loop m s2 l2 (sint n1) s1)
     }
   }"

fun memchr_loop :: "memory \<Rightarrow> u32 \<Rightarrow> u8 \<Rightarrow> nat \<Rightarrow> u32" where
  "memchr_loop m p c 0 = 0"
| "memchr_loop m p c (Suc n) = (if c = m p then p else memchr_loop m (p + 1) c n)"

definition memchr :: "memory \<Rightarrow> u32 \<Rightarrow> u32 \<Rightarrow> u32 \<Rightarrow> u32" where
  "memchr m s c n = memchr_loop m s (ucast c) (unat n)"


section \<open>Copies\<close>

text \<open>
  A copy from the low end is right when no byte is overwritten before it is read.
\<close>

definition ascending_safe :: "u32 \<Rightarrow> u32 \<Rightarrow> nat \<Rightarrow> bool" where
  "ascending_safe d s n \<longleftrightarrow> (\<forall>i<n. \<forall>j<i. d + of_nat j \<noteq> s + of_nat i)"

lemma ascending_safe_tail: "ascending_safe d s (Suc n) \<Longrightarrow> ascending_safe (d + 1) (s + 1) n"
  unfolding ascending_safe_def
proof (intro allI impI)
  fix i j
  assume "\<forall>i<Suc n. \<forall>j<i. d + of_nat j \<noteq> s + of_nat i" and "i < n" and "j < i"
  then have "d + of_nat (Suc j) \<noteq> s + of_nat (Suc i)" by blast
  then show "d + 1 + of_nat j \<noteq> s + 1 + of_nat i" by (simp add: algebra_simps)
qed

lemma ascending_safe_ne: "ascending_safe d s n \<Longrightarrow> i < n \<Longrightarrow> 0 < i \<Longrightarrow> s + of_nat i \<noteq> d"
proof -
  assume "ascending_safe d s n" and "i < n" and "0 < i"
  then have "d + of_nat 0 \<noteq> s + of_nat i" unfolding ascending_safe_def by blast
  then show ?thesis by auto
qed

lemma copy_up_blit: "ascending_safe d s n \<Longrightarrow> n \<le> 4294967296 \<Longrightarrow> copy_up m d s n = blit m d s n"
proof (induction n arbitrary: m d s)
  case 0
  then show ?case by (simp add: blit_def)
next
  case (Suc n)
  let ?m = "m(d := m s)"
  have keep: "?m (s + 1 + of_nat i) = m (s + of_nat (Suc i))" if "i < n" for i
    using ascending_safe_ne [OF Suc.prems(1), of "Suc i"] that by (simp add: add.assoc)
  have "copy_up m d s (Suc n) = patch ?m (d + 1) n (\<lambda>i. ?m (s + 1 + of_nat i))"
    using Suc ascending_safe_tail by (simp add: blit_def)
  also have "\<dots> = patch ?m (d + 1) n (\<lambda>i. m (s + of_nat (Suc i)))"
    by (rule patch_cong) (rule keep)
  also have "\<dots> = patch m d (Suc n) (\<lambda>i. m (s + of_nat i))"
    using patch_Suc [of n m d "\<lambda>i. m (s + of_nat i)"] Suc.prems(2) by simp
  finally show ?case by (simp add: blit_def)
qed

lemma ascending_safe_below:
  assumes "d \<le> s" and "unat s + n \<le> 4294967296"
  shows "ascending_safe d s n"
  unfolding ascending_safe_def
proof (intro allI impI notI)
  fix i j assume "i < n" "j < i" and e: "d + of_nat j = (s + of_nat i :: u32)"
  have "unat (s + of_nat i) = unat s + i" and "unat (d + of_nat j) = unat d + j"
    using assms \<open>i < n\<close> \<open>j < i\<close> by (simp_all add: unat_add_offset word_le_nat_alt)
  then show False using e \<open>j < i\<close> assms(1) by (simp add: word_le_nat_alt)
qed

lemma copy_down_blit:
  assumes "n \<le> 4294967296" and "\<And>i j. i < j \<Longrightarrow> j < n \<Longrightarrow> d + of_nat j \<noteq> s + of_nat i"
  shows "copy_down m (d + of_nat n) (s + of_nat n) n = blit m d s n"
  using assms
proof (induction n arbitrary: m)
  case 0
  then show ?case by (simp add: blit_def)
next
  case (Suc n)
  let ?m = "m(d + of_nat n := m (s + of_nat n))"
  have keep: "?m (s + of_nat i) = m (s + of_nat i)" if "i < n" for i
    using Suc.prems(2) [of i n] that by auto
  have e: "d + of_nat (Suc n) - 1 = d + of_nat n" "s + of_nat (Suc n) - 1 = s + of_nat n" by simp_all
  have "copy_down m (d + of_nat (Suc n)) (s + of_nat (Suc n)) (Suc n)
      = copy_down ?m (d + of_nat n) (s + of_nat n) n"
    unfolding copy_down.simps e ..
  also have "\<dots> = patch ?m d n (\<lambda>i. ?m (s + of_nat i))"
    using Suc by (simp add: blit_def)
  also have "\<dots> = patch ?m d n (\<lambda>i. m (s + of_nat i))" by (rule patch_cong) (rule keep)
  also have "\<dots> = patch m d (Suc n) (\<lambda>i. m (s + of_nat i))"
  proof (rule ext)
    fix a
    have w: "unat (d + of_nat n - d) = n" using Suc.prems(1) by (simp add: unat_of_nat_u32)
    show "patch ?m d n (\<lambda>i. m (s + of_nat i)) a = patch m d (Suc n) (\<lambda>i. m (s + of_nat i)) a"
    proof (cases "a = d + of_nat n")
      case True
      then show ?thesis unfolding patch_def True w by simp
    next
      case False
      then have "unat (a - d) \<noteq> n" using addr_offset [of a d] by metis
      then show ?thesis using False by (auto simp: patch_def less_Suc_eq)
    qed
  qed
  finally show ?case by (simp add: blit_def)
qed

lemma memmove_blit:
  assumes "unat dest + unat n \<le> 4294967296" and "unat src + unat n \<le> 4294967296"
  shows "memmove m dest src n = (dest, blit m dest src (unat n))"
proof -
  consider "src = dest" | "src \<noteq> dest" "dest \<le> src" | "src \<noteq> dest" "\<not> dest \<le> src" by blast
  then show ?thesis
  proof cases
    case 1
    have "blit m dest src (unat n) = m" using 1 by (simp add: blit_def patch_def fun_eq_iff)
    then show ?thesis using 1 by (simp add: memmove_def)
  next
    case 2
    then show ?thesis
      using assms by (simp add: memmove_def copy_up_blit ascending_safe_below less_imp_le [OF unat_u32_less])
  next
    case 3
    have "dest + of_nat j \<noteq> src + of_nat i" if "i < j" "j < unat n" for i j
    proof
      assume e: "dest + of_nat j = src + of_nat i"
      have "unat (src + of_nat i) = unat src + i" and "unat (dest + of_nat j) = unat dest + j"
        using assms that by (simp_all add: unat_add_offset)
      then show False using e that(1) 3(2) by (simp add: word_le_nat_alt)
    qed
    then have "copy_down m (dest + of_nat (unat n)) (src + of_nat (unat n)) (unat n) = blit m dest src (unat n)"
      by (intro copy_down_blit) (simp_all add: less_imp_le [OF unat_u32_less])
    then show ?thesis using 3 by (simp add: memmove_def)
  qed
qed

text \<open>What a blit leaves in memory.\<close>

lemma blit_load: "n \<le> 4294967296 \<Longrightarrow> load_bytes (blit m d s n) d n = load_bytes m s n"
  unfolding blit_def by (subst patch_load) (simp_all add: load_bytes_def)

lemma blit_outside: "n \<le> unat (a - d) \<Longrightarrow> blit m d s n a = m a"
  by (simp add: blit_def patch_outside)

text \<open>
  C34. \<open>memmove\<close> copies a region to another in the same address space, whether or not they overlap:
  the destination holds what the source held, and every byte outside the destination keeps its value.
\<close>

theorem memmove_correct:
  assumes "unat dest + unat n \<le> 4294967296" and "unat src + unat n \<le> 4294967296"
  shows "\<exists>m'. memmove m dest src n = (dest, m') \<and> load_bytes m' dest (unat n) = load_bytes m src (unat n)
    \<and> (\<forall>a. unat n \<le> unat (a - dest) \<longrightarrow> m' a = m a)"
  using assms by (simp_all add: memmove_blit blit_load blit_outside less_imp_le [OF unat_u32_less])

text \<open>Whole words first, then the remaining bytes: a fill and a copy of the same region.\<close>

lemma fill_word_bytes:
  "le_bytes 4 (((\<lambda>cl. push_bit 8 cl OR (c AND 0xff)) ^^ 4) (0 :: u32)) = replicate 4 (ucast c)"
proof -
  have m: "(0xff :: u32) = mask 8" by (simp add: mask_eq_exp_minus_1)
  have four: "(4 :: nat) = Suc (Suc (Suc (Suc 0)))" by simp
  have b: "c AND 0xff = ucast (ucast c :: u8)"
    unfolding m by (rule bit_word_eqI) (auto simp: bit_simps)
  have "((\<lambda>cl. push_bit 8 cl OR (c AND 0xff)) ^^ 4) 0 = (le_word (replicate 4 (ucast c)) :: u32)"
    unfolding b four by (simp add: or.commute)
  then show ?thesis by (subst (asm) le_word_32_iff) simp_all
qed

lemma memset_bytes_patch: "n \<le> 4294967296 \<Longrightarrow> memset_bytes m s b n = patch m s n (\<lambda>_. b)"
proof (induction n arbitrary: m s)
  case 0
  then show ?case by simp
next
  case (Suc n)
  then show ?case using patch_Suc [of n m s "\<lambda>_. b"] by simp
qed

lemma div_add_4: "(k + 4) div 4 = Suc (k div 4)" "(4 + k) div 4 = Suc (k div 4)"
  by simp_all

lemma memset_words_patch:
  assumes "le_bytes 4 cl = replicate 4 b" and "n < 4294967296"
  shows "memset_words m s cl n
    = (patch m s (4 * (n div 4)) (\<lambda>_. b), s + of_nat (4 * (n div 4)), n mod 4)"
  using assms(2)
proof (induction n arbitrary: m s rule: less_induct)
  case (less n)
  show ?case
  proof (cases "4 \<le> n")
    case False
    then show ?thesis by (subst memset_words.simps) simp
  next
    case True
    then obtain k where k: "n = k + 4" by (metis le_Suc_ex add.commute)
    have w: "store_u32 m s cl = patch m s 4 (\<lambda>_. b)"
      unfolding store_u32_def assms(1) by (subst store_bytes_patch) (auto intro: patch_cong)
    have "k div 4 * 4 \<le> k" by simp
    then have "patch (patch m s 4 (\<lambda>_. b)) (s + 4) (4 * (k div 4)) (\<lambda>_. b) = patch m s (4 + 4 * (k div 4)) (\<lambda>_. b)"
      using patch_add [of 4 "4 * (k div 4)" m s "\<lambda>_. b"] less.prems k by simp
    then show ?thesis
      using less.IH [of k "patch m s 4 (\<lambda>_. b)" "s + 4"] less.prems k
      by (subst memset_words.simps) (simp add: w div_add_4)
  qed
qed

lemma memset_patch: "memset m s c n = (s, patch m s (unat n) (\<lambda>_. ucast c))"
proof -
  have n: "unat n < 4294967296" by (rule unat_u32_less)
  have "unat n div 4 * 4 + unat n mod 4 = unat n" by simp
  then have a: "patch (patch m s (4 * (unat n div 4)) (\<lambda>_. ucast c)) (s + of_nat (4 * (unat n div 4)))
      (unat n mod 4) (\<lambda>_. ucast c) = patch m s (unat n) (\<lambda>_. ucast c)"
    using patch_add [of "4 * (unat n div 4)" "unat n mod 4" m s "\<lambda>_. ucast c"] n
    by (simp add: mult.commute)
  show ?thesis
    unfolding memset_def Let_def memset_words_patch [OF fill_word_bytes n]
    using n a by (auto simp: memset_bytes_patch less_imp_le)
qed

text \<open>
  \<open>memset\<close> stores the low byte of \<open>c\<close> in each of the \<open>n\<close> bytes from \<open>s\<close> on and nowhere else, by words
  when \<open>s\<close> is aligned and by bytes when it is not.
\<close>

theorem memset_correct: "memset m s c n = (s, patch m s (unat n) (\<lambda>_. ucast c))"
  by (rule memset_patch)

definition disjoint_regions :: "u32 \<Rightarrow> u32 \<Rightarrow> nat \<Rightarrow> bool" where
  "disjoint_regions d s n \<longleftrightarrow> (\<forall>i<n. \<forall>j<n. d + of_nat j \<noteq> s + of_nat i)"

lemma disjoint_ascending: "disjoint_regions d s n \<Longrightarrow> ascending_safe d s n"
  unfolding disjoint_regions_def ascending_safe_def by (meson less_trans)

lemma disjoint_regions_mono: "disjoint_regions d s n \<Longrightarrow> k \<le> n \<Longrightarrow> disjoint_regions d s k"
  unfolding disjoint_regions_def by (meson less_le_trans)

lemma blit_source:
  assumes "disjoint_regions d s n" and "i < n" and "k \<le> n"
  shows "blit m d s k (s + of_nat i) = m (s + of_nat i)"
proof (rule blit_outside, rule ccontr)
  assume "\<not> k \<le> unat (s + of_nat i - d)"
  then have "unat (s + of_nat i - d) < n" using assms by simp
  then have "d + of_nat (unat (s + of_nat i - d)) \<noteq> s + of_nat i"
    using assms unfolding disjoint_regions_def by blast
  then show False using addr_offset [of "s + of_nat i" d] by simp
qed

lemma blit_add:
  assumes "disjoint_regions d s (a + b)" and "a < 4294967296" and "a + b \<le> 4294967296"
  shows "blit (blit m d s a) (d + of_nat a) (s + of_nat a) b = blit m d s (a + b)"
proof -
  have "blit (blit m d s a) (d + of_nat a) (s + of_nat a) b
      = patch (blit m d s a) (d + of_nat a) b (\<lambda>i. m (s + of_nat (a + i)))"
    unfolding blit_def [of "blit m d s a"]
  proof (rule patch_cong)
    fix i assume "i < b"
    then show "blit m d s a (s + of_nat a + of_nat i) = m (s + of_nat (a + i))"
      using blit_source [OF assms(1), of "a + i" a m] by (simp add: add.assoc)
  qed
  also have "\<dots> = blit m d s (a + b)"
    using patch_add [of a b m d "\<lambda>i. m (s + of_nat i)"] assms by (simp only: blit_def)
  finally show ?thesis .
qed

lemma store_load_u32: "store_u32 m d (load_u32 m s) = blit m d s 4"
proof -
  have "le_bytes 4 (load_u32 m s) = load_bytes m s 4"
    using le_bytes_le_word [of "load_bytes m s 4", where 'a = 32] by (simp add: load_u32_def)
  then show ?thesis
    unfolding store_u32_def blit_def
    by (simp add: store_bytes_patch) (auto intro: patch_cong simp: nth_load_bytes)
qed

lemma disjoint_regions_shift:
  assumes "disjoint_regions d s (a + b)"
  shows "disjoint_regions (d + of_nat a) (s + of_nat a) b"
  unfolding disjoint_regions_def
proof (intro allI impI)
  fix i j assume "i < b" "j < b"
  then have "d + of_nat (a + j) \<noteq> s + of_nat (a + i)"
    using assms unfolding disjoint_regions_def by (meson add_less_cancel_left)
  then show "d + of_nat a + of_nat j \<noteq> s + of_nat a + of_nat i" by (simp add: add.assoc)
qed

lemma copy_words_blit:
  assumes "disjoint_regions d s n" and "n < 4294967296"
  shows "copy_words m d s n = (blit m d s (4 * (n div 4)), d + of_nat (4 * (n div 4)),
    s + of_nat (4 * (n div 4)), n mod 4)"
  using assms
proof (induction n arbitrary: m d s rule: less_induct)
  case (less n)
  show ?case
  proof (cases "4 \<le> n")
    case False
    then show ?thesis by (subst copy_words.simps) (simp add: blit_def)
  next
    case True
    then obtain k where k: "n = 4 + k" using le_Suc_ex by blast
    have d: "disjoint_regions d s (4 + 4 * (k div 4))"
      by (rule disjoint_regions_mono [OF less.prems(1)]) (simp add: k)
    have "k div 4 * 4 \<le> k" by simp
    then have "blit (blit m d s 4) (d + 4) (s + 4) (4 * (k div 4)) = blit m d s (4 + 4 * (k div 4))"
      using blit_add [OF d, of m] less.prems k by simp
    then show ?thesis
      using less.IH [of k "d + 4" "s + 4" "blit m d s 4"] less.prems k
        disjoint_regions_shift [of d s 4 k]
      by (subst copy_words.simps) (simp add: store_load_u32 div_add_4)
  qed
qed

text \<open>
  \<open>memcpy\<close> between regions that do not overlap copies the source, whole words at a time when both
  pointers are aligned, and changes nothing outside the destination.
\<close>

theorem memcpy_correct:
  assumes "disjoint_regions dest src (unat n)"
  shows "\<exists>m'. memcpy m dest src n = (dest, m') \<and> load_bytes m' dest (unat n) = load_bytes m src (unat n)
    \<and> (\<forall>a. unat n \<le> unat (a - dest) \<longrightarrow> m' a = m a)"
proof -
  have n: "unat n < 4294967296" by (rule unat_u32_less)
  have s: "4 * (unat n div 4) + unat n mod 4 = unat n" by simp
  have "copy_up (blit m dest src (4 * (unat n div 4))) (dest + of_nat (4 * (unat n div 4)))
      (src + of_nat (4 * (unat n div 4))) (unat n mod 4) = blit m dest src (unat n)"
    using blit_add [of dest src "4 * (unat n div 4)" "unat n mod 4" m] assms n s
      disjoint_ascending [OF disjoint_regions_shift, of dest src "4 * (unat n div 4)" "unat n mod 4"]
    by (subst copy_up_blit) simp_all
  then have "memcpy m dest src n = (dest, blit m dest src (unat n))"
    using assms n unfolding memcpy_def
    by (auto simp: copy_words_blit copy_up_blit disjoint_ascending less_imp_le blit_def patch_def fun_eq_iff)
  then show ?thesis using n by (simp add: blit_load blit_outside less_imp_le)
qed


section \<open>Strings\<close>

lemma str_end_cstr: "cstr m p cs \<Longrightarrow> str_end m p = Some (p + of_nat (length cs))"
proof (induction cs arbitrary: p)
  case Nil
  then show ?case by (subst str_end.simps) simp
next
  case (Cons c cs)
  then show ?case by (subst str_end.simps) (simp add: algebra_simps)
qed

lemma strlen_cstr: "cstr m s cs \<Longrightarrow> strlen m s = Some (of_nat (length cs))"
  by (simp add: strlen_def str_end_cstr)

text \<open>A string copied while it is read.\<close>

lemma strcpy_loop_cstr:
  "cstr m src cs \<Longrightarrow> ascending_safe dest src (Suc (length cs)) \<Longrightarrow>
    strcpy_loop m dest src = Some (copy_up m dest src (Suc (length cs)))"
proof (induction cs arbitrary: m dest src)
  case Nil
  then show ?case by (subst strcpy_loop.simps) simp
next
  case (Cons c cs)
  define m' where "m' = m(dest := m src)"
  have "src + 1 + of_nat i \<noteq> dest" if "i \<le> length cs" for i
    using ascending_safe_ne [OF Cons.prems(2), of "Suc i"] that by (simp add: add.assoc)
  then have "cstr m' (src + 1) cs"
    using Cons.prems(1) by (intro cstr_cong [of m "src + 1" cs m']) (auto simp: m'_def)
  moreover have "ascending_safe (dest + 1) (src + 1) (Suc (length cs))"
    using ascending_safe_tail [OF Cons.prems(2)] by simp
  ultimately have "strcpy_loop m' (dest + 1) (src + 1) = Some (copy_up m' (dest + 1) (src + 1) (Suc (length cs)))"
    by (rule Cons.IH)
  moreover have "strcpy_loop m dest src = strcpy_loop m' (dest + 1) (src + 1)"
    using Cons.prems(1) by (subst strcpy_loop.simps) (simp add: m'_def Let_def)
  moreover have "copy_up m dest src (Suc (length (c # cs))) = copy_up m' (dest + 1) (src + 1) (Suc (length cs))"
    by (simp add: m'_def)
  ultimately show ?case by (simp only:)
qed

lemma strcpy_loop_blit:
  assumes "cstr m src cs" and "ascending_safe dest src (Suc (length cs))"
  shows "strcpy_loop m dest src = Some (blit m dest src (Suc (length cs)))"
  using strcpy_loop_cstr [OF assms] copy_up_blit [OF assms(2), of m] cstr_length [OF assms(1)] by simp

lemma cstr_blit:
  assumes "cstr m src cs"
  shows "cstr (blit m dest src (Suc (length cs))) dest cs"
  using assms cstr_length [OF assms] by (simp add: cstr_iff blit_load)

text \<open>
  \<open>strcat\<close> appends the second string to the first, provided the bytes it writes behind the first
  string are not read later as part of the second; both strings with the terminator fit in memory.
\<close>

theorem strcat_correct:
  assumes "cstr m dest xs" and "cstr m src ys"
    and "ascending_safe (dest + of_nat (length xs)) src (Suc (length ys))"
    and "length xs + length ys < 4294967296"
  shows "\<exists>m'. strcat m dest src = Some (dest, m') \<and> cstr m' dest (xs @ ys)
    \<and> (\<forall>a. length xs + length ys < unat (a - dest) \<longrightarrow> m' a = m a)"
proof -
  let ?d = "dest + of_nat (length xs)" and ?n = "Suc (length ys)"
  let ?m = "blit m ?d src ?n"
  have lx: "length xs < 4294967296" using assms(4) by simp
  have out: "?m a = m a" if "unat (a - dest) < length xs \<or> length xs + length ys < unat (a - dest)" for a
    using that assms(4) by (intro blit_outside) (auto simp: unat_diff_add [OF lx])
  have "strcat m dest src = Some (dest, ?m)"
    by (simp add: strcat_def str_end_cstr [OF assms(1)] strcpy_loop_blit [OF assms(2, 3)])
  moreover have "load_bytes ?m dest (length xs) = load_bytes m dest (length xs)"
    using out lx by (intro load_bytes_cong) (simp add: unat_of_nat_u32)
  then have "cstr ?m dest (xs @ ys)"
    using assms(1) cstr_blit [OF assms(2), of ?d] cstr_append [of m dest xs "[]"]
    by (simp add: cstr_append)
  ultimately show ?thesis using out by blast
qed

text \<open>The first difference of two strings, with the terminator as the last character.\<close>

fun str_diff :: "bytes \<Rightarrow> bytes \<Rightarrow> u8" where
  "str_diff [] [] = 0"
| "str_diff (x # xs) [] = x"
| "str_diff [] (y # ys) = - y"
| "str_diff (x # xs) (y # ys) = (if x = y then str_diff xs ys else x - y)"

lemma str_diff_0: "0 \<notin> set xs \<Longrightarrow> 0 \<notin> set ys \<Longrightarrow> str_diff xs ys = 0 \<longleftrightarrow> xs = ys"
  by (induction xs ys rule: str_diff.induct) auto

text \<open>
  \<open>strcmp\<close> returns, and its result is the first difference of the strings as a \<open>signed char\<close>: 0
  exactly when the strings are equal.
\<close>

theorem strcmp_correct:
  assumes "cstr m cs xs" and "cstr m ct ys"
  shows "strcmp m cs ct = Some (sint (str_diff xs ys)) \<and> (sint (str_diff xs ys) = 0 \<longleftrightarrow> xs = ys)"
proof
  show "strcmp m cs ct = Some (sint (str_diff xs ys))"
    using assms by (induction xs ys arbitrary: cs ct rule: str_diff.induct; subst strcmp.simps; auto simp: Let_def)
  show "sint (str_diff xs ys) = 0 \<longleftrightarrow> xs = ys"
    using str_diff_0 [OF cstr_nonzero [OF assms(1)] cstr_nonzero [OF assms(2)]]
    by (simp only: signed_eq_0_iff)
qed

lemma memcmp_loop_0: "memcmp_loop m a b n 0 = 0 \<longleftrightarrow> load_bytes m a n = load_bytes m b n"
proof (induction n arbitrary: a b)
  case (Suc n)
  have "uint (m a) - uint (m b) = 0 \<longleftrightarrow> m a = m b" by (simp add: word_uint_eq_iff)
  then show ?case using Suc by (auto simp: Let_def load_bytes_Suc)
qed simp

lemma memcmp_0: "memcmp m a b n = 0 \<longleftrightarrow> load_bytes m a (unat n) = load_bytes m b (unat n)"
  by (simp add: memcmp_def memcmp_loop_0)


text \<open>
  The prefix test of \<open>strstr\<close> on the string's remaining characters.
\<close>

lemma load_prefix_cstr:
  assumes "cstr m s xs" and "cstr m t ys" and "length ys \<le> length xs"
  shows "load_bytes m s (length ys) = load_bytes m t (length ys) \<longleftrightarrow> prefix ys xs"
proof -
  have "load_bytes m t (length ys) = ys"
    using assms(2) cstr_append [of m t ys "[]"] by simp
  moreover have "load_bytes m s (length ys) = take (length ys) xs"
    using cstr_append [of m s "take (length ys) xs" "drop (length ys) xs"] assms(1, 3) by simp
  ultimately show ?thesis using assms(3) by (metis append_eq_conv_conj prefix_def)
qed

definition first_match :: "bytes \<Rightarrow> bytes \<Rightarrow> nat \<Rightarrow> bool" where
  "first_match ys xs k \<longleftrightarrow> k \<le> length xs \<and> prefix ys (drop k xs) \<and> (\<forall>j<k. \<not> prefix ys (drop j xs))"

lemma first_match_Suc:
  "\<not> prefix ys (x # xs) \<Longrightarrow> first_match ys (x # xs) (Suc k) \<longleftrightarrow> first_match ys xs k"
  by (force simp: first_match_def less_Suc_eq_0_disj)

lemma strstr_loop_cstr:
  assumes "cstr m s2 ys" and "length ys < 2147483648"
  shows "cstr m s1 xs \<Longrightarrow>
    (\<exists>k. first_match ys xs k \<and> strstr_loop m s2 (int (length ys)) (int (length xs)) s1 = s1 + of_nat k)
    \<or> (\<not> sublist ys xs \<and> strstr_loop m s2 (int (length ys)) (int (length xs)) s1 = 0)"
proof (induction xs arbitrary: s1)
  case Nil
  have "unat (word_of_int (int (length ys)) :: u32) = length ys"
    using assms(2) by (simp add: unat_of_nat_u32)
  then show ?case
    using assms(1) Nil
    by (subst (1 2) strstr_loop.simps) (auto simp: memcmp_0 first_match_def)
next
  case (Cons x xs)
  have n: "unat (word_of_int (int (length ys)) :: u32) = length ys"
    using assms(2) by (simp add: unat_of_nat_u32)
  show ?case
  proof (cases "length ys \<le> length (x # xs) \<and> prefix ys (x # xs)")
    case True
    then have "strstr_loop m s2 (int (length ys)) (int (length (x # xs))) s1 = s1"
      using load_prefix_cstr [OF Cons.prems assms(1)] n
      by (subst strstr_loop.simps) (auto simp: memcmp_0)
    moreover have "first_match ys (x # xs) 0" using True by (simp add: first_match_def)
    ultimately show ?thesis by (intro disjI1 exI [where x = 0]) simp
  next
    case False
    have np: "\<not> prefix ys (x # xs)" using False prefix_length_le by blast
    show ?thesis
    proof (cases "length ys \<le> length (x # xs)")
      case True
      then have e: "strstr_loop m s2 (int (length ys)) (int (length (x # xs))) s1
          = strstr_loop m s2 (int (length ys)) (int (length xs)) (s1 + 1)"
        using load_prefix_cstr [OF Cons.prems assms(1)] n np
        by (subst strstr_loop.simps) (auto simp: memcmp_0)
      have "cstr m (s1 + 1) xs" using Cons.prems by simp
      from Cons.IH [OF this] show ?thesis
      proof (elim disjE exE conjE)
        fix k
        assume "first_match ys xs k"
          and "strstr_loop m s2 (int (length ys)) (int (length xs)) (s1 + 1) = s1 + 1 + of_nat k"
        then have "first_match ys (x # xs) (Suc k)
          \<and> strstr_loop m s2 (int (length ys)) (int (length (x # xs))) s1 = s1 + of_nat (Suc k)"
          unfolding e first_match_Suc [OF np] by (simp add: add.assoc)
        then show ?thesis by blast
      next
        assume "\<not> sublist ys xs" and "strstr_loop m s2 (int (length ys)) (int (length xs)) (s1 + 1) = 0"
        then show ?thesis unfolding e using np by (simp add: sublist_Cons_right)
      qed
    next
      case short: False
      then have "\<not> sublist ys (x # xs)" using sublist_length_le by blast
      then show ?thesis using short by (subst (1 2) strstr_loop.simps) simp
    qed
  qed
qed

text \<open>
  C35. \<open>strstr\<close> on strings shorter than \<open>2 ^ 31\<close> returns the first place where the second string occurs in
  the first, and NULL when it does not occur.
\<close>

theorem strstr_correct:
  assumes "cstr m s1 xs" and "cstr m s2 ys" and "length xs < 2147483648" and "length ys < 2147483648"
  shows "(\<exists>k. first_match ys xs k \<and> strstr m s1 s2 = Some (s1 + of_nat k))
    \<or> (\<not> sublist ys xs \<and> strstr m s1 s2 = Some 0)"
proof (cases "ys = []")
  case True
  then have "first_match ys xs 0" by (simp add: first_match_def)
  then show ?thesis using True strlen_cstr [OF assms(2)] by (auto simp: strstr_def intro: exI [where x = 0])
next
  case False
  have si: "sint (of_nat k :: u32) = int k" if "k < 2147483648" for k
    using that by (simp add: signed_of_nat signed_take_bit_int_eq_self)
  have "strstr m s1 s2 = Some (strstr_loop m s2 (int (length ys)) (int (length xs)) s1)"
    using False si assms by (simp add: strstr_def strlen_cstr)
  then show ?thesis using strstr_loop_cstr [OF assms(2, 4, 1)] by auto
qed


section \<open>Tokens of a string\<close>

lemma char_scan_cstr:
  "cstr m a ds \<Longrightarrow> \<exists>a'. char_scan m c a = Some a' \<and> (m a' \<noteq> 0 \<longleftrightarrow> c \<in> set ds)"
proof (induction ds arbitrary: a)
  case Nil
  then show ?case by (subst char_scan.simps) simp
next
  case (Cons d ds)
  then obtain a' where "char_scan m c (a + 1) = Some a'" "m a' \<noteq> 0 \<longleftrightarrow> c \<in> set ds" by auto
  then show ?case using Cons.prems by (subst char_scan.simps) auto
qed

lemma strspn_loop_cstr:
  assumes "cstr m ct ds"
  shows "cstr m p cs \<Longrightarrow>
    strspn_loop m ct p n = Some (n + of_nat (length (takeWhile (\<lambda>c. c \<in> set ds) cs)))"
proof (induction cs arbitrary: p n)
  case Nil
  then show ?case by (subst strspn_loop.simps) simp
next
  case (Cons c cs)
  obtain a' where "char_scan m c ct = Some a'" "m a' \<noteq> 0 \<longleftrightarrow> c \<in> set ds"
    using char_scan_cstr [OF assms] by blast
  then show ?case using Cons by (subst strspn_loop.simps) (auto simp: algebra_simps)
qed

lemma strpbrk_cstr:
  assumes "cstr m ct ds"
  shows "cstr m p cs \<Longrightarrow> strpbrk m p ct = Some (if \<exists>c\<in>set cs. c \<in> set ds
    then p + of_nat (length (takeWhile (\<lambda>c. c \<notin> set ds) cs)) else 0)"
proof (induction cs arbitrary: p)
  case Nil
  then show ?case by (subst strpbrk.simps) simp
next
  case (Cons c cs)
  obtain a' where "char_scan m c ct = Some a'" "m a' \<noteq> 0 \<longleftrightarrow> c \<in> set ds"
    using char_scan_cstr [OF assms] by blast
  then show ?case using Cons by (subst strpbrk.simps) (auto simp: algebra_simps)
qed

text \<open>A string cut at one of its characters leaves two strings.\<close>

lemma cstr_cut:
  assumes "cstr m s (xs @ y # ys)" and "unat s + length (xs @ y # ys) < 4294967296"
  shows "cstr (m(s + of_nat (length xs) := 0)) s xs
    \<and> cstr (m(s + of_nat (length xs) := 0)) (s + of_nat (length xs) + 1) ys"
proof -
  let ?p = "s + of_nat (length xs)"
  have ne: "s + of_nat i \<noteq> ?p" if "i \<noteq> length xs" "i \<le> length (xs @ y # ys)" for i
  proof
    assume "s + of_nat i = ?p"
    then have "unat (of_nat i :: u32) = unat (of_nat (length xs) :: u32)" by simp
    then show False using that assms(2) by (simp add: unat_of_nat_u32)
  qed
  have "load_bytes m s (length xs) = xs" and "0 \<notin> set xs" and t: "cstr m ?p (y # ys)"
    using assms(1) by (simp_all add: cstr_append)
  moreover have "load_bytes (m(?p := 0)) s (length xs) = load_bytes m s (length xs)"
    using ne by (intro load_bytes_cong) auto
  ultimately have "cstr (m(?p := 0)) s xs" using cstr_append [of "m(?p := 0)" s xs "[]"] by simp
  moreover have "cstr (m(?p := 0)) (?p + 1) ys"
  proof (rule cstr_cong)
    show "cstr m (?p + 1) ys" using t by simp
    fix i assume "i \<le> length ys"
    then show "(m(?p := 0)) (?p + 1 + of_nat i) = m (?p + 1 + of_nat i)"
      using ne [of "Suc (length xs + i)"] by (auto simp: algebra_simps)
  qed
  ultimately show ?thesis ..
qed

text \<open>What the next call of \<open>strtok\<close> will look at.\<close>

definition token :: "bytes \<Rightarrow> bytes \<Rightarrow> bytes" where
  "token ds cs = takeWhile (\<lambda>c. c \<notin> set ds) (dropWhile (\<lambda>c. c \<in> set ds) cs)"

definition after_token :: "bytes \<Rightarrow> bytes \<Rightarrow> bytes" where
  "after_token ds cs = dropWhile (\<lambda>c. c \<notin> set ds) (dropWhile (\<lambda>c. c \<in> set ds) cs)"

text \<open>
  C22. A call of \<open>strtok\<close> on a string that does not wrap returns NULL when only delimiters are left.
  Otherwise it returns a string that is the next maximal run of other characters, and the saved
  position is NULL when that run ended the string and else holds the characters behind the one
  delimiter that ended the run.
\<close>

theorem strtok_correct:
  assumes str: "cstr m s cs" and set: "cstr m ct ds" and s: "s \<noteq> 0"
    and wrap: "unat s + length cs < 4294967296"
  shows "\<exists>ret m' pos. strtok m s ct p = Some (ret, m', pos)
    \<and> (if token ds cs = [] then ret = 0 \<and> pos = 0 \<and> m' = m
       else cstr m' ret (token ds cs)
         \<and> (if after_token ds cs = [] then pos = 0 else pos \<noteq> 0 \<and> cstr m' pos (tl (after_token ds cs))))"
proof -
  define D where "D = (\<lambda>c. c \<in> set ds)"
  define sk where "sk = takeWhile D cs"
  define ts where "ts = dropWhile D cs"
  define rest where "rest = dropWhile (\<lambda>c. \<not> D c) ts"
  define b where "b = s + of_nat (length sk)"
  have tok: "token ds cs = takeWhile (\<lambda>c. \<not> D c) ts" and aft: "after_token ds cs = rest"
    by (simp_all add: token_def after_token_def D_def ts_def rest_def)
  have cs: "cs = sk @ ts" by (simp add: sk_def ts_def)
  have ts: "ts = token ds cs @ rest" by (simp add: tok rest_def)
  have tb: "cstr m b ts" using str by (simp add: cs cstr_append b_def)
  have bw: "unat b + length ts < 4294967296" and b0: "unat b = unat s + length sk"
    using wrap by (simp_all add: cs b_def unat_add_offset)
  have skip: "strspn m s ct = Some (of_nat (length sk))"
    using strspn_loop_cstr [OF set str, of 0] by (simp add: strspn_def sk_def D_def)
  have head: "ts \<noteq> [] \<Longrightarrow> \<not> D (hd ts)" unfolding ts_def by (rule hd_dropWhile)
  show ?thesis
  proof (cases "ts = []")
    case True
    then have "m b = 0" using tb by simp
    then show ?thesis using True s skip by (simp add: strtok_def tok b_def)
  next
    case False
    then obtain t ts' where tc: "ts = t # ts'" by (cases ts) auto
    then have mb: "m b \<noteq> 0" and nt: "token ds cs \<noteq> []" using tb head by (simp_all add: tok)
    have any: "(\<exists>c\<in>set ts. c \<in> set ds) \<longleftrightarrow> rest \<noteq> []"
      by (auto simp: rest_def D_def dropWhile_eq_Nil_conv)
    have brk: "strpbrk m b ct = Some (if rest \<noteq> [] then b + of_nat (length (token ds cs)) else 0)"
      using strpbrk_cstr [OF set tb] any by (simp add: tok D_def)
    show ?thesis
    proof (cases rest)
      case Nil
      then have "strtok m s ct p = Some (b, m, 0)"
        using mb s skip brk by (simp add: strtok_def b_def)
      moreover have "cstr m b (token ds cs)" using tb ts Nil by simp
      ultimately show ?thesis using nt Nil aft by simp
    next
      case (Cons y ys)
      let ?e = "b + of_nat (length (token ds cs))"
      have tb': "cstr m b (token ds cs @ y # ys)" and bw': "unat b + length (token ds cs @ y # ys) < 4294967296"
        using tb bw ts Cons by simp_all
      have "m ?e \<noteq> 0" using tb' by (auto simp: cstr_append)
      moreover have "unat ?e = unat b + length (token ds cs)" and e1: "unat (?e + 1) = unat b + length (token ds cs) + 1"
        using bw' by (simp_all add: unat_add_offset unat_add_small)
      moreover have "unat s \<noteq> 0" using s by (simp add: unsigned_eq_0_iff)
      ultimately have "?e \<noteq> 0" and "?e + 1 \<noteq> 0" and "m ?e \<noteq> 0" using b0 by auto
      then have "strtok m s ct p = Some (b, m(?e := 0), ?e + 1)"
        using mb s skip brk Cons by (simp add: strtok_def b_def Let_def)
      then show ?thesis using cstr_cut [OF tb' bw'] nt aft Cons \<open>?e + 1 \<noteq> 0\<close> by auto
    qed
  qed
qed


section \<open>The routines on concrete strings\<close>

text \<open>The string \<open>ab,cb\<close> at address 16, the set \<open>,\<close> at 32, the string \<open>cb\<close> at 48.\<close>

definition sample_memory :: memory where
  "sample_memory = store_bytes (store_bytes (store_bytes (\<lambda>_. 0) 16 [97, 98, 44, 99, 98]) 32 [44]) 48 [99, 98]"

lemma sample_strings:
  "cstr sample_memory 16 [97, 98, 44, 99, 98]" "cstr sample_memory 32 [44]" "cstr sample_memory 48 [99, 98]"
  by (simp_all add: sample_memory_def)

lemma memmove_correct_witness:
  "\<exists>m'. memmove sample_memory 18 16 4 = (18, m') \<and> load_bytes m' 18 4 = load_bytes sample_memory 16 4"
  using memmove_correct [of 18 4 16 sample_memory] by auto

lemma memcpy_correct_witness:
  "\<exists>m'. memcpy sample_memory 64 16 5 = (64, m') \<and> load_bytes m' 64 5 = load_bytes sample_memory 16 5"
proof -
  have "disjoint_regions 64 16 5"
    unfolding disjoint_regions_def
  proof (intro allI impI)
    fix i j :: nat assume "i < 5" "j < 5"
    then have "unat (64 + of_nat j :: u32) = 64 + j" "unat (16 + of_nat i :: u32) = 16 + i"
      by (simp_all add: unat_add_offset)
    then have "unat (64 + of_nat j :: u32) \<noteq> unat (16 + of_nat i :: u32)" using \<open>i < 5\<close> by simp
    then show "64 + of_nat j \<noteq> (16 + of_nat i :: u32)" by metis
  qed
  then show ?thesis using memcpy_correct [of 64 16 5 sample_memory] by auto
qed

lemma strcat_correct_witness:
  "\<exists>m'. strcat sample_memory 16 48 = Some (16, m') \<and> cstr m' 16 ([97, 98, 44, 99, 98] @ [99, 98])"
proof -
  have "ascending_safe (16 + of_nat (length [97, 98, 44, 99, 98 :: u8])) 48 (Suc (length [99, 98 :: u8]))"
    by (rule disjoint_ascending) (auto simp: disjoint_regions_def less_Suc_eq)
  then show ?thesis
    using strcat_correct [OF sample_strings(1, 3)] by auto
qed

lemma strcmp_correct_witness: "\<exists>r. strcmp sample_memory 16 48 = Some r \<and> r \<noteq> 0"
  using strcmp_correct [OF sample_strings(1, 3)] by auto

lemma strstr_correct_witness: "strstr sample_memory 16 48 = Some 19"
proof -
  let ?xs = "[97, 98, 44, 99, 98 :: u8]"
  have k: "k = 3" if "first_match [99, 98] ?xs k" for k
  proof -
    have "\<not> 3 < k" using that by (auto simp: first_match_def)
    then have "k \<in> {0, 1, 2, 3}" by auto
    then show ?thesis using that by (auto simp: first_match_def)
  qed
  have "sublist [99, 98] ?xs" using sublist_appendI [of "[99, 98]" "[97, 98, 44]" "[] :: bytes"] by simp
  then show ?thesis using strstr_correct [OF sample_strings(1, 3)] k by fastforce
qed

lemma strtok_correct_witness:
  "token [44] [97, 98, 44, 99, 98 :: u8] = [97, 98] \<and> after_token [44] [97, 98, 44, 99, 98 :: u8] = [44, 99, 98] \<and>
    (\<exists>ret m' pos. strtok sample_memory 16 32 0 = Some (ret, m', pos) \<and> cstr m' ret [97, 98] \<and> cstr m' pos [99, 98])"
proof -
  have t: "token [44] [97, 98, 44, 99, 98 :: u8] = [97, 98]" "after_token [44] [97, 98, 44, 99, 98 :: u8] = [44, 99, 98]"
    by (simp_all add: token_def after_token_def)
  then show ?thesis using strtok_correct [OF sample_strings(1, 2), of 0] by auto
qed

end
