(* ===== verification/Ctype.thy ===== *)
theory Ctype
  imports Memory
begin

text \<open>
  include/linux/ctype.h and lib/ctype.c: character classes by a table of flag bits.  The table is
  written as its runs of equal entries, expanded by \<open>ctype_table\<close>.
\<close>

definition C_upper :: u8 where "C_upper = 0x01"
definition C_lower :: u8 where "C_lower = 0x02"
definition C_digit :: u8 where "C_digit = 0x04"
definition C_cntrl :: u8 where "C_cntrl = 0x08"
definition C_punct :: u8 where "C_punct = 0x10"
definition C_space :: u8 where "C_space = 0x20"
definition C_hex :: u8 where "C_hex = 0x40"
definition C_hard :: u8 where "C_hard = 0x80"

lemmas ctype_flags = C_upper_def C_lower_def C_digit_def C_cntrl_def C_punct_def C_space_def
  C_hex_def C_hard_def

definition ctype_runs :: "(nat \<times> u8) list" where
  "ctype_runs =
    [(9, C_cntrl), (5, C_cntrl OR C_space), (18, C_cntrl), (1, C_space OR C_hard), (15, C_punct),
     (10, C_digit), (7, C_punct), (6, C_upper OR C_hex), (20, C_upper), (6, C_punct), (6, C_lower OR
     C_hex), (20, C_lower), (4, C_punct), (1, C_cntrl), (32, 0), (1, C_space OR C_hard), (31,
     C_punct), (23, C_upper), (1, C_punct), (7, C_upper), (24, C_lower), (1, C_punct), (8, C_lower)]"

definition ctype_table :: "u8 list" where
  "ctype_table = concat (map (\<lambda>(n, f). replicate n f) ctype_runs)"

definition ismask :: "u8 \<Rightarrow> u8" where
  "ismask x = ctype_table ! unat x"

definition isalnum :: "u8 \<Rightarrow> bool" where
  "isalnum c \<longleftrightarrow> ismask c AND (C_upper OR C_lower OR C_digit) \<noteq> 0"

definition isdigit :: "u8 \<Rightarrow> bool" where
  "isdigit c \<longleftrightarrow> ismask c AND C_digit \<noteq> 0"

definition islower :: "u8 \<Rightarrow> bool" where
  "islower c \<longleftrightarrow> ismask c AND C_lower \<noteq> 0"

definition isprint :: "u8 \<Rightarrow> bool" where
  "isprint c \<longleftrightarrow> ismask c AND (C_punct OR C_upper OR C_lower OR C_digit OR C_hard) \<noteq> 0"

definition isspace :: "u8 \<Rightarrow> bool" where
  "isspace c \<longleftrightarrow> ismask c AND C_space \<noteq> 0"

definition isupper :: "u8 \<Rightarrow> bool" where
  "isupper c \<longleftrightarrow> ismask c AND C_upper \<noteq> 0"

definition isxdigit :: "u8 \<Rightarrow> bool" where
  "isxdigit c \<longleftrightarrow> ismask c AND (C_digit OR C_hex) \<noteq> 0"

definition tolower :: "u8 \<Rightarrow> u8" where
  "tolower c = (if isupper c then c - (65 - 97) else c)"

definition toupper :: "u8 \<Rightarrow> u8" where
  "toupper c = (if islower c then c - (97 - 65) else c)"

section \<open>The classes of the ASCII characters\<close>

lemma length_ctype_table: "length ctype_table = 256"
  by (simp add: ctype_table_def ctype_runs_def)


fun run_lookup :: "(nat \<times> u8) list \<Rightarrow> nat \<Rightarrow> nat \<Rightarrow> u8" where
  "run_lookup [] b i = 0"
| "run_lookup ((n, f) # rs) b i = (if i < b + n then f else run_lookup rs (b + n) i)"

lemma nth_runs:
  "b \<le> i \<Longrightarrow> i < b + sum_list (map fst rs) \<Longrightarrow>
    concat (map (\<lambda>(n, f). replicate n f) rs) ! (i - b) = run_lookup rs b i"
proof (induction rs arbitrary: b)
  case (Cons r rs)
  obtain n f where r: "r = (n, f)" by (cases r)
  show ?case
  proof (cases "i < b + n")
    case False
    then have "i - b - n = i - (b + n)" and "\<not> i - b < n" by simp_all
    then show ?thesis using Cons False r by (simp add: nth_append)
  qed (use Cons r in \<open>auto simp: nth_append\<close>)
qed simp

lemma ismask_runs: "ismask c = run_lookup ctype_runs 0 (unat c)"
proof -
  have "sum_list (map fst ctype_runs) = 256" by (simp add: ctype_runs_def)
  then show ?thesis
    using nth_runs [of 0 "unat c" ctype_runs] unat_u8_less [of c] by (simp add: ismask_def ctype_table_def)
qed

lemma isdigit_iff: "isdigit c \<longleftrightarrow> 48 \<le> unat c \<and> unat c \<le> 57"
  unfolding isdigit_def ismask_runs ctype_runs_def run_lookup.simps by (simp add: ctype_flags)

lemma isxdigit_iff: "isxdigit c \<longleftrightarrow> 48 \<le> unat c \<and> unat c \<le> 57 \<or> 65 \<le> unat c \<and> unat c \<le> 70
    \<or> 97 \<le> unat c \<and> unat c \<le> 102"
  unfolding isxdigit_def ismask_runs ctype_runs_def run_lookup.simps by (simp add: ctype_flags)

lemma islower_ascii: "unat c < 128 \<Longrightarrow> islower c \<longleftrightarrow> 97 \<le> unat c \<and> unat c \<le> 122"
  unfolding islower_def ismask_runs ctype_runs_def run_lookup.simps by (simp add: ctype_flags)

lemma isupper_ascii: "unat c < 128 \<Longrightarrow> isupper c \<longleftrightarrow> 65 \<le> unat c \<and> unat c \<le> 90"
  unfolding isupper_def ismask_runs ctype_runs_def run_lookup.simps by (simp add: ctype_flags)

end
