(* ===== verification/Div64.thy ===== *)
theory Div64
  imports Prelude
begin

text \<open>
  lib/div64.c and include/div64.h: division of a 64-bit number by a 32-bit number without a 64-bit
  divide instruction.  The remainder is returned and the quotient replaces the dividend, so the
  functions return the pair of both.
\<close>

lemma sint_u64: "sint (b :: u64) = (if unat b < 2 ^ 63 then int (unat b) else int (unat b) - 2 ^ 64)"
proof -
  have "sint b = (uint b + 2 ^ 63) mod 2 ^ 64 - 2 ^ 63"
    by (simp add: sint_uint signed_take_bit_eq_take_bit_shift take_bit_eq_mod)
  moreover have u: "uint b = int (unat b)" by simp
  ultimately show ?thesis
    unfolding u using unat_u64_less [of b]
    by (auto simp: mod_pos_pos_trivial mod_pos_geq simp del: of_nat_unat)
qed

lemma sless_0_u64: "0 <s (b :: u64) \<longleftrightarrow> 0 < unat b \<and> unat b < 2 ^ 63"
  using unat_u64_less [of b] by (auto simp: word_sless_alt sint_u64 simp del: of_nat_unat)

lemma unat_double: "unat b < 2 ^ 63 \<Longrightarrow> unat (2 * b :: u64) = 2 * unat b"
  by (subst unat_mult_small) simp_all

section \<open>The code\<close>

text \<open>
  \<open>while ((int64_t)b > 0 && b < rem)\<close> doubles \<open>b\<close> and \<open>d\<close>: \<open>b\<close> grows in every pass and stays below \<open>2 ^ 64\<close>.
\<close>

function scale_up :: "u64 \<Rightarrow> u64 \<Rightarrow> u64 \<Rightarrow> u64 \<times> u64" where
  "scale_up rem b d = (if 0 <s b \<and> b < rem then scale_up rem (b + b) (d + d) else (b, d))"
  by auto
termination
  by (relation "measure (\<lambda>(rem, b, d). 2 ^ 64 - unat b)")
    (auto simp: sless_0_u64 unat_double intro!: diff_less_mono2)

declare scale_up.simps [simp del]

text \<open>\<open>do ... while (d)\<close>, one quotient bit in each pass; \<open>d\<close> is halved.\<close>

lemma halves: "drop_bit (Suc 0) d \<noteq> 0 \<Longrightarrow> unat d div 2 < unat (d :: u64)"
  by (cases "d = 0") (simp_all add: unat_gt_0)

function divide_bits :: "u64 \<Rightarrow> u64 \<Rightarrow> u64 \<Rightarrow> u64 \<Rightarrow> u64 \<times> u64" where
  "divide_bits rem res b d =
     (let (rem, res) = (if b \<le> rem then (rem - b, res + d) else (rem, res));
          b = drop_bit 1 b; d = drop_bit 1 d
      in if d \<noteq> 0 then divide_bits rem res b d else (rem, res))"
  by auto
termination
  by (relation "measure (\<lambda>(rem, res, b, d). unat d)") (auto simp: unat_drop_bit intro!: halves)

declare divide_bits.simps [simp del]

definition div64_32 :: "u64 \<Rightarrow> u32 \<Rightarrow> u32 \<times> u64" where
  "div64_32 n base =
     (let high = ucast (drop_bit 32 n) :: u32;
          (rem, res) = (if base \<le> high
                        then let high = high div base
                             in (n - push_bit 32 (ucast (high * base)), push_bit 32 (ucast high))
                        else (n, 0));
          (b, d) = scale_up rem (ucast base) 1;
          (rem, res) = divide_bits rem res b d
      in (ucast rem, res))"

definition do_div :: "u64 \<Rightarrow> u32 \<Rightarrow> u32 \<times> u64" where
  "do_div n base =
     (if drop_bit 32 n = 0 then ((ucast n) mod base, ucast ((ucast n) div base :: u32))
      else div64_32 n base)"

definition lldiv :: "u64 \<Rightarrow> u32 \<Rightarrow> u64" where
  "lldiv dividend divisor = snd (do_div dividend divisor)"

section \<open>Correctness\<close>

lemma divide_bits_value:
  assumes "0 < base" and "unat d = 2 ^ k" and "unat b = base * 2 ^ k"
    and "unat rem < 2 * (base * 2 ^ k)" and "unat res + unat rem div base < 2 ^ 64"
  shows "\<exists>rem' res'. divide_bits rem res b d = (rem', res') \<and> unat rem' = unat rem mod base
    \<and> unat res' = unat res + unat rem div base"
  using assms(2-5)
proof (induction k arbitrary: rem res b d)
  case 0
  then have b: "unat b = base" and "unat d = unat (1 :: u64)" by simp_all
  then have d: "d = 1" by (simp only: word_unat_eq_iff)
  show ?case
  proof (cases "b \<le> rem")
    case True
    then have le: "base \<le> unat rem" using b by (simp add: word_le_nat_alt)
    then have q: "unat rem div base = 1" and r: "unat rem mod base = unat rem - base"
      using 0(3) assms(1) by (simp_all add: div_nat_eqI mod_if [of "unat rem"] mod_if)
    have "unat (rem - b) = unat rem - base" using le b by (simp add: unat_sub_small)
    moreover have "unat (res + 1) = unat res + 1" using 0(4) q by (subst unat_add_small) simp_all
    ultimately show ?thesis using True d q r by (subst divide_bits.simps) simp
  next
    case False
    then have "unat rem < base" using b by (simp add: word_le_nat_alt)
    then show ?thesis using False d by (subst divide_bits.simps) simp
  qed
next
  case (Suc k)
  have d2: "unat (drop_bit 1 d) = 2 ^ k" and b2: "unat (drop_bit 1 b) = base * 2 ^ k"
    using Suc.prems(1, 2) by (simp_all add: unat_drop_bit)
  then have nz: "drop_bit 1 d \<noteq> 0" by auto
  show ?case
  proof (cases "b \<le> rem")
    case True
    then have le: "base * 2 ^ Suc k \<le> unat rem" using Suc.prems(2) by (simp add: word_le_nat_alt)
    then obtain r where r: "unat rem = r + base * 2 ^ Suc k" by (metis le_Suc_ex add.commute)
    have q: "unat rem div base = 2 ^ Suc k + r div base" and m: "unat rem mod base = r mod base"
      unfolding r using assms(1) by simp_all
    have ur: "unat (rem - b) = r" using le Suc.prems(2) r by (simp add: unat_sub_small)
    have us: "unat (res + d) = unat res + 2 ^ Suc k"
      using Suc.prems(1, 4) q by (subst unat_add_small) simp_all
    have "unat (rem - b) < 2 * (base * 2 ^ k)" using Suc.prems(3) r ur by simp
    moreover have "unat (res + d) + unat (rem - b) div base < 2 ^ 64" using Suc.prems(4) q ur us by simp
    ultimately obtain rem' res' where "divide_bits (rem - b) (res + d) (drop_bit 1 b) (drop_bit 1 d) = (rem', res')"
      and "unat rem' = unat (rem - b) mod base" "unat res' = unat (res + d) + unat (rem - b) div base"
      using Suc.IH [OF d2 b2] by blast
    then show ?thesis using True nz q m ur us by (subst divide_bits.simps) simp
  next
    case False
    then have "unat rem < 2 * (base * 2 ^ k)" using Suc.prems(2) by (simp add: word_le_nat_alt)
    then obtain rem' res' where "divide_bits rem res (drop_bit 1 b) (drop_bit 1 d) = (rem', res')"
      and "unat rem' = unat rem mod base" "unat res' = unat res + unat rem div base"
      using Suc.IH [OF d2 b2] Suc.prems(4) by blast
    then show ?thesis using False nz by (subst divide_bits.simps) simp
  qed
qed

text \<open>The doubled divisor ends above half of the dividend.\<close>

lemma scale_up_value:
  assumes "0 < base"
  shows "unat b = base * 2 ^ k \<Longrightarrow> unat d = 2 ^ k \<Longrightarrow>
    \<exists>b' d' j. scale_up rem b d = (b', d') \<and> unat b' = base * 2 ^ j \<and> unat d' = 2 ^ j
      \<and> unat rem < 2 * (base * 2 ^ j)"
proof (induction rem b d arbitrary: k rule: scale_up.induct)
  case (1 rem b d)
  have d_le: "unat d \<le> unat b" using 1(2, 3) assms by simp
  show ?case
  proof (cases "0 <s b \<and> b < rem")
    case True
    then have "unat b < 2 ^ 63" by (simp add: sless_0_u64)
    then have "unat d < 2 ^ 63" and "unat b < 2 ^ 63" using d_le by simp_all
    then have "unat (b + b) = base * 2 ^ Suc k" "unat (d + d) = 2 ^ Suc k"
      using unat_double [of b] unat_double [of d] 1(2, 3) by simp_all
    moreover have "scale_up rem b d = scale_up rem (b + b) (d + d)"
      using True by (subst scale_up.simps) simp
    ultimately show ?thesis using 1(1) [OF True] by metis
  next
    case False
    have "0 < unat b" using 1(2) assms by simp
    then have "unat rem < 2 * unat b"
      using False unat_u64_less [of rem] by (auto simp: sless_0_u64 word_less_nat_alt)
    then show ?thesis using 1(2, 3) False by (subst scale_up.simps) auto
  qed
qed

lemma div64_32_value:
  assumes "base \<noteq> 0"
  shows "unat (fst (div64_32 n base)) = unat n mod unat base
    \<and> unat (snd (div64_32 n base)) = unat n div unat base"
proof -
  define B where "B = unat base"
  have B: "0 < B" "B < 2 ^ 32" using assms unat_u32_less [of base] by (simp_all add: B_def unat_gt_0)
  define high where "high = (ucast (drop_bit 32 n) :: u32)"
  have uh: "unat high = unat n div 2 ^ 32"
    using unat_u64_less [of n] by (simp add: high_def unat_ucast_u64_u32 unat_drop_bit)
  define rem where "rem = (if base \<le> high then n - push_bit 32 (ucast (high div base * base)) else n)"
  define res where "res = (if base \<le> high then push_bit 32 (ucast (high div base)) else 0 :: u64)"
  define Q where "Q = unat high div B"
  have le: "Q * B * 2 ^ 32 \<le> unat n"
    unfolding Q_def uh using div_times_less_eq_dividend [of "unat n" "2 ^ 32"]
      div_times_less_eq_dividend [of "unat n div 2 ^ 32" B] by (meson le_trans mult_le_mono1)
  have up: "unat (push_bit 32 (ucast (x :: u32)) :: u64) = unat x * 2 ^ 32" for x
    using unat_u32_less [of x]
    by (simp only: push_bit_eq_mult, subst unat_mult_small) (simp_all add: unat_ucast_u32_u64)
  have uq: "unat (high div base) = Q" by (simp add: Q_def B_def unat_div)
  have "Q * B \<le> unat high" by (simp add: Q_def)
  then have um: "unat (high div base * base) = Q * B"
    using unat_u32_less [of high] by (subst unat_mult_small) (simp_all add: uq B_def)
  have urem: "unat rem = unat n - Q * B * 2 ^ 32" and ures: "unat res = Q * 2 ^ 32"
  proof -
    show "unat res = Q * 2 ^ 32"
      by (auto simp: res_def up uq word_le_nat_alt Q_def B_def)
    have "base \<le> high \<Longrightarrow> unat rem = unat n - Q * B * 2 ^ 32"
      using le by (simp add: rem_def unat_sub_small up um)
    then show "unat rem = unat n - Q * B * 2 ^ 32"
      by (cases "base \<le> high") (simp_all add: rem_def word_le_nat_alt Q_def B_def)
  qed
  have n: "unat n = unat rem + Q * 2 ^ 32 * B" using le urem by simp
  have quot: "unat n div B = Q * 2 ^ 32 + unat rem div B" and md: "unat n mod B = unat rem mod B"
    unfolding n using B by simp_all
  have bound: "unat res + unat rem div B < 2 ^ 64"
    using quot ures div_le_dividend [of "unat n" B] unat_u64_less [of n] by simp
  have "unat (ucast base :: u64) = B * 2 ^ 0" "unat (1 :: u64) = 2 ^ 0"
    by (simp_all add: unat_ucast_u32_u64 B_def)
  from scale_up_value [OF B(1) this, of rem]
  obtain b d j where s: "scale_up rem (ucast base) 1 = (b, d)" "unat b = B * 2 ^ j" "unat d = 2 ^ j"
    "unat rem < 2 * (B * 2 ^ j)" by blast
  from divide_bits_value [OF B(1) s(3, 2, 4) bound]
  obtain r q where dv: "divide_bits rem res b d = (r, q)" "unat r = unat rem mod B"
    "unat q = unat res + unat rem div B" by blast
  have "div64_32 n base = (ucast r, q)"
    using s(1) dv(1) by (simp add: div64_32_def Let_def high_def rem_def res_def split: if_splits)
  moreover have "unat r < 2 ^ 32" using dv(2) B mod_less_divisor [of B "unat rem"] by linarith
  then have "unat (ucast r :: u32) = unat r" by (simp add: unat_ucast_u64_u32)
  ultimately show ?thesis using dv quot md ures by (simp add: B_def)
qed

lemma do_div_value:
  assumes "base \<noteq> 0"
  shows "unat (fst (do_div n base)) = unat n mod unat base \<and> unat (snd (do_div n base)) = unat n div unat base"
proof (cases "drop_bit 32 n = 0")
  case True
  then have "unat n div 2 ^ 32 = 0" by (metis unat_drop_bit unsigned_0)
  then have "unat n < 4294967296" by (simp add: div_eq_0_iff)
  then have "unat (ucast n :: u32) = unat n" by (simp add: unat_ucast_u64_u32)
  then show ?thesis using True by (simp add: do_div_def unat_div unat_mod unat_ucast_u32_u64)
next
  case False
  then show ?thesis using div64_32_value [OF assms] by (simp add: do_div_def)
qed

text \<open>
  C30. For a non-zero divisor \<open>do_div\<close> returns the remainder and stores the quotient of the 64-bit
  dividend, also when the shift-and-subtract routine does the work.
\<close>

theorem do_div_correct:
  assumes "base \<noteq> 0"
  shows "do_div n base = (ucast (n mod ucast base), n div ucast base)"
proof -
  have b: "unat (ucast base :: u64) = unat base" by (simp add: unat_ucast_u32_u64)
  have "unat n mod unat base < 4294967296"
    using assms unat_u32_less [of base] mod_less_divisor [of "unat base" "unat n"]
    by (simp add: unat_gt_0 del: mod_less_divisor)
  then have "unat (fst (do_div n base)) = unat (ucast (n mod ucast base) :: u32)"
    and "unat (snd (do_div n base)) = unat (n div ucast base)"
    using do_div_value [OF assms, of n] by (simp_all add: unat_ucast_u64_u32 unat_mod unat_div b)
  then show ?thesis by (metis prod.collapse unsigned_word_eqI)
qed

lemma do_div_correct_witness:
  "do_div 0x123456789ABCDEF 100000 = (ucast (0x123456789ABCDEF mod ucast (100000 :: u32) :: u64), 0x123456789ABCDEF div ucast (100000 :: u32))"
  by (rule do_div_correct) simp

end
