(* ===== verification/Vsprintf.thy ===== *)
theory Vsprintf
  imports CString Ctype Div64
begin

text \<open>
  lib/vsprintf.c: numbers read from strings, and formatted output.  Texts are byte strings in memory;
  the routines that only produce characters return the list of the characters they append.  An \<open>int\<close>
  is an integer where it counts characters and a word where it is computed with.  The argument list
  of \<open>vsprintf\<close> is a list of 32-bit and 64-bit values; taking an argument of the wrong width, or one
  that is not there, has no result.  The network formats are not configured.
\<close>

section \<open>Reading numbers\<close>

definition digit_value :: "u8 \<Rightarrow> u32" where
  "digit_value c = (if isdigit c then ucast c - 48
     else (if islower c then ucast (toupper c) else ucast c) - 65 + 10)"

partial_function (option) strtoul_loop ::
  "memory \<Rightarrow> u32 \<Rightarrow> u32 \<Rightarrow> 'a::len word \<Rightarrow> ('a word \<times> u32) option" where
  "strtoul_loop m base cp result =
     (if isxdigit (m cp) \<and> digit_value (m cp) < base
      then strtoul_loop m base (cp + 1) (result * ucast base + ucast (digit_value (m cp)))
      else Some (result, cp))"

definition strtoul_prefix :: "memory \<Rightarrow> u32 \<Rightarrow> u32 \<Rightarrow> u32 \<times> u32" where
  "strtoul_prefix m cp base =
     (let (cp, base) =
        (if m cp = 48
         then let cp = cp + 1;
                  (cp, base) = (if m cp = 120 \<and> isxdigit (m (cp + 1)) then (cp + 1, 16) else (cp, base))
              in (cp, if base = 0 then 8 else base)
         else (cp, base))
      in (cp, if base = 0 then 10 else base))"

definition simple_strtoul :: "memory \<Rightarrow> u32 \<Rightarrow> u32 \<Rightarrow> (u32 \<times> u32) option" where
  "simple_strtoul m cp base = (let (cp, base) = strtoul_prefix m cp base in strtoul_loop m base cp 0)"

definition simple_strtoull :: "memory \<Rightarrow> u32 \<Rightarrow> u32 \<Rightarrow> (u64 \<times> u32) option" where
  "simple_strtoull m cp base = (let (cp, base) = strtoul_prefix m cp base in strtoul_loop m base cp 0)"

definition EINVAL :: int where
  "EINVAL = 22"

text \<open>The return code and \<open>*res\<close>.\<close>

definition strict_strtoul :: "memory \<Rightarrow> u32 \<Rightarrow> u32 \<Rightarrow> (int \<times> u32) option" where
  "strict_strtoul m cp base = do {
     len \<leftarrow> strlen m cp;
     if len = 0 then Some (- EINVAL, 0)
     else do {
       (val, tail) \<leftarrow> simple_strtoul m cp base;
       Some (if tail = cp then (- EINVAL, 0)
             else if m tail = 0 \<or> (len = (tail - cp) + 1 \<and> m tail = 10) then (0, val)
             else (- EINVAL, 0))
     }
   }"

definition simple_strtol :: "memory \<Rightarrow> u32 \<Rightarrow> u32 \<Rightarrow> (int \<times> u32) option" where
  "simple_strtol m cp base =
     (if m cp = 45 then do { (v, e) \<leftarrow> simple_strtoul m (cp + 1) base; Some (sint (- v), e) }
      else do { (v, e) \<leftarrow> simple_strtoul m cp base; Some (sint v, e) })"

definition ustrtoul :: "memory \<Rightarrow> u32 \<Rightarrow> u32 \<Rightarrow> (int \<times> u32) option" where
  "ustrtoul m cp base = do {
     (result, e) \<leftarrow> simple_strtoul m cp base;
     let c = m e;
     let result = (if c = 71 then result * 1024 else result);
     let result = (if c = 71 \<or> c = 77 then result * 1024 else result);
     let (result, e) =
       (if c = 71 \<or> c = 77 \<or> c = 75 \<or> c = 107
        then (result * 1024, if m (e + 1) = 105 then if m (e + 2) = 66 then e + 3 else e + 2 else e)
        else (result, e));
     Some (sint result, e)
   }"

section \<open>Decimal digits\<close>

text \<open>The digits are appended least significant first.\<close>

definition put_dec_trunc :: "u32 \<Rightarrow> bytes" where
  "put_dec_trunc q0 =
     (let d1 = drop_bit 4 q0 AND 0xf; d2 = drop_bit 8 q0 AND 0xf; d3 = drop_bit 12 q0;
          d0 = 6 * (d3 + d2 + d1) + (q0 AND 0xf);
          q = drop_bit 11 (d0 * 0xcd); d0 = d0 - 10 * q;
          out0 = ucast (d0 + 48);
          d1 = q + 9 * d3 + 5 * d2 + d1
      in if d1 = 0 then [out0]
         else let q = drop_bit 11 (d1 * 0xcd); d1 = d1 - 10 * q;
                  out1 = ucast (d1 + 48);
                  d2 = q + 2 * d2
              in if d2 = 0 \<and> d3 = 0 then [out0, out1]
                 else let q = drop_bit 7 (d2 * 0xd); d2 = d2 - 10 * q;
                          out2 = ucast (d2 + 48);
                          d3 = q + 4 * d3
                      in if d3 = 0 then [out0, out1, out2]
                         else let q = drop_bit 11 (d3 * 0xcd); d3 = d3 - 10 * q;
                                  out3 = ucast (d3 + 48)
                              in if q \<noteq> 0 then [out0, out1, out2, out3, ucast (q + 48)]
                                 else [out0, out1, out2, out3])"

definition put_dec_full :: "u32 \<Rightarrow> bytes" where
  "put_dec_full q0 =
     (let d1 = drop_bit 4 q0 AND 0xf; d2 = drop_bit 8 q0 AND 0xf; d3 = drop_bit 12 q0;
          d0 = 6 * (d3 + d2 + d1) + (q0 AND 0xf);
          q = drop_bit 11 (d0 * 0xcd); d0 = d0 - 10 * q;
          d1 = q + 9 * d3 + 5 * d2 + d1;
          q = drop_bit 11 (d1 * 0xcd); d1 = d1 - 10 * q;
          d2 = q + 2 * d2;
          q = drop_bit 7 (d2 * 0xd); d2 = d2 - 10 * q;
          d3 = q + 4 * d3;
          q = drop_bit 11 (d3 * 0xcd); d3 = d3 - 10 * q
      in [ucast (d0 + 48), ucast (d1 + 48), ucast (d2 + 48), ucast (d3 + 48), ucast (q + 48)])"

lemma do_div_decreases: "\<not> num < 100000 \<Longrightarrow> unat (snd (do_div num 100000)) < unat num"
proof -
  assume "\<not> num < (100000 :: u64)"
  then have "100000 \<le> unat num" by (simp add: word_less_nat_alt)
  then show ?thesis using do_div_value [of 100000 num] by simp
qed

function put_dec :: "u64 \<Rightarrow> bytes" where
  "put_dec num =
     (if num < 100000 then put_dec_trunc (ucast num)
      else put_dec_full (fst (do_div num 100000)) @ put_dec (snd (do_div num 100000)))"
  by auto
termination
  by (relation "measure unat") (simp_all add: do_div_decreases)

declare put_dec.simps [simp del]

section \<open>Formatting one number\<close>

definition ZEROPAD :: u32 where "ZEROPAD = 1"
definition SIGN :: u32 where "SIGN = 2"
definition PLUS :: u32 where "PLUS = 4"
definition SPACE :: u32 where "SPACE = 8"
definition LEFT :: u32 where "LEFT = 16"
definition SMALL :: u32 where "SMALL = 32"
definition SPECIAL :: u32 where "SPECIAL = 64"

lemmas format_flags_defs = ZEROPAD_def SIGN_def PLUS_def SPACE_def LEFT_def SMALL_def SPECIAL_def

abbreviation has :: "u32 \<Rightarrow> u32 \<Rightarrow> bool" where
  "has flags f \<equiv> flags AND f \<noteq> 0"

definition digit_chars :: bytes where
  "digit_chars = map of_nat ([48..<58] @ [65..<71])"

lemma unat_drop_bit_less: "drop_bit (Suc k) n \<noteq> 0 \<Longrightarrow> unat (drop_bit (Suc k) n) < unat (n :: u64)"
proof -
  assume "drop_bit (Suc k) n \<noteq> 0"
  then have "0 < unat n" by (auto simp: unat_gt_0)
  moreover have "(1 :: nat) < 2 ^ Suc k" by (rule one_less_power) simp_all
  ultimately show ?thesis unfolding unat_drop_bit by (intro div_less_dividend)
qed

text \<open>Octal and hexadecimal digits, least significant first.\<close>

function pow2_digits :: "u64 \<Rightarrow> int \<Rightarrow> u8 \<Rightarrow> bytes" where
  "pow2_digits num base locase =
     (let d = (digit_chars ! unat (num AND (if base = 16 then 15 else 7))) OR locase;
          num' = drop_bit (if base = 16 then 4 else 3) num
      in if num' \<noteq> 0 then d # pow2_digits num' base locase else [d])"
  by auto

termination
proof (relation "measure (\<lambda>(num, base, locase). unat num)")
  fix num :: u64 and base :: int and locase :: u8
    and x x'
  assume "x' = drop_bit (if base = 16 then 4 else 3) num" and "x' \<noteq> 0"
  then show "((x', base, locase), num, base, locase) \<in> measure (\<lambda>(num, base, locase). unat num)"
    using unat_drop_bit_less [of 3 num] unat_drop_bit_less [of 2 num]
    by (auto split: if_splits simp: numeral_eq_Suc)
qed simp

declare pow2_digits.simps [simp del]

text \<open>\<open>while (--size >= 0) *buf++ = c\<close>: the characters and the size left.\<close>

function pad_loop :: "int \<Rightarrow> u8 \<Rightarrow> bytes \<times> int" where
  "pad_loop width c =
     (let width = width - 1
      in if 0 \<le> width then let (cs, rest) = pad_loop width c in (c # cs, rest) else ([], width))"
  by auto
termination
  by (relation "measure (\<lambda>(width, c). nat width)") simp_all

declare pad_loop.simps [simp del]

text \<open>The sign, what it costs of the field, and the number without it.\<close>

definition number_sign :: "u64 \<Rightarrow> int \<Rightarrow> u32 \<Rightarrow> bytes \<times> u64 \<times> int" where
  "number_sign num width type =
     (if has type SIGN
      then if num <s 0 then ([45], - num, width - 1)
           else if has type PLUS then ([43], num, width - 1)
           else if has type SPACE then ([32], num, width - 1)
           else ([], num, width)
      else ([], num, width))"

definition number_digits :: "u64 \<Rightarrow> int \<Rightarrow> u8 \<Rightarrow> bytes" where
  "number_digits num base locase =
     (if num = 0 then [48] else if base \<noteq> 10 then pow2_digits num base locase else put_dec num)"

definition number :: "u64 \<Rightarrow> int \<Rightarrow> int \<Rightarrow> int \<Rightarrow> u32 \<Rightarrow> bytes" where
  "number num base width precision type =
     (let need_pfx = (has type SPECIAL \<and> base \<noteq> 10);
          locase = ucast (type AND SMALL) :: u8;
          type = (if has type LEFT then type AND NOT ZEROPAD else type);
          (sign, num, width) = number_sign num width type;
          width = (if need_pfx then if base = 16 then width - 2 else width - 1 else width);
          tmp = number_digits num base locase;
          i = int (length tmp);
          precision = (if precision < i then i else precision);
          width = width - precision;
          (lead, width) = (if type AND (ZEROPAD + LEFT) = 0 then pad_loop width 32 else ([], width));
          pfx = (if need_pfx then 48 # (if base = 16 then [88 OR locase] else []) else []);
          (fill, width) = (if has type LEFT then ([], width)
                          else pad_loop width (if has type ZEROPAD then 48 else 32));
          zeros = replicate (nat (precision - i)) 48;
          (trail, width) = pad_loop width 32
      in lead @ sign @ pfx @ fill @ zeros @ rev tmp @ trail)"


section \<open>Formatting strings and pointers\<close>

text \<open>The source of \<open>%s\<close> is a string in memory or one of the literals of the code.\<close>

datatype text_source = Literal bytes | At u32

definition source_strnlen :: "memory \<Rightarrow> text_source \<Rightarrow> u32 \<Rightarrow> u32" where
  "source_strnlen m s count = (case s of
     Literal bs \<Rightarrow> of_nat (min (length bs) (unat count))
   | At a \<Rightarrow> strnlen m a count)"

text \<open>\<open>while (len < field_width--) *buf++ = ' '\<close>: the number of blanks and the width left.\<close>

definition field_pad :: "int \<Rightarrow> int \<Rightarrow> bytes \<times> int" where
  "field_pad len field_width = (replicate (nat (field_width - len)) 32, min len field_width - 1)"

definition format_string ::
  "memory \<Rightarrow> u32 \<Rightarrow> text_source \<Rightarrow> int \<Rightarrow> int \<Rightarrow> u32 \<Rightarrow> memory \<times> u32" where
  "format_string m buf s field_width precision flags =
     (let s = (if s = At 0 then Literal (map of_nat [60, 78, 85, 76, 76, 62]) else s);
          len = sint (source_strnlen m s (word_of_int precision));
          (lead, field_width) = (if \<not> has flags LEFT then field_pad len field_width else ([], field_width));
          m = store_bytes m buf lead; buf = buf + of_nat (length lead);
          m = (case s of Literal bs \<Rightarrow> store_bytes m buf (take (nat len) bs)
               | At a \<Rightarrow> copy_up m buf a (nat len));
          buf = buf + of_nat (nat len);
          (trail, field_width) = field_pad len field_width
      in (store_bytes m buf trail, buf + of_nat (length trail)))"

definition format_pointer ::
  "memory \<Rightarrow> u32 \<Rightarrow> u32 \<Rightarrow> int \<Rightarrow> int \<Rightarrow> u32 \<Rightarrow> memory \<times> u32" where
  "format_pointer m buf ptr field_width precision flags =
     (if ptr = 0
      then format_string m buf (Literal (map of_nat [40, 110, 117, 108, 108, 41])) field_width precision flags
      else let flags = flags OR SMALL;
               (field_width, flags) = (if field_width = -1 then (8, flags OR ZEROPAD) else (field_width, flags));
               out = number (ucast ptr) 16 field_width precision flags
           in (store_bytes m buf out, buf + of_nat (length out)))"

section \<open>Formatted output\<close>

datatype va_arg = Va32 u32 | Va64 u64

fun va32 :: "va_arg list \<Rightarrow> (u32 \<times> va_arg list) option" where
  "va32 (Va32 w # args) = Some (w, args)"
| "va32 args = None"

fun va64 :: "va_arg list \<Rightarrow> (u64 \<times> va_arg list) option" where
  "va64 (Va64 w # args) = Some (w, args)"
| "va64 args = None"

definition is_digit :: "u8 \<Rightarrow> bool" where
  "is_digit c \<longleftrightarrow> 48 \<le> c \<and> c \<le> 57"

text \<open>\<open>i = i*10 + *((*s)++) - '0'\<close> on an \<open>int\<close>, with the pointer behind the digits.\<close>

partial_function (option) skip_atoi :: "memory \<Rightarrow> u32 \<Rightarrow> u32 \<Rightarrow> (u32 \<times> u32) option" where
  "skip_atoi m s i =
     (if is_digit (m s) then skip_atoi m (s + 1) (i * 10 + ucast (m s) - 48) else Some (i, s))"

text \<open>The flags behind a percent sign; the format pointer ends at the first other character.\<close>

partial_function (option) format_flags :: "memory \<Rightarrow> u32 \<Rightarrow> u32 \<Rightarrow> (u32 \<times> u32) option" where
  "format_flags m fmt flags =
     (let fmt = fmt + 1
      in if m fmt = 45 then format_flags m fmt (flags OR LEFT)
         else if m fmt = 43 then format_flags m fmt (flags OR PLUS)
         else if m fmt = 32 then format_flags m fmt (flags OR SPACE)
         else if m fmt = 35 then format_flags m fmt (flags OR SPECIAL)
         else if m fmt = 48 then format_flags m fmt (flags OR ZEROPAD)
         else Some (flags, fmt))"

definition format_width ::
  "memory \<Rightarrow> u32 \<Rightarrow> u32 \<Rightarrow> va_arg list \<Rightarrow> (int \<times> u32 \<times> u32 \<times> va_arg list) option" where
  "format_width m fmt flags args =
     (if is_digit (m fmt)
      then do { (i, fmt) \<leftarrow> skip_atoi m fmt 0; Some (sint i, flags, fmt, args) }
      else if m fmt = 42
      then do {
        (w, args) \<leftarrow> va32 args;
        Some (if w <s 0 then (sint (- w), flags OR LEFT, fmt + 1, args) else (sint w, flags, fmt + 1, args))
      }
      else Some (-1, flags, fmt, args))"

definition format_precision ::
  "memory \<Rightarrow> u32 \<Rightarrow> va_arg list \<Rightarrow> (int \<times> u32 \<times> va_arg list) option" where
  "format_precision m fmt args =
     (if m fmt = 46
      then do {
        let fmt = fmt + 1;
        (p, fmt, args) \<leftarrow>
          (if is_digit (m fmt) then do { (i, fmt) \<leftarrow> skip_atoi m fmt 0; Some (sint i, fmt, args) }
           else if m fmt = 42 then do { (w, args) \<leftarrow> va32 args; Some (sint w, fmt + 1, args) }
           else Some (-1, fmt, args));
        Some (if p < 0 then 0 else p, fmt, args)
      }
      else Some (-1, fmt, args))"

text \<open>The qualifier as a character, 0 for none; \<open>ll\<close> counts as \<open>L\<close>.\<close>

definition format_qualifier :: "memory \<Rightarrow> u32 \<Rightarrow> u8 \<times> u32" where
  "format_qualifier m fmt =
     (if m fmt \<in> {104, 108, 76, 90, 122, 116}
      then if m fmt = 108 \<and> m (fmt + 1) = 108 then (76, fmt + 2) else (m fmt, fmt + 1)
      else (0, fmt))"

text \<open>The argument of an integer conversion, extended to 64 bits.\<close>

definition format_argument :: "u8 \<Rightarrow> u32 \<Rightarrow> va_arg list \<Rightarrow> (u64 \<times> va_arg list) option" where
  "format_argument qualifier flags args =
     (if qualifier = 76 then va64 args
      else do {
        (w, args) \<leftarrow> va32 args;
        Some (if qualifier = 90 \<or> qualifier = 122 then ucast w
              else if qualifier = 116 then scast w
              else if qualifier = 104
              then if has flags SIGN then scast (ucast w :: u16) else ucast (ucast w :: u16)
              else if has flags SIGN then scast w else ucast w,
              args)
      })"

definition format_number ::
  "memory \<Rightarrow> u32 \<Rightarrow> int \<Rightarrow> u8 \<Rightarrow> int \<Rightarrow> int \<Rightarrow> u32 \<Rightarrow> va_arg list \<Rightarrow> (memory \<times> u32 \<times> va_arg list) option" where
  "format_number m str base qualifier field_width precision flags args = do {
     (num, args) \<leftarrow> format_argument qualifier flags args;
     let out = number num base field_width precision flags;
     Some (store_bytes m str out, str + of_nat (length out), args)
   }"

text \<open>\<open>while (isalnum(fmt[1])) fmt++\<close>\<close>

partial_function (option) skip_alnum :: "memory \<Rightarrow> u32 \<Rightarrow> u32 option" where
  "skip_alnum m fmt = (if isalnum (m (fmt + 1)) then skip_alnum m (fmt + 1) else Some fmt)"

text \<open>
  One conversion, from its percent sign on.  The result has the memory, the output pointer, the
  pointer to the conversion's last character and the remaining arguments.
\<close>

definition format_conversion ::
  "memory \<Rightarrow> u32 \<Rightarrow> u32 \<Rightarrow> u32 \<Rightarrow> va_arg list \<Rightarrow> (memory \<times> u32 \<times> u32 \<times> va_arg list) option" where
  "format_conversion m buf str fmt args = do {
     (flags, fmt) \<leftarrow> format_flags m fmt 0;
     (field_width, flags, fmt, args) \<leftarrow> format_width m fmt flags args;
     (precision, fmt, args) \<leftarrow> format_precision m fmt args;
     let (qualifier, fmt) = format_qualifier m fmt;
     let c = m fmt;
     let integer = (\<lambda>base flags. do {
       (m, str, args) \<leftarrow> format_number m str base qualifier field_width precision flags args;
       Some (m, str, fmt, args)
     });
     if c = 99 then do {
       (w, args) \<leftarrow> va32 args;
       let blanks = replicate (nat (field_width - 1)) 32;
       let out = (if has flags LEFT then ucast w # blanks else blanks @ [ucast w]);
       Some (store_bytes m str out, str + of_nat (length out), fmt, args)
     }
     else if c = 115 then do {
       (s, args) \<leftarrow> va32 args;
       let (m, str) = format_string m str (At s) field_width precision flags;
       Some (m, str, fmt, args)
     }
     else if c = 112 then do {
       (p, args) \<leftarrow> va32 args;
       let (m, str) = format_pointer m str p field_width precision flags;
       fmt \<leftarrow> skip_alnum m fmt;
       Some (m, str, fmt, args)
     }
     else if c = 110 then do {
       (ip, args) \<leftarrow> va32 args;
       Some (store_u32 m ip (str - buf), str, fmt, args)
     }
     else if c = 37 then Some (m(str := 37), str + 1, fmt, args)
     else if c = 111 then integer 8 flags
     else if c = 120 then integer 16 (flags OR SMALL)
     else if c = 88 then integer 16 flags
     else if c = 100 \<or> c = 105 then integer 10 (flags OR SIGN)
     else if c = 117 then integer 10 flags
     else let m = m(str := 37); str = str + 1
          in if m fmt \<noteq> 0 then Some (m(str := m fmt), str + 1, fmt, args)
             else Some (m, str, fmt - 1, args)
   }"

partial_function (option) vsprintf_loop ::
  "memory \<Rightarrow> u32 \<Rightarrow> u32 \<Rightarrow> u32 \<Rightarrow> va_arg list \<Rightarrow> (memory \<times> u32) option" where
  "vsprintf_loop m buf str fmt args =
     (if m fmt = 0 then Some (m, str)
      else if m fmt \<noteq> 37 then vsprintf_loop (m(str := m fmt)) buf (str + 1) (fmt + 1) args
      else do {
        (m, str, fmt, args) \<leftarrow> format_conversion m buf str fmt args;
        vsprintf_loop m buf str (fmt + 1) args
      })"

definition vsprintf :: "memory \<Rightarrow> u32 \<Rightarrow> u32 \<Rightarrow> va_arg list \<Rightarrow> (u32 \<times> memory) option" where
  "vsprintf m buf fmt args = do {
     (m, str) \<leftarrow> vsprintf_loop m buf buf fmt args;
     Some (str - buf, m(str := 0))
   }"


section \<open>Digits of a number\<close>

text \<open>The digits of \<open>n\<close> in base \<open>b\<close>, least significant first.\<close>

function digits_of :: "nat \<Rightarrow> nat \<Rightarrow> nat list" where
  "digits_of b n = (if 2 \<le> b \<and> b \<le> n then n mod b # digits_of b (n div b) else [n])"
  by auto
termination
  by (relation "measure snd") auto

declare digits_of.simps [simp del]

lemma digits_of_small: "n < b \<Longrightarrow> digits_of b n = [n]"
  by (subst digits_of.simps) simp

lemma digits_of_step: "2 \<le> b \<Longrightarrow> b \<le> n \<Longrightarrow> digits_of b n = n mod b # digits_of b (n div b)"
  by (subst digits_of.simps) simp

lemma tenth_11: "n < 1024 \<Longrightarrow> n * 205 div 2048 = n div (10 :: nat)"
proof -
  assume "n < 1024"
  then have "10 * (n div 10) + n mod 10 = n" and "n div 10 \<le> 102" and "n mod 10 \<le> 9" by simp_all
  moreover from this \<open>n < 1024\<close> have "n div 10 = 102 \<Longrightarrow> n mod 10 \<le> 3" by linarith
  ultimately have "2048 * (n div 10) \<le> n * 205" and "n * 205 < 2048 * (n div 10) + 2048" by linarith+
  then show ?thesis by (intro div_nat_eqI) simp_all
qed

lemma tenth_7: "n < 69 \<Longrightarrow> n * 13 div 128 = n div (10 :: nat)"
proof -
  assume "n < 69"
  then have "10 * (n div 10) + n mod 10 = n" and "n div 10 \<le> 6" and "n mod 10 \<le> 9" by simp_all
  moreover from this \<open>n < 69\<close> have "n div 10 = 6 \<Longrightarrow> n mod 10 \<le> 8" by linarith
  ultimately have "128 * (n div 10) \<le> n * 13" and "n * 13 < 128 * (n div 10) + 128" by linarith+
  then show ?thesis by (intro div_nat_eqI) simp_all
qed

lemma tenth_word:
  fixes w q :: u32
  assumes "unat q = unat w div 10"
  shows "unat (w - 10 * q) = unat w mod 10"
proof -
  have "unat (10 * q) = 10 * (unat w div 10)"
    using assms unat_u32_less [of w] by (subst unat_mult_small) simp_all
  then show ?thesis by (subst unat_sub_small) (simp_all add: minus_mult_div_eq_mod)
qed

lemma unat_tenth_11: "unat (w :: u32) < 1024 \<Longrightarrow> unat (drop_bit 11 (w * 0xcd)) = unat w div 10"
  using tenth_11 [of "unat w"] by (simp add: unat_drop_bit unat_mult_small)

lemma unat_tenth_7: "unat (w :: u32) < 69 \<Longrightarrow> unat (drop_bit 7 (w * 0xd)) = unat w div 10"
  using tenth_7 [of "unat w"] by (simp add: unat_drop_bit unat_mult_small)

text \<open>
  The digit sums of the four hexadecimal digits \<open>x3 x2 x1 x0\<close> of \<open>q\<close>, and what they say of \<open>q\<close>.
\<close>

lemma dec_parts:
  fixes q :: nat
  assumes q: "q < 100000"
  defines "x0 \<equiv> q mod 16" and "x1 \<equiv> q div 16 mod 16" and "x2 \<equiv> q div 256 mod 16" and "x3 \<equiv> q div 4096"
  defines "a0 \<equiv> 6 * (x3 + x2 + x1) + x0"
  defines "a1 \<equiv> a0 div 10 + 9 * x3 + 5 * x2 + x1"
  defines "a2 \<equiv> a1 div 10 + 2 * x2"
  defines "a3 \<equiv> a2 div 10 + 4 * x3"
  shows "a0 mod 10 = q mod 10" and "q div 10 = a1 + 20 * x2 + 400 * x3"
    and "a1 mod 10 = q div 10 mod 10" and "q div 100 = a2 + 40 * x3" and "a2 mod 10 = q div 100 mod 10"
    and "q div 1000 = a3" and "q div 10000 = a3 div 10"
    and "x0 < 16" and "x1 < 16" and "x2 < 16" and "x3 \<le> 24" and "a0 < 350" and "a1 < 350" and "a2 < 69" and "a3 < 110"
proof -
  have x: "q = 4096 * x3 + 256 * x2 + 16 * x1 + x0"
  proof -
    have "q div 256 = q div 16 div 16" and "q div 4096 = q div 256 div 16"
      by (simp_all add: div_mult2_eq [symmetric])
    then have "q = 16 * (q div 16) + x0" and "q div 16 = 16 * (q div 256) + x1"
      and "q div 256 = 16 * x3 + x2"
      unfolding x0_def x1_def x2_def x3_def by (metis mult_div_mod_eq)+
    then show ?thesis by linarith
  qed
  show b: "x0 < 16" "x1 < 16" "x2 < 16" "x3 \<le> 24"
    using q unfolding x0_def x1_def x2_def x3_def by simp_all
  define u0 u1 u2 v0 v1 v2 where "u0 = a0 div 10" and "u1 = a1 div 10" and "u2 = a2 div 10"
    and "v0 = a0 mod 10" and "v1 = a1 mod 10" and "v2 = a2 mod 10"
  note uv = this
  have v: "v0 < 10" "v1 < 10" "v2 < 10" by (simp_all add: uv)
  have d0: "a0 = 10 * u0 + v0" and d1: "a1 = 10 * u1 + v1" and d2: "a2 = 10 * u2 + v2"
    by (simp_all add: uv)
  have s0: "a0 = 6 * x3 + 6 * x2 + 6 * x1 + x0" and s1: "a1 = u0 + 9 * x3 + 5 * x2 + x1"
    and s2: "a2 = u1 + 2 * x2" and s3: "a3 = u2 + 4 * x3"
    by (simp_all add: uv a0_def a1_def a2_def a3_def)
  show a0: "a0 < 350" using b s0 by linarith
  show a1: "a1 < 350" using b a0 s1 d0 by linarith
  show a2: "a2 < 69" using b a1 s2 d1 by linarith
  show "a3 < 110" using b a2 s3 d2 by linarith
  have q1: "q = 10 * (a1 + 20 * x2 + 400 * x3) + v0" using x s0 s1 d0 by simp
  have split10: "n div 10 = k \<and> n mod 10 = r" if "n = 10 * k + r" "r < 10" for n k r :: nat
    using that by simp
  show e1: "q div 10 = a1 + 20 * x2 + 400 * x3" and "a0 mod 10 = q mod 10"
    using split10 [OF q1 v(1)] by (simp_all only: uv)
  have q2: "q div 10 = 10 * (a2 + 40 * x3) + v1" using e1 d1 s2 by simp
  show "a1 mod 10 = q div 10 mod 10" using split10 [OF q2 v(2)] by (simp only: uv)
  have h: "q div 100 = q div 10 div 10" by (simp add: div_mult2_eq [symmetric])
  show e2: "q div 100 = a2 + 40 * x3" unfolding h using split10 [OF q2 v(2)] by simp
  have q3: "q div 100 = 10 * a3 + v2" using e2 d2 s3 by simp
  show "a2 mod 10 = q div 100 mod 10" using split10 [OF q3 v(3)] by (simp only: uv)
  have h3: "q div 1000 = q div 100 div 10" by (simp add: div_mult2_eq [symmetric])
  show e3: "q div 1000 = a3" unfolding h3 using split10 [OF q3 v(3)] by simp
  have "q div 10000 = q div 1000 div 10" by (simp add: div_mult2_eq [symmetric])
  then show "q div 10000 = a3 div 10" by (simp only: e3)
qed


definition dchar :: "nat \<Rightarrow> u8" where
  "dchar d = of_nat (48 + d)"

lemma ucast_dchar: "unat (w :: u32) = k \<Longrightarrow> ucast (w + 48) = dchar k"
proof -
  assume k: "unat w = k"
  have "unat (ucast (w + 48) :: u8) = (k + 48) mod 256"
    unfolding unat_ucast_u32_u8 unat_word_ariths k by (simp add: mod_mod_cancel)
  moreover have "unat (dchar k) = (k + 48) mod 256"
    unfolding dchar_def by (simp only: unat_of_nat take_bit_eq_mod len_num1 add.commute) simp
  ultimately show ?thesis by (simp only: word_unat_eq_iff)
qed

text \<open>The values of the intermediate words of both routines.\<close>

lemma put_dec_words:
  fixes q :: u32
  assumes "unat q < 100000"
  defines "d1 \<equiv> drop_bit 4 q AND 0xf" and "d2 \<equiv> drop_bit 8 q AND 0xf" and "d3 \<equiv> drop_bit 12 q"
  defines "a0 \<equiv> 6 * (d3 + d2 + d1) + (q AND 0xf)"
  defines "q0 \<equiv> drop_bit 11 (a0 * 0xcd)"
  defines "a1 \<equiv> q0 + 9 * d3 + 5 * d2 + d1"
  defines "q1 \<equiv> drop_bit 11 (a1 * 0xcd)"
  defines "a2 \<equiv> q1 + 2 * d2"
  defines "q2 \<equiv> drop_bit 7 (a2 * 0xd)"
  defines "a3 \<equiv> q2 + 4 * d3"
  defines "q3 \<equiv> drop_bit 11 (a3 * 0xcd)"
  shows "put_dec_full q = map dchar [unat q mod 10, unat q div 10 mod 10, unat q div 100 mod 10,
      unat q div 1000 mod 10, unat q div 10000]" (is ?full)
    and "put_dec_trunc q = map dchar (digits_of 10 (unat q))" (is ?trunc)
proof -
  note P = dec_parts [OF assms(1)]
  have m: "(0xf :: u32) = mask 4" by (simp add: mask_eq_exp_minus_1)
  have n15: "unat (w AND 0xf) = unat w mod 16" for w :: u32
    unfolding m unat_and_mask by simp
  have u: "unat (q AND 0xf) = unat q mod 16" "unat d1 = unat q div 16 mod 16"
    "unat d2 = unat q div 256 mod 16" "unat d3 = unat q div 4096"
    by (simp_all add: n15 d1_def d2_def d3_def unat_drop_bit)
  have unat_eq: "unat w = n" if "w = of_nat n" "n < 4294967296" for w :: u32 and n
    using that by (simp only: unat_of_nat_u32)
  have a0: "unat a0 = 6 * (unat d3 + unat d2 + unat d1) + unat (q AND 0xf)"
    by (rule unat_eq) (use P(8-11) in \<open>simp_all add: a0_def u(1-4) [symmetric]\<close>)
  have u_less: "unat (q AND 0xf) < 16" "unat d1 < 16" "unat d2 < 16" "unat d3 \<le> 24"
    using P(8-11) by (simp_all add: u)
  have b0: "unat a0 < 350" by (rule P(12) [folded u, folded a0])
  have q0: "unat q0 = unat a0 div 10" unfolding q0_def by (rule unat_tenth_11) (use b0 in simp)
  have c0: "unat q0 < 35" using q0 b0 by linarith
  have a1: "unat a1 = unat a0 div 10 + 9 * unat d3 + 5 * unat d2 + unat d1"
    by (rule unat_eq) (use u_less c0 in \<open>simp_all add: a1_def q0 [symmetric]\<close>)
  note Q1 = P [folded u, folded a0, folded a1]
  have b1: "unat a1 < 350" by (rule Q1(13))
  have q1: "unat q1 = unat a1 div 10" unfolding q1_def by (rule unat_tenth_11) (use b1 in simp)
  have c1: "unat q1 < 35" using q1 b1 by linarith
  have a2: "unat a2 = unat a1 div 10 + 2 * unat d2"
    by (rule unat_eq) (use u_less c1 in \<open>simp_all add: a2_def q1 [symmetric]\<close>)
  note Q2 = Q1 [folded a2]
  have b2: "unat a2 < 69" by (rule Q2(14))
  have q2: "unat q2 = unat a2 div 10" unfolding q2_def by (rule unat_tenth_7) (use b2 in simp)
  have c2: "unat q2 < 35" using q2 b2 by linarith
  have a3: "unat a3 = unat a2 div 10 + 4 * unat d3"
    by (rule unat_eq) (use u_less c2 in \<open>simp_all add: a3_def q2 [symmetric]\<close>)
  note Q = Q2 [folded a3]
  have q3: "unat q3 = unat a3 div 10" unfolding q3_def by (rule unat_tenth_11) (use Q(15) in simp)
  have z: "w = 0 \<longleftrightarrow> unat w = 0" for w :: u32 by (simp add: unsigned_eq_0_iff)
  have r0: "unat (a0 - 10 * q0) = unat q mod 10" using tenth_word [OF q0] Q(1) by (simp only:)
  have r1: "unat (a1 - 10 * q1) = unat q div 10 mod 10" using tenth_word [OF q1] Q(3) by (simp only:)
  have r2: "unat (a2 - 10 * q2) = unat q div 100 mod 10" using tenth_word [OF q2] Q(5) by (simp only:)
  have r3: "unat (a3 - 10 * q3) = unat q div 1000 mod 10" using tenth_word [OF q3] Q(6) by (simp only:)
  have r4: "unat q3 = unat q div 10000" using q3 Q(7) by (simp only:)
  have lt: "n < k \<longleftrightarrow> n div k = 0" if "0 < k" for n k :: nat
    using that by (simp add: div_eq_0_iff)
  have z1: "a1 = 0 \<longleftrightarrow> unat q < 10" unfolding z lt [of 10, simplified] Q(2) using a1 by auto
  have z2: "a2 = 0 \<and> d3 = 0 \<longleftrightarrow> unat q < 100" unfolding z lt [of 100, simplified] Q(4) by simp
  have z3: "a3 = 0 \<longleftrightarrow> unat q < 1000" unfolding z lt [of 1000, simplified] Q(6) ..
  have z4: "q3 = 0 \<longleftrightarrow> unat q < 10000" unfolding z lt [of 10000, simplified] r4 ..
  note ws = q3_def a3_def q2_def a2_def q1_def a1_def q0_def a0_def d1_def d2_def d3_def
  have "put_dec_full q = [ucast (a0 - 10 * q0 + 48), ucast (a1 - 10 * q1 + 48), ucast (a2 - 10 * q2 + 48),
      ucast (a3 - 10 * q3 + 48), ucast (q3 + 48)]"
    unfolding put_dec_full_def Let_def ws ..
  then show ?full by (simp only: ucast_dchar [OF r0] ucast_dchar [OF r1] ucast_dchar [OF r2] ucast_dchar [OF r3]
      ucast_dchar [OF r4] list.map)
  have t: "put_dec_trunc q = (let o0 = ucast (a0 - 10 * q0 + 48); o1 = ucast (a1 - 10 * q1 + 48);
      o2 = ucast (a2 - 10 * q2 + 48); o3 = ucast (a3 - 10 * q3 + 48); o4 = ucast (q3 + 48)
      in if a1 = 0 then [o0] else if a2 = 0 \<and> d3 = 0 then [o0, o1] else if a3 = 0 then [o0, o1, o2]
         else if q3 \<noteq> 0 then [o0, o1, o2, o3, o4] else [o0, o1, o2, o3])"
    unfolding put_dec_trunc_def Let_def ws ..
  have d: "unat q div 10 div 10 = unat q div 100" "unat q div 100 div 10 = unat q div 1000"
    "unat q div 1000 div 10 = unat q div 10000"
    by (simp_all add: div_mult2_eq [symmetric])
  consider "unat q < 10" | "10 \<le> unat q" "unat q < 100" | "100 \<le> unat q" "unat q < 1000"
    | "1000 \<le> unat q" "unat q < 10000" | "10000 \<le> unat q" "unat q < 100000" using assms(1) by linarith
  then show ?trunc
    unfolding t Let_def z1 z2 z3 z4 ucast_dchar [OF r0] ucast_dchar [OF r1] ucast_dchar [OF r2]
      ucast_dchar [OF r3] ucast_dchar [OF r4]
    by cases (simp_all add: digits_of_step digits_of_small d)
qed


lemma five_digits:
  fixes n :: nat
  assumes "100000 \<le> n"
  shows "digits_of 10 n = [n mod 10, n div 10 mod 10, n div 100 mod 10, n div 1000 mod 10, n div 10000 mod 10]
    @ digits_of 10 (n div 100000)"
proof -
  have d: "n div 10 div 10 = n div 100" "n div 100 div 10 = n div 1000" "n div 1000 div 10 = n div 10000"
    "n div 10000 div 10 = n div 100000"
    by (simp_all add: div_mult2_eq [symmetric])
  show ?thesis using assms by (simp add: digits_of_step d)
qed

lemma low_digits:
  fixes n :: nat
  shows "n mod 100000 mod 10 = n mod 10" "n mod 100000 div 10 mod 10 = n div 10 mod 10"
    "n mod 100000 div 100 mod 10 = n div 100 mod 10" "n mod 100000 div 1000 mod 10 = n div 1000 mod 10"
    "n mod 100000 div 10000 = n div 10000 mod 10"
proof -
  define k r where "k = n div 100000" and "r = n mod 100000"
  have n: "n = r + 100000 * k" by (simp add: k_def r_def)
  have e: "n div 10 = r div 10 + 10000 * k" "n div 100 = r div 100 + 1000 * k"
    "n div 1000 = r div 1000 + 100 * k" "n div 10000 = r div 10000 + 10 * k"
    unfolding n by simp_all
  have c: "(a + 10000 * k) mod 10 = a mod 10" "(a + 1000 * k) mod 10 = a mod 10"
    "(a + 100 * k) mod 10 = a mod 10" "(a + 10 * k) mod 10 = a mod 10" for a
    using mod_mult_self2 [of a 10 "1000 * k"] mod_mult_self2 [of a 10 "100 * k"]
      mod_mult_self2 [of a 10 "10 * k"] mod_mult_self2 [of a 10 k] by simp_all
  have "r div 10000 < 10" by (simp add: r_def)
  then show "n mod 100000 mod 10 = n mod 10" "n mod 100000 div 10 mod 10 = n div 10 mod 10"
    "n mod 100000 div 100 mod 10 = n div 100 mod 10" "n mod 100000 div 1000 mod 10 = n div 1000 mod 10"
    "n mod 100000 div 10000 = n div 10000 mod 10"
    unfolding r_def [symmetric] e c by (simp_all add: r_def mod_mod_cancel)
qed

lemma put_dec_digits: "put_dec num = map dchar (digits_of 10 (unat num))"
proof (induction num rule: put_dec.induct)
  case (1 num)
  show ?case
  proof (cases "num < 100000")
    case True
    then have "unat num < 100000" by (simp add: word_less_nat_alt)
    moreover from this have "unat (ucast num :: u32) = unat num" by (simp add: unat_ucast_u64_u32)
    ultimately show ?thesis using True put_dec_words(2) [of "ucast num"]
      by (subst put_dec.simps) simp
  next
    case False
    then have n: "100000 \<le> unat num" by (simp add: word_less_nat_alt)
    have v: "unat (fst (do_div num 100000)) = unat num mod 100000"
      "unat (snd (do_div num 100000)) = unat num div 100000"
      using do_div_value [of 100000 num] by simp_all
    then have "put_dec_full (fst (do_div num 100000)) = map dchar [unat num mod 10, unat num div 10 mod 10,
        unat num div 100 mod 10, unat num div 1000 mod 10, unat num div 10000 mod 10]"
      using put_dec_words(1) [of "fst (do_div num 100000)"] by (simp add: low_digits)
    then show ?thesis
      using 1 False five_digits [OF n] v(2) by (subst put_dec.simps) simp
  qed
qed

definition hchar :: "u8 \<Rightarrow> nat \<Rightarrow> u8" where
  "hchar locase d = digit_chars ! d OR locase"

lemma pow2_digits_digits:
  assumes "base = 16 \<and> k = 4 \<or> base = 8 \<and> k = 3"
  shows "pow2_digits num base locase = map (hchar locase) (digits_of (2 ^ k) (unat num))"
proof (induction "unat num" arbitrary: num rule: less_induct)
  case less
  have m: "(15 :: u64) = mask 4" "(7 :: u64) = mask 3" by (simp_all add: mask_eq_exp_minus_1)
  have md: "unat (num AND (if base = 16 then 15 else 7)) = unat num mod 2 ^ k"
    using assms unfolding m by (auto simp: unat_and_mask)
  have sh: "(if base = 16 then 4 else 3) = k" using assms by auto
  have z: "drop_bit k num = 0 \<longleftrightarrow> unat num < 2 ^ k"
  proof -
    have "drop_bit k num = 0 \<longleftrightarrow> unat (drop_bit k num) = 0" by (simp only: unsigned_eq_0_iff)
    then show ?thesis unfolding unat_drop_bit by (simp add: div_eq_0_iff)
  qed
  have two: "(2 :: nat) \<le> 2 ^ k" using assms by auto
  show ?case
  proof (cases "unat num < 2 ^ k")
    case True
    then show ?thesis using z
      by (subst pow2_digits.simps) (simp add: sh md hchar_def digits_of_small)
  next
    case False
    then have "unat (drop_bit k num) < unat num"
      using two unfolding unat_drop_bit by (intro div_less_dividend) linarith+
    from less [OF this] show ?thesis
      using False z two by (subst pow2_digits.simps)
        (simp add: sh md hchar_def digits_of_step [of "2 ^ k" "unat num"] unat_drop_bit)
  qed
qed

text \<open>Padding in closed form, and the length of a formatted number.\<close>

lemma pad_loop_eq: "pad_loop w c = (replicate (nat w) c, min w 0 - 1)"
proof (induction w c rule: pad_loop.induct)
  case (1 w c)
  show ?case
  proof (cases "1 \<le> w")
    case True
    then have "nat w = Suc (nat (w - 1))" by simp
    then show ?thesis using 1 True by (subst pad_loop.simps) (simp add: Let_def)
  next
    case False
    then show ?thesis by (subst pad_loop.simps) (simp add: Let_def)
  qed
qed


lemma digits_of_length: "2 \<le> b \<Longrightarrow> n < b ^ Suc k \<Longrightarrow> length (digits_of b n) \<le> Suc k"
proof (induction k arbitrary: n)
  case 0
  then show ?case by (simp add: digits_of_small)
next
  case (Suc k)
  show ?case
  proof (cases "b \<le> n")
    case True
    have "n div b < b ^ Suc k" using Suc.prems by (simp add: less_mult_imp_div_less mult.commute)
    then show ?thesis using Suc.IH Suc.prems(1) True by (simp add: digits_of_step)
  next
    case False
    then show ?thesis by (simp add: digits_of_small)
  qed
qed

lemma length_number_digits: "length (number_digits num 10 l) \<le> 20"
    "length (number_digits num 16 l) \<le> 16" "length (number_digits num 8 l) \<le> 22"
  using digits_of_length [of 10 "unat num" 19] digits_of_length [of 16 "unat num" 15]
    digits_of_length [of 8 "unat num" 21] unat_u64_less [of num] pow2_digits_digits [of 16 4 num l]
    pow2_digits_digits [of 8 3 num l]
  by (simp_all add: number_digits_def put_dec_digits)

text \<open>The characters in front of the digits: sign and base prefix.\<close>

definition number_prefix :: "u64 \<Rightarrow> int \<Rightarrow> u32 \<Rightarrow> nat" where
  "number_prefix num base type =
     length (fst (number_sign num 0 type))
     + (if has type SPECIAL \<and> base \<noteq> 10 then if base = 16 then 2 else 1 else 0)"

definition number_magnitude :: "u64 \<Rightarrow> u32 \<Rightarrow> u64" where
  "number_magnitude num type = fst (snd (number_sign num 0 type))"

lemma number_sign_eq:
  "number_sign num w type = (fst (number_sign num 0 type), number_magnitude num type,
    w - int (length (fst (number_sign num 0 type))))"
  by (simp add: number_sign_def number_magnitude_def)

lemma flags_after_left:
  "has (if has t LEFT then t AND NOT ZEROPAD else t) SIGN \<longleftrightarrow> has t SIGN"
  "has (if has t LEFT then t AND NOT ZEROPAD else t) PLUS \<longleftrightarrow> has t PLUS"
  "has (if has t LEFT then t AND NOT ZEROPAD else t) SPACE \<longleftrightarrow> has t SPACE"
proof -
  have "NOT ZEROPAD AND f = f" if "f = SIGN \<or> f = PLUS \<or> f = SPACE" for f :: u32
    using that by (auto simp: format_flags_defs)
  then show "has (if has t LEFT then t AND NOT ZEROPAD else t) SIGN \<longleftrightarrow> has t SIGN"
    "has (if has t LEFT then t AND NOT ZEROPAD else t) PLUS \<longleftrightarrow> has t PLUS"
    "has (if has t LEFT then t AND NOT ZEROPAD else t) SPACE \<longleftrightarrow> has t SPACE"
    by (simp_all add: and.assoc)
qed

text \<open>
  C36. \<open>number\<close> writes exactly as many characters as the field asks for, and more only when sign, prefix
  and digits need more: its length is the larger of the field width and the width of the prefix with
  the precision or the digits.  The digit buffer \<open>tmp[66]\<close> is never filled beyond 22 characters.
\<close>

theorem number_length:
  assumes "base \<in> {8, 10, 16}"
  shows "int (length (number num base w p t))
      = max w (int (number_prefix num base t)
          + max p (int (length (number_digits (number_magnitude num t) base (ucast (t AND SMALL))))))
    \<and> length (number_digits (number_magnitude num t) base (ucast (t AND SMALL))) \<le> 22"
proof
  define t' where "t' = (if has t LEFT then t AND NOT ZEROPAD else t)"
  define sg where "sg = fst (number_sign num 0 t)"
  have sgn: "number_sign num w t' = (sg, number_magnitude num t, w - int (length sg))"
    unfolding t'_def sg_def number_sign_def number_magnitude_def flags_after_left by simp
  define ds where "ds = number_digits (number_magnitude num t) base (ucast (t AND SMALL))"
  define pl where "pl = (if has t SPECIAL \<and> base \<noteq> 10 then if base = 16 then 2 else 1 else 0 :: nat)"
  have pre: "number_prefix num base t = length sg + pl" by (simp add: number_prefix_def sg_def pl_def)
  show "int (length (number num base w p t)) = max w (int (number_prefix num base t) + max p (int (length ds)))"
    unfolding number_def Let_def pad_loop_eq t'_def [symmetric] sgn prod.case ds_def [symmetric] pre
    by (auto simp: pl_def max_def min_def)
  show "length ds \<le> 22"
    using assms length_number_digits(3) unfolding ds_def
    by (auto intro: le_trans [OF length_number_digits(1)] le_trans [OF length_number_digits(2)])
qed


lemma number_length_witness:
  "int (length (number 255 16 8 (-1) (ZEROPAD OR SPECIAL))) = 8"
proof -
  have d: "number_digits 255 16 0 = [70, 70]"
    using pow2_digits_digits [of 16 4 255 0]
    by (simp add: number_digits_def digits_of_step digits_of_small hchar_def digit_chars_def upt_rec)
  have "number_prefix 255 16 (ZEROPAD OR SPECIAL) = 2" "number_magnitude 255 (ZEROPAD OR SPECIAL) = 255"
    "ucast ((ZEROPAD OR SPECIAL) AND SMALL) = (0 :: u8)"
    by (simp_all add: number_prefix_def number_magnitude_def number_sign_def format_flags_defs)
  then show ?thesis using number_length [of 16 255 8 "-1" "ZEROPAD OR SPECIAL"] d by simp
qed

section \<open>Reading what was written\<close>

definition valid_digit :: "u32 \<Rightarrow> u8 \<Rightarrow> bool" where
  "valid_digit base c \<longleftrightarrow> isxdigit c \<and> digit_value c < base"

lemma not_valid_0: "\<not> valid_digit base 0"
  by (simp add: valid_digit_def isxdigit_iff)

definition digits_value :: "u32 \<Rightarrow> bytes \<Rightarrow> 'a::len word \<Rightarrow> 'a word" where
  "digits_value base cs r = foldl (\<lambda>r c. r * ucast base + ucast (digit_value c)) r cs"

lemma strtoul_loop_step:
  "strtoul_loop m base cp r =
     (if valid_digit base (m cp)
      then strtoul_loop m base (cp + 1) (r * ucast base + ucast (digit_value (m cp)))
      else Some (r, cp))"
  by (subst strtoul_loop.simps) (simp only: valid_digit_def)

lemma strtoul_loop_digits:
  "cstr m cp cs \<Longrightarrow> \<forall>c\<in>set cs. valid_digit base c \<Longrightarrow>
    strtoul_loop m base cp r = Some (digits_value base cs r, cp + of_nat (length cs))"
proof (induction cs arbitrary: cp r)
  case Nil
  then show ?case by (subst strtoul_loop_step) (simp add: digits_value_def not_valid_0)
next
  case (Cons c cs)
  then show ?case
    by (subst strtoul_loop_step) (simp add: digits_value_def algebra_simps)
qed

text \<open>A character function whose characters are digits with the right value.\<close>

definition writes_digits :: "u32 \<Rightarrow> (nat \<Rightarrow> u8) \<Rightarrow> bool" where
  "writes_digits base f \<longleftrightarrow> (\<forall>d < unat base. valid_digit base (f d) \<and> digit_value (f d) = of_nat d)
     \<and> f 0 = 48 \<and> (\<forall>d. 0 < d \<and> d < unat base \<longrightarrow> f d \<noteq> 48)"

lemma digits_of_less: "2 \<le> b \<Longrightarrow> d \<in> set (digits_of b n) \<Longrightarrow> d < b"
proof (induction b n rule: digits_of.induct)
  case (1 b n)
  show ?case
  proof (cases "b \<le> n")
    case True
    then show ?thesis using 1 by (auto simp: digits_of_step)
  next
    case False
    then show ?thesis using 1(3) by (simp add: digits_of_small)
  qed
qed

lemma last_digit: "2 \<le> b \<Longrightarrow> digits_of b n \<noteq> [] \<and> (0 < n \<longrightarrow> last (digits_of b n) \<noteq> 0)"
proof (induction b n rule: digits_of.induct)
  case (1 b n)
  show ?case
  proof (cases "b \<le> n")
    case True
    then have "0 < n div b" using 1(2) by (simp add: div_greater_zero_iff)
    then show ?thesis using 1 True by (simp add: digits_of_step)
  next
    case False
    then show ?thesis by (simp add: digits_of_small)
  qed
qed

lemma ucast_of_nat_u32: "d < 4294967296 \<Longrightarrow> ucast (of_nat d :: u32) = (of_nat d :: 'a::len word)"
proof -
  assume "d < 4294967296"
  moreover have "ucast (of_nat d :: u32) = (of_nat (unat (of_nat d :: u32)) :: 'a word)"
    by (simp only: of_nat_unat)
  ultimately show ?thesis by (simp only: unat_of_nat_u32)
qed

lemma digits_value_digits:
  assumes w: "writes_digits base f" and b: "2 \<le> unat base"
  shows "digits_value base (rev (map f (digits_of (unat base) n))) 0 = (of_nat n :: 'a::len word)"
proof (induction "unat base" n rule: digits_of.induct)
  case (1 n)
  have dv: "(ucast (digit_value (f d)) :: 'a word) = of_nat d" if "d < unat base" for d
    using w that unat_u32_less [of base] by (simp add: writes_digits_def ucast_of_nat_u32)
  show ?case
  proof (cases "unat base \<le> n")
    case True
    have "digits_value base (rev (map f (digits_of (unat base) n))) (0 :: 'a word)
        = of_nat (n div unat base) * ucast base + of_nat (n mod unat base)"
      using 1 True b dv [of "n mod unat base"] by (simp add: digits_of_step digits_value_def)
    also have "\<dots> = of_nat (n div unat base * unat base + n mod unat base)"
      by (simp only: of_nat_add of_nat_mult of_nat_unat)
    finally show ?thesis by simp
  next
    case False
    then show ?thesis using dv by (simp add: digits_of_small digits_value_def)
  qed
qed

text \<open>The prefix test leaves the digits of a number alone, up to the single digit 0.\<close>

lemma strtoul_number:
  fixes r :: "'a::len word"
  assumes w: "writes_digits base f" and b: "2 \<le> unat base"
    and s: "cstr m cp (rev (map f (digits_of (unat base) n)))"
  shows "(let (cp, base) = strtoul_prefix m cp base in strtoul_loop m base cp 0)
    = Some (of_nat n :: 'a word, cp + of_nat (length (digits_of (unat base) n)))"
proof (cases "n = 0")
  case True
  then have c: "cstr m cp [48]" using s b w by (simp add: digits_of_small writes_digits_def)
  then have "strtoul_prefix m cp base = (cp + 1, base)"
    using b by (auto simp: strtoul_prefix_def)
  moreover have "cstr m (cp + 1) []" using c by simp
  ultimately show ?thesis
    using True b strtoul_loop_digits [of m "cp + 1" "[]" base "0 :: 'a word"]
    by (simp add: digits_value_def digits_of_small)
next
  case False
  obtain d ds where d: "rev (digits_of (unat base) n) = d # ds"
    using last_digit [OF b, of n] by (metis list.exhaust rev_is_Nil_conv)
  then have "d = last (digits_of (unat base) n)" by (metis last_rev list.sel(1) rev_rev_ident hd_rev)
  then have "0 < d" using last_digit [OF b, of n] False by simp
  moreover have "d \<in> set (digits_of (unat base) n)" using d by (metis list.set_intros(1) set_rev)
  then have "d < unat base" by (rule digits_of_less [OF b])
  ultimately have "m cp \<noteq> 48" using s w d by (auto simp: rev_map writes_digits_def)
  then have "strtoul_prefix m cp base = (cp, base)"
    using b by (auto simp: strtoul_prefix_def)
  moreover have "\<forall>c\<in>set (rev (map f (digits_of (unat base) n))). valid_digit base c"
    using w digits_of_less [OF b] by (auto simp: writes_digits_def)
  ultimately show ?thesis
    using strtoul_loop_digits [OF s, of base "0 :: 'a word"] digits_value_digits [OF w b, of n, where 'a = 'a] by simp
qed

lemma writes_decimal: "writes_digits 10 dchar"
proof -
  have "valid_digit 10 (dchar d) \<and> digit_value (dchar d) = of_nat d" if "d < 10" for d
  proof -
    have "unat (dchar d) = 48 + d" using that by (simp add: dchar_def unat_of_nat take_bit_eq_mod del: of_nat_add)
    moreover from this have "(ucast (dchar d) :: u32) = of_nat (48 + d)"
      by (metis of_nat_unat)
    ultimately show ?thesis using that
      by (simp add: valid_digit_def isxdigit_iff isdigit_iff digit_value_def word_less_nat_alt unat_of_nat_u32)
  qed
  moreover have "dchar d \<noteq> 48" if "0 < d" "d < 10" for d
  proof -
    have "unat (dchar d) = 48 + d" using that by (simp add: dchar_def unat_of_nat take_bit_eq_mod del: of_nat_add)
    then show ?thesis using that by auto
  qed
  ultimately show ?thesis by (simp add: writes_digits_def dchar_def)
qed

lemma writes_hex: "writes_digits 16 (hchar 32)"
proof -
  have all: "\<forall>d\<in>set [0..<16]. valid_digit 16 (hchar 32 d) \<and> digit_value (hchar 32 d) = of_nat d \<and> (0 < d \<longrightarrow> hchar 32 d \<noteq> 48)"
    by (simp add: upt_rec hchar_def digit_chars_def valid_digit_def isxdigit_iff isdigit_iff digit_value_def
        islower_ascii toupper_def)
  have "valid_digit 16 (hchar 32 d) \<and> digit_value (hchar 32 d) = of_nat d \<and> (0 < d \<longrightarrow> hchar 32 d \<noteq> 48)"
    if "d < 16" for d
  proof -
    have "d \<in> set [0..<16]" using that by simp
    then show ?thesis using all by blast
  qed
  then have "\<forall>d<16. valid_digit 16 (hchar 32 d) \<and> digit_value (hchar 32 d) = of_nat d \<and> (0 < d \<longrightarrow> hchar 32 d \<noteq> 48)"
    by blast
  moreover have "hchar 32 0 = 48" by (simp add: hchar_def digit_chars_def upt_rec)
  ultimately show ?thesis by (simp add: writes_digits_def)
qed

text \<open>A number without field, precision and flags is its digits.\<close>

lemma number_plain:
  assumes "t = 0 \<or> t = SMALL"
  shows "number num base (-1) (-1) t = rev (number_digits num base (ucast t))"
proof -
  have "t AND SMALL = t" "\<not> has t SIGN" "\<not> has t LEFT" "\<not> has t SPECIAL" "\<not> has t ZEROPAD"
    using assms by (auto simp: format_flags_defs)
  then show ?thesis by (simp add: number_def number_sign_def pad_loop_eq Let_def)
qed

lemma number_decimal: "number num 10 (-1) (-1) 0 = rev (map dchar (digits_of 10 (unat num)))"
proof (cases "num = 0")
  case True
  then show ?thesis by (simp add: number_plain number_digits_def digits_of_small dchar_def)
next
  case False
  then show ?thesis by (simp add: number_plain number_digits_def put_dec_digits)
qed

lemma number_hex: "number num 16 (-1) (-1) SMALL = rev (map (hchar 32) (digits_of 16 (unat num)))"
proof (cases "num = 0")
  case True
  then show ?thesis
    by (simp add: number_plain number_digits_def digits_of_small hchar_def digit_chars_def upt_rec SMALL_def)
next
  case False
  then show ?thesis using pow2_digits_digits [of 16 4 num 32]
    by (simp add: number_plain number_digits_def SMALL_def)
qed

text \<open>A string written to memory.\<close>

lemma cstr_stored:
  assumes "0 \<notin> set cs" and "length cs < 4294967295"
  shows "cstr ((store_bytes m buf cs)(buf + of_nat (length cs) := 0)) buf cs"
proof -
  have "(store_bytes m buf cs)(buf + of_nat (length cs) := 0) = store_bytes m buf (cs @ [0])"
    by (simp add: store_bytes_append)
  moreover have "load_bytes (store_bytes m buf (cs @ [0])) buf (Suc (length cs)) = cs @ [0]"
    using load_store_same [of "cs @ [0]" m buf] assms by simp
  ultimately show ?thesis using assms by (simp add: cstr_iff)
qed

lemma store_outside: "length cs \<le> unat (a - buf) \<Longrightarrow> length cs < 4294967296 \<Longrightarrow> store_bytes m buf cs a = m a"
  by (simp add: store_bytes_patch patch_outside)

lemma valid_digit_nonzero: "writes_digits base f \<Longrightarrow> d < unat base \<Longrightarrow> f d \<noteq> 0"
  using not_valid_0 [of base] by (metis writes_digits_def)

text \<open>
  C28. Printing a 64-bit number with \<open>%llu\<close> into a buffer that does not reach the end of the format
  string, and reading the text back with \<open>simple_strtoull\<close>, returns the number and the end of the text.
\<close>

theorem vsprintf_strtoull:
  assumes fmt: "cstr m fmt [37, 108, 108, 117]" and buf: "20 \<le> unat (fmt + 4 - buf)"
  shows "\<exists>n m'. vsprintf m buf fmt [Va64 w] = Some (n, m') \<and> simple_strtoull m' buf 10 = Some (w, buf + n)"
proof -
  define cs where "cs = rev (map dchar (digits_of 10 (unat w)))"
  have len: "length cs \<le> 20"
    using digits_of_length [of 10 "unat w" 19] unat_u64_less [of w] by (simp add: cs_def)
  have f: "m fmt = 37" "m (fmt + 1) = 108" "m (fmt + 2) = 108" "m (fmt + 3) = 117" "m (fmt + 4) = 0"
    using fmt by (simp_all add: add.assoc)
  have fl: "format_flags m fmt 0 = Some (0, fmt + 1)"
    by (subst format_flags.simps) (simp add: f)
  have conv: "format_conversion m buf buf fmt [Va64 w] = Some (store_bytes m buf cs, buf + of_nat (length cs), fmt + 3, [])"
    by (simp add: format_conversion_def fl format_width_def is_digit_def f format_precision_def
        format_qualifier_def add.assoc format_number_def format_argument_def number_decimal cs_def Let_def)
  define m1 where "m1 = store_bytes m buf cs"
  have "m1 (fmt + 4) = 0" using len buf f(5) by (simp add: m1_def store_outside)
  then have fin: "vsprintf_loop m1 buf (buf + of_nat (length cs)) (fmt + 4) [] = Some (m1, buf + of_nat (length cs))"
    by (subst vsprintf_loop.simps) simp
  have "vsprintf_loop m buf buf fmt [Va64 w] = Some (m1, buf + of_nat (length cs))"
    using fin by (subst vsprintf_loop.simps) (simp add: f conv m1_def [symmetric] add.assoc)
  then have out: "vsprintf m buf fmt [Va64 w] = Some (of_nat (length cs), m1(buf + of_nat (length cs) := 0))"
    by (simp add: vsprintf_def)
  have "0 \<notin> set cs"
    using valid_digit_nonzero [OF writes_decimal] digits_of_less [of 10] by (force simp: cs_def)
  then have "cstr (m1(buf + of_nat (length cs) := 0)) buf cs"
    unfolding m1_def using len by (intro cstr_stored) simp_all
  then have "simple_strtoull (m1(buf + of_nat (length cs) := 0)) buf 10 = Some (w, buf + of_nat (length cs))"
    using strtoul_number [OF writes_decimal, of _ buf "unat w", where 'a = 64]
    by (simp add: simple_strtoull_def cs_def)
  then show ?thesis using out by blast
qed

lemma vsprintf_strtoull_witness:
  "\<exists>n m'. vsprintf (store_bytes (\<lambda>_. 0) 4096 [37, 108, 108, 117]) 64 4096 [Va64 12345678901] = Some (n, m')
    \<and> simple_strtoull m' 64 10 = Some (12345678901, 64 + n)"
proof -
  have "cstr (store_bytes (\<lambda>_. 0) 4096 [37, 108, 108, 117]) 4096 [37, 108, 108, 117]" by simp
  then show ?thesis by (rule vsprintf_strtoull) simp
qed

text \<open>Reading stops at the first character that is not a digit of the base.\<close>

lemma strtoul_loop_prefix:
  "cstr m cp cs \<Longrightarrow> strtoul_loop m base cp r
    = Some (digits_value base (takeWhile (valid_digit base) cs) r,
        cp + of_nat (length (takeWhile (valid_digit base) cs)))"
proof (induction cs arbitrary: cp r)
  case Nil
  then show ?case by (subst strtoul_loop_step) (simp add: digits_value_def not_valid_0)
next
  case (Cons c cs)
  then show ?case by (subst strtoul_loop_step) (simp add: digits_value_def algebra_simps)
qed

text \<open>
  How a text stands for a number: \<open>0x\<close> before a hexadecimal digit makes it hexadecimal whatever the base that was
  asked for; with base 0 a leading zero makes it octal, and everything else is decimal.
\<close>

definition hex_text_prefix :: "bytes \<Rightarrow> bool" where
  "hex_text_prefix cs \<longleftrightarrow> (case cs of z # x # c # _ \<Rightarrow> z = 48 \<and> x = 120 \<and> isxdigit c | _ \<Rightarrow> False)"

definition text_base :: "u32 \<Rightarrow> bytes \<Rightarrow> u32" where
  "text_base base cs = (if hex_text_prefix cs then 16 else if base \<noteq> 0 then base else if take 1 cs = [48] then 8 else 10)"

definition text_digits :: "bytes \<Rightarrow> bytes" where
  "text_digits cs = (if hex_text_prefix cs then drop 2 cs else cs)"

lemma valid_digit_zero: "valid_digit base 48 \<longleftrightarrow> base \<noteq> 0" "digit_value 48 = 0"
  by (simp_all add: valid_digit_def isxdigit_iff isdigit_iff digit_value_def word_gt_0)

lemma xdigit_value:
  assumes "isxdigit c"
  shows "digit_value c < 16"
proof -
  have "unat c \<in> set ([48..<58] @ [65..<71] @ [97..<103])" using assms unfolding isxdigit_iff set_append set_upt by auto
  then have "of_nat (unat c) \<in> (of_nat :: nat \<Rightarrow> u8) ` set ([48..<58] @ [65..<71] @ [97..<103])" by (rule imageI)
  then show ?thesis by (auto simp: upt_rec digit_value_def isdigit_iff islower_ascii toupper_def)
qed

lemma isxdigit_0: "\<not> isxdigit 0"
  by (simp add: isxdigit_iff)

lemma strtoul_text:
  assumes s: "cstr m cp cs"
  shows "simple_strtoul m cp base = (let b = text_base base cs; body = text_digits cs; ds = takeWhile (valid_digit b) body
    in Some (digits_value b ds 0, cp + of_nat (length cs - length body + length ds)))"
proof (cases "hex_text_prefix cs")
  case True
  then obtain c r where cs: "cs = 48 # 120 # c # r" "isxdigit c" by (auto simp: hex_text_prefix_def split: list.splits)
  then have "strtoul_prefix m cp base = (cp + 2, 16)" and body: "cstr m (cp + 2) (c # r)"
    using s by (simp_all add: strtoul_prefix_def add.assoc)
  then show ?thesis
    using strtoul_loop_prefix [OF body, of 16 "0 :: u32"] True
    by (simp add: simple_strtoul_def text_base_def text_digits_def cs(1) Let_def algebra_simps)
next
  case no: False
  show ?thesis
  proof (cases "take 1 cs = [48]")
    case True
    then obtain r where cs: "cs = 48 # r" by (cases cs) auto
    have b: "text_base base cs = (if base = 0 then 8 else base)" using no True by (simp add: text_base_def)
    have r: "cstr m (cp + 1) r" using s by (simp add: cs)
    have "\<not> (m (cp + 1) = 120 \<and> isxdigit (m (cp + 1 + 1)))"
      using no r isxdigit_0 by (auto simp: cs hex_text_prefix_def split: list.splits)
    then have "strtoul_prefix m cp base = (cp + 1, text_base base cs)"
      using s unfolding b by (auto simp: strtoul_prefix_def cs Let_def)
    moreover have "valid_digit (text_base base cs) 48" by (simp add: valid_digit_zero b)
    ultimately show ?thesis
      using strtoul_loop_prefix [OF r, of "text_base base cs" "0 :: u32"] no
      by (simp add: simple_strtoul_def text_digits_def Let_def cs digits_value_def valid_digit_zero)
  next
    case False
    then have "m cp \<noteq> 48" using s by (cases cs) auto
    moreover have "text_base base cs = (if base = 0 then 10 else base)" using no False by (simp add: text_base_def)
    ultimately have "strtoul_prefix m cp base = (cp, text_base base cs)" by (simp add: strtoul_prefix_def)
    then show ?thesis
      using strtoul_loop_prefix [OF s, of "text_base base cs" "0 :: u32"] no by (simp add: simple_strtoul_def text_digits_def Let_def)
  qed
qed

text \<open>
  C29. \<open>strict_strtoul\<close> on any text, in any base: the text is hexadecimal behind \<open>0x\<close> and a hexadecimal
  digit, whatever the base; otherwise it is of the base asked for, where base 0 stands for 8 after a leading zero and for
  10 else.  The call succeeds exactly when the text, without the prefix, is a non-empty run of digits of that base, with
  or without a newline behind it; the value is then the number written, modulo \<open>2 ^ 32\<close>.  Every other text gives
  \<open>-EINVAL\<close> and the value 0.
\<close>

theorem strict_strtoul_correct:
  assumes s: "cstr m cp cs"
  shows "strict_strtoul m cp base =
    (let b = text_base base cs; body = text_digits cs; ds = takeWhile (valid_digit b) body
     in Some (if ds \<noteq> [] \<and> (body = ds \<or> body = ds @ [10]) then (0, digits_value b ds 0) else (- EINVAL, 0)))"
proof -
  define b body where "b = text_base base cs" and "body = text_digits cs"
  define ds rest where "ds = takeWhile (valid_digit b) body" and "rest = dropWhile (valid_digit b) body"
  define pre where "pre = take (length cs - length body) cs"
  have "2 \<le> length cs" if "hex_text_prefix cs" using that by (auto simp: hex_text_prefix_def split: list.splits)
  then have cs: "cs = pre @ ds @ rest" by (auto simp: pre_def ds_def rest_def body_def text_digits_def)
  have body: "body = ds @ rest" by (simp add: ds_def rest_def)
  have pl: "length cs - length body = length pre" by (simp add: cs body)
  note l = cstr_length [OF s]
  have rd: "simple_strtoul m cp base = Some (digits_value b ds 0, cp + of_nat (length pre + length ds))"
    using strtoul_text [OF s, of base] by (simp add: b_def [symmetric] body_def [symmetric] ds_def [symmetric] pl Let_def)
  have pre: "pre = [] \<or> ds \<noteq> []"
  proof (cases "hex_text_prefix cs")
    case True
    then obtain c r where c: "cs = 48 # 120 # c # r" "isxdigit c" by (auto simp: hex_text_prefix_def split: list.splits)
    have "digit_value c < 16" using c(2) by (rule xdigit_value)
    then have "ds = c # takeWhile (valid_digit b) r"
      using True c by (simp add: ds_def body_def text_digits_def b_def text_base_def valid_digit_def)
    then show ?thesis by simp
  qed (simp add: pre_def body_def text_digits_def)
  have inj: "of_nat i = (of_nat j :: u32) \<longleftrightarrow> i = j" if "i < 4294967296" "j < 4294967296" for i j
    using unat_of_nat_u32 [OF that(1)] unat_of_nat_u32 [OF that(2)] by metis
  have tail: "cp + of_nat (length pre + length ds) = cp \<longleftrightarrow> ds = []"
    using inj [of "length pre + length ds" 0] l cs pre by auto
  have rest_str: "cstr m (cp + of_nat (length pre + length ds)) rest"
    using s cstr_append [of m cp "pre @ ds" rest] by (simp add: cs)
  have m_rest: "m (cp + of_nat (length pre + length ds)) = (case rest of [] \<Rightarrow> 0 | c # _ \<Rightarrow> c)"
    using rest_str by (cases rest) auto
  have nz: "0 \<notin> set rest" by (rule cstr_nonzero [OF rest_str])
  have one: "of_nat (length cs) = of_nat (length pre + length ds) + (1 :: u32) \<longleftrightarrow> length rest = 1"
    using inj [of "length rest" 1] l by (simp add: cs add.assoc [symmetric])
  show ?thesis
  proof (cases "cs = []")
    case True
    then show ?thesis using strlen_cstr [OF s] by (simp add: strict_strtoul_def text_digits_def hex_text_prefix_def Let_def)
  next
    case False
    then have len: "of_nat (length cs) \<noteq> (0 :: u32)" using inj [of "length cs" 0] l by simp
    have "strict_strtoul m cp base = Some (if ds = [] then (- EINVAL, 0)
        else if rest = [] \<or> length rest = 1 \<and> m (cp + of_nat (length pre + length ds)) = 10 then (0, digits_value b ds 0)
        else (- EINVAL, 0))"
      using len tail one nz m_rest
      by (auto simp: strict_strtoul_def strlen_cstr [OF s] rd split: list.splits simp del: of_nat_add)
    moreover have "length rest = 1 \<and> m (cp + of_nat (length pre + length ds)) = 10 \<longleftrightarrow> rest = [10]"
      using m_rest by (cases rest) auto
    ultimately show ?thesis
      using body unfolding b_def [symmetric] body_def [symmetric] ds_def [symmetric] Let_def by auto
  qed
qed

lemma strict_strtoul_correct_witness:
  "strict_strtoul (store_bytes (\<lambda>_. 0) 64 [49, 50, 10]) 64 10 = Some (0, 12)
    \<and> strict_strtoul (store_bytes (\<lambda>_. 0) 64 [49, 50, 120]) 64 10 = Some (- EINVAL, 0)
    \<and> strict_strtoul (store_bytes (\<lambda>_. 0) 64 [48, 120, 49, 50]) 64 10 = Some (0, 18)"
proof -
  have v: "valid_digit 10 49" "valid_digit 10 50" "\<not> valid_digit 10 10" "\<not> valid_digit 10 120"
    "valid_digit 16 49" "valid_digit 16 50" "digit_value 49 = 1" "digit_value 50 = 2" "isxdigit 49"
    by (simp_all add: valid_digit_def isxdigit_iff isdigit_iff digit_value_def)
  show ?thesis
    using strict_strtoul_correct [of "store_bytes (\<lambda>_. 0) 64 [49, 50, 10]" 64 "[49, 50, 10]" 10]
      strict_strtoul_correct [of "store_bytes (\<lambda>_. 0) 64 [49, 50, 120]" 64 "[49, 50, 120]" 10]
      strict_strtoul_correct [of "store_bytes (\<lambda>_. 0) 64 [48, 120, 49, 50]" 64 "[48, 120, 49, 50]" 10]
    by (simp add: v digits_value_def text_base_def text_digits_def hex_text_prefix_def)
qed

end
