(* ===== verification/LibMisc.thy ===== *)
theory LibMisc
  imports Vsprintf
begin

text \<open>
  lib/display\_options.c (\<open>print_size\<close>), lib/malloc.c and lib/time.c.  Console output is the list of
  characters printed.
\<close>

section \<open>Sizes in binary units\<close>

definition size_names :: bytes where
  "size_names = map of_nat [69, 80, 84, 71, 77, 75]"

text \<open>The unit: the first shift \<open>d\<close> of 60, 50, ..., 10 that leaves something, with its letter.\<close>

fun size_unit :: "u64 \<Rightarrow> bytes \<Rightarrow> nat \<Rightarrow> (u8 \<times> nat) option" where
  "size_unit sz [] d = None"
| "size_unit sz (c # cs) d = (if drop_bit d sz \<noteq> 0 then Some (c, d) else size_unit sz cs (d - 10))"

text \<open>The whole units and the rounded tenths.\<close>

definition size_parts :: "u64 \<Rightarrow> nat \<Rightarrow> u32 \<times> u32" where
  "size_parts sz d =
     (let n = ucast (drop_bit d sz) :: u32;
          f = sz AND (push_bit d 1 - 1)
      in if f \<noteq> 0
         then let m = ucast (drop_bit d (10 * f + push_bit (d - 1) 1)) :: u32
              in if 10 \<le> m then (n + 1, m - 10) else (n, m)
         else (n, 0))"

definition print_size :: "u64 \<Rightarrow> bytes \<Rightarrow> bytes" where
  "print_size sz s =
     (case size_unit sz size_names 60 of
        None \<Rightarrow> number sz 10 (-1) (-1) 0 @ map of_nat [32, 66, 121, 116, 101, 115] @ s
      | Some (c, d) \<Rightarrow>
          let (n, m) = size_parts sz d
          in number (ucast n) 10 (-1) (-1) 0
             @ (if m \<noteq> 0 then 46 # number (scast m) 10 (-1) (-1) SIGN else [])
             @ [32, c, 105, 66] @ s)"

section \<open>The allocator\<close>

definition ALIGN_SIZE :: u32 where
  "ALIGN_SIZE = 1024"

definition CONFIG_STACKSIZE :: u32 where
  "CONFIG_STACKSIZE = 16 * 1024"

text \<open>
  The static variable \<open>mem_addr_start\<close> is the state beside memory; it starts as 0.  The stack pointer is
  \<open>gd->start_addr_sp\<close>.  The result is the address, the memory and the new state.
\<close>

definition calloc_addr :: "u32 \<Rightarrow> u32 \<Rightarrow> u32 \<Rightarrow> u32 \<Rightarrow> u32 option \<times> u32" where
  "calloc_addr start_addr_sp n sz mem_addr_start =
     (let a = (if mem_addr_start = 0 then start_addr_sp - CONFIG_STACKSIZE else mem_addr_start)
      in if a < n * sz then (None, a)
         else let a = a - n * sz;
                  a = a - a mod ALIGN_SIZE
              in (Some a, a))"

definition calloc :: "u32 \<Rightarrow> u32 \<Rightarrow> u32 \<Rightarrow> memory \<Rightarrow> u32 \<Rightarrow> u32 \<times> memory \<times> u32" where
  "calloc start_addr_sp n sz m mem_addr_start =
     (case calloc_addr start_addr_sp n sz mem_addr_start of
        (None, a) \<Rightarrow> (0, m, a)
      | (Some p, a) \<Rightarrow> (p, snd (memset m p 0 (n * sz)), a))"

section \<open>Delays\<close>

definition CONFIG_WD_PERIOD :: u32 where
  "CONFIG_WD_PERIOD = 10 * 1000 * 1000"

text \<open>The arguments of the calls of \<open>__udelay\<close>; the watchdog is served before each.\<close>

function udelay :: "u32 \<Rightarrow> u32 list" where
  "udelay usec =
     (let kv = (if CONFIG_WD_PERIOD < usec then CONFIG_WD_PERIOD else usec);
          rest = usec - kv
      in if rest \<noteq> 0 then kv # udelay rest else [kv])"
  by auto
termination
proof (relation "measure unat")
  fix usec kv rest :: u32
  assume kv: "kv = (if CONFIG_WD_PERIOD < usec then CONFIG_WD_PERIOD else usec)" and r: "rest = usec - kv"
    and nz: "rest \<noteq> 0"
  then have "CONFIG_WD_PERIOD < usec" by (auto split: if_splits)
  then show "(rest, usec) \<in> measure unat"
    using kv r by (simp add: CONFIG_WD_PERIOD_def word_less_nat_alt unat_sub_small)
qed simp

declare udelay.simps [simp del]

definition mdelay :: "u32 \<Rightarrow> u32 list" where
  "mdelay msec = concat (replicate (unat msec) (udelay 1000))"

section \<open>Properties\<close>

lemma number_signed:
  "\<not> num <s 0 \<Longrightarrow> number num 10 (-1) (-1) SIGN = rev (number_digits num 10 0)"
  by (simp add: number_def number_sign_def pad_loop_eq Let_def format_flags_defs)

lemma size_unit_some:
  "size_unit sz cs d = Some (c, k) \<Longrightarrow> 10 * length cs \<le> d \<Longrightarrow> drop_bit (d + 10) sz = 0 \<Longrightarrow>
    2 ^ k \<le> unat sz \<and> unat sz < 2 ^ (k + 10) \<and> k \<le> d \<and> d < k + 10 * length cs"
proof (induction cs arbitrary: d)
  case (Cons x cs)
  have z: "drop_bit j sz = 0 \<longleftrightarrow> unat sz < 2 ^ j" for j
  proof -
    have "drop_bit j sz = 0 \<longleftrightarrow> unat (drop_bit j sz) = 0" by (simp only: unsigned_eq_0_iff)
    then show ?thesis unfolding unat_drop_bit by (simp add: div_eq_0_iff)
  qed
  show ?case
  proof (cases "drop_bit d sz = 0")
    case True
    then have "size_unit sz cs (d - 10) = Some (c, k)" "drop_bit (d - 10 + 10) sz = 0"
      and le: "10 * length cs \<le> d - 10" "10 \<le> d"
      using Cons.prems by simp_all
    from Cons.IH [OF this(1) le(1) this(2)] show ?thesis using le(2) by auto
  next
    case False
    then show ?thesis using Cons.prems z by simp
  qed
qed simp

lemma size_parts_value:
  assumes lo: "2 ^ d \<le> unat sz" and hi: "unat sz < 2 ^ (d + 10)" and d: "10 \<le> d" "d \<le> 60"
    and p: "size_parts sz d = (n, m)"
  shows "unat m < 10 \<and> 2 * \<bar>10 * int (unat sz) - (10 * int (unat n) + int (unat m)) * 2 ^ d\<bar> \<le> 2 ^ d"
proof -
  define D :: nat where "D = 2 ^ d"
  define q r where "q = unat sz div D" and "r = unat sz mod D"
  have D: "0 < D" "even D" using d by (simp_all add: D_def)
  have sz: "unat sz = q * D + r" and rD: "r < D" using D by (simp_all add: q_def r_def)
  have "unat sz < D * 1024" using hi by (simp add: D_def power_add)
  then have q: "q < 1024" unfolding q_def by (simp add: less_mult_imp_div_less mult.commute)
  have uq: "unat (ucast (drop_bit d sz) :: u32) = q"
    using q by (simp add: unat_ucast_u64_u32 unat_drop_bit D_def q_def)
  have "push_bit d 1 - 1 = (mask d :: u64)" by (simp add: mask_eq_exp_minus_1 push_bit_eq_mult)
  then have ur: "unat (sz AND (push_bit d 1 - 1)) = r" by (simp add: unat_and_mask r_def D_def)
  have Db: "D \<le> 2 ^ 60" using d unfolding D_def by (intro power_increasing) simp_all
  have half: "unat (push_bit (d - 1) 1 :: u64) = D div 2"
  proof -
    have "unat (push_bit (d - 1) 1 :: u64) = 2 ^ (d - 1)"
    proof -
      have "push_bit (d - 1) 1 = (of_nat (2 ^ (d - 1)) :: u64)" by (simp add: push_bit_eq_mult)
      moreover have "(2 :: nat) ^ (d - 1) < 2 ^ 64" using d by (intro power_strict_increasing) simp_all
      ultimately show ?thesis by (simp only: unat_of_nat take_bit_eq_mod) simp
    qed
    moreover have "D = 2 * 2 ^ (d - 1)" using d by (simp add: D_def flip: power_Suc)
    ultimately show ?thesis by simp
  qed
  have ten: "unat (10 * (sz AND (push_bit d 1 - 1)) + push_bit (d - 1) 1) = 10 * r + D div 2"
  proof -
    have "unat (10 * (sz AND (push_bit d 1 - 1))) = 10 * r"
      using rD Db by (subst unat_mult_small) (simp_all only: ur, simp_all)
    then show ?thesis using rD Db by (subst unat_add_small) (simp_all only: half, simp)
  qed
  define t where "t = (10 * r + D div 2) div D"
  have tD: "t * D \<le> 10 * r + D div 2" "10 * r + D div 2 < t * D + D"
    using div_mult_mod_eq [of "10 * r + D div 2" D] mod_less_divisor [OF D(1), of "10 * r + D div 2"]
    unfolding t_def by linarith+
  have "t * D < 11 * D" using tD rD by linarith
  then have t: "t \<le> 10" by simp
  have ut: "unat (ucast (drop_bit d (10 * (sz AND (push_bit d 1 - 1)) + push_bit (d - 1) 1)) :: u32) = t"
    using t unfolding unat_ucast_u64_u32 unat_drop_bit ten D_def [symmetric] t_def [symmetric] by simp
  obtain h where h: "D = 2 * h" using D by (auto elim: evenE)
  have eq: "unat m < 10 \<and> 10 * unat n + unat m = 10 * q + t"
  proof (cases "r = 0")
    case True
    then have "sz AND (push_bit d 1 - 1) = 0" using ur by (simp only: unsigned_eq_0_iff)
    moreover have "t = 0" using True h D by (simp add: t_def)
    ultimately show ?thesis using p uq by (auto simp: size_parts_def Let_def)
  next
    case False
    then have nz: "sz AND (push_bit d 1 - 1) \<noteq> 0" using ur by auto
    let ?m = "ucast (drop_bit d (10 * (sz AND (push_bit d 1 - 1)) + push_bit (d - 1) 1)) :: u32"
    let ?n = "ucast (drop_bit d sz) :: u32"
    show ?thesis
    proof (cases "10 \<le> ?m")
      case True
      then have "t = 10" using t ut by (simp add: word_le_nat_alt)
      moreover have "unat (?n + 1) = q + 1" using uq q by (subst unat_add_small) simp_all
      moreover have "n = ?n + 1" "m = ?m - 10" using p nz True by (auto simp: size_parts_def Let_def)
      ultimately show ?thesis using ut by (simp add: unat_sub_small)
    next
      case False
      then have "t < 10" using ut by (simp add: word_le_nat_alt)
      moreover have "n = ?n" "m = ?m" using p nz False by (auto simp: size_parts_def Let_def)
      ultimately show ?thesis using ut uq by simp
    qed
  qed
  have "10 * int (unat sz) - (10 * int (unat n) + int (unat m)) * 2 ^ d = 10 * int r - int t * int D"
  proof -
    have "10 * int (unat n) + int (unat m) = 10 * int q + int t" using eq by linarith
    moreover have "(2 :: int) ^ d = int D" by (simp add: D_def)
    ultimately show ?thesis by (simp only: sz) (simp add: algebra_simps)
  qed
  moreover have "2 * \<bar>10 * int r - int t * int D\<bar> \<le> int D"
  proof -
    have "int t * int D \<le> 10 * int r + int h" and "10 * int r + int h < int t * int D + int D"
      using tD h by (simp_all flip: of_nat_mult of_nat_add)
    moreover have "int D = 2 * int h" using h by simp
    ultimately show ?thesis by (simp add: abs_le_iff)
  qed
  ultimately show ?thesis using eq by (simp add: D_def)
qed

text \<open>
  \<open>print_size\<close> of 1024 bytes or more prints whole units and one decimal of the largest unit that
  fits, rounded to the nearest tenth: the printed value is within half a tenth of a unit of the size,
  the decimal is a single digit, and the carry of the rounding goes to the units.
\<close>

theorem print_size_rounds:
  assumes "1024 \<le> unat sz"
  shows "\<exists>c d n m. size_unit sz size_names 60 = Some (c, d) \<and> size_parts sz d = (n, m)
    \<and> 2 ^ d \<le> unat sz \<and> unat sz < 2 ^ (d + 10) \<and> unat m < 10
    \<and> 2 * \<bar>10 * int (unat sz) - (10 * int (unat n) + int (unat m)) * 2 ^ d\<bar> \<le> 2 ^ d
    \<and> print_size sz s = rev (map dchar (digits_of 10 (unat n)))
        @ (if m \<noteq> 0 then [46, dchar (unat m)] else []) @ [32, c, 105, 66] @ s"
proof -
  have "drop_bit 10 sz \<noteq> 0"
  proof
    assume "drop_bit 10 sz = 0"
    then have "unat sz div 2 ^ 10 = 0" by (metis unat_drop_bit unsigned_0)
    then show False using assms by (simp add: div_eq_0_iff)
  qed
  then have "size_unit sz size_names 60 \<noteq> None" by (auto simp: size_names_def split: if_splits)
  then obtain c d where u: "size_unit sz size_names 60 = Some (c, d)" by auto
  have "drop_bit (60 + 10) sz = 0"
    by (rule bit_eqI) (auto simp: bit_simps dest: bit_imp_le_length)
  from size_unit_some [OF u _ this]
  have r: "2 ^ d \<le> unat sz" "unat sz < 2 ^ (d + 10)" "d \<le> 60" "0 < d" by (auto simp: size_names_def)
  have ten: "10 \<le> d" using u by (auto simp: size_names_def split: if_splits)
  obtain n m where p: "size_parts sz d = (n, m)" by (cases "size_parts sz d")
  note v = size_parts_value [OF r(1, 2) ten r(3) p]
  have sm: "(scast m :: u64) = ucast m"
  proof -
    have "- 2147483648 \<le> (0 :: int)" by simp
    also have "0 \<le> uint m" by simp
    finally have "- 2147483648 \<le> uint m" .
    moreover have "uint m < 10" using v by (metis of_nat_less_iff of_nat_numeral of_nat_unat)
    ultimately have "sint m = uint m" by (simp add: sint_uint signed_take_bit_int_eq_self_iff)
    then show ?thesis by (simp only: scast_eq ucast_eq)
  qed
  have "number (scast m) 10 (-1) (-1) SIGN = [dchar (unat m)]" if "m \<noteq> 0"
  proof -
    have "unat (ucast m :: u64) = unat m" by (simp add: unat_ucast_u32_u64)
    moreover from this have "(ucast m :: u64) \<noteq> 0" using that by (metis unsigned_0 unsigned_eq_0_iff)
    ultimately show ?thesis
      using v number_signed [of "ucast m"] that
      by (simp add: sm number_digits_def put_dec_digits digits_of_small word_sless_alt sint_u64 unat_gt_0)
  qed
  then have "print_size sz s = rev (map dchar (digits_of 10 (unat n)))
        @ (if m \<noteq> 0 then [46, dchar (unat m)] else []) @ [32, c, 105, 66] @ s"
    by (simp add: print_size_def u p number_decimal unat_ucast_u32_u64)
  then show ?thesis using u p r v by blast
qed

lemma print_size_rounds_witness:
  "\<exists>c d n m. size_unit 1572864 size_names 60 = Some (c, d) \<and> size_parts 1572864 d = (n, m)
    \<and> unat m < 10
    \<and> print_size 1572864 [10] = rev (map dchar (digits_of 10 (unat n)))
        @ (if m \<noteq> 0 then [46, dchar (unat m)] else []) @ [32, c, 105, 66] @ [10]"
proof -
  have "1024 \<le> unat (1572864 :: u64)" by simp
  from print_size_rounds [OF this, of "[10]"] show ?thesis by blast
qed



end
