(* ===== verification/Crc32.thy ===== *)
theory Crc32
  imports Prelude
begin

text \<open>
  lib/crc32.c, as built for the little-endian target: the table, its generator, the word-at-a-time
  loop with its byte-wise head and tail, and the chunked variant.  The lemmas relate the code to the
  bit-serial shift register of the comment in the source: the table is what the generator makes, the
  loop computes the shift register for every alignment of the buffer, checksums can be continued,
  and a change confined to four consecutive bytes changes the checksum.
\<close>

section \<open>The code\<close>

definition crc_table :: "u32 list" where
  "crc_table = concat [
    [0x00000000, 0x77073096, 0xee0e612c, 0x990951ba],
    [0x076dc419, 0x706af48f, 0xe963a535, 0x9e6495a3],
    [0x0edb8832, 0x79dcb8a4, 0xe0d5e91e, 0x97d2d988],
    [0x09b64c2b, 0x7eb17cbd, 0xe7b82d07, 0x90bf1d91],
    [0x1db71064, 0x6ab020f2, 0xf3b97148, 0x84be41de],
    [0x1adad47d, 0x6ddde4eb, 0xf4d4b551, 0x83d385c7],
    [0x136c9856, 0x646ba8c0, 0xfd62f97a, 0x8a65c9ec],
    [0x14015c4f, 0x63066cd9, 0xfa0f3d63, 0x8d080df5],
    [0x3b6e20c8, 0x4c69105e, 0xd56041e4, 0xa2677172],
    [0x3c03e4d1, 0x4b04d447, 0xd20d85fd, 0xa50ab56b],
    [0x35b5a8fa, 0x42b2986c, 0xdbbbc9d6, 0xacbcf940],
    [0x32d86ce3, 0x45df5c75, 0xdcd60dcf, 0xabd13d59],
    [0x26d930ac, 0x51de003a, 0xc8d75180, 0xbfd06116],
    [0x21b4f4b5, 0x56b3c423, 0xcfba9599, 0xb8bda50f],
    [0x2802b89e, 0x5f058808, 0xc60cd9b2, 0xb10be924],
    [0x2f6f7c87, 0x58684c11, 0xc1611dab, 0xb6662d3d],
    [0x76dc4190, 0x01db7106, 0x98d220bc, 0xefd5102a],
    [0x71b18589, 0x06b6b51f, 0x9fbfe4a5, 0xe8b8d433],
    [0x7807c9a2, 0x0f00f934, 0x9609a88e, 0xe10e9818],
    [0x7f6a0dbb, 0x086d3d2d, 0x91646c97, 0xe6635c01],
    [0x6b6b51f4, 0x1c6c6162, 0x856530d8, 0xf262004e],
    [0x6c0695ed, 0x1b01a57b, 0x8208f4c1, 0xf50fc457],
    [0x65b0d9c6, 0x12b7e950, 0x8bbeb8ea, 0xfcb9887c],
    [0x62dd1ddf, 0x15da2d49, 0x8cd37cf3, 0xfbd44c65],
    [0x4db26158, 0x3ab551ce, 0xa3bc0074, 0xd4bb30e2],
    [0x4adfa541, 0x3dd895d7, 0xa4d1c46d, 0xd3d6f4fb],
    [0x4369e96a, 0x346ed9fc, 0xad678846, 0xda60b8d0],
    [0x44042d73, 0x33031de5, 0xaa0a4c5f, 0xdd0d7cc9],
    [0x5005713c, 0x270241aa, 0xbe0b1010, 0xc90c2086],
    [0x5768b525, 0x206f85b3, 0xb966d409, 0xce61e49f],
    [0x5edef90e, 0x29d9c998, 0xb0d09822, 0xc7d7a8b4],
    [0x59b33d17, 0x2eb40d81, 0xb7bd5c3b, 0xc0ba6cad],
    [0xedb88320, 0x9abfb3b6, 0x03b6e20c, 0x74b1d29a],
    [0xead54739, 0x9dd277af, 0x04db2615, 0x73dc1683],
    [0xe3630b12, 0x94643b84, 0x0d6d6a3e, 0x7a6a5aa8],
    [0xe40ecf0b, 0x9309ff9d, 0x0a00ae27, 0x7d079eb1],
    [0xf00f9344, 0x8708a3d2, 0x1e01f268, 0x6906c2fe],
    [0xf762575d, 0x806567cb, 0x196c3671, 0x6e6b06e7],
    [0xfed41b76, 0x89d32be0, 0x10da7a5a, 0x67dd4acc],
    [0xf9b9df6f, 0x8ebeeff9, 0x17b7be43, 0x60b08ed5],
    [0xd6d6a3e8, 0xa1d1937e, 0x38d8c2c4, 0x4fdff252],
    [0xd1bb67f1, 0xa6bc5767, 0x3fb506dd, 0x48b2364b],
    [0xd80d2bda, 0xaf0a1b4c, 0x36034af6, 0x41047a60],
    [0xdf60efc3, 0xa867df55, 0x316e8eef, 0x4669be79],
    [0xcb61b38c, 0xbc66831a, 0x256fd2a0, 0x5268e236],
    [0xcc0c7795, 0xbb0b4703, 0x220216b9, 0x5505262f],
    [0xc5ba3bbe, 0xb2bd0b28, 0x2bb45a92, 0x5cb36a04],
    [0xc2d7ffa7, 0xb5d0cf31, 0x2cd99e8b, 0x5bdeae1d],
    [0x9b64c2b0, 0xec63f226, 0x756aa39c, 0x026d930a],
    [0x9c0906a9, 0xeb0e363f, 0x72076785, 0x05005713],
    [0x95bf4a82, 0xe2b87a14, 0x7bb12bae, 0x0cb61b38],
    [0x92d28e9b, 0xe5d5be0d, 0x7cdcefb7, 0x0bdbdf21],
    [0x86d3d2d4, 0xf1d4e242, 0x68ddb3f8, 0x1fda836e],
    [0x81be16cd, 0xf6b9265b, 0x6fb077e1, 0x18b74777],
    [0x88085ae6, 0xff0f6a70, 0x66063bca, 0x11010b5c],
    [0x8f659eff, 0xf862ae69, 0x616bffd3, 0x166ccf45],
    [0xa00ae278, 0xd70dd2ee, 0x4e048354, 0x3903b3c2],
    [0xa7672661, 0xd06016f7, 0x4969474d, 0x3e6e77db],
    [0xaed16a4a, 0xd9d65adc, 0x40df0b66, 0x37d83bf0],
    [0xa9bcae53, 0xdebb9ec5, 0x47b2cf7f, 0x30b5ffe9],
    [0xbdbdf21c, 0xcabac28a, 0x53b39330, 0x24b4a3a6],
    [0xbad03605, 0xcdd70693, 0x54de5729, 0x23d967bf],
    [0xb3667a2e, 0xc4614ab8, 0x5d681b02, 0x2a6f2b94],
    [0xb40bbe37, 0xc30c8ea1, 0x5a05df1b, 0x2d02ef8d]]"

definition crc_poly :: u32 where
  "crc_poly = foldl (\<lambda>poly n. poly OR push_bit (31 - n) 1) 0 [0, 1, 2, 4, 5, 7, 8, 10, 11, 12, 16, 22, 23, 26]"

definition crc_shift :: "u32 \<Rightarrow> u32" where
  "crc_shift c = (if c AND 1 \<noteq> 0 then crc_poly XOR drop_bit 1 c else drop_bit 1 c)"

definition make_crc_table :: "u32 list" where
  "make_crc_table = map (\<lambda>n. (crc_shift ^^ 8) (of_nat n)) [0..<256]"

text \<open>\<open>DO_CRC (x)\<close>; \<open>*p\<close> is promoted to 32 bits, and the word loop passes 0.\<close>

definition DO_CRC :: "u32 \<Rightarrow> u32 \<Rightarrow> u32" where
  "DO_CRC x crc = crc_table ! unat ((crc XOR x) AND 255) XOR drop_bit 8 crc"

text \<open>The head: bytes until the address is a multiple of four or the data ends.\<close>

fun align_loop :: "nat \<Rightarrow> bytes \<Rightarrow> u32 \<Rightarrow> u32 \<times> bytes" where
  "align_loop p [] crc = (crc, [])"
| "align_loop p (x # buf) crc =
     (let crc = DO_CRC (ucast x) crc
      in if buf \<noteq> [] \<and> (p + 1) mod 4 \<noteq> 0 then align_loop (p + 1) buf crc else (crc, buf))"

fun word_loop :: "nat \<Rightarrow> bytes \<Rightarrow> u32 \<Rightarrow> u32 \<times> bytes" where
  "word_loop 0 buf crc = (crc, buf)"
| "word_loop (Suc len) buf crc =
     (let crc = crc XOR le_word (take 4 buf);
          crc = DO_CRC 0 (DO_CRC 0 (DO_CRC 0 (DO_CRC 0 crc)))
      in word_loop len (drop 4 buf) crc)"

fun tail_loop :: "bytes \<Rightarrow> u32 \<Rightarrow> u32" where
  "tail_loop [] crc = crc"
| "tail_loop (x # buf) crc = tail_loop buf (DO_CRC (ucast x) crc)"

text \<open>\<open>b\<close> is the address of the buffer, whose content is the list \<open>buf\<close>.\<close>

definition crc32_no_comp :: "u32 \<Rightarrow> nat \<Rightarrow> bytes \<Rightarrow> u32" where
  "crc32_no_comp crc b buf =
     (let (crc, buf) = (if b mod 4 \<noteq> 0 \<and> buf \<noteq> [] then align_loop b buf crc else (crc, buf));
          (crc, rest) = word_loop (length buf div 4) buf crc
      in tail_loop rest crc)"

definition crc32 :: "u32 \<Rightarrow> nat \<Rightarrow> bytes \<Rightarrow> u32" where
  "crc32 crc b buf = crc32_no_comp (crc XOR 0xffffffff) b buf XOR 0xffffffff"

text \<open>\<open>crc32_wd\<close> with a watchdog: the loop makes no progress when the chunk size is 0.\<close>

partial_function (option) crc32_wd :: "u32 \<Rightarrow> nat \<Rightarrow> bytes \<Rightarrow> nat \<Rightarrow> u32 option" where
  "crc32_wd crc b buf chunk_sz =
     (if buf = [] then Some crc
      else let chunk = (if length buf > chunk_sz then chunk_sz else length buf)
           in crc32_wd (crc32 crc b (take chunk buf)) (b + chunk) (drop chunk buf) chunk_sz)"

section \<open>The table and the shift register\<close>

lemma crc_poly_eq: "crc_poly = 0xedb88320"
  by (simp add: crc_poly_def)

lemma and_1_odd: "c AND 1 \<noteq> 0 \<longleftrightarrow> odd (c :: u32)"
  by (simp add: and_one_eq odd_iff_mod_2_eq_one)

lemma crc_shift_xor: "crc_shift (a XOR b) = crc_shift a XOR crc_shift b"
proof -
  have "crc_poly XOR (crc_poly XOR x) = x" for x by (simp add: xor.assoc [symmetric])
  then show ?thesis
    unfolding crc_shift_def and_1_odd
    by (simp add: even_xor_iff drop_bit_xor xor.assoc xor.left_commute)
qed

definition S8 :: "u32 \<Rightarrow> u32" where
  "S8 = crc_shift ^^ 8"

lemma shifts_xor: "(crc_shift ^^ k) (a XOR b) = (crc_shift ^^ k) a XOR (crc_shift ^^ k) b"
  by (induction k) (simp_all add: crc_shift_xor)

lemma S8_unroll: "S8 x = crc_shift (crc_shift (crc_shift (crc_shift (crc_shift (crc_shift (crc_shift (crc_shift x)))))))"
  by (simp add: S8_def numeral_eq_Suc)

lemma S8_xor: "S8 (a XOR b) = S8 a XOR S8 b"
  by (simp add: S8_def shifts_xor)

text \<open>Low zero bits leave the register unchanged but for the shift.\<close>

lemma drop_push: "drop_bit k (push_bit k y) = take_bit (32 - k) (y :: u32)"
  by (rule bit_word_eqI) (auto simp: bit_simps)

lemma crc_shift_push:
  assumes "take_bit 31 y = y"
  shows "crc_shift (push_bit 1 y) = y"
proof -
  have "drop_bit 1 (push_bit 1 y) = y" using drop_push [of 1 y] assms by simp
  moreover have "even (push_bit 1 y)" by simp
  ultimately show ?thesis by (simp only: crc_shift_def and_1_odd if_False not_True_eq_False)
qed

lemma shifts_push_bit:
  "k \<le> 32 \<Longrightarrow> take_bit (32 - k) y = y \<Longrightarrow> (crc_shift ^^ k) (push_bit k y) = y"
proof (induction k)
  case 0
  then show ?case by simp
next
  case (Suc k)
  have t31: "take_bit 31 (push_bit k y) = push_bit k y" and tk: "take_bit (32 - k) y = y"
  proof -
    have b: "bit y i \<Longrightarrow> i < 32 - Suc k" for i
      using Suc.prems(2) by (metis bit_take_bit_iff)
    show "take_bit 31 (push_bit k y) = push_bit k y"
      by (rule bit_word_eqI) (use b in \<open>fastforce simp: bit_simps\<close>)
    show "take_bit (32 - k) y = y"
      by (rule bit_word_eqI) (use b in \<open>fastforce simp: bit_simps\<close>)
  qed
  have "(crc_shift ^^ Suc k) (push_bit (Suc k) y) = (crc_shift ^^ k) (crc_shift (push_bit 1 (push_bit k y)))"
    by (simp add: funpow_swap1)
  also have "\<dots> = (crc_shift ^^ k) (push_bit k y)"
    by (simp only: crc_shift_push [OF t31])
  finally show ?case using Suc tk by simp
qed

lemma S8_push: "take_bit 24 y = y \<Longrightarrow> S8 (push_bit 8 y) = y"
  using shifts_push_bit [of 8 y] by (simp add: S8_def)

lemma S8_split: "S8 c = S8 (c AND 255) XOR drop_bit 8 c"
proof -
  have m: "(255 :: u32) = mask 8" by (simp add: mask_eq_exp_minus_1)
  have "c = (c AND 255) XOR push_bit 8 (drop_bit 8 c)"
    unfolding m by (rule bit_word_eqI) (auto simp: bit_simps)
  then have "S8 c = S8 (c AND 255) XOR S8 (push_bit 8 (drop_bit 8 c))"
    by (metis S8_xor)
  also have "S8 (push_bit 8 (drop_bit 8 c)) = drop_bit 8 c"
    by (rule S8_push) (rule bit_word_eqI, auto simp: bit_simps dest: bit_imp_le_length)
  finally show ?thesis .
qed

text \<open>A table of a linear map from its values at the powers of two, highest first.\<close>

fun lin_table :: "u32 list \<Rightarrow> u32 list" where
  "lin_table [] = [0]"
| "lin_table (b # bs) = lin_table bs @ map (\<lambda>x. x XOR b) (lin_table bs)"

lemma of_nat_high_bit:
  assumes "n < 2 ^ k"
  shows "(of_nat (2 ^ k + n) :: u32) = of_nat n XOR push_bit k 1"
proof -
  have "(of_nat n :: u32) AND push_bit k 1 = 0"
  proof (rule bit_word_eqI)
    fix i
    have "\<not> bit n k" using assms by (metis bit_take_bit_iff nat_neq_iff take_bit_nat_eq_self_iff)
    then show "bit (of_nat n AND push_bit k 1 :: u32) i = bit 0 i"
      by (auto simp: bit_simps)
  qed
  then have "(of_nat n :: u32) XOR push_bit k 1 = of_nat n + push_bit k 1"
    by (simp add: disjunctive_xor_eq_or disjunctive_add_eq_or)
  then show ?thesis by (simp add: push_bit_eq_mult add.commute)
qed

lemma table_linear:
  "map (\<lambda>n. S8 (of_nat n)) [0..<2 ^ k] = lin_table (map (\<lambda>i. S8 (push_bit i 1)) (rev [0..<k]))"
proof (induction k)
  case 0
  have "S8 0 = 0" by (metis S8_xor xor_self_eq)
  then show ?case by simp
next
  case (Suc k)
  have "[0..<2 ^ Suc k] = [0..<2 ^ k] @ map (\<lambda>n. 2 ^ k + n) [0..<2 ^ k]"
    by (rule nth_equalityI) (auto simp: nth_append)
  moreover have "map (\<lambda>n. S8 (of_nat (2 ^ k + n))) [0..<2 ^ k]
      = map (\<lambda>x. x XOR S8 (push_bit k 1)) (map (\<lambda>n. S8 (of_nat n)) [0..<2 ^ k])"
    by (simp del: of_nat_add add: of_nat_high_bit S8_xor)
  ultimately show ?case using Suc by (simp del: of_nat_add add: comp_def)
qed

lemma crc_table_is_S8: "crc_table = map (\<lambda>n. S8 (of_nat n)) [0..<256]"
proof -
  have i: "rev [0..<8] = [7, 6, 5, 4, 3, 2, 1, 0 :: nat]" by (simp add: upt_rec)
  have b: "S8 128 = 0xedb88320" "S8 64 = 0x76dc4190" "S8 32 = 0x3b6e20c8" "S8 16 = 0x1db71064"
    "S8 8 = 0x0edb8832" "S8 4 = 0x076dc419" "S8 2 = 0xee0e612c" "S8 1 = 0x77073096"
    by (simp_all add: S8_unroll crc_shift_def crc_poly_eq)
  have "lin_table (map (\<lambda>i. S8 (push_bit i 1)) (rev [0..<8])) = crc_table"
    by (simp add: i b crc_table_def)
  then show ?thesis using table_linear [of 8] by simp
qed

lemma make_crc_table_S8: "make_crc_table = map (\<lambda>n. S8 (of_nat n)) [0..<256]"
  by (simp add: make_crc_table_def S8_def)

text \<open>
  The table is the generator's: the 256 constants of the source are what \<open>make_crc_table\<close>
  computes from the terms of the polynomial.
\<close>

theorem crc_table_generated: "crc_table = make_crc_table"
  by (simp only: crc_table_is_S8 make_crc_table_S8)

section \<open>The loop\<close>

text \<open>One byte of the bit-serial register.\<close>

definition crc_step :: "u32 \<Rightarrow> u8 \<Rightarrow> u32" where
  "crc_step crc x = S8 (crc XOR ucast x)"

definition crc_serial :: "u32 \<Rightarrow> bytes \<Rightarrow> u32" where
  "crc_serial crc buf = foldl crc_step crc buf"

lemma unat_and_255: "unat (c AND 255 :: u32) < 256"
  using word_and_le1 [of c 255] by (simp add: word_le_nat_alt)

lemma DO_CRC_S8: "DO_CRC x crc = S8 ((crc XOR x) AND 255) XOR drop_bit 8 crc"
  using unat_and_255 [of "crc XOR x"] by (simp add: DO_CRC_def crc_table_is_S8)

lemma DO_CRC_byte: "DO_CRC (ucast x) crc = crc_step crc x"
proof -
  have "drop_bit 8 (crc XOR ucast x) = drop_bit 8 crc"
    by (rule bit_word_eqI) (auto simp: bit_simps dest: bit_imp_le_length)
  then show ?thesis
    unfolding DO_CRC_S8 crc_step_def by (subst (2) S8_split) simp
qed

lemma DO_CRC_zero: "DO_CRC 0 crc = S8 crc"
  unfolding DO_CRC_S8 by (subst (2) S8_split) simp

lemma align_loop_serial:
  "buf \<noteq> [] \<Longrightarrow> \<exists>k\<le>length buf. align_loop p buf crc = (crc_serial crc (take k buf), drop k buf)"
proof (induction p buf crc rule: align_loop.induct)
  case (1 p crc)
  then show ?case by simp
next
  case (2 p x buf crc)
  show ?case
  proof (cases "buf \<noteq> [] \<and> (p + 1) mod 4 \<noteq> 0")
    case True
    then obtain k where "k \<le> length buf"
      "align_loop (p + 1) buf (DO_CRC (ucast x) crc) = (crc_serial (DO_CRC (ucast x) crc) (take k buf), drop k buf)"
      using "2.IH" [OF refl] by blast
    then show ?thesis
      using True by (intro exI [of _ "Suc k"]) (simp add: DO_CRC_byte crc_serial_def)
  next
    case False
    then show ?thesis
      by (intro exI [of _ 1]) (auto simp: DO_CRC_byte crc_serial_def)
  qed
qed

text \<open>A run of up to four bytes is a shift of the register with the run as a word added.\<close>

lemma serial_short:
  "length bs \<le> 4 \<Longrightarrow> crc_serial c bs = (S8 ^^ length bs) (c XOR le_word bs)"
proof (induction bs arbitrary: c)
  case Nil
  then show ?case by (simp add: crc_serial_def)
next
  case (Cons b bs)
  have bit24: "bit (le_word bs :: u32) i \<Longrightarrow> i < 24" for i
    using Cons.prems le_word_bit_bound [of bs i, where 'a = 32] by simp
  have t: "take_bit 24 (le_word bs :: u32) = le_word bs"
    by (rule bit_word_eqI) (use bit24 in \<open>auto simp: bit_simps\<close>)
  have dis: "ucast b OR push_bit 8 (le_word bs) = (ucast b XOR push_bit 8 (le_word bs) :: u32)"
    by (rule bit_word_eqI) (auto simp: bit_simps dest: bit_imp_le_length)
  have "crc_serial c (b # bs) = crc_serial (S8 (c XOR ucast b)) bs"
    by (simp add: crc_serial_def crc_step_def)
  also have "\<dots> = (S8 ^^ length bs) (S8 (c XOR ucast b) XOR le_word bs)"
    using Cons by simp
  also have "S8 (c XOR ucast b) XOR le_word bs = S8 (c XOR le_word (b # bs))"
    by (simp add: dis S8_xor S8_push [OF t] xor.assoc)
  finally show ?case by (simp add: funpow_swap1)
qed

lemma word_loop_serial:
  "4 * n \<le> length buf \<Longrightarrow> word_loop n buf crc = (crc_serial crc (take (4 * n) buf), drop (4 * n) buf)"
proof (induction n arbitrary: buf crc)
  case 0
  then show ?case by (simp add: crc_serial_def)
next
  case (Suc n)
  define c where "c = crc_serial crc (take 4 buf)"
  have four: "S8 (S8 (S8 (S8 (crc XOR le_word (take 4 buf))))) = c"
    using Suc.prems serial_short [of "take 4 buf" crc] by (simp add: c_def numeral_eq_Suc)
  have "word_loop (Suc n) buf crc = word_loop n (drop 4 buf) c"
    by (simp add: DO_CRC_zero four)
  also have "\<dots> = (crc_serial c (take (4 * n) (drop 4 buf)), drop (4 * n) (drop 4 buf))"
    using Suc by simp
  also have "crc_serial c (take (4 * n) (drop 4 buf)) = crc_serial crc (take (4 + 4 * n) buf)"
    by (simp add: c_def crc_serial_def take_add)
  finally show ?case by (simp add: add.commute)
qed

lemma tail_loop_serial: "tail_loop buf crc = crc_serial crc buf"
  by (induction buf crc rule: tail_loop.induct) (simp_all add: DO_CRC_byte crc_serial_def)

lemma no_comp_serial: "crc32_no_comp crc b buf = crc_serial crc buf"
proof -
  obtain k where "(if b mod 4 \<noteq> 0 \<and> buf \<noteq> [] then align_loop b buf crc else (crc, buf))
      = (crc_serial crc (take k buf), drop k buf)"
    using align_loop_serial [of buf b crc]
    by (metis append_Nil crc_serial_def drop_0 foldl_Nil take_0)
  moreover have "crc_serial (crc_serial (crc_serial crc (take k buf)) (take n (drop k buf))) (drop n (drop k buf))
      = crc_serial crc buf" for n
    by (simp add: crc_serial_def foldl_append [symmetric] del: foldl_append drop_drop)
  ultimately show ?thesis
    by (simp add: crc32_no_comp_def word_loop_serial tail_loop_serial del: drop_drop)
qed

text \<open>
  C32. The word-at-a-time loop is the shift register: for every start value, every alignment of the
  buffer and every content, the code computes the bit-serial CRC of the bytes.
\<close>

theorem crc32_no_comp_serial: "crc32_no_comp crc b buf = crc_serial crc buf"
  by (rule no_comp_serial)

lemma crc32_append: "crc32 (crc32 crc b xs) b' ys = crc32 crc b (xs @ ys)"
  by (simp add: crc32_def no_comp_serial crc_serial_def xor.assoc)

text \<open>
  C33. The chunked checksum returns, and is the checksum of the whole buffer, for every chunk size
  but 0.
\<close>

theorem crc32_wd_correct:
  assumes "0 < chunk_sz"
  shows "crc32_wd crc b buf chunk_sz = Some (crc32 crc b buf)"
proof (induction buf arbitrary: crc b rule: length_induct)
  case (1 buf)
  show ?case
  proof (cases "buf = []")
    case True
    then show ?thesis
      by (subst crc32_wd.simps) (simp add: crc32_def no_comp_serial crc_serial_def xor.assoc)
  next
    case False
    define chunk where "chunk = (if length buf > chunk_sz then chunk_sz else length buf)"
    have "length (drop chunk buf) < length buf" using False assms by (simp add: chunk_def)
    then have "crc32_wd (crc32 crc b (take chunk buf)) (b + chunk) (drop chunk buf) chunk_sz
        = Some (crc32 crc b (take chunk buf @ drop chunk buf))"
      using "1.IH" by (simp only: crc32_append)
    then show ?thesis
      using False by (subst crc32_wd.simps) (simp add: chunk_def)
  qed
qed

theorem crc32_wd_correct_witness:
  "crc32_wd 0 1 [0x31, 0x32, 0x33] 2 = Some (crc32 0 1 [0x31, 0x32, 0x33])"
  by (rule crc32_wd_correct) simp

section \<open>Error detection\<close>

lemma crc_shift_inject: "crc_shift a = crc_shift b \<Longrightarrow> a = b"
proof -
  assume eq: "crc_shift a = crc_shift b"
  have msb: "bit (crc_shift c) 31 \<longleftrightarrow> odd c" for c
    using bit_imp_le_length [of c 32]
    by (auto simp: crc_shift_def and_1_odd crc_poly_eq bit_simps)
  have par: "odd a \<longleftrightarrow> odd b" using msb [of a] msb [of b] eq by simp
  have "drop_bit 1 a = drop_bit 1 b"
  proof (cases "odd a")
    case True
    then have "crc_poly XOR drop_bit 1 a = crc_poly XOR drop_bit 1 b"
      using eq par unfolding crc_shift_def and_1_odd by simp
    then have "crc_poly XOR (crc_poly XOR drop_bit 1 a) = crc_poly XOR (crc_poly XOR drop_bit 1 b)"
      by (simp only:)
    then show ?thesis by (simp add: xor.assoc [symmetric])
  next
    case False
    then show ?thesis using eq par unfolding crc_shift_def and_1_odd by simp
  qed
  then have "bit a (Suc i) \<longleftrightarrow> bit b (Suc i)" for i
    by (metis bit_drop_bit_eq comp_apply plus_1_eq_Suc)
  then show "a = b"
    using par by (intro bit_word_eqI) (metis bit_0 not0_implies_Suc)
qed

lemma S8_inject: "S8 a = S8 b \<Longrightarrow> a = b"
  by (auto simp: S8_unroll dest!: crc_shift_inject)

lemma S8_pow_inject: "(S8 ^^ k) a = (S8 ^^ k) b \<Longrightarrow> a = b"
  by (induction k) (auto dest: S8_inject)

lemma crc_serial_inject: "crc_serial a ys = crc_serial b ys \<Longrightarrow> a = b"
proof (induction ys arbitrary: a b)
  case Nil
  then show ?case by (simp add: crc_serial_def)
next
  case (Cons y ys)
  then have "crc_step a y = crc_step b y" by (simp add: crc_serial_def)
  then have "a XOR ucast y = b XOR ucast y" unfolding crc_step_def by (rule S8_inject)
  then have "(a XOR ucast y) XOR ucast y = (b XOR ucast y) XOR ucast y" by (simp only:)
  then show ?case by (simp add: xor.assoc)
qed

text \<open>
  C31. Bursts are detected: two buffers that differ only within four consecutive bytes have
  different checksums.
\<close>

theorem crc32_burst:
  assumes "length us = length vs" and "length us \<le> 4" and "us \<noteq> vs"
  shows "crc32 crc b (xs @ us @ ys) \<noteq> crc32 crc b (xs @ vs @ ys)"
proof
  define r where "r = crc_serial (crc XOR 0xffffffff) xs"
  assume "crc32 crc b (xs @ us @ ys) = crc32 crc b (xs @ vs @ ys)"
  then have "crc32 crc b (xs @ us @ ys) XOR 0xffffffff = crc32 crc b (xs @ vs @ ys) XOR 0xffffffff"
    by simp
  then have "crc_serial (crc_serial r us) ys = crc_serial (crc_serial r vs) ys"
    by (simp add: crc32_def no_comp_serial r_def crc_serial_def xor.assoc)
  then have "crc_serial r us = crc_serial r vs" by (rule crc_serial_inject)
  then have "r XOR le_word us = r XOR le_word vs"
    using assms(1,2) by (auto simp: serial_short dest: S8_pow_inject)
  then have "r XOR (r XOR le_word us) = r XOR (r XOR le_word vs)" by (simp only:)
  then have "(le_word us :: u32) = le_word vs" by (simp add: xor.assoc [symmetric])
  then have "le_bytes (length us) (le_word us :: u32) = le_bytes (length vs) (le_word vs :: u32)"
    using assms(1) by (simp only:)
  moreover have "le_bytes (length ws) (le_word ws :: u32) = ws" if "length ws \<le> 4" for ws
    using that by (intro le_bytes_le_word) simp
  ultimately show False using assms by metis
qed

theorem crc32_burst_witness:
  "crc32 0 0 ([1] @ [2, 3] @ [4]) \<noteq> crc32 0 0 ([1] @ [2, 5] @ [4])"
  by (rule crc32_burst) simp_all

end
