(* ===== verification/BlockDev.thy ===== *)
theory BlockDev
  imports Prelude "HOL-Library.Monad_Syntax"
begin

text \<open>
  include/part.h: the descriptor through which the partition code and the flash code reach a storage
  device, and the contract they rely on.  An operation of the descriptor may have no defined result
  (a hang, a null dereference), so it returns an option.
\<close>

section \<open>The descriptor\<close>

record 'd block_dev_desc =
  dev :: int
  lba :: u32
  blksz :: u32
  block_read :: "int \<Rightarrow> u32 \<Rightarrow> u32 \<Rightarrow> 'd \<Rightarrow> ((u32 \<times> bytes) \<times> 'd) option"
  block_write :: "int \<Rightarrow> u32 \<Rightarrow> u32 \<Rightarrow> bytes \<Rightarrow> 'd \<Rightarrow> (u32 \<times> 'd) option"
  block_write_gpt :: "int \<Rightarrow> u32 \<Rightarrow> u32 \<Rightarrow> bytes \<Rightarrow> 'd \<Rightarrow> (u32 \<times> 'd) option"
  block_read_gpt :: "int \<Rightarrow> u32 \<Rightarrow> u32 \<Rightarrow> 'd \<Rightarrow> ((u32 \<times> bytes) \<times> 'd) option"
  block_erase :: "int \<Rightarrow> u32 \<Rightarrow> u32 \<Rightarrow> 'd \<Rightarrow> (u32 \<times> 'd) option"

definition PAD_COUNT :: "u32 \<Rightarrow> u32 \<Rightarrow> u32" where
  "PAD_COUNT s pad = (s - 1) div pad + 1"

definition PAD_SIZE :: "u32 \<Rightarrow> u32 \<Rightarrow> u32" where
  "PAD_SIZE s pad = PAD_COUNT s pad * pad"

definition BLOCK_CNT :: "u32 \<Rightarrow> 'd block_dev_desc \<Rightarrow> u32" where
  "BLOCK_CNT sz d = PAD_COUNT sz (blksz d)"

definition PAD_TO_BLOCKSIZE :: "u32 \<Rightarrow> 'd block_dev_desc \<Rightarrow> u32" where
  "PAD_TO_BLOCKSIZE sz d = PAD_SIZE sz (blksz d)"

section \<open>Blocks\<close>

text \<open>The bytes of a run of blocks, and a store with a run of blocks replaced.\<close>

definition run_bytes :: "(nat \<Rightarrow> bytes) \<Rightarrow> nat \<Rightarrow> nat \<Rightarrow> bytes" where
  "run_bytes blk start cnt = concat (map blk [start..<start + cnt])"

definition store_run :: "nat \<Rightarrow> (nat \<Rightarrow> bytes) \<Rightarrow> nat \<Rightarrow> nat \<Rightarrow> bytes \<Rightarrow> nat \<Rightarrow> bytes" where
  "store_run bs blk start cnt data i =
     (if start \<le> i \<and> i < start + cnt then take bs (drop (bs * (i - start)) data) else blk i)"

lemma run_bytes_add: "run_bytes blk s (m + n) = run_bytes blk s m @ run_bytes blk (s + m) n"
proof -
  have "[s..<s + (m + n)] = [s..<s + m] @ [s + m..<s + m + n]"
    by (metis add.assoc le_add1 upt_add_eq_append)
  then show ?thesis by (simp only: run_bytes_def map_append concat_append)
qed

lemma run_bytes_0 [simp]: "run_bytes blk s 0 = []"
  by (simp add: run_bytes_def)

lemma run_bytes_1: "run_bytes blk s (Suc 0) = blk s"
  by (simp add: run_bytes_def)

lemma length_run_bytes:
  "(\<And>i. s \<le> i \<Longrightarrow> i < s + n \<Longrightarrow> length (blk i) = bs) \<Longrightarrow> length (run_bytes blk s n) = bs * n"
proof (induction n)
  case 0
  then show ?case by simp
next
  case (Suc n)
  then show ?case using run_bytes_add [of blk s n 1] by (simp add: run_bytes_1)
qed

lemma run_bytes_cong:
  "(\<And>i. s \<le> i \<Longrightarrow> i < s + n \<Longrightarrow> f i = g i) \<Longrightarrow> run_bytes f s n = run_bytes g s n"
  unfolding run_bytes_def by (intro arg_cong [where f = concat] map_cong) auto

lemma store_run_add:
  "length a = bs * m \<Longrightarrow>
    store_run bs (store_run bs blk s m a) (s + m) n b = store_run bs blk s (m + n) (a @ b)"
proof (rule ext)
  fix i assume l: "length a = bs * m"
  consider "i < s" | "s \<le> i" "i < s + m" | "s + m \<le> i" by linarith
  then show "store_run bs (store_run bs blk s m a) (s + m) n b i = store_run bs blk s (m + n) (a @ b) i"
  proof cases
    case 1
    then show ?thesis by (simp add: store_run_def)
  next
    case 2
    then obtain j where j: "i = s + j" "j < m" using le_Suc_ex by auto
    then have "bs * j + bs \<le> bs * m" by (metis Suc_leI mult_Suc_right mult_le_mono2 add.commute)
    then show ?thesis using j l by (simp add: store_run_def)
  next
    case 3
    then obtain j where j: "i = s + m + j" using le_Suc_ex by auto
    then show ?thesis using l by (simp add: store_run_def distrib_left add.assoc)
  qed
qed

lemma store_run_0 [simp]: "store_run bs blk s 0 a = blk"
  by (rule ext) (auto simp: store_run_def)

text \<open>What was stored is read back, and other blocks keep their content.\<close>

lemma run_store_same:
  "length a = bs * n \<Longrightarrow> run_bytes (store_run bs blk s n a) s n = a"
proof (induction n arbitrary: a s blk)
  case 0
  then show ?case by simp
next
  case (Suc n)
  have l: "length (take bs a) = bs" "length (drop bs a) = bs * n" using Suc.prems by simp_all
  have e: "store_run bs blk s (Suc n) a = store_run bs (store_run bs blk s 1 (take bs a)) (s + 1) n (drop bs a)"
    using store_run_add [of "take bs a" bs 1 blk s n "drop bs a"] l by simp
  have "run_bytes (store_run bs blk s (Suc n) a) s (1 + n)
      = store_run bs blk s (Suc n) a s @ run_bytes (store_run bs blk s (Suc n) a) (s + 1) n"
    by (simp only: run_bytes_add) (simp add: run_bytes_1)
  also have "store_run bs blk s (Suc n) a s = take bs a" by (simp add: store_run_def)
  also have "run_bytes (store_run bs blk s (Suc n) a) (s + 1) n = drop bs a"
    unfolding e by (rule Suc.IH) (rule l(2))
  finally show ?case by simp
qed

lemma run_store_other:
  "s + n \<le> t \<or> t + m \<le> s \<Longrightarrow> run_bytes (store_run bs blk s n a) t m = run_bytes blk t m"
  by (rule run_bytes_cong) (auto simp: store_run_def)

section \<open>The contract\<close>

text \<open>
  A device with operations \<open>desc\<close> is used in \<open>good\<close> states; \<open>blk d i\<close> is the content of block \<open>i\<close>.  Reads
  and writes of a non-empty range inside the device succeed, reads change nothing and writes change
  the range only.
\<close>

locale block_device =
  fixes desc :: "'d block_dev_desc"
    and good :: "'d \<Rightarrow> bool"
    and blk :: "'d \<Rightarrow> nat \<Rightarrow> bytes"
  assumes block_bytes: "good d \<Longrightarrow> length (blk d i) = unat (blksz desc)"
    and read_range: "good d \<Longrightarrow> 0 < n \<Longrightarrow> unat s + unat n \<le> unat (lba desc) \<Longrightarrow>
      \<exists>d'. block_read_gpt desc (dev desc) s n d = Some ((n, run_bytes (blk d) (unat s) (unat n)), d')
        \<and> good d' \<and> blk d' = blk d"
    and write_range: "good d \<Longrightarrow> 0 < n \<Longrightarrow> unat s + unat n \<le> unat (lba desc) \<Longrightarrow>
      length data = unat (blksz desc) * unat n \<Longrightarrow>
      \<exists>d'. block_write_gpt desc (dev desc) s n data d = Some (n, d') \<and> good d'
        \<and> blk d' = store_run (unat (blksz desc)) (blk d) (unat s) (unat n) data"
begin

lemma read_after_write:
  assumes "good d" and "0 < n" and "unat s + unat n \<le> unat (lba desc)"
    and "length data = unat (blksz desc) * unat n"
  shows "\<exists>d' d''. block_write_gpt desc (dev desc) s n data d = Some (n, d')
    \<and> block_read_gpt desc (dev desc) s n d' = Some ((n, data), d'') \<and> good d'' \<and> blk d'' = blk d'"
proof -
  obtain d' where w: "block_write_gpt desc (dev desc) s n data d = Some (n, d')" "good d'"
      "blk d' = store_run (unat (blksz desc)) (blk d) (unat s) (unat n) data"
    using write_range [OF assms] by blast
  obtain d'' where r: "block_read_gpt desc (dev desc) s n d'
      = Some ((n, run_bytes (blk d') (unat s) (unat n)), d'')" "good d''" "blk d'' = blk d'"
    using read_range [OF w(2) assms(2,3)] by blast
  then show ?thesis using w run_store_same [OF assms(4)] by auto
qed

end

end
