(* ===== verification/Mmc.thy ===== *)
theory Mmc
  imports BlockDev
begin

text \<open>
  drivers/mmc/mmc.c and include/mmc.h: the commands of the MMC layer and the block operations that the
  partition and flash code use.  The host controller is reached through function pointers of the
  device and is the parameter \<open>drv\<close>; delays and messages are left out.  Devices are named by
  their index in the list \<open>mmc_devices\<close>, which stands for the pointer \<open>struct mmc *\<close>.  A function that
  can hang or dereference a null pointer returns an option.
\<close>

section \<open>Commands and devices\<close>

abbreviation "MMC_CMD_GO_IDLE_STATE \<equiv> 0 :: u16"
abbreviation "MMC_CMD_SEND_OP_COND \<equiv> 1 :: u16"
abbreviation "MMC_CMD_SWITCH \<equiv> 6 :: u16"
abbreviation "MMC_CMD_SEND_EXT_CSD \<equiv> 8 :: u16"
abbreviation "MMC_CMD_STOP_TRANSMISSION \<equiv> 12 :: u16"
abbreviation "MMC_CMD_SEND_STATUS \<equiv> 13 :: u16"
abbreviation "MMC_CMD_SET_BLOCKLEN \<equiv> 16 :: u16"
abbreviation "MMC_CMD_READ_SINGLE_BLOCK \<equiv> 17 :: u16"
abbreviation "MMC_CMD_READ_MULTIPLE_BLOCK \<equiv> 18 :: u16"
abbreviation "MMC_CMD_WRITE_SINGLE_BLOCK \<equiv> 24 :: u16"
abbreviation "MMC_CMD_WRITE_MULTIPLE_BLOCK \<equiv> 25 :: u16"
abbreviation "SD_CMD_ERASE_WR_BLK_START \<equiv> 32 :: u16"
abbreviation "SD_CMD_ERASE_WR_BLK_END \<equiv> 33 :: u16"
abbreviation "MMC_CMD_ERASE_GROUP_START \<equiv> 35 :: u16"
abbreviation "MMC_CMD_ERASE_GROUP_END \<equiv> 36 :: u16"
abbreviation "MMC_CMD_ERASE \<equiv> 38 :: u16"

abbreviation "MMC_RSP_R1 \<equiv> 0x15 :: u32"
abbreviation "MMC_RSP_R1b \<equiv> 0x1d :: u32"
abbreviation "MMC_DATA_READ \<equiv> 1 :: u32"
abbreviation "MMC_DATA_WRITE \<equiv> 2 :: u32"
abbreviation "SECURE_ERASE \<equiv> 0x80000000 :: u32"
abbreviation "MMC_STATUS_MASK \<equiv> NOT 0x0206BF7F :: u32"
abbreviation "MMC_STATUS_RDY_FOR_DATA \<equiv> 0x100 :: u32"
abbreviation "COMM_ERR \<equiv> - 18 :: int"
abbreviation "TIMEOUT \<equiv> - 19 :: int"
abbreviation "UNUSABLE_ERR \<equiv> - 17 :: int"
abbreviation "EXT_CSD_PART_CONF \<equiv> 179 :: u8"
abbreviation "EXT_CSD_CMD_SET_NORMAL \<equiv> 1 :: u8"
abbreviation "PART_ACCESS_MASK \<equiv> 7 :: u8"
abbreviation "PART_BOOT_ENABLE_MASK \<equiv> 0x38 :: u8"
abbreviation "MMCPART_NOAVAILABLE \<equiv> 0xff :: u8"
abbreviation "PART_USER \<equiv> 0 :: u32"
abbreviation "PART_BOOT_1 \<equiv> 1 :: u32"
abbreviation "PART_BOOT_2 \<equiv> 2 :: u32"

record mmc_cmd =
  cmdidx :: u16
  resp_type :: u32
  cmdarg :: u32
  cmd_flags :: u32

text \<open>A transfer: for a write \<open>src\<close> is the memory from the source pointer on.\<close>

record mmc_data =
  src :: bytes
  data_flags :: u32
  blocks :: u32
  blocksize :: u32

record mmc =
  voltages :: u32
  version :: u32
  has_init :: bool
  f_min :: u32
  f_max :: u32
  high_capacity :: bool
  bus_width :: u32
  clock :: u32
  card_caps :: u32
  host_caps :: u32
  ocr :: u32
  scr :: "u32 list"
  csd :: "u32 list"
  cid :: "u32 list"
  rca :: u16
  part_config :: u8
  part_num :: u8
  tran_speed :: u32
  read_bl_len :: u32
  write_bl_len :: u32
  erase_grp_size :: u32
  capacity :: u64
  bdev_dev :: int
  bdev_lba :: u32
  bdev_blksz :: u32
  b_max :: u32
  boot_part_size :: u32

text \<open>
  The host driver: \<open>send_cmd\<close> gives the return value, the response words and the bytes it stores
  through \<open>data->dest\<close>; \<open>stale\<close> is what an uninitialised local word holds.
\<close>

record 'h mmc_host =
  send_cmd :: "mmc \<Rightarrow> mmc_cmd \<Rightarrow> mmc_data option \<Rightarrow> 'h \<Rightarrow> (int \<times> u32 list \<times> bytes) \<times> 'h"
  set_ios :: "mmc \<Rightarrow> 'h \<Rightarrow> 'h"
  host_init :: "mmc \<Rightarrow> 'h \<Rightarrow> int \<times> 'h"
  stale :: u32

record 'h mmc_world =
  mmc_devices :: "mmc list"
  cur_dev_num :: int
  emmc_mid :: u32
  emmc_did :: u32
  host :: 'h

definition mmc_at :: "nat \<Rightarrow> 'h mmc_world \<Rightarrow> mmc" where
  "mmc_at p w = mmc_devices w ! p"

definition set_mmc :: "nat \<Rightarrow> (mmc \<Rightarrow> mmc) \<Rightarrow> 'h mmc_world \<Rightarrow> 'h mmc_world" where
  "set_mmc p f w = w\<lparr>mmc_devices := (mmc_devices w)[p := f (mmc_devices w ! p)]\<rparr>"

definition mmc_host_is_spi :: "mmc \<Rightarrow> bool" where
  "mmc_host_is_spi m \<longleftrightarrow> host_caps m AND 0x400 \<noteq> 0"

definition IS_SD :: "mmc \<Rightarrow> bool" where
  "IS_SD m \<longleftrightarrow> version m AND 0x20000 \<noteq> 0"

definition mmc_send_cmd ::
  "'h mmc_host \<Rightarrow> nat \<Rightarrow> mmc_cmd \<Rightarrow> mmc_data option \<Rightarrow> 'h mmc_world \<Rightarrow> (int \<times> u32 list \<times> bytes) \<times> 'h mmc_world" where
  "mmc_send_cmd drv p cmd data w =
     (let (r, h) = send_cmd drv (mmc_at p w) cmd data (host w) in (r, w\<lparr>host := h\<rparr>))"

text \<open>
  The poll of \<open>mmc_send_status\<close>.  The loop counts down after each test and the code tests the counter
  afterwards: \<open>Inr t\<close> is leaving the loop with counter \<open>t\<close>, where \<open>- 1\<close> is running out.
\<close>

fun status_loop :: "'h mmc_host \<Rightarrow> nat \<Rightarrow> mmc_cmd \<Rightarrow> nat \<Rightarrow> 'h mmc_world \<Rightarrow> (int + int) \<times> 'h mmc_world" where
  "status_loop drv p cmd timeout w =
     (let ((err, resp, _), w) = mmc_send_cmd drv p cmd None w
      in if err \<noteq> 0 then (Inl err, w)
         else if resp ! 0 AND MMC_STATUS_RDY_FOR_DATA \<noteq> 0 then (Inr (int timeout), w)
         else if resp ! 0 AND MMC_STATUS_MASK \<noteq> 0 then (Inl COMM_ERR, w)
         else (case timeout of 0 \<Rightarrow> (Inr (- 1), w) | Suc t \<Rightarrow> status_loop drv p cmd t w))"

declare status_loop.simps [simp del]

definition mmc_send_status :: "'h mmc_host \<Rightarrow> nat \<Rightarrow> nat \<Rightarrow> 'h mmc_world \<Rightarrow> int \<times> 'h mmc_world" where
  "mmc_send_status drv p timeout w =
     (let arg = (if mmc_host_is_spi (mmc_at p w) then stale drv else push_bit 16 (ucast (rca (mmc_at p w))));
          cmd = \<lparr>cmdidx = MMC_CMD_SEND_STATUS, resp_type = MMC_RSP_R1, cmdarg = arg, cmd_flags = 0\<rparr>
      in case status_loop drv p cmd timeout w of
           (Inl err, w) \<Rightarrow> (err, w)
         | (Inr t, w) \<Rightarrow> (if t = 0 then (TIMEOUT, w) else (0, w)))"

text \<open>\<open>do ... while (ret && retries--)\<close> with \<open>retries = 10\<close>.\<close>

fun blocklen_loop :: "'h mmc_host \<Rightarrow> nat \<Rightarrow> mmc_cmd \<Rightarrow> nat \<Rightarrow> 'h mmc_world \<Rightarrow> int \<times> 'h mmc_world" where
  "blocklen_loop drv p cmd retries w =
     (let ((ret, _), w) = mmc_send_cmd drv p cmd None w
      in if ret = 0 then (ret, w)
         else (case retries of 0 \<Rightarrow> (ret, w) | Suc r \<Rightarrow> blocklen_loop drv p cmd r w))"

declare blocklen_loop.simps [simp del]

definition mmc_set_blocklen :: "'h mmc_host \<Rightarrow> nat \<Rightarrow> u32 \<Rightarrow> 'h mmc_world \<Rightarrow> int \<times> 'h mmc_world" where
  "mmc_set_blocklen drv p len w =
     blocklen_loop drv p \<lparr>cmdidx = MMC_CMD_SET_BLOCKLEN, resp_type = MMC_RSP_R1, cmdarg = len, cmd_flags = 0\<rparr> 10 w"

fun find_entry :: "int \<Rightarrow> nat \<Rightarrow> mmc list \<Rightarrow> nat option" where
  "find_entry dev_num p [] = None"
| "find_entry dev_num p (m # ms) = (if bdev_dev m = dev_num then Some p else find_entry dev_num (p + 1) ms)"

definition find_mmc_device :: "int \<Rightarrow> 'h mmc_world \<Rightarrow> nat option" where
  "find_mmc_device dev_num w = find_entry dev_num 0 (mmc_devices w)"

definition mmc_switch :: "'h mmc_host \<Rightarrow> nat \<Rightarrow> u8 \<Rightarrow> u8 \<Rightarrow> u8 \<Rightarrow> 'h mmc_world \<Rightarrow> int \<times> 'h mmc_world" where
  "mmc_switch drv p cset index value w =
     (let cmd = \<lparr>cmdidx = MMC_CMD_SWITCH, resp_type = MMC_RSP_R1b,
             cmdarg = push_bit 24 3 OR push_bit 16 (ucast index) OR push_bit 8 (ucast value), cmd_flags = 0\<rparr>;
          ((ret, _), w) = mmc_send_cmd drv p cmd None w;
          (_, w) = mmc_send_status drv p 1000 w
      in (ret, w))"

definition mmc_switch_part :: "'h mmc_host \<Rightarrow> int \<Rightarrow> u32 \<Rightarrow> 'h mmc_world \<Rightarrow> int \<times> 'h mmc_world" where
  "mmc_switch_part drv dev_num part w =
     (case find_mmc_device dev_num w of None \<Rightarrow> (- 1, w)
      | Some p \<Rightarrow>
          let m = mmc_at p w; pn = ucast part :: u8
          in if part = PART_BOOT_1 \<or> part = PART_BOOT_2 then
               (let (ret, w) = mmc_switch drv p EXT_CSD_CMD_SET_NORMAL EXT_CSD_PART_CONF
                      ((part_config m AND NOT (PART_ACCESS_MASK OR PART_BOOT_ENABLE_MASK))
                        OR (pn AND PART_ACCESS_MASK) OR (push_bit 3 pn AND PART_BOOT_ENABLE_MASK)) w
                in if ret = 0
                   then (ret, set_mmc p (\<lambda>m. m\<lparr>part_config :=
                           (part_config m AND NOT PART_BOOT_ENABLE_MASK) OR push_bit 3 pn\<rparr>) w)
                   else (ret, w))
             else mmc_switch drv p EXT_CSD_CMD_SET_NORMAL EXT_CSD_PART_CONF
                    ((part_config m AND NOT PART_ACCESS_MASK) OR (pn AND PART_ACCESS_MASK)) w)"

fun switch_loop :: "'h mmc_host \<Rightarrow> int \<Rightarrow> u32 \<Rightarrow> nat \<Rightarrow> 'h mmc_world \<Rightarrow> int \<times> 'h mmc_world" where
  "switch_loop drv dev_num part retries w =
     (let (ret, w) = mmc_switch_part drv dev_num part w
      in if ret = 0 then (ret, w)
         else (case retries of 0 \<Rightarrow> (ret, w) | Suc r \<Rightarrow> switch_loop drv dev_num part r w))"

declare switch_loop.simps [simp del]

text \<open>The device is dereferenced without a check.\<close>

definition mmc_switch_partition ::
  "'h mmc_host \<Rightarrow> int \<Rightarrow> u32 \<Rightarrow> 'h mmc_world \<Rightarrow> (int \<times> 'h mmc_world) option" where
  "mmc_switch_partition drv dev_num part w =
     (case find_mmc_device dev_num w of None \<Rightarrow> None
      | Some p \<Rightarrow>
          if part_config (mmc_at p w) = MMCPART_NOAVAILABLE then Some (- 1, w)
          else if part \<noteq> ucast (part_num (mmc_at p w)) then
            (let (ret, w) = switch_loop drv dev_num part 10 w
             in if ret = 0
                then Some (ret, set_mmc p (\<lambda>m. m\<lparr>part_num := ucast part,
                       part_config := (part_config m AND NOT PART_ACCESS_MASK) OR (ucast part AND PART_ACCESS_MASK)\<rparr>) w)
                else Some (ret, w))
          else Some (0, w))"

section \<open>Erase\<close>

definition mmc_erase_t :: "'h mmc_host \<Rightarrow> nat \<Rightarrow> u32 \<Rightarrow> u32 \<Rightarrow> 'h mmc_world \<Rightarrow> int \<times> 'h mmc_world" where
  "mmc_erase_t drv p start blkcnt w =
     (let m = mmc_at p w;
          (start, fin) = (if high_capacity m then (start, start + blkcnt - 1)
                          else (start * write_bl_len m, (start + blkcnt - 1) * write_bl_len m));
          (start_cmd, end_cmd) = (if IS_SD m then (SD_CMD_ERASE_WR_BLK_START, SD_CMD_ERASE_WR_BLK_END)
                                  else (MMC_CMD_ERASE_GROUP_START, MMC_CMD_ERASE_GROUP_END));
          ((err, _), w) = mmc_send_cmd drv p
             \<lparr>cmdidx = start_cmd, resp_type = MMC_RSP_R1, cmdarg = start, cmd_flags = 0\<rparr> None w
      in if err \<noteq> 0 then (err, w)
         else
           let ((err, _), w) = mmc_send_cmd drv p
                 \<lparr>cmdidx = end_cmd, resp_type = MMC_RSP_R1, cmdarg = fin, cmd_flags = 0\<rparr> None w
           in if err \<noteq> 0 then (err, w)
              else
                let ((err, _), w) = mmc_send_cmd drv p
                      \<lparr>cmdidx = MMC_CMD_ERASE, resp_type = MMC_RSP_R1b, cmdarg = SECURE_ERASE, cmd_flags = 0\<rparr> None w
                in if err \<noteq> 0 then (err, w)
                   else (let (_, w) = mmc_send_status drv p 1000 w in (0, w)))"

text \<open>With an erase group of size 0 the loop makes no progress.\<close>

partial_function (option) erase_loop ::
  "'h mmc_host \<Rightarrow> nat \<Rightarrow> u32 \<Rightarrow> u32 \<Rightarrow> u32 \<Rightarrow> 'h mmc_world \<Rightarrow> (u32 \<times> 'h mmc_world) option" where
  "erase_loop drv p start blkcnt blk w =
     (if blk < blkcnt then
        (let grp = erase_grp_size (mmc_at p w);
             blk_r = (if blkcnt - blk > grp then grp else blkcnt - blk);
             (err, w) = mmc_erase_t drv p (start + blk) blk_r w
         in if err \<noteq> 0 then Some (blk, w) else erase_loop drv p start blkcnt (blk + blk_r) w)
      else Some (blk, w))"

text \<open>
  The caution message divides by the group size, which is a division by zero for an empty group.
\<close>

definition mmc_berase :: "'h mmc_host \<Rightarrow> int \<Rightarrow> u32 \<Rightarrow> u32 \<Rightarrow> 'h mmc_world \<Rightarrow> (u32 \<times> 'h mmc_world) option" where
  "mmc_berase drv dev_num start blkcnt w =
     (case find_mmc_device dev_num w of None \<Rightarrow> Some (- 1, w)
      | Some p \<Rightarrow> if erase_grp_size (mmc_at p w) = 0 then None else erase_loop drv p start blkcnt 0 w)"

section \<open>Transfers\<close>

definition mmc_write_blocks ::
  "'h mmc_host \<Rightarrow> nat \<Rightarrow> u32 \<Rightarrow> u32 \<Rightarrow> bytes \<Rightarrow> 'h mmc_world \<Rightarrow> u32 \<times> 'h mmc_world" where
  "mmc_write_blocks drv p start blkcnt data w =
     (let m = mmc_at p w
      in if start + blkcnt > bdev_lba m then (0, w)
         else
           let cmd = \<lparr>cmdidx = (if blkcnt > 1 then MMC_CMD_WRITE_MULTIPLE_BLOCK else MMC_CMD_WRITE_SINGLE_BLOCK),
                      resp_type = MMC_RSP_R1,
                      cmdarg = (if high_capacity m then start else start * write_bl_len m), cmd_flags = 0\<rparr>;
               d = \<lparr>src = data, data_flags = MMC_DATA_WRITE, blocks = blkcnt, blocksize = write_bl_len m\<rparr>;
               ((err, _), w) = mmc_send_cmd drv p cmd (Some d) w
           in if err \<noteq> 0 then (0, w)
              else if \<not> mmc_host_is_spi m \<and> blkcnt > 1 then
                (let ((err, _), w) = mmc_send_cmd drv p
                       \<lparr>cmdidx = MMC_CMD_STOP_TRANSMISSION, resp_type = MMC_RSP_R1b, cmdarg = 0, cmd_flags = 0\<rparr> None w
                 in if err \<noteq> 0 then (0, w)
                    else (let (_, w) = mmc_send_status drv p 1000 w in (blkcnt, w)))
              else (blkcnt, w))"

text \<open>The transfer loop of the write functions; \<open>b_max\<close> limits a single transfer.\<close>

partial_function (option) write_loop ::
  "'h mmc_host \<Rightarrow> nat \<Rightarrow> u32 \<Rightarrow> u32 \<Rightarrow> u32 \<Rightarrow> bytes \<Rightarrow> 'h mmc_world \<Rightarrow> (u32 \<times> 'h mmc_world) option" where
  "write_loop drv p blkcnt start blocks_todo data w =
     (let m = mmc_at p w;
          cur = (if blocks_todo > b_max m then b_max m else blocks_todo);
          (n, w) = mmc_write_blocks drv p start cur data w
      in if n \<noteq> cur then Some (0, w)
         else if blocks_todo - cur > 0
         then write_loop drv p blkcnt (start + cur) (blocks_todo - cur) (drop (unat (cur * write_bl_len m)) data) w
         else Some (blkcnt, w))"

text \<open>
  \<open>mmc_bwrite\<close> writes ranges that fit below the boot partition's size into a boot partition, when the
  user partition is selected.  With a block length of 0 the division does not return.
\<close>

definition select_for_range ::
  "'h mmc_host \<Rightarrow> nat \<Rightarrow> u32 \<Rightarrow> u32 \<Rightarrow> 'h mmc_world \<Rightarrow> 'h mmc_world option" where
  "select_for_range drv p start blkcnt w =
     (let m = mmc_at p w; boot_blkcnt = boot_part_size m div write_bl_len m
      in if write_bl_len m = 0 then None
         else if start + blkcnt \<le> boot_blkcnt then
           (if part_num m = 0 then
              do { (r, w) \<leftarrow> mmc_switch_partition drv 0 PART_BOOT_1 w;
                   if r \<noteq> 0 then do { (r, w) \<leftarrow> mmc_switch_partition drv 0 PART_BOOT_2 w; Some w } else Some w }
            else Some w)
         else if part_num m \<noteq> 0 then do { (r, w) \<leftarrow> mmc_switch_partition drv 0 PART_USER w; Some w }
         else Some w)"

definition mmc_bwrite ::
  "'h mmc_host \<Rightarrow> int \<Rightarrow> u32 \<Rightarrow> u32 \<Rightarrow> bytes \<Rightarrow> 'h mmc_world \<Rightarrow> (u32 \<times> 'h mmc_world) option" where
  "mmc_bwrite drv dev_num start blkcnt data w =
     (case find_mmc_device dev_num w of None \<Rightarrow> Some (0, w)
      | Some p \<Rightarrow> do {
          w \<leftarrow> select_for_range drv p start blkcnt w;
          let (err, w) = mmc_set_blocklen drv p (write_bl_len (mmc_at p w)) w;
          if err \<noteq> 0 then Some (0, w) else write_loop drv p blkcnt start blkcnt data w })"

text \<open>The partition-table variants use the user partition.\<close>

definition select_user :: "'h mmc_host \<Rightarrow> nat \<Rightarrow> 'h mmc_world \<Rightarrow> 'h mmc_world option" where
  "select_user drv p w =
     (if part_num (mmc_at p w) \<noteq> 0 then do { (r, w) \<leftarrow> mmc_switch_partition drv 0 PART_USER w; Some w }
      else Some w)"

definition mmc_bwrite_gpt ::
  "'h mmc_host \<Rightarrow> int \<Rightarrow> u32 \<Rightarrow> u32 \<Rightarrow> bytes \<Rightarrow> 'h mmc_world \<Rightarrow> (u32 \<times> 'h mmc_world) option" where
  "mmc_bwrite_gpt drv dev_num start blkcnt data w =
     (case find_mmc_device dev_num w of None \<Rightarrow> Some (0, w)
      | Some p \<Rightarrow> do {
          w \<leftarrow> select_user drv p w;
          let (err, w) = mmc_set_blocklen drv p (write_bl_len (mmc_at p w)) w;
          if err \<noteq> 0 then Some (0, w) else write_loop drv p blkcnt start blkcnt data w })"

definition mmc_read_blocks ::
  "'h mmc_host \<Rightarrow> nat \<Rightarrow> u32 \<Rightarrow> u32 \<Rightarrow> 'h mmc_world \<Rightarrow> (u32 \<times> bytes) \<times> 'h mmc_world" where
  "mmc_read_blocks drv p start blkcnt w =
     (let m = mmc_at p w;
          cmd = \<lparr>cmdidx = (if blkcnt > 1 then MMC_CMD_READ_MULTIPLE_BLOCK else MMC_CMD_READ_SINGLE_BLOCK),
                 resp_type = MMC_RSP_R1,
                 cmdarg = (if high_capacity m then start else start * read_bl_len m), cmd_flags = 0\<rparr>;
          d = \<lparr>src = [], data_flags = MMC_DATA_READ, blocks = blkcnt, blocksize = read_bl_len m\<rparr>;
          ((err, _, dst), w) = mmc_send_cmd drv p cmd (Some d) w
      in if err \<noteq> 0 then ((0, dst), w)
         else if blkcnt > 1 then
           (let ((err, _), w) = mmc_send_cmd drv p
                  \<lparr>cmdidx = MMC_CMD_STOP_TRANSMISSION, resp_type = MMC_RSP_R1b, cmdarg = 0, cmd_flags = 0\<rparr> None w
            in if err \<noteq> 0 then ((0, dst), w)
               else (let (_, w) = mmc_send_status drv p 1000 w in ((blkcnt, dst), w)))
         else ((blkcnt, dst), w))"

text \<open>Each transfer stores its bytes behind those of the transfers before it.\<close>

partial_function (option) read_loop ::
  "'h mmc_host \<Rightarrow> nat \<Rightarrow> u32 \<Rightarrow> u32 \<Rightarrow> u32 \<Rightarrow> bytes \<Rightarrow> 'h mmc_world \<Rightarrow> ((u32 \<times> bytes) \<times> 'h mmc_world) option" where
  "read_loop drv p blkcnt start blocks_todo dst w =
     (let m = mmc_at p w;
          cur = (if blocks_todo > b_max m then b_max m else blocks_todo);
          ((n, got), w) = mmc_read_blocks drv p start cur w
      in if n \<noteq> cur then Some ((0, dst @ got), w)
         else if blocks_todo - cur > 0
         then read_loop drv p blkcnt (start + cur) (blocks_todo - cur) (dst @ got) w
         else Some ((blkcnt, dst @ got), w))"

definition mmc_bread ::
  "'h mmc_host \<Rightarrow> int \<Rightarrow> u32 \<Rightarrow> u32 \<Rightarrow> 'h mmc_world \<Rightarrow> ((u32 \<times> bytes) \<times> 'h mmc_world) option" where
  "mmc_bread drv dev_num start blkcnt w =
     (if blkcnt = 0 then Some ((0, []), w)
      else case find_mmc_device dev_num w of None \<Rightarrow> Some ((0, []), w)
      | Some p \<Rightarrow>
          if start + blkcnt > bdev_lba (mmc_at p w) then Some ((0, []), w)
          else do {
            w \<leftarrow> select_for_range drv p start blkcnt w;
            let (err, w) = mmc_set_blocklen drv p (read_bl_len (mmc_at p w)) w;
            if err \<noteq> 0 then Some ((0, []), w) else read_loop drv p blkcnt start blkcnt [] w })"

definition mmc_bread_gpt ::
  "'h mmc_host \<Rightarrow> int \<Rightarrow> u32 \<Rightarrow> u32 \<Rightarrow> 'h mmc_world \<Rightarrow> ((u32 \<times> bytes) \<times> 'h mmc_world) option" where
  "mmc_bread_gpt drv dev_num start blkcnt w =
     (if blkcnt = 0 then Some ((0, []), w)
      else case find_mmc_device dev_num w of None \<Rightarrow> Some ((0, []), w)
      | Some p \<Rightarrow> do {
          w \<leftarrow> select_user drv p w;
          if start + blkcnt > bdev_lba (mmc_at p w) then Some ((0, []), w)
          else do {
            let (err, w) = mmc_set_blocklen drv p (read_bl_len (mmc_at p w)) w;
            if err \<noteq> 0 then Some ((0, []), w) else read_loop drv p blkcnt start blkcnt [] w } })"

text \<open>The descriptor that \<open>mmc_register\<close> fills in for the device at \<open>p\<close>.\<close>

definition mmc_block_dev :: "'h mmc_host \<Rightarrow> mmc \<Rightarrow> 'h mmc_world block_dev_desc" where
  "mmc_block_dev drv m = \<lparr>dev = bdev_dev m, lba = bdev_lba m, blksz = bdev_blksz m,
     block_read = mmc_bread drv, block_write = mmc_bwrite drv, block_write_gpt = mmc_bwrite_gpt drv,
     block_read_gpt = mmc_bread_gpt drv, block_erase = mmc_berase drv\<rparr>"

section \<open>The device list is kept by transfers\<close>

named_theorems keeps_devices \<open>operations that leave the device list alone\<close>

lemma send_keeps [keeps_devices]:
  "mmc_send_cmd drv p cmd data w = (r, w') \<Longrightarrow> mmc_devices w' = mmc_devices w"
  by (auto simp: mmc_send_cmd_def split: prod.splits)

lemma status_loop_keeps [keeps_devices]:
  "status_loop drv p cmd t w = (r, w') \<Longrightarrow> mmc_devices w' = mmc_devices w"
proof (induction drv p cmd t w arbitrary: r w' rule: status_loop.induct)
  case (1 drv p cmd timeout w)
  obtain err resp bs w1 where s: "mmc_send_cmd drv p cmd None w = ((err, resp, bs), w1)"
    by (metis prod.exhaust)
  then have k: "mmc_devices w1 = mmc_devices w" by (rule send_keeps)
  show ?case
    using "1.prems" k "1.IH" [OF s [symmetric] refl refl refl]
    by (subst (asm) status_loop.simps) (auto simp: s split: if_splits nat.splits)
qed

lemma send_status_keeps [keeps_devices]:
  "mmc_send_status drv p t w = (r, w') \<Longrightarrow> mmc_devices w' = mmc_devices w"
  by (auto simp: mmc_send_status_def Let_def dest: status_loop_keeps split: prod.splits sum.splits if_splits)

lemma blocklen_loop_keeps [keeps_devices]:
  "blocklen_loop drv p cmd t w = (r, w') \<Longrightarrow> mmc_devices w' = mmc_devices w"
proof (induction drv p cmd t w arbitrary: r w' rule: blocklen_loop.induct)
  case (1 drv p cmd retries w)
  obtain ret rs w1 where s: "mmc_send_cmd drv p cmd None w = ((ret, rs), w1)"
    by (metis prod.exhaust)
  then have k: "mmc_devices w1 = mmc_devices w" by (rule send_keeps)
  show ?case
    using "1.prems" k "1.IH" [OF s [symmetric] refl]
    by (subst (asm) blocklen_loop.simps) (auto simp: s split: if_splits nat.splits)
qed

lemma set_blocklen_keeps [keeps_devices]:
  "mmc_set_blocklen drv p len w = (r, w') \<Longrightarrow> mmc_devices w' = mmc_devices w"
  unfolding mmc_set_blocklen_def by (rule blocklen_loop_keeps)

lemma switch_keeps [keeps_devices]:
  "mmc_switch drv p cset index value w = (r, w') \<Longrightarrow> mmc_devices w' = mmc_devices w"
  by (auto simp: mmc_switch_def Let_def dest!: keeps_devices split: prod.splits)

lemma write_blocks_keeps [keeps_devices]:
  "mmc_write_blocks drv p start blkcnt data w = (r, w') \<Longrightarrow> mmc_devices w' = mmc_devices w"
  by (auto simp: mmc_write_blocks_def Let_def dest!: send_keeps send_status_keeps split: prod.splits if_splits)

lemma read_blocks_keeps [keeps_devices]:
  "mmc_read_blocks drv p start blkcnt w = (r, w') \<Longrightarrow> mmc_devices w' = mmc_devices w"
  by (auto simp: mmc_read_blocks_def Let_def dest!: send_keeps send_status_keeps split: prod.splits if_splits)

lemma erase_t_keeps [keeps_devices]:
  "mmc_erase_t drv p start blkcnt w = (r, w') \<Longrightarrow> mmc_devices w' = mmc_devices w"
  by (auto simp: mmc_erase_t_def Let_def dest!: send_keeps send_status_keeps split: prod.splits if_splits)

lemma keeps_at: "mmc_devices w' = mmc_devices w \<Longrightarrow> mmc_at p w' = mmc_at p w"
  by (simp add: mmc_at_def)

lemma find_device_bound: "find_mmc_device n w = Some p \<Longrightarrow> p < length (mmc_devices w)"
proof -
  have "find_entry n k ms = Some p \<Longrightarrow> k \<le> p \<and> p < k + length ms" for k ms
    by (induction n k ms rule: find_entry.induct) (auto split: if_splits)
  from this [of 0] show "find_mmc_device n w = Some p \<Longrightarrow> p < length (mmc_devices w)"
    by (simp add: find_mmc_device_def)
qed

section \<open>Every transfer returns\<close>

lemma write_loop_returns:
  "b_max (mmc_at p w) \<noteq> 0 \<Longrightarrow> \<exists>n w'. write_loop drv p blkcnt start todo data w = Some (n, w')"
proof (induction "unat todo" arbitrary: todo start data w rule: less_induct)
  case less
  define cur where "cur = (if todo > b_max (mmc_at p w) then b_max (mmc_at p w) else todo)"
  obtain n w1 where wb: "mmc_write_blocks drv p start cur data w = (n, w1)" by fastforce
  then have at: "mmc_at p w1 = mmc_at p w" by (intro keeps_at write_blocks_keeps)
  show ?case
  proof (cases "n \<noteq> cur \<or> todo - cur = 0")
    case True
    then show ?thesis
      by (subst write_loop.simps) (auto simp: Let_def wb [unfolded cur_def] cur_def split: if_splits)
  next
    case False
    then have "cur \<noteq> 0" using less.prems by (auto simp: cur_def)
    moreover have "cur \<le> todo" by (auto simp: cur_def)
    ultimately have "unat (todo - cur) < unat todo"
      using unat_sub_small [of cur todo] unat_gt_0 [of cur] by (simp add: word_le_nat_alt)
    then show ?thesis
      using less.hyps [of "todo - cur" w1] less.prems False
      by (subst write_loop.simps) (auto simp: Let_def wb [unfolded cur_def] cur_def at word_gt_0)
  qed
qed

lemma read_loop_returns:
  "b_max (mmc_at p w) \<noteq> 0 \<Longrightarrow> \<exists>r w'. read_loop drv p blkcnt start todo dst w = Some (r, w')"
proof (induction "unat todo" arbitrary: todo start dst w rule: less_induct)
  case less
  define cur where "cur = (if todo > b_max (mmc_at p w) then b_max (mmc_at p w) else todo)"
  obtain n got w1 where wb: "mmc_read_blocks drv p start cur w = ((n, got), w1)" by (metis prod.exhaust)
  then have at: "mmc_at p w1 = mmc_at p w" by (intro keeps_at read_blocks_keeps)
  show ?case
  proof (cases "n \<noteq> cur \<or> todo - cur = 0")
    case True
    then show ?thesis
      by (subst read_loop.simps) (auto simp: Let_def wb [unfolded cur_def] cur_def split: if_splits)
  next
    case False
    then have "cur \<noteq> 0" using less.prems by (auto simp: cur_def)
    moreover have "cur \<le> todo" by (auto simp: cur_def)
    ultimately have "unat (todo - cur) < unat todo"
      using unat_sub_small [of cur todo] unat_gt_0 [of cur] by (simp add: word_le_nat_alt)
    then show ?thesis
      using less.hyps [of "todo - cur" w1] less.prems False
      by (subst read_loop.simps) (auto simp: Let_def wb [unfolded cur_def] cur_def at word_gt_0)
  qed
qed

text \<open>Switching partitions changes only the record of the selected partition.\<close>

definition same_device :: "mmc \<Rightarrow> mmc \<Rightarrow> bool" where
  "same_device m m' \<longleftrightarrow> m\<lparr>part_config := 0, part_num := 0\<rparr> = m'\<lparr>part_config := 0, part_num := 0\<rparr>"

definition same_devices :: "'h mmc_world \<Rightarrow> 'h mmc_world \<Rightarrow> bool" where
  "same_devices w w' \<longleftrightarrow> list_all2 same_device (mmc_devices w) (mmc_devices w')"

lemma same_device_fields:
  assumes "same_device m m'"
  shows "b_max m' = b_max m" "bdev_lba m' = bdev_lba m" "bdev_dev m' = bdev_dev m"
    "write_bl_len m' = write_bl_len m" "read_bl_len m' = read_bl_len m"
    "high_capacity m' = high_capacity m" "boot_part_size m' = boot_part_size m"
    "bdev_blksz m' = bdev_blksz m"
  using assms by (cases m; cases m'; simp add: same_device_def)+

lemma same_devices_refl [simp, intro]: "mmc_devices w' = mmc_devices w \<Longrightarrow> same_devices w w'"
  by (simp add: same_devices_def list_all2_same same_device_def)

lemma same_devices_trans: "same_devices a b \<Longrightarrow> same_devices b c \<Longrightarrow> same_devices a c"
  unfolding same_devices_def
  by (rule list_all2_trans [of same_device same_device same_device]) (simp_all add: same_device_def)

lemma same_devices_at: "same_devices w w' \<Longrightarrow> p < length (mmc_devices w) \<Longrightarrow> same_device (mmc_at p w) (mmc_at p w')"
  by (simp add: same_devices_def mmc_at_def list_all2_nthD)

lemma find_same: "same_devices w w' \<Longrightarrow> find_mmc_device n w' = find_mmc_device n w"
proof -
  have "list_all2 same_device ms ms' \<Longrightarrow> find_entry n k ms' = find_entry n k ms" for k ms ms'
    by (induction arbitrary: k rule: list_all2_induct) (auto simp: same_device_fields)
  then show "same_devices w w' \<Longrightarrow> find_mmc_device n w' = find_mmc_device n w"
    by (simp add: same_devices_def find_mmc_device_def)
qed

lemma set_part_same: "same_devices w (set_mmc p (\<lambda>m. m\<lparr>part_config := f m\<rparr>) w)"
  "same_devices w (set_mmc p (\<lambda>m. m\<lparr>part_num := g m, part_config := f m\<rparr>) w)"
  by (cases "p < length (mmc_devices w)";
      force simp: same_devices_def set_mmc_def list_all2_conv_all_nth nth_list_update same_device_def)+

lemma switch_part_same: "mmc_switch_part drv d part w = (r, w') \<Longrightarrow> same_devices w w'"
  by (auto simp: mmc_switch_part_def Let_def dest!: switch_keeps
      intro: same_devices_trans [OF same_devices_refl set_part_same(1)] split: option.splits if_splits prod.splits)

lemma switch_loop_same: "switch_loop drv d part t w = (r, w') \<Longrightarrow> same_devices w w'"
proof (induction drv d part t w arbitrary: r w' rule: switch_loop.induct)
  case (1 drv d part retries w)
  obtain ret w1 where s: "mmc_switch_part drv d part w = (ret, w1)" by fastforce
  then have k: "same_devices w w1" by (rule switch_part_same)
  show ?case
    using "1.prems" k "1.IH" [OF s [symmetric] ]
    by (subst (asm) switch_loop.simps) (auto simp: s intro: same_devices_trans split: if_splits nat.splits)
qed

lemma switch_partition_same:
  "mmc_switch_partition drv d part w = Some (r, w') \<Longrightarrow> same_devices w w'"
  by (auto simp: mmc_switch_partition_def dest!: switch_loop_same
      intro: same_devices_trans [OF _ set_part_same(2)] split: option.splits if_splits prod.splits)

lemma switch_partition_returns:
  "find_mmc_device d w = Some p \<Longrightarrow> \<exists>r w'. mmc_switch_partition drv d part w = Some (r, w')"
  by (auto simp: mmc_switch_partition_def split: prod.split)

lemma select_for_range_returns:
  assumes "find_mmc_device 0 w = Some q" and "write_bl_len (mmc_at p w) \<noteq> 0"
  shows "\<exists>w'. select_for_range drv p start n w = Some w' \<and> same_devices w w'"
proof -
  obtain r1 w1 where s1: "mmc_switch_partition drv 0 PART_BOOT_1 w = Some (r1, w1)"
    using switch_partition_returns [OF assms(1)] by blast
  note k1 = switch_partition_same [OF s1]
  obtain r2 w2 where s2: "mmc_switch_partition drv 0 PART_BOOT_2 w1 = Some (r2, w2)"
    using switch_partition_returns [of 0 w1 q drv PART_BOOT_2] find_same [OF k1, of 0] assms(1) by auto
  obtain r3 w3 where s3: "mmc_switch_partition drv 0 PART_USER w = Some (r3, w3)"
    using switch_partition_returns [OF assms(1)] by blast
  note k = switch_partition_same [OF s3] same_devices_trans [OF k1 switch_partition_same [OF s2]]
  show ?thesis by (simp add: select_for_range_def Let_def s1 s2 s3 k1 k assms(2))
qed

lemma write_loop_keeps:
  assumes "write_loop drv p n s todo data w = Some y"
  shows "mmc_devices (snd y) = mmc_devices w"
  using assms
proof (rule write_loop.raw_induct [rotated], goal_cases)
  case (1 loop drv' p n s todo data w y)
  define cur where "cur = (if todo > b_max (mmc_at p w) then b_max (mmc_at p w) else todo)"
  obtain k w1 where wb: "mmc_write_blocks drv' p s cur data w = (k, w1)" by fastforce
  note kept = write_blocks_keeps [OF wb]
  have "(k \<noteq> cur \<and> y = (0, w1)) \<or> (k = cur \<and> y = (n, w1))
      \<or> loop drv' p n (s + cur) (todo - cur) (drop (unat (cur * write_bl_len (mmc_at p w))) data) w1 = Some y"
    using 1(2) wb by (auto simp: Let_def cur_def split: if_splits)
  then show ?case using 1(1) kept by fastforce
qed

lemma select_for_range_same: "select_for_range drv p s n w = Some w' \<Longrightarrow> same_devices w w'"
  by (auto simp: select_for_range_def Let_def Option.bind_eq_Some_conv split: if_splits
      dest: switch_partition_same intro: same_devices_trans)

lemma bwrite_same:
  assumes "mmc_bwrite drv d s n data w = Some y"
  shows "same_devices w (snd y)"
proof (cases "find_mmc_device d w")
  case None
  then show ?thesis using assms by (auto simp: mmc_bwrite_def)
next
  case (Some p)
  then obtain w1 where w1: "select_for_range drv p s n w = Some w1"
    using assms by (auto simp: mmc_bwrite_def Option.bind_eq_Some_conv)
  obtain e w2 where w2: "mmc_set_blocklen drv p (write_bl_len (mmc_at p w1)) w1 = (e, w2)" by fastforce
  have "y = (0, w2) \<or> write_loop drv p n s n data w2 = Some y"
    using assms Some w1 w2 by (auto simp: mmc_bwrite_def split: if_splits)
  then have "mmc_devices (snd y) = mmc_devices w1"
    using set_blocklen_keeps [OF w2] write_loop_keeps [of drv p n s n data w2 y] by auto
  then show ?thesis
    using same_devices_trans [OF select_for_range_same [OF w1] same_devices_refl] by blast
qed

lemma select_user_returns:
  assumes "find_mmc_device 0 w = Some q"
  shows "\<exists>w'. select_user drv p w = Some w' \<and> same_devices w w'"
proof -
  obtain r3 w3 where s3: "mmc_switch_partition drv 0 PART_USER w = Some (r3, w3)"
    using switch_partition_returns [OF assms] by blast
  show ?thesis by (simp add: select_user_def s3 switch_partition_same [OF s3])
qed

lemma loops_return_after:
  assumes "same_devices w w1" and "find_mmc_device d w = Some p" and "b_max (mmc_at p w) \<noteq> 0"
  shows "\<exists>r w'. (let (err, w2) = mmc_set_blocklen drv p len w1
      in if err \<noteq> 0 then Some (0, w2) else write_loop drv p n s n data w2) = Some (r, w')"
    and "\<exists>r w'. (let (err, w2) = mmc_set_blocklen drv p len w1
      in if err \<noteq> 0 then Some ((0, []), w2) else read_loop drv p n s n [] w2) = Some (r, w')"
proof -
  obtain err w2 where b: "mmc_set_blocklen drv p len w1 = (err, w2)" by fastforce
  have "same_device (mmc_at p w) (mmc_at p w2)"
    using same_devices_at [OF assms(1) find_device_bound [OF assms(2)]] keeps_at [OF set_blocklen_keeps [OF b]]
    by simp
  then have "b_max (mmc_at p w2) \<noteq> 0" using assms(3) by (simp add: same_device_fields)
  then show "\<exists>r w'. (let (err, w2) = mmc_set_blocklen drv p len w1
      in if err \<noteq> 0 then Some (0, w2) else write_loop drv p n s n data w2) = Some (r, w')"
    and "\<exists>r w'. (let (err, w2) = mmc_set_blocklen drv p len w1
      in if err \<noteq> 0 then Some ((0, []), w2) else read_loop drv p n s n [] w2) = Some (r, w')"
    using write_loop_returns [of p w2] read_loop_returns [of p w2] by (auto simp: b)
qed

lemma mmc_bwrite_returns:
  assumes "find_mmc_device 0 w = Some q" and "find_mmc_device d w = Some p" and "b_max (mmc_at p w) \<noteq> 0"
    and "write_bl_len (mmc_at p w) \<noteq> 0"
  shows "\<exists>r. mmc_bwrite drv d s n data w = Some r"
proof -
  obtain w1 where w1: "select_for_range drv p s n w = Some w1" "same_devices w w1"
    using select_for_range_returns [OF assms(1,4)] by blast
  show ?thesis
    using loops_return_after(1) [OF w1(2) assms(2,3), of drv "write_bl_len (mmc_at p w1)" n s data]
    by (auto simp: mmc_bwrite_def assms(2) w1(1))
qed

text \<open>
  C25. Transfers return: whatever the host controller answers, a read or a write of the block layer
  ends with a result, provided device 0 exists, the device's transfer limit is not 0 and neither is its block
  length for writing, by which \<open>mmc_bread\<close> and \<open>mmc_bwrite\<close> divide; the start-up of a card leaves a power of two there.
\<close>

theorem mmc_transfers_return:
  assumes "find_mmc_device 0 w = Some q" and "find_mmc_device d w = Some p" and "b_max (mmc_at p w) \<noteq> 0"
    and "write_bl_len (mmc_at p w) \<noteq> 0"
  shows "(\<exists>r. mmc_bread drv d s n w = Some r) \<and> (\<exists>r. mmc_bwrite drv d s n data w = Some r)
    \<and> (\<exists>r. mmc_bread_gpt drv d s n w = Some r) \<and> (\<exists>r. mmc_bwrite_gpt drv d s n data w = Some r)"
proof (intro conjI)
  obtain w1 where w1: "select_for_range drv p s n w = Some w1" "same_devices w w1"
    using select_for_range_returns [OF assms(1,4)] by blast
  obtain w2 where w2: "select_user drv p w = Some w2" "same_devices w w2"
    using select_user_returns [OF assms(1)] by blast
  note r1 = loops_return_after [OF w1(2) assms(2,3)]
  note r2 = loops_return_after [OF w2(2) assms(2,3)]
  show "\<exists>r. mmc_bread drv d s n w = Some r"
    using r1(2) [of drv "read_bl_len (mmc_at p w1)" n s] by (auto simp: mmc_bread_def assms(2) w1(1))
  show "\<exists>r. mmc_bwrite drv d s n data w = Some r"
    by (rule mmc_bwrite_returns [OF assms])
  show "\<exists>r. mmc_bread_gpt drv d s n w = Some r"
    using r2(2) [of drv "read_bl_len (mmc_at p w2)" n s] by (auto simp: mmc_bread_gpt_def assms(2) w2(1))
  show "\<exists>r. mmc_bwrite_gpt drv d s n data w = Some r"
    using r2(1) [of drv "write_bl_len (mmc_at p w2)" n s data] by (auto simp: mmc_bwrite_gpt_def assms(2) w2(1))
qed

section \<open>The card contract\<close>

text \<open>The geometry the code sets up for an eMMC: block addressing and 512-byte blocks.\<close>

definition device_ready :: "mmc \<Rightarrow> bool" where
  "device_ready m \<longleftrightarrow> bdev_dev m = 0 \<and> high_capacity m \<and> write_bl_len m = 512 \<and> read_bl_len m = 512
     \<and> bdev_blksz m = 512 \<and> b_max m \<noteq> 0 \<and> unat (b_max m) < 2 ^ 23"

text \<open>
  What the layer relies on of host and card: in \<open>ready\<close> states, status, stop and block-length commands
  succeed and change nothing, a switch of byte 179 selects the partition in its low bits, and reads
  and writes move 512-byte blocks of the selected partition, addressed by block.
\<close>

locale emmc_card =
  fixes drv :: "'h mmc_host"
    and ready :: "'h \<Rightarrow> bool"
    and sel :: "'h \<Rightarrow> u8"
    and cells :: "'h \<Rightarrow> u8 \<Rightarrow> nat \<Rightarrow> bytes"
  assumes cell_bytes: "ready h \<Longrightarrow> length (cells h q i) = 512"
    and plain: "ready h \<Longrightarrow> cmdidx cmd = MMC_CMD_STOP_TRANSMISSION \<or> cmdidx cmd = MMC_CMD_SEND_STATUS
        \<or> cmdidx cmd = MMC_CMD_SET_BLOCKLEN \<Longrightarrow>
      \<exists>resp bs h'. send_cmd drv m cmd None h = ((0, resp, bs), h') \<and> resp ! 0 AND MMC_STATUS_RDY_FOR_DATA \<noteq> 0
        \<and> ready h' \<and> sel h' = sel h \<and> cells h' = cells h"
    and switches: "ready h \<Longrightarrow> cmdidx cmd = MMC_CMD_SWITCH \<Longrightarrow>
      cmdarg cmd = push_bit 24 3 OR push_bit 16 179 OR push_bit 8 (ucast (v :: u8)) \<Longrightarrow>
      \<exists>resp bs h'. send_cmd drv m cmd None h = ((0, resp, bs), h') \<and> ready h' \<and> sel h' = v AND 7
        \<and> cells h' = cells h"
    and reads: "ready h \<Longrightarrow> cmdidx cmd = (if blocks d > 1 then MMC_CMD_READ_MULTIPLE_BLOCK else MMC_CMD_READ_SINGLE_BLOCK) \<Longrightarrow>
      0 < blocks d \<Longrightarrow> blocksize d = 512 \<Longrightarrow> high_capacity m \<Longrightarrow>
      \<exists>resp h'. send_cmd drv m cmd (Some d) h
          = ((0, resp, run_bytes (cells h (sel h)) (unat (cmdarg cmd)) (unat (blocks d))), h')
        \<and> ready h' \<and> sel h' = sel h \<and> cells h' = cells h"
    and writes: "ready h \<Longrightarrow> cmdidx cmd = (if blocks d > 1 then MMC_CMD_WRITE_MULTIPLE_BLOCK else MMC_CMD_WRITE_SINGLE_BLOCK) \<Longrightarrow>
      0 < blocks d \<Longrightarrow> blocksize d = 512 \<Longrightarrow> high_capacity m \<Longrightarrow> 512 * unat (blocks d) \<le> length (src d) \<Longrightarrow>
      \<exists>resp bs h'. send_cmd drv m cmd (Some d) h = ((0, resp, bs), h') \<and> ready h' \<and> sel h' = sel h
        \<and> cells h' = (cells h)(sel h := store_run 512 (cells h (sel h)) (unat (cmdarg cmd)) (unat (blocks d))
            (take (512 * unat (blocks d)) (src d)))"
begin

definition quiet :: "'h mmc_world \<Rightarrow> 'h mmc_world \<Rightarrow> bool" where
  "quiet w w' \<longleftrightarrow> mmc_devices w' = mmc_devices w \<and> ready (host w') \<and> sel (host w') = sel (host w)
     \<and> cells (host w') = cells (host w)"

lemma send_plain:
  assumes "ready (host w)" and "cmdidx cmd = MMC_CMD_STOP_TRANSMISSION \<or> cmdidx cmd = MMC_CMD_SEND_STATUS
    \<or> cmdidx cmd = MMC_CMD_SET_BLOCKLEN"
  shows "\<exists>resp bs w'. mmc_send_cmd drv p cmd None w = ((0, resp, bs), w')
    \<and> resp ! 0 AND MMC_STATUS_RDY_FOR_DATA \<noteq> 0 \<and> quiet w w'"
proof -
  obtain resp bs h' where "send_cmd drv (mmc_at p w) cmd None (host w) = ((0, resp, bs), h')"
      "resp ! 0 AND MMC_STATUS_RDY_FOR_DATA \<noteq> 0" "ready h'" "sel h' = sel (host w)" "cells h' = cells (host w)"
    using plain [OF assms] by blast
  then show ?thesis by (simp add: mmc_send_cmd_def quiet_def)
qed

lemma send_status_quiet:
  assumes "ready (host w)"
  shows "\<exists>w'. mmc_send_status drv p 1000 w = (0, w') \<and> quiet w w'"
proof -
  define cmd where "cmd = \<lparr>cmdidx = MMC_CMD_SEND_STATUS, resp_type = MMC_RSP_R1,
    cmdarg = (if mmc_host_is_spi (mmc_at p w) then stale drv else push_bit 16 (ucast (rca (mmc_at p w)))), cmd_flags = 0\<rparr>"
  obtain resp bs w' where s: "mmc_send_cmd drv p cmd None w = ((0, resp, bs), w')"
      "resp ! 0 AND MMC_STATUS_RDY_FOR_DATA \<noteq> 0" "quiet w w'"
    using send_plain [OF assms, of cmd p] by (auto simp: cmd_def)
  have "status_loop drv p cmd 1000 w = (Inr 1000, w')"
    by (subst status_loop.simps) (simp add: s(1,2))
  then show ?thesis
    using s(3) by (simp add: mmc_send_status_def cmd_def [symmetric])
qed

lemma set_blocklen_quiet:
  assumes "ready (host w)"
  shows "\<exists>w'. mmc_set_blocklen drv p len w = (0, w') \<and> quiet w w'"
proof -
  define cmd where "cmd = \<lparr>cmdidx = MMC_CMD_SET_BLOCKLEN, resp_type = MMC_RSP_R1, cmdarg = len, cmd_flags = 0\<rparr>"
  obtain resp bs w' where s: "mmc_send_cmd drv p cmd None w = ((0, resp, bs), w')" "quiet w w'"
    using send_plain [OF assms, of cmd p] by (auto simp: cmd_def)
  then show ?thesis
    unfolding mmc_set_blocklen_def cmd_def [symmetric] by (subst blocklen_loop.simps) simp
qed

lemma switch_selects:
  assumes "ready (host w)"
  shows "\<exists>w'. mmc_switch drv p EXT_CSD_CMD_SET_NORMAL EXT_CSD_PART_CONF v w = (0, w') \<and> ready (host w')
    \<and> mmc_devices w' = mmc_devices w \<and> sel (host w') = v AND 7 \<and> cells (host w') = cells (host w)"
proof -
  define cmd where "cmd = \<lparr>cmdidx = MMC_CMD_SWITCH, resp_type = MMC_RSP_R1b,
    cmdarg = push_bit 24 3 OR push_bit 16 (ucast (EXT_CSD_PART_CONF)) OR push_bit 8 (ucast v), cmd_flags = 0\<rparr>"
  obtain resp bs h' where h: "send_cmd drv (mmc_at p w) cmd None (host w) = ((0, resp, bs), h')" "ready h'"
      "sel h' = v AND 7" "cells h' = cells (host w)"
    using switches [OF assms, of cmd v "mmc_at p w"] by (auto simp: cmd_def)
  obtain w' where "mmc_send_status drv p 1000 (w\<lparr>host := h'\<rparr>) = (0, w')" "quiet (w\<lparr>host := h'\<rparr>) w'"
    using send_status_quiet [of "w\<lparr>host := h'\<rparr>" p] h(2) by auto
  then show ?thesis
    using h [unfolded cmd_def] by (simp add: mmc_switch_def mmc_send_cmd_def quiet_def)
qed

lemma write_blocks_card:
  assumes r: "ready (host w)" and m: "high_capacity (mmc_at p w)" "write_bl_len (mmc_at p w) = 512"
    and n: "0 < n" "unat s + unat n \<le> unat (bdev_lba (mmc_at p w))" "512 * unat n \<le> length data"
  shows "\<exists>w'. mmc_write_blocks drv p s n data w = (n, w') \<and> mmc_devices w' = mmc_devices w
    \<and> ready (host w') \<and> sel (host w') = sel (host w)
    \<and> cells (host w') = (cells (host w))(sel (host w) :=
        store_run 512 (cells (host w) (sel (host w))) (unat s) (unat n) (take (512 * unat n) data))"
proof -
  define cmd where "cmd = \<lparr>cmdidx = (if n > 1 then MMC_CMD_WRITE_MULTIPLE_BLOCK else MMC_CMD_WRITE_SINGLE_BLOCK),
    resp_type = MMC_RSP_R1, cmdarg = s, cmd_flags = 0\<rparr>"
  define d where "d = \<lparr>src = data, data_flags = MMC_DATA_WRITE, blocks = n, blocksize = 512\<rparr>"
  obtain resp bs h' where h: "send_cmd drv (mmc_at p w) cmd (Some d) (host w) = ((0, resp, bs), h')" "ready h'"
      "sel h' = sel (host w)" "cells h' = (cells (host w))(sel (host w) :=
        store_run 512 (cells (host w) (sel (host w))) (unat s) (unat n) (take (512 * unat n) data))"
    using writes [OF r, of cmd d "mmc_at p w"] m(1) n by (auto simp: cmd_def d_def)
  have "unat (s + n) = unat s + unat n"
    using n(2) unat_u32_less [of "bdev_lba (mmc_at p w)"] by (intro unat_add_small) simp
  then have le: "\<not> s + n > bdev_lba (mmc_at p w)" using n(2) by (simp add: word_le_nat_alt not_less)
  define w1 where "w1 = w\<lparr>host := h'\<rparr>"
  have s1: "mmc_send_cmd drv p cmd (Some d) w = ((0, resp, bs), w1)"
    using h(1) by (simp add: mmc_send_cmd_def w1_def)
  obtain resp2 bs2 w2 where s2: "mmc_send_cmd drv p \<lparr>cmdidx = MMC_CMD_STOP_TRANSMISSION,
      resp_type = MMC_RSP_R1b, cmdarg = 0, cmd_flags = 0\<rparr> None w1 = ((0, resp2, bs2), w2)" "quiet w1 w2"
    using send_plain [of w1 "\<lparr>cmdidx = MMC_CMD_STOP_TRANSMISSION, resp_type = MMC_RSP_R1b, cmdarg = 0, cmd_flags = 0\<rparr>" p]
      h(2) by (auto simp: w1_def)
  obtain w3 where s3: "mmc_send_status drv p 1000 w2 = (0, w3)" "quiet w2 w3"
    using send_status_quiet [of w2 p] s2(2) by (auto simp: quiet_def)
  have "mmc_write_blocks drv p s n data w = (n, if \<not> mmc_host_is_spi (mmc_at p w) \<and> n > 1 then w3 else w1)"
    using le m s1 s2(1) s3(1)
    by (simp add: mmc_write_blocks_def Let_def cmd_def [symmetric] d_def [symmetric])
  then show ?thesis using h s2(2) s3(2) by (auto simp: quiet_def w1_def)
qed

lemma read_blocks_card:
  assumes r: "ready (host w)" and m: "high_capacity (mmc_at p w)" "read_bl_len (mmc_at p w) = 512" and n: "0 < n"
  shows "\<exists>w'. mmc_read_blocks drv p s n w
      = ((n, run_bytes (cells (host w) (sel (host w))) (unat s) (unat n)), w') \<and> quiet w w'"
proof -
  define cmd where "cmd = \<lparr>cmdidx = (if n > 1 then MMC_CMD_READ_MULTIPLE_BLOCK else MMC_CMD_READ_SINGLE_BLOCK),
    resp_type = MMC_RSP_R1, cmdarg = s, cmd_flags = 0\<rparr>"
  define d where "d = \<lparr>src = [], data_flags = MMC_DATA_READ, blocks = n, blocksize = 512\<rparr>"
  obtain resp h' where h: "send_cmd drv (mmc_at p w) cmd (Some d) (host w)
      = ((0, resp, run_bytes (cells (host w) (sel (host w))) (unat s) (unat n)), h')" "ready h'"
      "sel h' = sel (host w)" "cells h' = cells (host w)"
    using reads [OF r, of cmd d "mmc_at p w"] m(1) n by (auto simp: cmd_def d_def)
  define w1 where "w1 = w\<lparr>host := h'\<rparr>"
  have s1: "mmc_send_cmd drv p cmd (Some d) w
      = ((0, resp, run_bytes (cells (host w) (sel (host w))) (unat s) (unat n)), w1)"
    using h(1) by (simp add: mmc_send_cmd_def w1_def)
  have q1: "quiet w w1" using h(2-4) by (simp add: quiet_def w1_def)
  obtain resp2 bs2 w2 where s2: "mmc_send_cmd drv p \<lparr>cmdidx = MMC_CMD_STOP_TRANSMISSION,
      resp_type = MMC_RSP_R1b, cmdarg = 0, cmd_flags = 0\<rparr> None w1 = ((0, resp2, bs2), w2)" "quiet w1 w2"
    using send_plain [of w1 "\<lparr>cmdidx = MMC_CMD_STOP_TRANSMISSION, resp_type = MMC_RSP_R1b, cmdarg = 0, cmd_flags = 0\<rparr>" p]
      h(2) by (auto simp: w1_def)
  obtain w3 where s3: "mmc_send_status drv p 1000 w2 = (0, w3)" "quiet w2 w3"
    using send_status_quiet [of w2 p] s2(2) by (auto simp: quiet_def)
  have "mmc_read_blocks drv p s n w = ((n, run_bytes (cells (host w) (sel (host w))) (unat s) (unat n)),
      if n > 1 then w3 else w1)"
    using m s1 s2(1) s3(1)
    by (simp add: mmc_read_blocks_def Let_def cmd_def [symmetric] d_def [symmetric])
  then show ?thesis using q1 s2(2) s3(2) by (auto simp: quiet_def)
qed

lemma write_loop_card:
  assumes "ready (host w)" and "high_capacity (mmc_at p w)" and "write_bl_len (mmc_at p w) = 512"
    and "b_max (mmc_at p w) \<noteq> 0" and "unat (b_max (mmc_at p w)) < 2 ^ 23"
    and "0 < todo" and "unat s + unat todo \<le> unat (bdev_lba (mmc_at p w))" and "length data = 512 * unat todo"
  shows "\<exists>w'. write_loop drv p n s todo data w = Some (n, w') \<and> mmc_devices w' = mmc_devices w
    \<and> ready (host w') \<and> sel (host w') = sel (host w)
    \<and> cells (host w') = (cells (host w))(sel (host w) :=
        store_run 512 (cells (host w) (sel (host w))) (unat s) (unat todo) data)"
  using assms
proof (induction "unat todo" arbitrary: todo s data w rule: less_induct)
  case less
  define cur where "cur = (if todo > b_max (mmc_at p w) then b_max (mmc_at p w) else todo)"
  have cur: "0 < cur" "cur \<le> todo" "cur \<le> b_max (mmc_at p w)"
    using less.prems(4,6) by (auto simp: cur_def word_neq_0_conv)
  then have uc: "unat cur \<le> unat todo" "0 < unat cur" "unat cur < 2 ^ 23"
    using less.prems(5) by (simp_all add: word_le_nat_alt word_less_nat_alt)
  obtain w1 where wb: "mmc_write_blocks drv p s cur data w = (cur, w1)" "mmc_devices w1 = mmc_devices w"
      "ready (host w1)" "sel (host w1) = sel (host w)"
      "cells (host w1) = (cells (host w))(sel (host w) :=
        store_run 512 (cells (host w) (sel (host w))) (unat s) (unat cur) (take (512 * unat cur) data))"
    using write_blocks_card [OF less.prems(1,2,3) cur(1), of s data] uc less.prems(7,8) by auto
  note at = keeps_at [OF wb(2), of p]
  show ?case
  proof (cases "todo = cur")
    case True
    then have "write_loop drv p n s todo data w = Some (n, w1)"
      using wb(1) cur(3) by (subst write_loop.simps) (simp add: Let_def not_less [symmetric])
    then show ?thesis using wb True less.prems(8) by auto
  next
    case False
    then have lt: "0 < todo - cur" by (simp add: word_neq_0_conv [symmetric])
    have ut: "unat (todo - cur) = unat todo - unat cur" by (rule unat_sub_small) (rule uc(1))
    have us: "unat (s + cur) = unat s + unat cur"
      using less.prems(7) uc unat_u32_less [of "bdev_lba (mmc_at p w)"] by (intro unat_add_small) simp
    have len: "unat (cur * write_bl_len (mmc_at p w)) = 512 * unat cur"
      using less.prems(3) uc(3) by (subst unat_mult_small) simp_all
    have "unat (todo - cur) < unat todo" "unat (s + cur) + unat (todo - cur) \<le> unat (bdev_lba (mmc_at p w1))"
      "length (drop (512 * unat cur) data) = 512 * unat (todo - cur)"
      using less.prems(7,8) uc ut us at by (simp_all add: diff_mult_distrib2)
    note IH = less.hyps [OF this(1) wb(3) _ _ _ _ lt this(2,3)]
    obtain w2 where w2: "write_loop drv p n (s + cur) (todo - cur) (drop (512 * unat cur) data) w1 = Some (n, w2)"
      "mmc_devices w2 = mmc_devices w1" "ready (host w2)" "sel (host w2) = sel (host w1)"
      "cells (host w2) = (cells (host w1))(sel (host w1) :=
        store_run 512 (cells (host w1) (sel (host w1))) (unat (s + cur)) (unat (todo - cur))
          (drop (512 * unat cur) data))"
      using IH less.prems(2-5) at by metis
    have st: "store_run 512 (store_run 512 f (unat s) (unat cur) (take (512 * unat cur) data))
        (unat s + unat cur) (unat todo - unat cur) (drop (512 * unat cur) data)
      = store_run 512 f (unat s) (unat todo) data" for f
      using store_run_add [of "take (512 * unat cur) data" 512 "unat cur" f "unat s" "unat todo - unat cur"
          "drop (512 * unat cur) data"] uc less.prems(8) by simp
    have "write_loop drv p n s todo data w = Some (n, w2)"
      using wb(1) w2(1) lt len by (subst write_loop.simps) (simp add: Let_def cur_def [symmetric])
    moreover have "cells (host w2) = (cells (host w))(sel (host w) :=
        store_run 512 (cells (host w) (sel (host w))) (unat s) (unat todo) data)"
      by (simp add: w2(5) wb(4,5) ut us st)
    ultimately show ?thesis using w2 wb by simp
  qed
qed

lemma read_loop_card:
  assumes "ready (host w)" and "high_capacity (mmc_at p w)" and "read_bl_len (mmc_at p w) = 512"
    and "b_max (mmc_at p w) \<noteq> 0"
    and "0 < todo" and "unat s + unat todo < 2 ^ 32"
  shows "\<exists>w'. read_loop drv p n s todo dst w
      = Some ((n, dst @ run_bytes (cells (host w) (sel (host w))) (unat s) (unat todo)), w') \<and> quiet w w'"
  using assms
proof (induction "unat todo" arbitrary: todo s dst w rule: less_induct)
  case less
  define cur where "cur = (if todo > b_max (mmc_at p w) then b_max (mmc_at p w) else todo)"
  define got where "got = run_bytes (cells (host w) (sel (host w))) (unat s) (unat cur)"
  have cur: "0 < cur" "cur \<le> todo" "cur \<le> b_max (mmc_at p w)"
    using less.prems(4,5) by (auto simp: cur_def word_neq_0_conv)
  then have uc: "unat cur \<le> unat todo" "0 < unat cur" by (simp_all add: word_le_nat_alt word_less_nat_alt)
  obtain w1 where rb: "mmc_read_blocks drv p s cur w = ((cur, got), w1)" "quiet w w1"
    using read_blocks_card [OF less.prems(1,2,3) cur(1), of s] by (auto simp: got_def)
  then have at: "mmc_at p w1 = mmc_at p w" and r1: "ready (host w1)"
    by (simp_all add: quiet_def mmc_at_def)
  show ?case
  proof (cases "todo = cur")
    case True
    then have "read_loop drv p n s todo dst w = Some ((n, dst @ got), w1)"
      using rb(1) cur(3) by (subst read_loop.simps) (simp add: Let_def not_less [symmetric])
    then show ?thesis using rb(2) True by (auto simp: got_def)
  next
    case False
    then have lt: "0 < todo - cur" by (simp add: word_neq_0_conv [symmetric])
    have ut: "unat (todo - cur) = unat todo - unat cur" by (rule unat_sub_small) (rule uc(1))
    have us: "unat (s + cur) = unat s + unat cur"
      using less.prems(6) uc by (intro unat_add_small) simp
    have "unat (todo - cur) < unat todo" "unat (s + cur) + unat (todo - cur) < 2 ^ 32"
      using less.prems(6) uc by (auto simp: ut us)
    note IH = less.hyps [OF this(1) r1 _ _ _ lt this(2)]
    obtain w2 where w2: "read_loop drv p n (s + cur) (todo - cur) (dst @ got) w1
        = Some ((n, (dst @ got) @ run_bytes (cells (host w1) (sel (host w1))) (unat (s + cur)) (unat (todo - cur))), w2)"
      "quiet w1 w2"
      using IH less.prems(2-4) at by metis
    have "got @ run_bytes (cells (host w1) (sel (host w1))) (unat (s + cur)) (unat (todo - cur))
        = run_bytes (cells (host w) (sel (host w))) (unat s) (unat todo)"
      using run_bytes_add [of "cells (host w) (sel (host w))" "unat s" "unat cur" "unat todo - unat cur"] rb(2) uc
      by (simp add: got_def quiet_def us ut)
    moreover have "read_loop drv p n s todo dst w = Some ((n, (dst @ got) @
        run_bytes (cells (host w1) (sel (host w1))) (unat (s + cur)) (unat (todo - cur))), w2)"
      using rb(1) w2(1) lt by (subst read_loop.simps) (simp add: Let_def cur_def [symmetric])
    ultimately show ?thesis using rb(2) w2(2) by (auto simp: quiet_def)
  qed
qed

text \<open>States of a device with identity \<open>m\<close> at \<open>p\<close> in which the block layer keeps its contract.\<close>

definition device_good :: "nat \<Rightarrow> mmc \<Rightarrow> 'h mmc_world \<Rightarrow> bool" where
  "device_good p m w \<longleftrightarrow> find_mmc_device 0 w = Some p \<and> same_device m (mmc_at p w) \<and> ready (host w)
     \<and> part_config (mmc_at p w) \<noteq> MMCPART_NOAVAILABLE
     \<and> (part_num (mmc_at p w) = 0 \<longrightarrow> sel (host w) = 0)"

lemma select_user_card:
  assumes g: "device_good p m w"
  shows "\<exists>w'. select_user drv p w = Some w' \<and> device_good p m w' \<and> sel (host w') = 0
    \<and> cells (host w') = cells (host w) \<and> part_num (mmc_at p w') = 0"
proof (cases "part_num (mmc_at p w) = 0")
  case True
  then show ?thesis using g by (auto simp: select_user_def device_good_def)
next
  case False
  define pc where "pc = part_config (mmc_at p w) AND NOT PART_ACCESS_MASK"
  have f: "find_mmc_device 0 w = Some p" and r: "ready (host w)"
    and na: "part_config (mmc_at p w) \<noteq> MMCPART_NOAVAILABLE" and sd: "same_device m (mmc_at p w)"
    using g by (simp_all add: device_good_def)
  obtain w1 where w1: "mmc_switch drv p EXT_CSD_CMD_SET_NORMAL EXT_CSD_PART_CONF pc w = (0, w1)"
      "ready (host w1)" "mmc_devices w1 = mmc_devices w" "sel (host w1) = pc AND 7" "cells (host w1) = cells (host w)"
    using switch_selects [OF r] by blast
  have pc7: "pc AND 7 = 0"
    unfolding pc_def by (simp add: and.assoc)
  then have pcff: "pc \<noteq> MMCPART_NOAVAILABLE" by auto
  have sp: "mmc_switch_part drv 0 0 w = (0, w1)"
    using w1(1) by (simp add: mmc_switch_part_def f Let_def pc_def)
  define w2 where "w2 = set_mmc p (\<lambda>m. m\<lparr>part_num := 0, part_config := part_config m AND NOT PART_ACCESS_MASK\<rparr>) w1"
  have "switch_loop drv 0 0 10 w = (0, w1)"
    by (subst switch_loop.simps) (simp add: sp)
  then have s: "select_user drv p w = Some w2"
    using False by (simp add: select_user_def mmc_switch_partition_def f na w2_def ucast_u8_u32_eq_0)
  have p: "p < length (mmc_devices w)" by (rule find_device_bound [OF f])
  have at2: "mmc_at p w2 = (mmc_at p w)\<lparr>part_num := 0, part_config := pc\<rparr>"
    using p w1(3) by (simp add: w2_def set_mmc_def mmc_at_def pc_def)
  have "same_devices w w2"
    unfolding w2_def by (rule same_devices_trans [OF same_devices_refl [OF w1(3)] set_part_same(2)])
  from find_same [OF this, of 0] have "find_mmc_device 0 w2 = Some p" using f by simp
  moreover have h2: "host w2 = host w1" by (simp add: w2_def set_mmc_def)
  moreover have "same_device m (mmc_at p w2)" using sd unfolding at2 same_device_def by simp
  ultimately have "device_good p m w2"
    using w1(2,4) pcff pc7 by (simp add: device_good_def at2)
  then show ?thesis using s at2 w1(4,5) pc7 h2 by simp
qed

lemma good_fields:
  assumes "device_good p m w" and "device_ready m"
  shows "high_capacity (mmc_at p w)" "write_bl_len (mmc_at p w) = 512" "read_bl_len (mmc_at p w) = 512"
    "b_max (mmc_at p w) \<noteq> 0" "unat (b_max (mmc_at p w)) < 2 ^ 23" "bdev_lba (mmc_at p w) = bdev_lba m"
  using assms same_device_fields [of m "mmc_at p w"] by (simp_all add: device_good_def device_ready_def)

lemma good_devices:
  "device_good p m w \<Longrightarrow> mmc_devices w' = mmc_devices w \<Longrightarrow> ready (host w') \<Longrightarrow> sel (host w') = sel (host w) \<Longrightarrow>
    device_good p m w'"
  by (simp add: device_good_def find_mmc_device_def mmc_at_def)

lemma bread_gpt_card:
  assumes g: "device_good p m w" and m: "device_ready m" and n: "0 < n" "unat s + unat n \<le> unat (bdev_lba m)"
  shows "\<exists>w'. mmc_bread_gpt drv 0 s n w = Some ((n, run_bytes (cells (host w) 0) (unat s) (unat n)), w')
    \<and> device_good p m w' \<and> cells (host w') = cells (host w)"
proof -
  obtain w1 where w1: "select_user drv p w = Some w1" "device_good p m w1" "sel (host w1) = 0"
      "cells (host w1) = cells (host w)"
    using select_user_card [OF g] by blast
  note f = good_fields [OF w1(2) m]
  obtain w2 where w2: "mmc_set_blocklen drv p (read_bl_len (mmc_at p w1)) w1 = (0, w2)" "quiet w1 w2"
    using set_blocklen_quiet [of w1 p] w1(2) by (auto simp: device_good_def)
  have at: "mmc_at p w2 = mmc_at p w1" and g2: "device_good p m w2"
    using w2(2) good_devices [OF w1(2)] by (simp_all add: quiet_def mmc_at_def)
  have lt: "unat s + unat n < 2 ^ 32" using n(2) unat_u32_less [of "bdev_lba m"] by simp
  obtain w3 where w3: "read_loop drv p n s n [] w2
      = Some ((n, [] @ run_bytes (cells (host w2) (sel (host w2))) (unat s) (unat n)), w3)" "quiet w2 w3"
    using read_loop_card [of w2 p n s n "[]"] f(1,3,4) g2 n(1) lt by (auto simp: at device_good_def)
  have "unat (s + n) = unat s + unat n" using lt by (intro unat_add_small) simp
  then have "\<not> s + n > bdev_lba (mmc_at p w1)" using n(2) f(6) by (simp add: word_le_nat_alt not_less)
  moreover have "n \<noteq> 0" using n(1) by simp
  moreover have "find_mmc_device 0 w = Some p" using g by (simp add: device_good_def)
  ultimately have "mmc_bread_gpt drv 0 s n w = Some ((n, run_bytes (cells (host w) 0) (unat s) (unat n)), w3)"
    using w3(1) w2(2) w1 by (simp add: mmc_bread_gpt_def w2(1) quiet_def)
  then show ?thesis
    using w3(2) w2(2) w1(4) good_devices [OF g2] by (auto simp: quiet_def)
qed

lemma bwrite_gpt_card:
  assumes g: "device_good p m w" and m: "device_ready m" and n: "0 < n" "unat s + unat n \<le> unat (bdev_lba m)"
    and l: "length data = 512 * unat n"
  shows "\<exists>w'. mmc_bwrite_gpt drv 0 s n data w = Some (n, w') \<and> device_good p m w'
    \<and> cells (host w') = (cells (host w))(0 := store_run 512 (cells (host w) 0) (unat s) (unat n) data)"
proof -
  obtain w1 where w1: "select_user drv p w = Some w1" "device_good p m w1" "sel (host w1) = 0"
      "cells (host w1) = cells (host w)"
    using select_user_card [OF g] by blast
  note f = good_fields [OF w1(2) m]
  obtain w2 where w2: "mmc_set_blocklen drv p (write_bl_len (mmc_at p w1)) w1 = (0, w2)" "quiet w1 w2"
    using set_blocklen_quiet [of w1 p] w1(2) by (auto simp: device_good_def)
  have at: "mmc_at p w2 = mmc_at p w1" and g2: "device_good p m w2"
    using w2(2) good_devices [OF w1(2)] by (simp_all add: quiet_def mmc_at_def)
  obtain w3 where w3: "write_loop drv p n s n data w2 = Some (n, w3)" "mmc_devices w3 = mmc_devices w2"
      "ready (host w3)" "sel (host w3) = sel (host w2)"
      "cells (host w3) = (cells (host w2))(sel (host w2) :=
        store_run 512 (cells (host w2) (sel (host w2))) (unat s) (unat n) data)"
    using write_loop_card [of w2 p n s data n] f g2 n l by (auto simp: at device_good_def)
  have "find_mmc_device 0 w = Some p" using g by (simp add: device_good_def)
  then have "mmc_bwrite_gpt drv 0 s n data w = Some (n, w3)"
    using w1(1) w3(1) by (simp add: mmc_bwrite_gpt_def w2(1))
  then show ?thesis
    using w3 w2(2) w1(3,4) good_devices [OF g2 w3(2)] by (auto simp: quiet_def)
qed

end

text \<open>The block layer over a card keeps the contract of a block device.\<close>

locale emmc_device = emmc_card drv ready sel cells
  for drv :: "'h mmc_host" and ready :: "'h \<Rightarrow> bool" and sel :: "'h \<Rightarrow> u8" and cells :: "'h \<Rightarrow> u8 \<Rightarrow> nat \<Rightarrow> bytes" +
  fixes p :: nat and m :: mmc
  assumes dev_ready: "device_ready m"

sublocale emmc_device \<subseteq> block_device "mmc_block_dev drv m" "device_good p m" "\<lambda>w. cells (host w) 0"
proof (unfold_locales, goal_cases)
  case (1 d i)
  then show ?case
    using dev_ready cell_bytes by (simp add: device_good_def mmc_block_dev_def device_ready_def)
next
  case (2 d n s)
  then show ?case
    using bread_gpt_card [of p m d n s] dev_ready by (auto simp: mmc_block_dev_def device_ready_def)
next
  case (3 d n s data)
  then show ?case
    using bwrite_gpt_card [of p m d n s data] dev_ready by (auto simp: mmc_block_dev_def device_ready_def)
qed

section \<open>A reference card\<close>

text \<open>The documented behaviour of an eMMC, as a host driver: the contract can be met.\<close>

record card_state =
  sim_sel :: u8
  sim_store :: "u8 \<Rightarrow> nat \<Rightarrow> bytes"

definition sim_cells :: "card_state \<Rightarrow> u8 \<Rightarrow> nat \<Rightarrow> bytes" where
  "sim_cells h q i = take 512 (sim_store h q i @ replicate 512 0)"

definition sim_send :: "mmc \<Rightarrow> mmc_cmd \<Rightarrow> mmc_data option \<Rightarrow> card_state \<Rightarrow> (int \<times> u32 list \<times> bytes) \<times> card_state" where
  "sim_send m cmd data h =
     (case data of
        None \<Rightarrow>
          if cmdidx cmd = MMC_CMD_SWITCH
          then ((0, [0x900], []), h\<lparr>sim_sel := ucast (drop_bit 8 (cmdarg cmd)) AND 7\<rparr>)
          else ((0, [0x900], []), h)
      | Some d \<Rightarrow>
          if cmdidx cmd = MMC_CMD_WRITE_SINGLE_BLOCK \<or> cmdidx cmd = MMC_CMD_WRITE_MULTIPLE_BLOCK
          then ((0, [0x900], []), h\<lparr>sim_store := (sim_cells h)(sim_sel h := store_run 512 (sim_cells h (sim_sel h))
                 (unat (cmdarg cmd)) (unat (blocks d)) (src d))\<rparr>)
          else ((0, [0x900], run_bytes (sim_cells h (sim_sel h)) (unat (cmdarg cmd)) (unat (blocks d))), h))"

definition sim_host :: "card_state mmc_host" where
  "sim_host = \<lparr>send_cmd = sim_send, set_ios = (\<lambda>m h. h), host_init = (\<lambda>m h. (0, h)), stale = 0\<rparr>"

definition sim_mmc :: mmc where
  "sim_mmc = \<lparr>voltages = 0xff8080, version = 0x10040, has_init = True, f_min = 400000, f_max = 52000000,
     high_capacity = True, bus_width = 8, clock = 52000000, card_caps = 0x11, host_caps = 0x311,
     ocr = 0xc0ff8080, scr = [0, 0], csd = [0, 0, 0, 0], cid = [0, 0, 0, 0], rca = 1, part_config = 0x48,
     part_num = 1, tran_speed = 26000000, read_bl_len = 512, write_bl_len = 512, erase_grp_size = 1024,
     capacity = 0x80000000, bdev_dev = 0, bdev_lba = 0x400000, bdev_blksz = 512, b_max = 65535,
     boot_part_size = 0x400000\<rparr>"

definition sim_world :: "card_state mmc_world" where
  "sim_world = \<lparr>mmc_devices = [sim_mmc], cur_dev_num = 1, emmc_mid = 0, emmc_did = 0, host = \<lparr>sim_sel = 1, sim_store = (\<lambda>q i. [])\<rparr>\<rparr>"

lemma length_sim_cells: "length (sim_cells h q i) = 512"
  by (simp add: sim_cells_def)

lemma sim_store_run:
  assumes "512 * n \<le> length data"
  shows "sim_cells (h\<lparr>sim_store := (sim_cells h)(q := store_run 512 (sim_cells h q) s n data)\<rparr>)
    = (sim_cells h)(q := store_run 512 (sim_cells h q) s n (take (512 * n) data))"
proof (intro ext)
  fix q' i
  have pad: "take 512 (bs @ replicate 512 (0 :: u8)) = bs" if "length bs = 512" for bs :: bytes
    using that by simp
  have "take 512 (drop (512 * (i - s)) data) = take 512 (drop (512 * (i - s)) (take (512 * n) data))
      \<and> length (take 512 (drop (512 * (i - s)) data)) = 512" if "s \<le> i" "i < s + n"
  proof -
    define j where "j = i - s"
    have j: "i = s + j" "j < n" using that by (simp_all add: j_def)
    then have "512 * j + 512 \<le> 512 * n" by (metis Suc_leI mult_Suc_right mult_le_mono2 add.commute)
    then show ?thesis using assms j by (simp add: drop_take)
  qed
  then show "sim_cells (h\<lparr>sim_store := (sim_cells h)(q := store_run 512 (sim_cells h q) s n data)\<rparr>) q' i
    = ((sim_cells h)(q := store_run 512 (sim_cells h q) s n (take (512 * n) data))) q' i"
    using pad [OF length_sim_cells]
    by (auto simp: sim_cells_def [of "h\<lparr>sim_store := _\<rparr>"] store_run_def pad)
qed

lemma switch_value:
  "ucast (drop_bit 8 (push_bit 24 3 OR push_bit 16 179 OR push_bit 8 (ucast (v :: u8)) :: u32)) AND 7 = v AND (7 :: u8)"
    (is "?x AND 7 = v AND 7")
proof (rule bit_word_eqI)
  fix n assume "n < LENGTH(8)"
  have m: "(7 :: u8) = mask 3" by (simp add: mask_eq_exp_minus_1)
  show "bit (?x AND 7) n = bit (v AND 7) n"
  proof (cases "n < 3")
    case True
    then have "n = 0 \<or> n = 1 \<or> n = 2" by auto
    then show ?thesis by (auto simp: bit_simps)
  next
    case False
    then show ?thesis unfolding m by (simp add: bit_simps)
  qed
qed

interpretation sim: emmc_card sim_host "\<lambda>h. True" sim_sel sim_cells
proof (unfold_locales, goal_cases)
  case (1 h q i)
  then show ?case by (simp add: length_sim_cells)
next
  case (2 h cmd m)
  then show ?case by (auto simp: sim_host_def sim_send_def)
next
  case (3 h cmd v m)
  have "sim_cells (h\<lparr>sim_sel := x\<rparr>) = sim_cells h" for x by (intro ext) (simp add: sim_cells_def)
  then show ?case using 3 switch_value [of v] by (simp add: sim_host_def sim_send_def)
next
  case (4 h cmd d m)
  then show ?case by (auto simp: sim_host_def sim_send_def split: if_splits)
next
  case (5 h cmd d m)
  then show ?case using sim_store_run [of "unat (blocks d)" "src d" h "sim_sel h"]
    by (auto simp: sim_host_def sim_send_def split: if_splits)
qed

interpretation simdev: emmc_device sim_host "\<lambda>h. True" sim_sel sim_cells 0 sim_mmc
  by unfold_locales (simp add: device_ready_def sim_mmc_def)

lemma sim_world_good: "sim.device_good 0 sim_mmc sim_world"
  by (simp add: sim.device_good_def sim_world_def find_mmc_device_def mmc_at_def same_device_def sim_mmc_def)

theorem mmc_transfers_return_witness:
  "(\<exists>r. mmc_bread sim_host 0 5 2 sim_world = Some r) \<and> (\<exists>r. mmc_bwrite sim_host 0 5 2 [] sim_world = Some r)
    \<and> (\<exists>r. mmc_bread_gpt sim_host 0 5 2 sim_world = Some r)
    \<and> (\<exists>r. mmc_bwrite_gpt sim_host 0 5 2 [] sim_world = Some r)"
  by (rule mmc_transfers_return [where q = 0 and p = 0])
     (simp_all add: sim_world_def find_mmc_device_def mmc_at_def sim_mmc_def)

context emmc_device
begin

lemma gpt_write_read:
  assumes g: "device_good p m w" and n: "0 < n" "unat s + unat n \<le> unat (bdev_lba m)"
    and l: "length data = 512 * unat n"
  shows "\<exists>w' w''. mmc_bwrite_gpt drv 0 s n data w = Some (n, w')
    \<and> cells (host w') = (cells (host w))(0 := store_run 512 (cells (host w) 0) (unat s) (unat n) data)
    \<and> mmc_bread_gpt drv 0 s n w' = Some ((n, data), w'')"
proof -
  obtain w' where w': "mmc_bwrite_gpt drv 0 s n data w = Some (n, w')" "device_good p m w'"
      "cells (host w') = (cells (host w))(0 := store_run 512 (cells (host w) 0) (unat s) (unat n) data)"
    using bwrite_gpt_card [OF g dev_ready n l] by blast
  obtain w'' where "mmc_bread_gpt drv 0 s n w' = Some ((n, run_bytes (cells (host w') 0) (unat s) (unat n)), w'')"
    using bread_gpt_card [OF w'(2) dev_ready n] by blast
  moreover have "run_bytes (cells (host w') 0) (unat s) (unat n) = data"
    using run_store_same [OF l] by (simp add: w'(3))
  ultimately show ?thesis using w' by auto
qed

end

text \<open>
  C13. Partition-table writes are durable: over any card that keeps the documented contract, a write of
  whole blocks inside the device through \<open>mmc_bwrite_gpt\<close>, from whatever partition is selected, is
  complete, changes only its range of the user partition, and \<open>mmc_bread_gpt\<close> then returns the data.
\<close>

theorem mmc_gpt_write_read:
  assumes "emmc_device drv ready sel cells m" and "emmc_card.device_good ready sel p m w"
    and "0 < n" and "unat s + unat n \<le> unat (bdev_lba m)" and "length data = 512 * unat n"
  shows "\<exists>w' w''. mmc_bwrite_gpt drv 0 s n data w = Some (n, w')
    \<and> cells (host w') = (cells (host w))(0 := store_run 512 (cells (host w) 0) (unat s) (unat n) data)
    \<and> mmc_bread_gpt drv 0 s n w' = Some ((n, data), w'')"
  by (rule emmc_device.gpt_write_read [OF assms])

theorem mmc_gpt_write_read_witness:
  "\<exists>w' w''. mmc_bwrite_gpt sim_host 0 34 2 (replicate 1024 7) sim_world = Some (2, w')
    \<and> sim_cells (host w') = (sim_cells (host sim_world))(0 :=
        store_run 512 (sim_cells (host sim_world) 0) (unat (34 :: u32)) (unat (2 :: u32)) (replicate 1024 7))
    \<and> mmc_bread_gpt sim_host 0 34 2 w' = Some ((2, replicate 1024 7), w'')"
  by (rule mmc_gpt_write_read [OF simdev.emmc_device_axioms sim_world_good]) (simp_all add: sim_mmc_def)

section \<open>Status polls and bounds\<close>

lemma status_loop_polls:
  assumes "\<And>m cmd k. send_cmd drv m cmd None (hs k) = ((0, [r k], []), hs (Suc k))"
    and "\<And>j. j < n \<Longrightarrow> r (i + j) AND MMC_STATUS_RDY_FOR_DATA = 0 \<and> r (i + j) AND MMC_STATUS_MASK = 0"
    and "host w = hs i" and "n \<le> t \<and> r (i + n) AND MMC_STATUS_RDY_FOR_DATA \<noteq> 0 \<or> n = Suc t"
  shows "fst (status_loop drv p cmd t w) = Inr (if n \<le> t then int (t - n) else - 1)"
  using assms(2-4)
proof (induction n arbitrary: i t w)
  case 0
  then show ?case
    by (subst status_loop.simps) (simp add: mmc_send_cmd_def assms(1))
next
  case (Suc n)
  have z: "r i AND MMC_STATUS_RDY_FOR_DATA = 0" "r i AND MMC_STATUS_MASK = 0"
    using Suc.prems(1) [of 0] by simp_all
  define w1 where "w1 = w\<lparr>host := hs (Suc i)\<rparr>"
  have s: "mmc_send_cmd drv p cmd None w = ((0, [r i], []), w1)"
    using Suc.prems(2) by (simp add: mmc_send_cmd_def assms(1) w1_def)
  show ?case
  proof (cases t)
    case 0
    then show ?thesis
      using Suc.prems(3) z by (subst status_loop.simps) (simp add: s)
  next
    case (Suc t')
    have "fst (status_loop drv p cmd t' w1) = Inr (if n \<le> t' then int (t' - n) else - 1)"
    proof (rule Suc.IH [of "Suc i"])
      show "r (Suc i + j) AND MMC_STATUS_RDY_FOR_DATA = 0 \<and> r (Suc i + j) AND MMC_STATUS_MASK = 0" if "j < n" for j
        using Suc.prems(1) [of "Suc j"] that by simp
    qed (use Suc.prems(2,3) Suc in \<open>auto simp: w1_def\<close>)
    then show ?thesis
      using Suc z by (subst status_loop.simps) (simp add: s)
  qed
qed

text \<open>
  The status poll inverts its timeout: when the card answers \<open>n\<close> polls as busy and the next as
  ready, the result is 0 for every \<open>n\<close> below the limit and \<open>TIMEOUT\<close> when the last poll finds the card
  ready; when every poll finds it busy the result is 0, as for a ready card.
\<close>

theorem mmc_send_status_result:
  assumes "\<And>m cmd k. send_cmd drv m cmd None (hs k) = ((0, [r k], []), hs (Suc k))"
    and "host w = hs 0"
    and "\<And>j. j < n \<Longrightarrow> r j AND MMC_STATUS_RDY_FOR_DATA = 0 \<and> r j AND MMC_STATUS_MASK = 0"
    and "n \<le> t \<and> r n AND MMC_STATUS_RDY_FOR_DATA \<noteq> 0 \<or> n = Suc t"
  shows "fst (mmc_send_status drv p t w) = (if n = t then TIMEOUT else 0)"
proof -
  define cmd where "cmd = \<lparr>cmdidx = MMC_CMD_SEND_STATUS, resp_type = MMC_RSP_R1,
    cmdarg = (if mmc_host_is_spi (mmc_at p w) then stale drv else push_bit 16 (ucast (rca (mmc_at p w)))), cmd_flags = 0\<rparr>"
  obtain x w' where l: "status_loop drv p cmd t w = (x, w')" by fastforce
  then have "x = Inr (if n \<le> t then int (t - n) else - 1)"
    using status_loop_polls [where hs = hs and r = r and drv = drv and i = 0 and n = n and t = t, OF assms(1)]
      assms(2-4) by (metis add_0 fst_conv)
  then show ?thesis
    using l assms(4) by (auto simp: mmc_send_status_def cmd_def [symmetric])
qed

theorem mmc_send_status_result_witness:
  "fst (mmc_send_status \<lparr>send_cmd = (\<lambda>m cmd d h. ((0, [if h = 2 then 0x100 else 0], []), Suc h)),
       set_ios = (\<lambda>m h. h), host_init = (\<lambda>m h. (0, h)), stale = 0\<rparr> 0 2
     \<lparr>mmc_devices = [sim_mmc], cur_dev_num = 1, emmc_mid = 0, emmc_did = 0, host = 0\<rparr>) = TIMEOUT"
  using mmc_send_status_result [where hs = "\<lambda>k. k" and r = "\<lambda>k. if k = 2 then 0x100 else 0" and n = 2 and t = 2
      and drv = "\<lparr>send_cmd = (\<lambda>m cmd d h. ((0, [if h = 2 then 0x100 else 0], []), Suc h)),
        set_ios = (\<lambda>m h. h), host_init = (\<lambda>m h. (0, h)), stale = 0\<rparr>"
      and w = "\<lparr>mmc_devices = [sim_mmc], cur_dev_num = 1, emmc_mid = 0, emmc_did = 0, host = 0\<rparr>" and p = 0]
  by simp

text \<open>
  A property \<open>P\<close> of the host that every command keeps, write commands when they stay between the blocks
  \<open>F\<close> and \<open>L\<close>: for instance, that all other blocks are intact.
\<close>

definition write_inside :: "nat \<Rightarrow> nat \<Rightarrow> mmc_cmd \<Rightarrow> mmc_data option \<Rightarrow> bool" where
  "write_inside F L cmd data \<longleftrightarrow>
     (cmdidx cmd = MMC_CMD_WRITE_SINGLE_BLOCK \<or> cmdidx cmd = MMC_CMD_WRITE_MULTIPLE_BLOCK \<longrightarrow>
       (case data of None \<Rightarrow> False | Some d \<Rightarrow> F \<le> unat (cmdarg cmd) \<and> unat (cmdarg cmd) + unat (blocks d) \<le> L))"

locale write_guard =
  fixes drv :: "'h mmc_host" and P :: "'h \<Rightarrow> bool" and F L :: nat
  assumes kept: "P h \<Longrightarrow> write_inside F L cmd data \<Longrightarrow> P (snd (send_cmd drv m cmd data h))"
begin

lemma send_guard:
  "mmc_send_cmd drv p cmd data w = (r, w') \<Longrightarrow> P (host w) \<Longrightarrow> write_inside F L cmd data \<Longrightarrow> P (host w')"
  using kept [of "host w" cmd data "mmc_at p w"] by (auto simp: mmc_send_cmd_def split: prod.splits)

lemma send_other:
  "mmc_send_cmd drv p cmd data w = (r, w') \<Longrightarrow> P (host w) \<Longrightarrow> cmdidx cmd < 24 \<Longrightarrow> P (host w')"
  by (erule send_guard) (auto simp: write_inside_def)

lemma status_loop_guard:
  "status_loop drv p cmd t w = (r, w') \<Longrightarrow> P (host w) \<Longrightarrow> cmdidx cmd < 24 \<Longrightarrow> P (host w')"
proof (induction t arbitrary: w r w')
  case (0 w)
  obtain err resp bs w1 where s: "mmc_send_cmd drv p cmd None w = ((err, resp, bs), w1)" by (metis prod.exhaust)
  then show ?case
    using 0 send_other [OF s] by (subst (asm) status_loop.simps) (auto simp: s split: if_splits)
next
  case (Suc t w)
  obtain err resp bs w1 where s: "mmc_send_cmd drv p cmd None w = ((err, resp, bs), w1)" by (metis prod.exhaust)
  then show ?case
    using Suc send_other [OF s] by (subst (asm) status_loop.simps) (auto simp: s split: if_splits)
qed

lemma send_status_guard: "mmc_send_status drv p t w = (r, w') \<Longrightarrow> P (host w) \<Longrightarrow> P (host w')"
  by (auto simp: mmc_send_status_def Let_def dest!: status_loop_guard split: prod.splits sum.splits if_splits)

lemma blocklen_loop_guard:
  "blocklen_loop drv p cmd t w = (r, w') \<Longrightarrow> P (host w) \<Longrightarrow> cmdidx cmd < 24 \<Longrightarrow> P (host w')"
proof (induction t arbitrary: w r w')
  case (0 w)
  obtain ret rs w1 where s: "mmc_send_cmd drv p cmd None w = ((ret, rs), w1)" by (metis prod.exhaust)
  then show ?case
    using 0 send_other [OF s] by (subst (asm) blocklen_loop.simps) (auto simp: s split: if_splits)
next
  case (Suc t w)
  obtain ret rs w1 where s: "mmc_send_cmd drv p cmd None w = ((ret, rs), w1)" by (metis prod.exhaust)
  then show ?case
    using Suc send_other [OF s] by (subst (asm) blocklen_loop.simps) (auto simp: s split: if_splits)
qed

lemma set_blocklen_guard: "mmc_set_blocklen drv p len w = (r, w') \<Longrightarrow> P (host w) \<Longrightarrow> P (host w')"
  unfolding mmc_set_blocklen_def by (erule blocklen_loop_guard) simp_all

lemma switch_guard: "mmc_switch drv p cset index value w = (r, w') \<Longrightarrow> P (host w) \<Longrightarrow> P (host w')"
  by (auto simp: mmc_switch_def Let_def dest!: send_other send_status_guard split: prod.splits)

lemma host_set_mmc [simp]: "host (set_mmc p f w) = host w"
  by (simp add: set_mmc_def)

lemma switch_part_guard: "mmc_switch_part drv d part w = (r, w') \<Longrightarrow> P (host w) \<Longrightarrow> P (host w')"
  by (auto simp: mmc_switch_part_def Let_def dest!: switch_guard split: prod.splits option.splits if_splits)

lemma switch_loop_guard: "switch_loop drv d part t w = (r, w') \<Longrightarrow> P (host w) \<Longrightarrow> P (host w')"
proof (induction t arbitrary: w r w')
  case (0 w)
  obtain ret w1 where s: "mmc_switch_part drv d part w = (ret, w1)" by fastforce
  then show ?case
    using 0 switch_part_guard [OF s] by (subst (asm) switch_loop.simps) (auto simp: s split: if_splits)
next
  case (Suc t w)
  obtain ret w1 where s: "mmc_switch_part drv d part w = (ret, w1)" by fastforce
  then show ?case
    using Suc switch_part_guard [OF s] by (subst (asm) switch_loop.simps) (auto simp: s split: if_splits)
qed

lemma switch_partition_guard: "mmc_switch_partition drv d part w = Some (r, w') \<Longrightarrow> P (host w) \<Longrightarrow> P (host w')"
  by (auto simp: mmc_switch_partition_def dest!: switch_loop_guard split: prod.splits option.splits if_splits)

lemma select_for_range_guard:
  "select_for_range drv p s n w = Some w' \<Longrightarrow> P (host w) \<Longrightarrow> P (host w') \<and> same_devices w w'"
  by (auto simp: select_for_range_def Let_def Option.bind_eq_Some_conv split: if_splits
      dest: switch_partition_guard switch_partition_same intro: same_devices_trans)

lemma write_blocks_guard:
  assumes "mmc_write_blocks drv p s n data w = (r, w')" and "P (host w)"
    and "high_capacity (mmc_at p w)" and "unat s + unat n \<le> L \<or> unat (bdev_lba (mmc_at p w)) \<le> L"
    and "F \<le> unat s" and "unat s + unat n < 2 ^ 32"
  shows "P (host w')"
proof (cases "s + n > bdev_lba (mmc_at p w)")
  case True
  then show ?thesis using assms by (simp add: mmc_write_blocks_def Let_def)
next
  case False
  have "unat (s + n) = unat s + unat n" using assms(6) by (intro unat_add_small) simp
  then have "unat s + unat n \<le> L" using False assms(4) by (auto simp: word_le_nat_alt not_less)
  then have ins: "write_inside F L \<lparr>cmdidx = c, resp_type = x, cmdarg = s, cmd_flags = f\<rparr>
      (Some \<lparr>src = data, data_flags = y, blocks = n, blocksize = z\<rparr>)" for c x f y z
    using assms(5) by (simp add: write_inside_def)
  obtain err x y w1 where s1: "mmc_send_cmd drv p
      \<lparr>cmdidx = (if n > 1 then MMC_CMD_WRITE_MULTIPLE_BLOCK else MMC_CMD_WRITE_SINGLE_BLOCK), resp_type = MMC_RSP_R1,
       cmdarg = s, cmd_flags = 0\<rparr>
      (Some \<lparr>src = data, data_flags = MMC_DATA_WRITE, blocks = n, blocksize = write_bl_len (mmc_at p w)\<rparr>) w
      = ((err, x, y), w1)"
    by (metis prod.exhaust)
  have P1: "P (host w1)" using send_guard [OF s1 assms(2)] ins by blast
  show ?thesis
    using assms(1,3) False P1 s1
    by (auto simp: mmc_write_blocks_def Let_def split: prod.splits if_splits
        dest: send_other send_status_guard)
qed

lemma write_loop_guard:
  assumes "write_loop drv p n s todo data w = Some y" and "P (host w)" and "high_capacity (mmc_at p w)"
    and "unat s + unat todo \<le> L \<or> unat (bdev_lba (mmc_at p w)) \<le> L" and "F \<le> unat s"
    and "unat s + unat todo < 2 ^ 32"
  shows "P (host (snd y))"
proof -
  have "drv' = drv \<longrightarrow> P (host w) \<longrightarrow> high_capacity (mmc_at p w)
      \<longrightarrow> unat s + unat todo \<le> L \<or> unat (bdev_lba (mmc_at p w)) \<le> L \<longrightarrow> F \<le> unat s \<longrightarrow> unat s + unat todo < 2 ^ 32 \<longrightarrow> P (host (snd y))"
    if "write_loop drv' p n s todo data w = Some y" for drv' p n s todo data w y
  proof (rule write_loop.raw_induct [OF _ that], goal_cases)
    case (1 loop drv' p n s todo data w y)
    define cur where "cur = (if todo > b_max (mmc_at p w) then b_max (mmc_at p w) else todo)"
    obtain k w1 where wb: "mmc_write_blocks drv' p s cur data w = (k, w1)" by fastforce
    show ?case
    proof (intro impI)
      assume h: "drv' = drv" "P (host w)" "high_capacity (mmc_at p w)"
        "unat s + unat todo \<le> L \<or> unat (bdev_lba (mmc_at p w)) \<le> L" "F \<le> unat s" "unat s + unat todo < 2 ^ 32"
      have le: "cur \<le> todo" by (auto simp: cur_def)
      then have uc: "unat cur \<le> unat todo" by (simp add: word_le_nat_alt)
      have P1: "P (host w1)"
        using wb h uc by (intro write_blocks_guard [of p s cur data w k w1]) auto
      have at: "mmc_at p w1 = mmc_at p w" by (rule keeps_at [OF write_blocks_keeps [OF wb]])
      have "unat (s + cur) = unat s + unat cur" "unat (todo - cur) = unat todo - unat cur"
        using h(6) uc by (simp_all add: unat_add_small unat_sub_small)
      then have lt: "unat (s + cur) + unat (todo - cur) = unat s + unat todo" "F \<le> unat (s + cur)"
        using h(5) uc by simp_all
      have "(k \<noteq> cur \<and> y = (0, w1)) \<or> (k = cur \<and> y = (n, w1))
          \<or> loop drv' p n (s + cur) (todo - cur) (drop (unat (cur * write_bl_len (mmc_at p w))) data) w1 = Some y"
        using 1(2) wb by (auto simp: Let_def cur_def split: if_splits)
      then show "P (host (snd y))"
      proof (elim disjE)
        assume "loop drv' p n (s + cur) (todo - cur) (drop (unat (cur * write_bl_len (mmc_at p w))) data) w1 = Some y"
        from 1(1) [OF this] show ?thesis using h P1 at lt by simp
      qed (use P1 in auto)
    qed
  qed
  then show ?thesis using assms by blast
qed

lemma bwrite_guard:
  assumes w: "mmc_bwrite drv d s n data w = Some y" and P: "P (host w)"
    and dev: "find_mmc_device d w = Some p" "high_capacity (mmc_at p w)"
    and r: "unat s + unat n \<le> L \<or> unat (bdev_lba (mmc_at p w)) \<le> L" "F \<le> unat s" and n: "unat s + unat n < 2 ^ 32"
  shows "P (host (snd y))"
proof -
  obtain w1 where w1: "select_for_range drv p s n w = Some w1"
    using w dev(1) by (auto simp: mmc_bwrite_def Option.bind_eq_Some_conv)
  note g1 = select_for_range_guard [OF w1 P]
  have f1: "high_capacity (mmc_at p w1)" "bdev_lba (mmc_at p w1) = bdev_lba (mmc_at p w)"
    using same_device_fields [OF same_devices_at [OF conjunct2 [OF g1] find_device_bound [OF dev(1)]]] dev by simp_all
  obtain e w2 where w2: "mmc_set_blocklen drv p (write_bl_len (mmc_at p w1)) w1 = (e, w2)" by fastforce
  have P2: "P (host w2)" using set_blocklen_guard [OF w2] g1 by simp
  have at: "mmc_at p w2 = mmc_at p w1" by (rule keeps_at [OF set_blocklen_keeps [OF w2]])
  have "y = (0, w2) \<or> write_loop drv p n s n data w2 = Some y"
    using w dev(1) w1 w2 by (auto simp: mmc_bwrite_def split: if_splits)
  then show ?thesis
    using write_loop_guard [of p n s n data w2 y] P2 f1 at n r by auto
qed

end

text \<open>The guard is real on the reference card: blocks outside the range keep their content.\<close>

definition intact_outside :: "nat \<Rightarrow> nat \<Rightarrow> card_state \<Rightarrow> bool" where
  "intact_outside F L h \<longleftrightarrow> (\<forall>q i. i < F \<or> L \<le> i \<longrightarrow> sim_cells h q i = replicate 512 0)"

interpretation simguard: write_guard sim_host "intact_outside F L" F L for F L
proof (unfold_locales, goal_cases)
  case (1 h cmd data m)
  have sel: "sim_cells (h\<lparr>sim_sel := x\<rparr>) = sim_cells h" for x by (intro ext) (simp add: sim_cells_def)
  have st: "intact_outside F L (h\<lparr>sim_store := (sim_cells h)(sim_sel h := store_run 512 (sim_cells h (sim_sel h))
      a b dat)\<rparr>)" if "a + b \<le> L" "F \<le> a" for a b dat
    using 1(1) that
    by (auto simp: intact_outside_def sim_cells_def [of "h\<lparr>sim_store := _\<rparr>"] store_run_def length_sim_cells)
  show ?case
    using 1 st by (auto simp: sim_host_def sim_send_def write_inside_def sel intact_outside_def
        split: option.splits)
qed

text \<open>
  C14. Writes stay on the device: if the last block of a write request has a 32-bit number, no write
  command that \<open>mmc_bwrite\<close> issues reaches past the device's last block, whatever the host answers, so
  every property of the card that only such a command could break is kept.
\<close>

theorem mmc_bwrite_confined:
  assumes "write_guard drv P 0 (unat (bdev_lba (mmc_at p w)))" and "P (host w)"
    and "find_mmc_device d w = Some p" and "high_capacity (mmc_at p w)" and "unat s + unat n < 2 ^ 32"
    and "mmc_bwrite drv d s n data w = Some y"
  shows "P (host (snd y))"
  by (rule write_guard.bwrite_guard [OF assms(1,6,2,3,4) _ _ assms(5)]) simp_all

theorem mmc_bwrite_confined_witness:
  "\<exists>y. mmc_bwrite sim_host 0 0x3ffffe 4 (replicate 2048 1) sim_world = Some y
    \<and> intact_outside 0 0x400000 (host (snd y))"
proof -
  have f: "find_mmc_device 0 sim_world = Some 0" "mmc_at 0 sim_world = sim_mmc"
    by (simp_all add: sim_world_def find_mmc_device_def mmc_at_def sim_mmc_def)
  have b: "b_max sim_mmc \<noteq> 0" "bdev_lba sim_mmc = 0x400000" "high_capacity sim_mmc" "write_bl_len sim_mmc \<noteq> 0" by (simp_all add: sim_mmc_def)
  obtain y where y: "mmc_bwrite sim_host 0 0x3ffffe 4 (replicate 2048 1) sim_world = Some y"
    using mmc_bwrite_returns [OF f(1,1)] f(2) b(1,4) by metis
  have guard: "write_guard sim_host (intact_outside 0 0x400000) 0 (unat (bdev_lba (mmc_at 0 sim_world)))"
    using simguard.write_guard_axioms [of 0 "0x400000"] by (simp add: f(2) b)
  have "intact_outside 0 0x400000 (host sim_world)"
    by (simp add: intact_outside_def sim_cells_def sim_world_def)
  then have "intact_outside 0 0x400000 (host (snd y))"
    using mmc_bwrite_confined [where P = "intact_outside 0 0x400000", OF guard _ f(1) _ _ y] by (simp add: f(2) b)
  then show ?thesis using y by blast
qed

lemma sim_plain: "mmc_send_cmd sim_host p cmd None w
    = ((0, [0x900], []), if cmdidx cmd = MMC_CMD_SWITCH
        then w\<lparr>host := (host w)\<lparr>sim_sel := ucast (drop_bit 8 (cmdarg cmd)) AND 7\<rparr>\<rparr> else w)"
  by (simp add: mmc_send_cmd_def sim_host_def sim_send_def)

lemma sim_status: "mmc_send_status sim_host p (Suc t) w = (0, w)"
proof -
  have "status_loop sim_host p cmd (Suc t) w = (Inr (int (Suc t)), w)" if "cmdidx cmd = MMC_CMD_SEND_STATUS" for cmd
    by (subst status_loop.simps) (simp add: sim_plain that)
  then show ?thesis by (simp add: mmc_send_status_def)
qed

text \<open>
  The bounds check wraps: a request for two blocks from block \<open>2 ^ 32 - 1\<close> passes it, because the sum
  of start and count is 1 in 32 bits, and a write past the end of the device is issued.
\<close>

theorem mmc_write_wraps:
  "fst (mmc_write_blocks sim_host 0 0xFFFFFFFF 2 (replicate 1024 1) sim_world) = 2
    \<and> \<not> intact_outside 0 0x400000 (host (snd (mmc_write_blocks sim_host 0 0xFFFFFFFF 2 (replicate 1024 1) sim_world)))"
proof -
  have f: "mmc_at 0 sim_world = sim_mmc" by (simp add: sim_world_def mmc_at_def)
  define w1 where "w1 = sim_world\<lparr>host := (host sim_world)\<lparr>sim_store := (sim_cells (host sim_world))(1 :=
    store_run 512 (sim_cells (host sim_world) 1) 4294967295 2 (replicate 1024 1))\<rparr>\<rparr>"
  have s1: "mmc_send_cmd sim_host 0 \<lparr>cmdidx = MMC_CMD_WRITE_MULTIPLE_BLOCK, resp_type = MMC_RSP_R1,
      cmdarg = 0xFFFFFFFF, cmd_flags = 0\<rparr>
      (Some \<lparr>src = replicate 1024 1, data_flags = MMC_DATA_WRITE, blocks = 2, blocksize = 512\<rparr>) sim_world
      = ((0, [0x900], []), w1)"
    by (simp add: mmc_send_cmd_def sim_host_def sim_send_def w1_def) (simp add: sim_world_def)
  have write_eq: "mmc_write_blocks sim_host 0 0xFFFFFFFF 2 (replicate 1024 1) sim_world = (2, w1)"
    using s1 sim_status [of 0 999 w1]
    by (simp add: mmc_write_blocks_def f Let_def sim_mmc_def sim_plain)
  have c: "sim_cells (host w1) 1 4294967295 = replicate 512 1"
    by (simp add: w1_def sim_cells_def [of "_\<lparr>sim_store := _\<rparr>"] store_run_def)
  have "\<not> intact_outside 0 0x400000 (host w1)"
  proof
    assume "intact_outside 0 0x400000 (host w1)"
    then have "sim_cells (host w1) 1 4294967295 = replicate 512 0"
      unfolding intact_outside_def by (elim allE [of _ 1] allE [of _ 4294967295]) simp
    then show False using c by simp
  qed
  then show ?thesis using write_eq by simp
qed

end
