(* ===== verification/PartEfi.thy ===== *)
theory PartEfi
  imports LibMisc Crc32 Mmc
begin

text \<open>
  disk/part\_efi.c and include/part\_efi.h: the GUID partition table.  Tables are records with their byte
  images on the device; a buffer is the list of its bytes.  Reading past the end of a buffer has no
  result (\<open>None\<close>).  The build has the EFI partitions with UUIDs enabled; messages are left out.
\<close>

section \<open>Texts\<close>

text \<open>The characters of a string literal.\<close>

definition str :: "string \<Rightarrow> bytes" where
  "str cs = map of_char cs"

lemma length_str [simp]: "length (str cs) = length cs"
  by (simp add: str_def)

section \<open>Tables and their bytes\<close>

definition MSDOS_MBR_SIGNATURE :: u16 where
  "MSDOS_MBR_SIGNATURE = 0xAA55"

definition EFI_PMBR_OSTYPE_EFI_GPT :: u8 where
  "EFI_PMBR_OSTYPE_EFI_GPT = 0xEE"

definition GPT_HEADER_SIGNATURE :: u64 where
  "GPT_HEADER_SIGNATURE = 0x5452415020494645"

definition GPT_HEADER_REVISION_V1 :: u32 where
  "GPT_HEADER_REVISION_V1 = 0x00010000"

definition GPT_PRIMARY_PARTITION_TABLE_LBA :: u64 where
  "GPT_PRIMARY_PARTITION_TABLE_LBA = 1"

definition GPT_ENTRY_NUMBERS :: u32 where
  "GPT_ENTRY_NUMBERS = 128"

definition PARTNAME_SZ :: nat where
  "PARTNAME_SZ = 72 div 2"

text \<open>\<open>EFI_GUID\<close>: the first three numbers little-endian, then eight bytes as written.\<close>

definition EFI_GUID :: "u32 \<Rightarrow> u16 \<Rightarrow> u16 \<Rightarrow> bytes \<Rightarrow> bytes" where
  "EFI_GUID a b c ds = le_bytes 4 a @ le_bytes 2 b @ le_bytes 2 c @ ds"

definition PARTITION_SYSTEM_GUID :: bytes where
  "PARTITION_SYSTEM_GUID = EFI_GUID 0xC12A7328 0xF81F 0x11d2 [0xBA, 0x4B, 0x00, 0xA0, 0xC9, 0x3E, 0xC9, 0x3B]"

definition PARTITION_BASIC_DATA_GUID :: bytes where
  "PARTITION_BASIC_DATA_GUID = EFI_GUID 0xEBD0A0A2 0xB9E5 0x4433 [0x87, 0xC0, 0x68, 0xB6, 0xB7, 0x26, 0x99, 0xC7]"

definition field :: "bytes \<Rightarrow> nat \<Rightarrow> nat \<Rightarrow> bytes" where
  "field bs off n = take n (drop off bs)"

record efi_partition =
  boot_ind :: u8
  head :: u8
  sector :: u8
  cyl :: u8
  sys_ind :: u8
  end_head :: u8
  end_sector :: u8
  end_cyl :: u8
  start_sect :: u32
  nr_sects :: u32

definition efi_partition_bytes :: "efi_partition \<Rightarrow> bytes" where
  "efi_partition_bytes p = [boot_ind p, head p, sector p, cyl p, sys_ind p, end_head p, end_sector p, end_cyl p]
     @ le_bytes 4 (start_sect p) @ le_bytes 4 (nr_sects p)"

definition efi_partition_of :: "bytes \<Rightarrow> efi_partition" where
  "efi_partition_of bs = \<lparr>boot_ind = bs ! 0, head = bs ! 1, sector = bs ! 2, cyl = bs ! 3, sys_ind = bs ! 4,
     end_head = bs ! 5, end_sector = bs ! 6, end_cyl = bs ! 7, start_sect = le_word (field bs 8 4),
     nr_sects = le_word (field bs 12 4)\<rparr>"

record legacy_mbr =
  boot_code :: bytes
  unique_mbr_signature :: u32
  mbr_unknown :: u16
  partition_record :: "efi_partition list"
  mbr_signature :: u16

definition legacy_mbr_bytes :: "legacy_mbr \<Rightarrow> bytes" where
  "legacy_mbr_bytes m = boot_code m @ le_bytes 4 (unique_mbr_signature m) @ le_bytes 2 (mbr_unknown m)
     @ concat (map efi_partition_bytes (partition_record m)) @ le_bytes 2 (mbr_signature m)"

definition legacy_mbr_of :: "bytes \<Rightarrow> legacy_mbr" where
  "legacy_mbr_of bs = \<lparr>boot_code = field bs 0 440, unique_mbr_signature = le_word (field bs 440 4),
     mbr_unknown = le_word (field bs 444 2),
     partition_record = map (\<lambda>i. efi_partition_of (field bs (446 + 16 * i) 16)) [0..<4],
     mbr_signature = le_word (field bs 510 2)\<rparr>"

record gpt_header =
  signature :: u64
  revision :: u32
  header_size :: u32
  header_crc32 :: u32
  reserved1 :: u32
  my_lba :: u64
  alternate_lba :: u64
  first_usable_lba :: u64
  last_usable_lba :: u64
  disk_guid :: bytes
  partition_entry_lba :: u64
  num_partition_entries :: u32
  sizeof_partition_entry :: u32
  partition_entry_array_crc32 :: u32

definition gpt_header_bytes :: "gpt_header \<Rightarrow> bytes" where
  "gpt_header_bytes h = le_bytes 8 (signature h) @ le_bytes 4 (revision h) @ le_bytes 4 (header_size h)
     @ le_bytes 4 (header_crc32 h) @ le_bytes 4 (reserved1 h) @ le_bytes 8 (my_lba h)
     @ le_bytes 8 (alternate_lba h) @ le_bytes 8 (first_usable_lba h) @ le_bytes 8 (last_usable_lba h)
     @ disk_guid h @ le_bytes 8 (partition_entry_lba h) @ le_bytes 4 (num_partition_entries h)
     @ le_bytes 4 (sizeof_partition_entry h) @ le_bytes 4 (partition_entry_array_crc32 h)"

definition gpt_header_of :: "bytes \<Rightarrow> gpt_header" where
  "gpt_header_of bs = \<lparr>signature = le_word (field bs 0 8), revision = le_word (field bs 8 4),
     header_size = le_word (field bs 12 4), header_crc32 = le_word (field bs 16 4),
     reserved1 = le_word (field bs 20 4), my_lba = le_word (field bs 24 8),
     alternate_lba = le_word (field bs 32 8), first_usable_lba = le_word (field bs 40 8),
     last_usable_lba = le_word (field bs 48 8), disk_guid = field bs 56 16,
     partition_entry_lba = le_word (field bs 72 8), num_partition_entries = le_word (field bs 80 4),
     sizeof_partition_entry = le_word (field bs 84 4), partition_entry_array_crc32 = le_word (field bs 88 4)\<rparr>"

record gpt_entry =
  partition_type_guid :: bytes
  unique_partition_guid :: bytes
  starting_lba :: u64
  ending_lba :: u64
  attributes :: u64
  partition_name :: "u16 list"

definition gpt_entry_bytes :: "gpt_entry \<Rightarrow> bytes" where
  "gpt_entry_bytes e = partition_type_guid e @ unique_partition_guid e @ le_bytes 8 (starting_lba e)
     @ le_bytes 8 (ending_lba e) @ le_bytes 8 (attributes e) @ concat (map (le_bytes 2) (partition_name e))"

definition gpt_entry_of :: "bytes \<Rightarrow> gpt_entry" where
  "gpt_entry_of bs = \<lparr>partition_type_guid = field bs 0 16, unique_partition_guid = field bs 16 16,
     starting_lba = le_word (field bs 32 8), ending_lba = le_word (field bs 40 8),
     attributes = le_word (field bs 48 8),
     partition_name = map (\<lambda>k. le_word (field bs (56 + 2 * k) 2)) [0..<PARTNAME_SZ]\<rparr>"

text \<open>The entry array \<open>gpt_e\<close> right after its allocation.\<close>

definition empty_entry :: gpt_entry where
  "empty_entry = \<lparr>partition_type_guid = replicate 16 0, unique_partition_guid = replicate 16 0,
     starting_lba = 0, ending_lba = 0, attributes = 0, partition_name = replicate PARTNAME_SZ 0\<rparr>"

text \<open>The entry at an index of the array of entries that was read.\<close>

definition nth_entry :: "bytes \<Rightarrow> nat \<Rightarrow> gpt_entry option" where
  "nth_entry pte i = (if 128 * (i + 1) \<le> length pte then Some (gpt_entry_of (field pte (128 * i) 128)) else None)"

section \<open>Names and UUIDs\<close>

definition print_efiname :: "gpt_entry \<Rightarrow> bytes" where
  "print_efiname pte = map (\<lambda>u. let c = ucast (u AND 0xff) in if c \<noteq> 0 \<and> \<not> isprint c then 46 else c) (partition_name pte)"

definition uuid_le :: "nat list" where
  "uuid_le = [3, 2, 1, 0, 5, 4, 7, 6] @ [8..<16]"

definition uuid_string :: "bytes \<Rightarrow> bytes" where
  "uuid_string uuid = concat (map (\<lambda>i. number (ucast (uuid ! (uuid_le ! i))) 16 2 (-1) (ZEROPAD OR SMALL)
     @ (if i \<in> {3, 5, 7, 9} then [45] else [])) [0..<16])"

text \<open>
  \<open>string_uuid\<close> on the string at \<open>uuid\<close>: no result when the string does not end, \<open>Some None\<close> for the error
  return.
\<close>

definition string_uuid :: "memory \<Rightarrow> u32 \<Rightarrow> bytes option option" where
  "string_uuid m uuid = do {
     len \<leftarrow> strlen m uuid;
     if len \<noteq> 36 then Some None
     else if \<exists>i<36. (if i \<in> {8, 13, 18, 23} then m (uuid + of_nat i) \<noteq> 45 else \<not> isxdigit (m (uuid + of_nat i)))
     then Some None
     else do {
       (a, _) \<leftarrow> simple_strtoul m uuid 16;
       (b, _) \<leftarrow> simple_strtoul m (uuid + 9) 16;
       (c, _) \<leftarrow> simple_strtoul m (uuid + 14) 16;
       (d, _) \<leftarrow> simple_strtoul m (uuid + 19) 16;
       (e, _) \<leftarrow> simple_strtoull m (uuid + 24) 16;
       Some (Some (EFI_GUID a (ucast b) (ucast c) (rev (le_bytes 2 (ucast d :: u16)) @ rev (le_bytes 6 e))))
     }
   }"

definition is_bootable :: "gpt_entry \<Rightarrow> bool" where
  "is_bootable p \<longleftrightarrow> bit (attributes p) 2 \<or> partition_type_guid p = PARTITION_SYSTEM_GUID"

definition efi_crc32 :: "bytes \<Rightarrow> u32 \<Rightarrow> u32 option" where
  "efi_crc32 buf len = (if unat len \<le> length buf then Some (crc32 0 0 (take (unat len) buf)) else None)"


section \<open>Writing a table\<close>

text \<open>
  The state is the device and the allocator's lowest address; \<open>sp\<close> is \<open>gd->start_addr_sp\<close>.  \<open>free\<close> does
  nothing.
\<close>

type_synonym 'd efi_state = "'d \<times> u32"

definition try_calloc :: "u32 \<Rightarrow> u32 \<Rightarrow> u32 \<Rightarrow> bool \<times> u32" where
  "try_calloc sp sz a = (case calloc_addr sp 1 sz a of (None, a) \<Rightarrow> (False, a) | (Some p, a) \<Rightarrow> (p \<noteq> 0, a))"

definition empty_partition :: efi_partition where
  "empty_partition = \<lparr>boot_ind = 0, head = 0, sector = 0, cyl = 0, sys_ind = 0, end_head = 0, end_sector = 0,
     end_cyl = 0, start_sect = 0, nr_sects = 0\<rparr>"

definition protective_mbr :: "u32 \<Rightarrow> legacy_mbr" where
  "protective_mbr n = \<lparr>boot_code = replicate 440 0, unique_mbr_signature = 0, mbr_unknown = 0,
     partition_record = empty_partition\<lparr>sys_ind := EFI_PMBR_OSTYPE_EFI_GPT, start_sect := 1, nr_sects := n\<rparr>
       # replicate 3 empty_partition,
     mbr_signature = MSDOS_MBR_SIGNATURE\<rparr>"

definition set_protective_mbr ::
  "u32 \<Rightarrow> 'd block_dev_desc \<Rightarrow> 'd efi_state \<Rightarrow> (int \<times> 'd efi_state) option" where
  "set_protective_mbr sp desc = (\<lambda>(d, a).
     let (ok, a) = try_calloc sp 512 a
     in if \<not> ok then Some (-1, d, a)
        else do {
          (n, d) \<leftarrow> block_write_gpt desc (dev desc) 0 1 (legacy_mbr_bytes (protective_mbr (lba desc))) d;
          Some (if n \<noteq> 1 then -1 else 0, d, a)
        })"

text \<open>The buffers of \<open>gpt_restore\<close>: the table followed by the zeros of the padding.\<close>

definition header_buffer :: "'d block_dev_desc \<Rightarrow> gpt_header \<Rightarrow> bytes" where
  "header_buffer desc h = gpt_header_bytes h @ replicate (unat (PAD_TO_BLOCKSIZE 92 desc) - 92) 0"

definition entry_buffer :: "'d block_dev_desc \<Rightarrow> gpt_entry list \<Rightarrow> bytes" where
  "entry_buffer desc es = concat (map gpt_entry_bytes es)
     @ replicate (unat (PAD_TO_BLOCKSIZE (GPT_ENTRY_NUMBERS * 128) desc) - 128 * length es) 0"

definition write_gpt_table ::
  "u32 \<Rightarrow> 'd block_dev_desc \<Rightarrow> gpt_header \<Rightarrow> gpt_entry list \<Rightarrow> 'd efi_state \<Rightarrow> (int \<times> 'd efi_state) option" where
  "write_gpt_table sp desc h es st = do {
     let pte_blk_cnt = BLOCK_CNT (num_partition_entries h * 128) desc;
     (r, d, a) \<leftarrow> set_protective_mbr sp desc st;
     if r < 0 then Some (-1, d, a)
     else do {
       crc \<leftarrow> efi_crc32 (entry_buffer desc es) (num_partition_entries h * sizeof_partition_entry h);
       let h = h\<lparr>partition_entry_array_crc32 := crc\<rparr>;
       crc \<leftarrow> efi_crc32 (header_buffer desc h) (header_size h);
       let h = h\<lparr>header_crc32 := crc\<rparr>;
       (n, d) \<leftarrow> block_write_gpt desc (dev desc) 1 1 (header_buffer desc h) d;
       if n \<noteq> 1 then Some (-1, d, a)
       else do {
         (n, d) \<leftarrow> block_write_gpt desc (dev desc) 2 pte_blk_cnt (entry_buffer desc es) d;
         if n \<noteq> pte_blk_cnt then Some (-1, d, a)
         else do {
           let val = my_lba h;
           let h = h\<lparr>my_lba := alternate_lba h\<rparr>;
           let h = h\<lparr>alternate_lba := val\<rparr>;
           let h = h\<lparr>header_crc32 := 0\<rparr>;
           crc \<leftarrow> efi_crc32 (header_buffer desc h) (header_size h);
           let h = h\<lparr>header_crc32 := crc\<rparr>;
           (n, d) \<leftarrow> block_write_gpt desc (dev desc) (ucast (last_usable_lba h + 1)) pte_blk_cnt (entry_buffer desc es) d;
           if n \<noteq> pte_blk_cnt then Some (-1, d, a)
           else do {
             (n, d) \<leftarrow> block_write_gpt desc (dev desc) (ucast (my_lba h)) 1 (header_buffer desc h) d;
             Some (if n \<noteq> 1 then -1 else 0, d, a)
           }
         }
       }
     }
   }"

section \<open>Filling a table\<close>

record disk_partition =
  part_start :: u32
  part_size :: u32
  part_blksz :: u32
  part_label :: bytes
  part_type :: bytes
  part_bootable :: bool
  part_uuid :: bytes

text \<open>
  An array of characters as memory from address 0 on.  A string routine that runs past the array reads
  memory the code does not own, so the array has to hold a terminator.
\<close>

definition array_memory :: "bytes \<Rightarrow> memory" where
  "array_memory cs a = (if unat a < length cs then cs ! unat a else 0)"

definition parse_uuid :: "bytes \<Rightarrow> bytes option option" where
  "parse_uuid cs = (if 0 \<in> set cs then string_uuid (array_memory cs) 0 else None)"

text \<open>
  The 36 characters of \<open>partition_name\<close> are taken from \<open>name[32]\<close>, which \<open>type\<close> follows in the structure.
\<close>

definition wide_name :: "disk_partition \<Rightarrow> u16 list" where
  "wide_name p = map (\<lambda>k. ucast ((part_label p @ part_type p) ! k)) [0..<PARTNAME_SZ]"

fun fill_loop ::
  "gpt_header \<Rightarrow> nat \<Rightarrow> nat \<Rightarrow> u32 \<Rightarrow> disk_partition list \<Rightarrow> gpt_entry list \<Rightarrow> (int \<times> gpt_entry list) option" where
  "fill_loop h parts i offs [] es = Some (0, es)"
| "fill_loop h parts i offs (p # ps) es =
     (if length es \<le> i then None
      else let start = part_start p
      in if start \<noteq> 0 \<and> start < offs then Some (-1, es)
      else
        let first = (if start \<noteq> 0 then start else offs);
            es = es[i := (es ! i)\<lparr>starting_lba := ucast first\<rparr>];
            offs = first + part_size p
        in if last_usable_lba h \<le> ucast offs then Some (-1, es)
        else
          let last = (if i + 1 = parts \<and> part_size p = 0 then last_usable_lba h else ucast (offs - 1));
              es = es[i := (es ! i)\<lparr>ending_lba := last, partition_type_guid := PARTITION_BASIC_DATA_GUID\<rparr>]
          in case parse_uuid (part_uuid p) of
               None \<Rightarrow> None
             | Some None \<Rightarrow> Some (-1, es)
             | Some (Some g) \<Rightarrow>
                 fill_loop h parts (i + 1) offs ps
                   (es[i := (es ! i)\<lparr>unique_partition_guid := g, attributes := 0, partition_name := wide_name p\<rparr>]))"

definition gpt_fill_pte ::
  "gpt_header \<Rightarrow> gpt_entry list \<Rightarrow> disk_partition list \<Rightarrow> (int \<times> gpt_entry list) option" where
  "gpt_fill_pte h es ps = fill_loop h (length ps) 0 (ucast (first_usable_lba h)) ps es"

text \<open>The header on top of the zeroed buffer; the result is the return code and the header.\<close>

definition gpt_fill_header :: "'d block_dev_desc \<Rightarrow> gpt_header \<Rightarrow> bytes \<Rightarrow> (int \<times> gpt_header) option" where
  "gpt_fill_header desc h str_guid =
     (let h = h\<lparr>signature := GPT_HEADER_SIGNATURE, revision := GPT_HEADER_REVISION_V1, header_size := 92,
                my_lba := 1, alternate_lba := ucast (lba desc - 1), first_usable_lba := 34,
                last_usable_lba := ucast (lba desc - 34), partition_entry_lba := 2,
                num_partition_entries := GPT_ENTRY_NUMBERS, sizeof_partition_entry := 128,
                header_crc32 := 0, partition_entry_array_crc32 := 0\<rparr>
      in case parse_uuid str_guid of
           None \<Rightarrow> None
         | Some None \<Rightarrow> Some (-1, h)
         | Some (Some g) \<Rightarrow> Some (0, h\<lparr>disk_guid := g\<rparr>))"

definition empty_header :: gpt_header where
  "empty_header = gpt_header_of (replicate 92 0)"

definition gpt_restore ::
  "u32 \<Rightarrow> 'd block_dev_desc \<Rightarrow> bytes \<Rightarrow> disk_partition list \<Rightarrow> 'd efi_state \<Rightarrow> (int \<times> 'd efi_state) option" where
  "gpt_restore sp desc str_disk_guid ps = (\<lambda>(d, a).
     let (ok, a) = try_calloc sp (PAD_TO_BLOCKSIZE 92 desc) a
     in if \<not> ok then Some (-1, d, a)
        else let (ok, a) = try_calloc sp (PAD_TO_BLOCKSIZE (GPT_ENTRY_NUMBERS * 128) desc) a
        in if \<not> ok then Some (-1, d, a)
        else do {
          (ret, h) \<leftarrow> gpt_fill_header desc empty_header str_disk_guid;
          if ret \<noteq> 0 then Some (ret, d, a)
          else do {
            (ret, es) \<leftarrow> gpt_fill_pte h (replicate (unat GPT_ENTRY_NUMBERS) empty_entry) ps;
            if ret \<noteq> 0 then Some (ret, d, a) else write_gpt_table sp desc h es (d, a)
          }
        })"

section \<open>Checking a table\<close>

definition pmbr_part_valid :: "efi_partition \<Rightarrow> bool" where
  "pmbr_part_valid part \<longleftrightarrow> sys_ind part = EFI_PMBR_OSTYPE_EFI_GPT \<and> start_sect part = 1"

definition is_pmbr_valid :: "legacy_mbr \<Rightarrow> bool" where
  "is_pmbr_valid mbr \<longleftrightarrow> mbr_signature mbr = MSDOS_MBR_SIGNATURE
     \<and> (\<exists>i\<in>{0..<4}. pmbr_part_valid (partition_record mbr ! i))"

definition test_part_efi :: "'d block_dev_desc \<Rightarrow> 'd \<Rightarrow> (int \<times> 'd) option" where
  "test_part_efi desc d = do {
     ((n, buf), d) \<leftarrow> block_read_gpt desc (dev desc) 0 1 d;
     Some (if n \<noteq> 1 \<or> \<not> is_pmbr_valid (legacy_mbr_of buf) then -1 else 0, d)
   }"

definition alloc_read_gpt_entries ::
  "u32 \<Rightarrow> 'd block_dev_desc \<Rightarrow> gpt_header \<Rightarrow> 'd efi_state \<Rightarrow> (bytes option \<times> 'd efi_state) option" where
  "alloc_read_gpt_entries sp desc h = (\<lambda>(d, a).
     let count = num_partition_entries h * sizeof_partition_entry h
     in if count = 0 then Some (None, d, a)
        else let (ok, a) = try_calloc sp (PAD_TO_BLOCKSIZE count desc) a
        in if \<not> ok then Some (None, d, a)
        else do {
          let blk_cnt = BLOCK_CNT count desc;
          ((n, pte), d) \<leftarrow> block_read_gpt desc (dev desc) (ucast (partition_entry_lba h)) blk_cnt d;
          Some (if n \<noteq> blk_cnt then None else Some pte, d, a)
        })"

text \<open>The result carries the header and the entries when the table is valid.\<close>

definition is_gpt_valid ::
  "u32 \<Rightarrow> 'd block_dev_desc \<Rightarrow> u64 \<Rightarrow> 'd efi_state \<Rightarrow> ((gpt_header \<times> bytes) option \<times> 'd efi_state) option" where
  "is_gpt_valid sp desc lb = (\<lambda>(d, a). do {
     ((n, buf), d) \<leftarrow> block_read_gpt desc (dev desc) (ucast lb) 1 d;
     let h = gpt_header_of buf;
     if n \<noteq> 1 then Some (None, d, a)
     else if signature h \<noteq> GPT_HEADER_SIGNATURE then Some (None, d, a)
     else do {
       calc_crc32 \<leftarrow> efi_crc32 (take 16 buf @ replicate 4 0 @ drop 20 buf) (header_size h);
       if calc_crc32 \<noteq> header_crc32 h then Some (None, d, a)
       else if my_lba h \<noteq> lb then Some (None, d, a)
       else if ucast (lba desc) < first_usable_lba h then Some (None, d, a)
       else if ucast (lba desc) < last_usable_lba h then Some (None, d, a)
       else do {
         (r, d, a) \<leftarrow> alloc_read_gpt_entries sp desc h (d, a);
         case r of
           None \<Rightarrow> Some (None, d, a)
         | Some pte \<Rightarrow> do {
             calc_crc32 \<leftarrow> efi_crc32 pte (num_partition_entries h * sizeof_partition_entry h);
             Some (if calc_crc32 \<noteq> partition_entry_array_crc32 h then None else Some (h, pte), d, a)
           }
       }
     }
   })"

definition is_pte_valid :: "gpt_entry \<Rightarrow> bool" where
  "is_pte_valid pte \<longleftrightarrow> partition_type_guid pte \<noteq> replicate 16 0"

section \<open>Looking up partitions\<close>

definition overlay :: "bytes \<Rightarrow> nat \<Rightarrow> bytes \<Rightarrow> bytes" where
  "overlay cs n old = take n old @ cs @ drop (n + length cs) old"

definition get_partition_info_efi ::
  "u32 \<Rightarrow> 'd block_dev_desc \<Rightarrow> int \<Rightarrow> disk_partition \<Rightarrow> 'd efi_state
     \<Rightarrow> ((int \<times> disk_partition) \<times> 'd efi_state) option" where
  "get_partition_info_efi sp desc part info st =
     (if part < 1 then Some ((-1, info), st)
      else do {
        (r, st) \<leftarrow> is_gpt_valid sp desc GPT_PRIMARY_PARTITION_TABLE_LBA st;
        case r of
          None \<Rightarrow> Some ((-1, info), st)
        | Some (h, pte) \<Rightarrow>
            if num_partition_entries h < word_of_int part then Some ((-1, info), st)
            else do {
              e \<leftarrow> nth_entry pte (nat part - 1);
              if \<not> is_pte_valid e then Some ((-1, info), st)
              else
                let start = ucast (starting_lba e) :: u32;
                    name = takeWhile (\<lambda>c. c \<noteq> 0) (print_efiname e);
                    text = overlay (map of_nat [85, 45, 66, 111, 111, 116, 0]) 32
                             (overlay (name @ [0]) 0 (part_label info @ part_type info))
                in Some ((0, info\<lparr>part_start := start, part_size := ucast (ending_lba e + 1 - ucast start),
                        part_blksz := blksz desc, part_label := take 32 text, part_type := drop 32 text,
                        part_bootable := is_bootable e,
                        part_uuid := uuid_string (unique_partition_guid e) @ [0]\<rparr>), st)
            }
      })"

record partition =
  sector_size :: u32
  pstart :: u32
  plength :: u32
  pname :: bytes

fun find_loop :: "'d block_dev_desc \<Rightarrow> bytes \<Rightarrow> bytes \<Rightarrow> partition \<Rightarrow> nat list \<Rightarrow> (int \<times> partition) option" where
  "find_loop desc name pte part [] = Some (0, part)"
| "find_loop desc name pte part (i # is) = do {
     e \<leftarrow> nth_entry pte i;
     if name = takeWhile (\<lambda>c. c \<noteq> 0) (print_efiname e)
     then let start = ucast (starting_lba e)
          in Some (1, part\<lparr>sector_size := blksz desc, pstart := start,
                           plength := ucast (ending_lba e + 1 - ucast start)\<rparr>)
     else find_loop desc name pte part is
   }"

definition gpt_find_part_by_name ::
  "u32 \<Rightarrow> 'd block_dev_desc \<Rightarrow> bytes \<Rightarrow> partition \<Rightarrow> 'd efi_state \<Rightarrow> ((int \<times> partition) \<times> 'd efi_state) option" where
  "gpt_find_part_by_name sp desc name part st = do {
     (r, st) \<leftarrow> is_gpt_valid sp desc GPT_PRIMARY_PARTITION_TABLE_LBA st;
     case r of
       None \<Rightarrow> Some ((-1, part), st)
     | Some (h, pte) \<Rightarrow> do {
         res \<leftarrow> find_loop desc name pte part [0..<unat (num_partition_entries h)];
         Some (res, st)
       }
   }"


section \<open>Tables read back from their bytes\<close>

lemma le_word_le_bytes_full [simp]:
  "le_word (le_bytes 8 (w :: u64)) = w" "le_word (le_bytes 4 (v :: u32)) = v" "le_word (le_bytes 2 (u :: u16)) = u"
  by (simp_all add: le_word_le_bytes take_bit_word_eq_self)

lemma length_gpt_header_bytes: "length (disk_guid h) = 16 \<Longrightarrow> length (gpt_header_bytes h) = 92"
  by (simp add: gpt_header_bytes_def)

lemma gpt_header_of_bytes: "length (disk_guid h) = 16 \<Longrightarrow> gpt_header_of (gpt_header_bytes h @ r) = h"
  by (simp add: gpt_header_of_def gpt_header_bytes_def field_def)

lemma gpt_header_bytes_crc:
  assumes "length (disk_guid h) = 16"
  shows "take 16 (gpt_header_bytes h @ r) @ replicate 4 0 @ drop 20 (gpt_header_bytes h @ r)
    = gpt_header_bytes (h\<lparr>header_crc32 := 0\<rparr>) @ r"
proof -
  have "le_bytes 4 (0 :: u32) = replicate 4 0" by (simp add: eval_nat_numeral)
  then show ?thesis by (simp add: gpt_header_bytes_def)
qed

lemma legacy_mbr_of_protective:
  "is_pmbr_valid (legacy_mbr_of (legacy_mbr_bytes (protective_mbr n) @ r))"
proof -
  have "partition_record (legacy_mbr_of (legacy_mbr_bytes (protective_mbr n) @ r)) ! 0
      = empty_partition\<lparr>sys_ind := EFI_PMBR_OSTYPE_EFI_GPT, start_sect := 1, nr_sects := n\<rparr>"
    by (simp add: legacy_mbr_of_def legacy_mbr_bytes_def protective_mbr_def field_def efi_partition_of_def
        efi_partition_bytes_def empty_partition_def)
  moreover have three: "replicate 3 empty_partition = [empty_partition, empty_partition, empty_partition]"
    by (simp add: numeral_3_eq_3)
  have "mbr_signature (legacy_mbr_of (legacy_mbr_bytes (protective_mbr n) @ r)) = MSDOS_MBR_SIGNATURE"
    by (simp add: legacy_mbr_of_def legacy_mbr_bytes_def protective_mbr_def field_def efi_partition_bytes_def three)
  ultimately show ?thesis
    by (auto simp: is_pmbr_valid_def pmbr_part_valid_def intro!: bexI [where x = 0])
qed

lemma length_protective: "length (legacy_mbr_bytes (protective_mbr n)) = 512"
  by (simp add: legacy_mbr_bytes_def protective_mbr_def efi_partition_bytes_def numeral_3_eq_3)

definition entry_wf :: "gpt_entry \<Rightarrow> bool" where
  "entry_wf e \<longleftrightarrow> length (partition_type_guid e) = 16 \<and> length (unique_partition_guid e) = 16
     \<and> length (partition_name e) = PARTNAME_SZ"

lemma concat_le_bytes_2:
  "k < length us \<Longrightarrow> take 2 (drop (2 * k) (concat (map (le_bytes 2) (us :: u16 list)))) = le_bytes 2 (us ! k)"
proof (induction us arbitrary: k)
  case (Cons u us)
  show ?case
  proof (cases k)
    case (Suc j)
    then show ?thesis using Cons by simp
  qed simp
qed simp

lemma length_concat_le_bytes_2: "length (concat (map (le_bytes 2) (us :: u16 list))) = 2 * length us"
  by (induction us) simp_all

lemma gpt_entry_of_bytes: "entry_wf e \<Longrightarrow> gpt_entry_of (gpt_entry_bytes e) = e"
proof -
  assume wf: "entry_wf e"
  have "map (\<lambda>k. le_word (take 2 (drop (2 * k) (concat (map (le_bytes 2) (partition_name e)))))) [0..<36]
      = partition_name e"
    using wf by (intro nth_equalityI) (simp_all add: entry_wf_def PARTNAME_SZ_def concat_le_bytes_2)
  then show ?thesis using wf
    by (simp add: gpt_entry_of_def gpt_entry_bytes_def entry_wf_def field_def PARTNAME_SZ_def)
qed

lemma length_gpt_entry_bytes: "entry_wf e \<Longrightarrow> length (gpt_entry_bytes e) = 128"
  by (simp add: gpt_entry_bytes_def entry_wf_def length_concat_le_bytes_2 PARTNAME_SZ_def)

lemma length_entries: "\<forall>e\<in>set es. entry_wf e \<Longrightarrow> length (concat (map gpt_entry_bytes es)) = 128 * length es"
  by (induction es) (simp_all add: length_gpt_entry_bytes)

lemma nth_entry_bytes:
  "\<forall>e\<in>set es. entry_wf e \<Longrightarrow> i < length es \<Longrightarrow>
    nth_entry (concat (map gpt_entry_bytes es) @ r) i = Some (es ! i)"
proof -
  assume wf: "\<forall>e\<in>set es. entry_wf e" and i: "i < length es"
  have "field (concat (map gpt_entry_bytes es) @ r) (128 * i) 128 = gpt_entry_bytes (es ! i)"
    using wf i
  proof (induction es arbitrary: i)
    case (Cons e es)
    show ?case
    proof (cases i)
      case 0
      then show ?thesis using Cons.prems by (simp add: field_def length_gpt_entry_bytes)
    next
      case (Suc j)
      then show ?thesis using Cons by (simp add: field_def length_gpt_entry_bytes)
    qed
  qed simp
  then show ?thesis using wf i by (simp add: nth_entry_def length_entries gpt_entry_of_bytes)
qed

text \<open>Sizes on a device with blocks of 512 bytes.\<close>

lemma sizes_512:
  assumes "blksz desc = 512"
  shows "PAD_TO_BLOCKSIZE 92 desc = 512" "PAD_TO_BLOCKSIZE (GPT_ENTRY_NUMBERS * 128) desc = 16384"
    "BLOCK_CNT (128 * 128) desc = 32" "PAD_TO_BLOCKSIZE (128 * 128) desc = 16384"
proof -
  have "(91 :: u32) div 512 = 0" "(16383 :: u32) div 512 = 31"
    by (simp_all add: word_unat_eq_iff unat_div)
  then show "PAD_TO_BLOCKSIZE 92 desc = 512" "PAD_TO_BLOCKSIZE (GPT_ENTRY_NUMBERS * 128) desc = 16384"
    "BLOCK_CNT (128 * 128) desc = 32" "PAD_TO_BLOCKSIZE (128 * 128) desc = 16384"
    using assms by (simp_all add: PAD_TO_BLOCKSIZE_def PAD_SIZE_def PAD_COUNT_def BLOCK_CNT_def GPT_ENTRY_NUMBERS_def)
qed

lemma buffers_512:
  assumes "blksz desc = 512"
  shows "header_buffer desc h = gpt_header_bytes h @ replicate 420 0"
    and "length es = 128 \<Longrightarrow> entry_buffer desc es = concat (map gpt_entry_bytes es)"
  by (simp_all add: header_buffer_def entry_buffer_def sizes_512 [OF assms])

text \<open>An allocation succeeds while the allocator has room.\<close>

lemma try_calloc_ok:
  assumes "unat sz + 1024 \<le> unat a"
  shows "\<exists>a'. try_calloc sp sz a = (True, a') \<and> unat a \<le> unat a' + unat sz + 1023"
proof -
  have ne: "a \<noteq> 0" and le: "\<not> a < sz" using assms by (auto simp: word_less_nat_alt)
  let ?b = "a - sz" let ?p = "a - sz - (a - sz) mod ALIGN_SIZE"
  have ub: "unat ?b = unat a - unat sz" using assms by (simp add: unat_sub_small)
  have m: "unat (?b mod ALIGN_SIZE) = unat ?b mod 1024" by (simp add: unat_mod ALIGN_SIZE_def)
  have up: "unat ?p = unat ?b - unat ?b mod 1024" using m by (subst unat_sub_small) simp_all
  have "unat ?b mod 1024 \<le> 1023" by simp
  then have "0 < unat ?p" and bd: "unat a \<le> unat ?p + unat sz + 1023"
    using up ub assms by linarith+
  then have "?p \<noteq> 0" by auto
  then show ?thesis using bd ne le by (simp add: try_calloc_def calloc_addr_def Let_def)
qed


section \<open>UUIDs written and read\<close>

definition hex2 :: "u8 \<Rightarrow> bytes" where
  "hex2 b = [hchar 32 (unat b div 16), hchar 32 (unat b mod 16)]"

definition hex_text :: "bytes \<Rightarrow> bytes" where
  "hex_text bs = concat (map hex2 bs)"

lemma number_hex2: "number (ucast (b :: u8)) 16 2 (-1) (ZEROPAD OR SMALL) = hex2 b"
proof -
  have ub: "unat (ucast b :: u64) = unat b"
    using unat_u8_less [of b] by (simp add: unsigned_ucast_eq take_bit_nat_eq_self_iff)
  have h0: "hchar 32 0 = 48" using writes_hex by (simp add: writes_digits_def)
  have b: "unat b < 256" by (rule unat_u8_less)
  have sm: "ucast ((ZEROPAD OR SMALL) AND SMALL) = (32 :: u8)" by (simp add: format_flags_defs)
  have dg: "number_digits (ucast b) 16 32
      = (if unat b < 16 then [hchar 32 (unat b)] else [hchar 32 (unat b mod 16), hchar 32 (unat b div 16)])"
  proof (cases "b = 0")
    case True
    then show ?thesis by (simp add: number_digits_def h0)
  next
    case False
    then have "(ucast b :: u64) \<noteq> 0" using ub by (metis unsigned_0 unsigned_eq_0_iff)
    then show ?thesis using pow2_digits_digits [of 16 4 "ucast b" 32] b
      by (simp add: number_digits_def ub digits_of_small digits_of_step)
  qed
  show ?thesis
    unfolding number_def Let_def sm
    using h0 by (simp add: format_flags_defs number_sign_def dg pad_loop_eq hex2_def)
qed

lemma hex_text_valid: "\<forall>c\<in>set (hex_text bs). valid_digit 16 c \<and> c \<noteq> 120 \<and> c \<noteq> 0"
proof -
  have "valid_digit 16 (hchar 32 d)" if "d < 16" for d
    using writes_hex that by (simp add: writes_digits_def)
  moreover have "unat b div 16 < 16" for b :: u8 using unat_u8_less [of b] by (simp add: less_mult_imp_div_less)
  ultimately have "\<forall>c\<in>set (hex_text bs). valid_digit 16 c"
    by (auto simp: hex_text_def hex2_def)
  moreover have "\<not> valid_digit 16 120" "\<not> valid_digit 16 0"
    by (simp_all add: valid_digit_def isxdigit_iff)
  ultimately show ?thesis by metis
qed

lemma hex_text_value: "digits_value 16 (hex_text bs) r = foldl (\<lambda>r b. r * 256 + of_nat (unat b)) r bs"
proof (induction bs arbitrary: r)
  case (Cons b bs)
  have d: "digit_value (hchar 32 k) = of_nat k" if "k < 16" for k
    using writes_hex that by (simp add: writes_digits_def)
  have lt: "unat b div 16 < 16" using unat_u8_less [of b] by (simp add: less_mult_imp_div_less)
  have c: "ucast (digit_value (hchar 32 k)) = (of_nat k :: 'a word)" if "k < 16" for k
    using d [OF that] that by (simp add: ucast_of_nat_u32)
  have e: "of_nat (unat b) = (of_nat (unat b div 16) * 16 + of_nat (unat b mod 16) :: 'a word)"
    by (metis div_mult_mod_eq of_nat_add of_nat_mult of_nat_numeral)
  have "digits_value 16 (hex_text (b # bs)) r
      = digits_value 16 (hex_text bs) ((r * 16 + of_nat (unat b div 16)) * 16 + of_nat (unat b mod 16))"
    using c [OF lt] c [of "unat b mod 16"] ucast_of_nat_u32 [of 16, where 'a = 'a]
    by (simp add: digits_value_def hex_text_def hex2_def)
  also have "(r * 16 + of_nat (unat b div 16)) * 16 + of_nat (unat b mod 16) = r * 256 + of_nat (unat b)"
    unfolding e by (simp add: algebra_simps)
  finally show ?case using Cons.IH by simp
qed (simp add: digits_value_def hex_text_def)

lemma foldl_bytes: "foldl (\<lambda>r b. r * 256 + of_nat (unat b)) (0 :: 'a::len word) bs = of_nat (be_val bs)"
proof (induction bs rule: rev_induct)
  case (snoc b bs)
  then show ?case by (simp add: be_val_append) (simp add: be_val_def algebra_simps)
qed simp

lemma strtoul_hex_text:
  fixes r :: "'a::len word"
  assumes s: "cstr m cp (hex_text bs @ rest)" and ne: "bs \<noteq> []" and rest: "rest = [] \<or> hd rest = 45"
  shows "\<exists>e. (let (cp, base) = strtoul_prefix m cp 16 in strtoul_loop m base cp 0)
    = Some (of_nat (be_val bs) :: 'a word, e)"
proof -
  have stop: "takeWhile (valid_digit 16) rest = []"
    using rest by (cases rest) (simp_all add: valid_digit_def isxdigit_iff)
  obtain c1 c2 cs where cs: "hex_text bs = c1 # c2 # cs"
    using ne by (cases bs) (simp_all add: hex_text_def hex2_def)
  have all: "\<forall>c\<in>set (c1 # c2 # cs). valid_digit 16 c" and x: "c2 \<noteq> 120"
    using hex_text_valid [of bs] cs by auto
  have val: "digits_value 16 (c1 # c2 # cs) (0 :: 'a word) = of_nat (be_val bs)"
    using hex_text_value [of bs "0 :: 'a word"] unfolding cs foldl_bytes .
  have s2: "cstr m cp (c1 # c2 # cs @ rest)" using s cs by simp
  show ?thesis
  proof (cases "c1 = 48")
    case True
    then have "strtoul_prefix m cp 16 = (cp + 1, 16)" using s2 x by (simp add: strtoul_prefix_def)
    moreover have "strtoul_loop m 16 (cp + 1) (0 :: 'a word) = Some (digits_value 16 (c2 # cs) 0, cp + 1 + of_nat (length (c2 # cs)))"
      using strtoul_loop_prefix [of m "cp + 1" "c2 # cs @ rest" 16 "0 :: 'a word"] s2 all stop
      by (simp add: takeWhile_append)
    moreover have "digits_value 16 (c1 # c2 # cs) (0 :: 'a word) = digits_value 16 (c2 # cs) 0"
      using True by (simp add: digits_value_def digit_value_def isdigit_iff)
    ultimately show ?thesis using val by simp
  next
    case False
    then have "strtoul_prefix m cp 16 = (cp, 16)" using s2 by (simp add: strtoul_prefix_def)
    then show ?thesis
      using strtoul_loop_prefix [OF s2, of 16 "0 :: 'a word"] all stop val by (simp add: takeWhile_append)
  qed
qed

lemma le_bytes_be_val:
  assumes "length ys = n" and "8 * n \<le> LENGTH('a)"
  shows "le_bytes n (of_nat (be_val ys) :: 'a::len word) = rev ys"
proof -
  have "unat (le_word (rev ys) :: 'a word) = be_val ys"
    using unat_le_word [of "rev ys", where 'a = 'a] assms by (simp add: be_val_def)
  then have "(of_nat (be_val ys) :: 'a word) = le_word (rev ys)" by (metis of_nat_unat ucast_id)
  then show ?thesis using le_bytes_le_word [of "rev ys", where 'a = 'a] assms by simp
qed

lemma uuid_string_text:
  "uuid_string g = hex_text [g ! 3, g ! 2, g ! 1, g ! 0] @ [45] @ hex_text [g ! 5, g ! 4] @ [45]
    @ hex_text [g ! 7, g ! 6] @ [45] @ hex_text [g ! 8, g ! 9] @ [45]
    @ hex_text [g ! 10, g ! 11, g ! 12, g ! 13, g ! 14, g ! 15]"
  by (simp add: uuid_string_def number_hex2 uuid_le_def upt_rec hex_text_def nth_append)

lemma hex_text_append: "hex_text (as @ bs) = hex_text as @ hex_text bs"
  by (simp add: hex_text_def)

lemma length_hex_text: "length (hex_text bs) = 2 * length bs"
  by (induction bs) (simp_all add: hex_text_def hex2_def)

lemma uuid_round_trip:
  assumes "length g = 16" and s: "cstr m a (uuid_string g)"
  shows "string_uuid m a = Some (Some g)"
proof -
  note t = s [unfolded uuid_string_text]
  obtain g0 g1 g2 g3 g4 g5 g6 g7 g8 g9 g10 g11 g12 g13 g14 g15
    where g: "g = [g0, g1, g2, g3, g4, g5, g6, g7, g8, g9, g10, g11, g12, g13, g14, g15]"
    using assms(1) by (auto simp: length_Suc_conv numeral_eq_Suc)
  have t: "cstr m a (hex_text [g3, g2, g1, g0] @ 45 # hex_text [g5, g4] @ 45 # hex_text [g7, g6] @ 45
      # hex_text [g8, g9] @ 45 # hex_text [g10, g11, g12, g13, g14, g15])"
    using s unfolding uuid_string_text g by simp
  let ?s = "hex_text [g3, g2, g1, g0] @ 45 # hex_text [g5, g4] @ 45 # hex_text [g7, g6] @ 45
      # hex_text [g8, g9] @ 45 # hex_text [g10, g11, g12, g13, g14, g15]"
  have len: "length ?s = 36" by (simp add: length_hex_text)
  have at9: "cstr m (a + 9) (hex_text [g5, g4] @ 45 # hex_text [g7, g6] @ 45
      # hex_text [g8, g9] @ 45 # hex_text [g10, g11, g12, g13, g14, g15])"
    using cstr_drop [OF t, of 9] len by (simp add: length_hex_text)
  have at14: "cstr m (a + 14) (hex_text [g7, g6] @ 45 # hex_text [g8, g9] @ 45 # hex_text [g10, g11, g12, g13, g14, g15])"
    using cstr_drop [OF t, of 14] len by (simp add: length_hex_text)
  have at19: "cstr m (a + 19) (hex_text [g8, g9] @ 45 # hex_text [g10, g11, g12, g13, g14, g15])"
    using cstr_drop [OF t, of 19] len by (simp add: length_hex_text)
  have at24: "cstr m (a + 24) (hex_text [g10, g11, g12, g13, g14, g15] @ [])"
    using cstr_drop [OF t, of 24] len by (simp add: length_hex_text)
  obtain e1 where r1: "simple_strtoul m a 16 = Some (of_nat (be_val [g3, g2, g1, g0]), e1)"
    using strtoul_hex_text [OF t, where 'a = 32] by (auto simp: simple_strtoul_def)
  obtain e2 where r2: "simple_strtoul m (a + 9) 16 = Some (of_nat (be_val [g5, g4]), e2)"
    using strtoul_hex_text [OF at9, where 'a = 32] by (auto simp: simple_strtoul_def)
  obtain e3 where r3: "simple_strtoul m (a + 14) 16 = Some (of_nat (be_val [g7, g6]), e3)"
    using strtoul_hex_text [OF at14, where 'a = 32] by (auto simp: simple_strtoul_def)
  obtain e4 where r4: "simple_strtoul m (a + 19) 16 = Some (of_nat (be_val [g8, g9]), e4)"
    using strtoul_hex_text [OF at19, where 'a = 32] by (auto simp: simple_strtoul_def)
  obtain e5 where r5: "simple_strtoull m (a + 24) 16 = Some (of_nat (be_val [g10, g11, g12, g13, g14, g15]), e5)"
    using strtoul_hex_text [OF at24, where 'a = 64] by (auto simp: simple_strtoull_def)
  have x: "isxdigit (hchar 32 (unat b div 16))" "isxdigit (hchar 32 (unat b mod 16))" for b :: u8
    using hex_text_valid [of "[b]"] by (simp_all add: hex_text_def hex2_def valid_digit_def)
  have chars: "m (a + of_nat i) = ?s ! i" if "i < 36" for i
    using cstr_nth [OF t, of i] that len by simp
  define bad where "bad = (\<lambda>c i :: nat. if i \<in> {8, 13, 18, 23} then c \<noteq> 45 else \<not> isxdigit c)"
  have ok: "\<forall>i\<in>set [0..<36]. \<not> bad (?s ! i) i"
    by (simp add: upt_rec hex_text_def hex2_def x bad_def)
  have "\<not> bad (m (a + of_nat i)) i" if "i < 36" for i
  proof -
    have "i \<in> set [0..<36]" using that by simp
    then have "\<not> bad (?s ! i) i" using ok by blast
    then show ?thesis unfolding chars [OF that] .
  qed
  then have form: "\<not> (\<exists>i<36. (if i \<in> {8, 13, 18, 23} then m (a + of_nat i) \<noteq> 45 else \<not> isxdigit (m (a + of_nat i))))"
    unfolding bad_def by blast
  have b: "le_bytes 4 (of_nat (be_val [g3, g2, g1, g0]) :: u32) = [g0, g1, g2, g3]"
    "le_bytes 2 (ucast (of_nat (be_val [g5, g4]) :: u32) :: u16) = [g4, g5]"
    "le_bytes 2 (ucast (of_nat (be_val [g7, g6]) :: u32) :: u16) = [g6, g7]"
    "le_bytes 2 (ucast (of_nat (be_val [g8, g9]) :: u32) :: u16) = [g9, g8]"
    "le_bytes 6 (of_nat (be_val [g10, g11, g12, g13, g14, g15]) :: u64) = [g15, g14, g13, g12, g11, g10]"
  proof -
    have small: "be_val [x, y] < 4294967296" for x y :: u8 using be_val_less [of "[x, y]"] by simp
    show "le_bytes 4 (of_nat (be_val [g3, g2, g1, g0]) :: u32) = [g0, g1, g2, g3]"
      by (subst le_bytes_be_val) simp_all
    show "le_bytes 6 (of_nat (be_val [g10, g11, g12, g13, g14, g15]) :: u64) = [g15, g14, g13, g12, g11, g10]"
      by (subst le_bytes_be_val) simp_all
    have two: "le_bytes 2 (ucast (of_nat (be_val [y, x]) :: u32) :: u16) = [x, y]" for x y
      unfolding ucast_of_nat_u32 [OF small] by (subst le_bytes_be_val) simp_all
    show "le_bytes 2 (ucast (of_nat (be_val [g5, g4]) :: u32) :: u16) = [g4, g5]"
      "le_bytes 2 (ucast (of_nat (be_val [g7, g6]) :: u32) :: u16) = [g6, g7]"
      "le_bytes 2 (ucast (of_nat (be_val [g8, g9]) :: u32) :: u16) = [g9, g8]"
      by (rule two)+
  qed
  have "strlen m a = Some 36" using strlen_cstr [OF t] by (simp add: length_hex_text)
  then have "string_uuid m a = Some (Some (EFI_GUID (of_nat (be_val [g3, g2, g1, g0]))
      (ucast (of_nat (be_val [g5, g4]) :: u32)) (ucast (of_nat (be_val [g7, g6]) :: u32))
      (rev (le_bytes 2 (ucast (of_nat (be_val [g8, g9]) :: u32) :: u16))
        @ rev (le_bytes 6 (of_nat (be_val [g10, g11, g12, g13, g14, g15]) :: u64)))))"
    unfolding string_uuid_def r1 r2 r3 r4 r5 using form by simp
  then show ?thesis unfolding EFI_GUID_def b g by simp
qed

lemma string_uuid_length: "string_uuid m u = Some (Some g) \<Longrightarrow> length g = 16"
  by (auto simp: string_uuid_def EFI_GUID_def bind_eq_Some_conv split: if_splits)

lemma parse_uuid_length: "parse_uuid cs = Some (Some g) \<Longrightarrow> length g = 16"
  by (auto simp: parse_uuid_def string_uuid_length split: if_splits)

lemma array_memory_cstr:
  assumes "0 \<notin> set cs" and "length cs < 4294967295"
  shows "cstr (array_memory (cs @ [0])) 0 cs"
proof -
  have "load_bytes (array_memory (cs @ [0])) 0 (Suc (length cs)) = cs @ [0]"
    using assms by (intro nth_equalityI) (auto simp: nth_load_bytes array_memory_def unat_of_nat_u32)
  then show ?thesis using assms by (simp add: cstr_iff)
qed

lemma parse_uuid_string:
  assumes "length g = 16"
  shows "parse_uuid (uuid_string g @ [0]) = Some (Some g)"
proof -
  have z: "0 \<notin> set (hex_text bs)" for bs using hex_text_valid by blast
  have "0 \<notin> set (uuid_string g)" and "length (uuid_string g) = 36"
    unfolding uuid_string_text by (simp_all add: z length_hex_text)
  then have "cstr (array_memory (uuid_string g @ [0])) 0 (uuid_string g)"
    by (intro array_memory_cstr) simp_all
  then show ?thesis by (simp add: parse_uuid_def uuid_round_trip [OF assms])
qed

text \<open>
  C38. The text that \<open>uuid_string\<close> prints for 16 bytes is read back to the same bytes by \<open>string_uuid\<close>.
\<close>

theorem uuid_text_round_trip:
  assumes "length g = 16"
  shows "parse_uuid (uuid_string g @ [0]) = Some (Some g)"
  using assms by (rule parse_uuid_string)

lemma uuid_text_round_trip_witness:
  "parse_uuid (uuid_string (replicate 16 171) @ [0]) = Some (Some (replicate 16 171))"
  by (rule uuid_text_round_trip) simp

section \<open>Filled entries\<close>

definition filled_entry :: "u64 \<Rightarrow> u64 \<Rightarrow> bytes \<Rightarrow> disk_partition \<Rightarrow> gpt_entry" where
  "filled_entry a b g p = \<lparr>partition_type_guid = PARTITION_BASIC_DATA_GUID, unique_partition_guid = g,
     starting_lba = a, ending_lba = b, attributes = 0, partition_name = wide_name p\<rparr>"

text \<open>One pass of the loop that went through.\<close>

lemma fill_loop_pass:
  assumes "fill_loop h parts i offs (p # ps) es = Some (0, es')"
  obtains first g where "i < length es"
    and "first = (if part_start p \<noteq> 0 then part_start p else offs)" and "offs \<le> first"
    and "ucast (first + part_size p) < last_usable_lba h" and "length g = 16"
    and "fill_loop h parts (i + 1) (first + part_size p) ps (es[i := filled_entry (ucast first)
      (if i + 1 = parts \<and> part_size p = 0 then last_usable_lba h else ucast (first + part_size p - 1)) g p])
      = Some (0, es')"
proof -
  define first where "first = (if part_start p \<noteq> 0 then part_start p else offs)"
  have i: "i < length es" and o: "offs \<le> first"
    using assms by (auto simp: first_def Let_def split: if_splits)
  obtain g where g: "parse_uuid (part_uuid p) = Some (Some g)" and l: "ucast (first + part_size p) < last_usable_lba h"
    using assms i by (auto simp: first_def Let_def not_le split: if_splits option.splits)
  have e: "(es ! i)\<lparr>starting_lba := a, ending_lba := b, partition_type_guid := PARTITION_BASIC_DATA_GUID,
      unique_partition_guid := g, attributes := 0, partition_name := wide_name p\<rparr> = filled_entry a b g p" for a b
    by (simp add: filled_entry_def)
  have "fill_loop h parts (i + 1) (first + part_size p) ps (es[i := filled_entry (ucast first)
      (if i + 1 = parts \<and> part_size p = 0 then last_usable_lba h else ucast (first + part_size p - 1)) g p])
      = Some (0, es')"
    using assms i g l o
    by (auto simp: first_def Let_def e not_le not_less split: if_splits)
  then show thesis using that [OF i first_def o l parse_uuid_length [OF g]] by blast
qed

lemma entry_wf_filled: "length g = 16 \<Longrightarrow> entry_wf (filled_entry a b g p)"
  by (simp add: entry_wf_def filled_entry_def PARTITION_BASIC_DATA_GUID_def EFI_GUID_def wide_name_def)

lemma fill_loop_wf:
  "fill_loop h parts i offs ps es = Some (0, es') \<Longrightarrow> \<forall>e\<in>set es. entry_wf e \<Longrightarrow>
    length es' = length es \<and> (\<forall>e\<in>set es'. entry_wf e)"
proof (induction ps arbitrary: i offs es)
  case (Cons p ps)
  from Cons.prems(1) obtain f l g o' where "length g = 16"
    and "fill_loop h parts (i + 1) o' ps (es[i := filled_entry f l g p]) = Some (0, es')"
    by (rule fill_loop_pass) blast
  moreover from this Cons.prems(2) have "\<forall>e\<in>set (es[i := filled_entry f l g p]). entry_wf e"
    by (auto simp: entry_wf_filled dest!: set_update_subset_insert [THEN subsetD])
  ultimately show ?case using Cons.IH by fastforce
qed simp

lemma ucast_ucast_u32: "ucast (ucast (x :: u32) :: u64) = x"
  using unat_u32_less [of x] by (simp add: word_unat_eq_iff unat_ucast_u64_u32 unat_ucast_u32_u64)

text \<open>The first blocks that the loop gives the partitions, and the entries it fills in.\<close>

fun layout :: "u32 \<Rightarrow> disk_partition list \<Rightarrow> u32 list" where
  "layout offs [] = []"
| "layout offs (p # ps) = (let first = (if part_start p \<noteq> 0 then part_start p else offs)
     in first # layout (first + part_size p) ps)"

lemma fill_loop_entries:
  "fill_loop h parts i offs ps es = Some (0, es') \<Longrightarrow> i + length ps = parts \<Longrightarrow>
    (\<forall>k<i. es' ! k = es ! k)
    \<and> (\<forall>j<length ps. i + j < length es \<and> (\<exists>g. length g = 16 \<and> es' ! (i + j) = filled_entry (ucast (layout offs ps ! j))
        (if Suc j = length ps \<and> part_size (ps ! j) = 0 then last_usable_lba h
         else ucast (layout offs ps ! j + part_size (ps ! j) - 1)) g (ps ! j)))"
proof (induction ps arbitrary: i offs es)
  case (Cons p ps)
  from Cons.prems(1) obtain first g where i: "i < length es"
    and f: "first = (if part_start p \<noteq> 0 then part_start p else offs)" and g: "length g = 16"
    and r: "fill_loop h parts (i + 1) (first + part_size p) ps (es[i := filled_entry (ucast first)
      (if i + 1 = parts \<and> part_size p = 0 then last_usable_lba h else ucast (first + part_size p - 1)) g p])
      = Some (0, es')"
    by (rule fill_loop_pass)
  have l: "layout offs (p # ps) = first # layout (first + part_size p) ps" by (simp add: f Let_def)
  have len: "i + 1 + length ps = parts" using Cons.prems(2) by simp
  note IH = Cons.IH [OF r len]
  have c: "i + 1 = parts \<longleftrightarrow> ps = []" using len by auto
  have head: "es' ! i = filled_entry (ucast first)
      (if i + 1 = parts \<and> part_size p = 0 then last_usable_lba h else ucast (first + part_size p - 1)) g p"
    using IH i by simp
  show ?case
  proof (intro conjI allI impI)
    fix k assume "k < i"
    then show "es' ! k = es ! k" using IH by simp
  next
    fix j assume j: "j < length (p # ps)"
    show "i + j < length es" using IH i j by (cases j) auto
    show "\<exists>g. length g = 16 \<and> es' ! (i + j) = filled_entry (ucast (layout offs (p # ps) ! j))
        (if Suc j = length (p # ps) \<and> part_size ((p # ps) ! j) = 0 then last_usable_lba h
         else ucast (layout offs (p # ps) ! j + part_size ((p # ps) ! j) - 1)) g ((p # ps) ! j)"
    proof (cases j)
      case 0
      then show ?thesis using head g c unfolding l by auto
    next
      case (Suc k)
      then have "k < length ps" using j by simp
      then show ?thesis using IH [THEN conjunct2, rule_format, of k] unfolding l Suc
        by (simp split del: if_split cong: if_cong)
    qed
  qed
qed simp

lemma fill_loop_layout:
  assumes "fill_loop h parts i offs ps es = Some (0, es')"
    and "\<forall>p\<in>set ps. unat (part_start p) + unat (part_size p) < 2 ^ 32
      \<and> unat (last_usable_lba h) + unat (part_size p) < 2 ^ 32"
    and "unat offs \<le> unat (last_usable_lba h)"
  shows "(\<forall>j<length ps. offs \<le> layout offs ps ! j
      \<and> unat (layout offs ps ! j) + unat (part_size (ps ! j)) < unat (last_usable_lba h)
      \<and> (part_start (ps ! j) \<noteq> 0 \<longrightarrow> layout offs ps ! j = part_start (ps ! j)))
    \<and> (\<forall>k<length ps. \<forall>j<k. unat (layout offs ps ! j) + unat (part_size (ps ! j)) \<le> unat (layout offs ps ! k))"
  using assms
proof (induction ps arbitrary: i offs es)
  case (Cons p ps)
  from Cons.prems(1) obtain first g where f: "first = (if part_start p \<noteq> 0 then part_start p else offs)"
    and o: "offs \<le> first" and lim: "ucast (first + part_size p) < last_usable_lba h"
    and r: "fill_loop h parts (i + 1) (first + part_size p) ps (es[i := filled_entry (ucast first)
      (if i + 1 = parts \<and> part_size p = 0 then last_usable_lba h else ucast (first + part_size p - 1)) g p])
      = Some (0, es')"
    by (rule fill_loop_pass)
  have l: "layout offs (p # ps) = first # layout (first + part_size p) ps" by (simp add: f Let_def)
  have "unat first + unat (part_size p) < 2 ^ 32" using f Cons.prems(2,3) by (auto split: if_splits)
  then have u: "unat (first + part_size p) = unat first + unat (part_size p)" by (intro unat_add_small) simp
  have lt: "unat first + unat (part_size p) < unat (last_usable_lba h)"
    using lim u by (simp add: word_less_nat_alt unat_ucast_u32_u64)
  have IH: "(\<forall>j<length ps. first + part_size p \<le> layout (first + part_size p) ps ! j
      \<and> unat (layout (first + part_size p) ps ! j) + unat (part_size (ps ! j)) < unat (last_usable_lba h)
      \<and> (part_start (ps ! j) \<noteq> 0 \<longrightarrow> layout (first + part_size p) ps ! j = part_start (ps ! j)))
    \<and> (\<forall>k<length ps. \<forall>j<k. unat (layout (first + part_size p) ps ! j) + unat (part_size (ps ! j))
      \<le> unat (layout (first + part_size p) ps ! k))"
    using Cons.prems(2) lt u by (intro Cons.IH [OF r]) simp_all
  then have nx: "unat first + unat (part_size p) \<le> unat (layout (first + part_size p) ps ! j)" if "j < length ps" for j
    using that u by (auto simp: word_le_nat_alt)
  have "offs \<le> layout (first + part_size p) ps ! j" if "j < length ps" for j
    using nx [OF that] o unfolding word_le_nat_alt by linarith
  then show ?case using IH nx o lt f unfolding l by (auto simp: nth_Cons split: nat.splits)
qed simp

text \<open>The block numbers of the entries, read as natural numbers.\<close>

lemma filled_bounds:
  assumes f: "gpt_fill_pte h es ps = Some (0, es')" and u: "first_usable_lba h \<noteq> 0"
    "first_usable_lba h \<le> last_usable_lba h" "unat (last_usable_lba h) < 2 ^ 32"
    and w: "\<forall>p\<in>set ps. unat (part_start p) + unat (part_size p) < 2 ^ 32
      \<and> unat (last_usable_lba h) + unat (part_size p) < 2 ^ 32"
    and i: "i < length ps"
  shows "starting_lba (es' ! i) = ucast (layout (ucast (first_usable_lba h)) ps ! i)"
    and "unat (ending_lba (es' ! i)) = (if Suc i = length ps \<and> part_size (ps ! i) = 0 then unat (last_usable_lba h)
      else unat (starting_lba (es' ! i)) + unat (part_size (ps ! i)) - 1)"
    and "0 < unat (starting_lba (es' ! i))"
proof -
  let ?o = "ucast (first_usable_lba h) :: u32" and ?l = "layout (ucast (first_usable_lba h)) ps ! i"
  have o: "unat ?o = unat (first_usable_lba h)"
    using u(2,3) by (simp add: word_le_nat_alt unat_ucast_u64_u32)
  then have ol: "unat ?o \<le> unat (last_usable_lba h)" using u(2) by (simp add: word_le_nat_alt)
  note F = f [unfolded gpt_fill_pte_def]
  obtain g where e: "es' ! i = filled_entry (ucast ?l)
      (if Suc i = length ps \<and> part_size (ps ! i) = 0 then last_usable_lba h
       else ucast (?l + part_size (ps ! i) - 1)) g (ps ! i)"
    using fill_loop_entries [OF F] i by auto
  have b: "?o \<le> ?l" "unat ?l + unat (part_size (ps ! i)) < unat (last_usable_lba h)"
    using fill_loop_layout [OF F w ol] i by blast+
  then have pos: "0 < unat ?l" using o u(1) unfolding word_le_nat_alt by (metis gr0I le_zero_eq unsigned_eq_0_iff)
  have "unat (?l + part_size (ps ! i)) = unat ?l + unat (part_size (ps ! i))"
    using b(2) u(3) by (intro unat_add_small) simp
  then have "unat (?l + part_size (ps ! i) - 1) = unat ?l + unat (part_size (ps ! i)) - 1"
    using pos by (subst unat_sub_small) simp_all
  then show "starting_lba (es' ! i) = ucast ?l" and "unat (ending_lba (es' ! i))
      = (if Suc i = length ps \<and> part_size (ps ! i) = 0 then unat (last_usable_lba h)
         else unat (starting_lba (es' ! i)) + unat (part_size (ps ! i)) - 1)"
    and "0 < unat (starting_lba (es' ! i))"
    using pos by (simp_all add: e filled_entry_def unat_ucast_u32_u64)
qed

text \<open>
  C21. When \<open>gpt_fill_pte\<close> accepts a list of partitions whose blocks are numbered without wrapping, every
  entry lies between the first and the last usable block, keeps the start and the size that were asked
  for, and the entries are in increasing order and do not overlap.
\<close>

theorem gpt_fill_pte_sound:
  assumes "gpt_fill_pte h es ps = Some (0, es')" and "first_usable_lba h \<noteq> 0"
    and "first_usable_lba h \<le> last_usable_lba h" and "unat (last_usable_lba h) < 2 ^ 32"
    and "\<forall>p\<in>set ps. unat (part_start p) + unat (part_size p) < 2 ^ 32
      \<and> unat (last_usable_lba h) + unat (part_size p) < 2 ^ 32"
  shows "(\<forall>i<length ps. first_usable_lba h \<le> starting_lba (es' ! i) \<and> ending_lba (es' ! i) \<le> last_usable_lba h
      \<and> (part_start (ps ! i) \<noteq> 0 \<longrightarrow> starting_lba (es' ! i) = ucast (part_start (ps ! i)))
      \<and> (part_size (ps ! i) \<noteq> 0 \<longrightarrow>
          unat (ending_lba (es' ! i)) + 1 = unat (starting_lba (es' ! i)) + unat (part_size (ps ! i))))
    \<and> (\<forall>j<length ps. \<forall>i<j. ending_lba (es' ! i) < starting_lba (es' ! j))"
proof -
  let ?o = "ucast (first_usable_lba h) :: u32"
  note B = filled_bounds [OF assms]
  have o: "unat ?o = unat (first_usable_lba h)"
    using assms(3,4) by (simp add: word_le_nat_alt unat_ucast_u64_u32)
  have ol: "unat ?o \<le> unat (last_usable_lba h)" using o assms(3) by (simp add: word_le_nat_alt)
  have L: "?o \<le> layout ?o ps ! j"
      "unat (layout ?o ps ! j) + unat (part_size (ps ! j)) < unat (last_usable_lba h)"
      "part_start (ps ! j) \<noteq> 0 \<longrightarrow> layout ?o ps ! j = part_start (ps ! j)"
      "k < j \<Longrightarrow> unat (layout ?o ps ! k) + unat (part_size (ps ! k)) \<le> unat (layout ?o ps ! j)"
    if "j < length ps" for j k
    using fill_loop_layout [OF assms(1) [unfolded gpt_fill_pte_def] assms(5) ol] that by blast+
  show ?thesis
  proof (intro conjI allI impI)
    fix i assume i: "i < length ps"
    show "first_usable_lba h \<le> starting_lba (es' ! i)"
      using L(1) [OF i] o by (simp add: B(1) [OF i] word_le_nat_alt unat_ucast_u32_u64)
    show "ending_lba (es' ! i) \<le> last_usable_lba h"
      using L(2) [OF i] unfolding word_le_nat_alt B(2) [OF i] B(1) [OF i] by (auto simp: unat_ucast_u32_u64)
    show "starting_lba (es' ! i) = ucast (part_start (ps ! i))" if "part_start (ps ! i) \<noteq> 0"
      using L(3) [OF i] that by (simp add: B(1) [OF i])
    show "unat (ending_lba (es' ! i)) + 1 = unat (starting_lba (es' ! i)) + unat (part_size (ps ! i))"
      if "part_size (ps ! i) \<noteq> 0"
      using that B(2,3) [OF i] by simp
  next
    fix j i assume j: "j < length ps" "i < j"
    then have i: "i < length ps" and n: "Suc i \<noteq> length ps" by simp_all
    show "ending_lba (es' ! i) < starting_lba (es' ! j)"
      using L(4) [OF j] n B(3) [OF i] unfolding word_less_nat_alt B(2) [OF i] B(1) [OF i] B(1) [OF j(1)]
      by (simp add: unat_ucast_u32_u64)
  qed
qed

lemma filled_valid:
  assumes "gpt_fill_pte h es ps = Some (0, es')" and "i < length ps"
  shows "i < length es \<and> is_pte_valid (es' ! i)"
proof -
  have "PARTITION_BASIC_DATA_GUID ! 8 = 0x87"
    by (simp add: PARTITION_BASIC_DATA_GUID_def EFI_GUID_def nth_append)
  moreover have "(replicate 16 0 :: bytes) ! 8 = 0" by simp
  ultimately have "PARTITION_BASIC_DATA_GUID \<noteq> replicate 16 0" by (intro notI) simp
  then show ?thesis
    using fill_loop_entries [OF assms(1) [unfolded gpt_fill_pte_def]] assms(2)
    by (auto simp: is_pte_valid_def filled_entry_def)
qed

section \<open>A written table\<close>

text \<open>The header as it goes to block 1 and, with the roles of the two copies exchanged, to the last block.\<close>

definition seal :: "gpt_header \<Rightarrow> gpt_header" where
  "seal h = h\<lparr>header_crc32 := crc32 0 0 (gpt_header_bytes h)\<rparr>"

definition primary_header :: "gpt_header \<Rightarrow> gpt_entry list \<Rightarrow> gpt_header" where
  "primary_header h es = seal (h\<lparr>partition_entry_array_crc32 := crc32 0 0 (concat (map gpt_entry_bytes es))\<rparr>)"

definition backup_header :: "gpt_header \<Rightarrow> gpt_entry list \<Rightarrow> gpt_header" where
  "backup_header h es = seal (h\<lparr>partition_entry_array_crc32 := crc32 0 0 (concat (map gpt_entry_bytes es)),
     my_lba := alternate_lba h, alternate_lba := my_lba h, header_crc32 := 0\<rparr>)"

text \<open>A header as \<open>gpt_fill_header\<close> leaves it for a device of \<open>n\<close> blocks.\<close>

definition header_wf :: "u32 \<Rightarrow> gpt_header \<Rightarrow> bool" where
  "header_wf n h \<longleftrightarrow> signature h = GPT_HEADER_SIGNATURE \<and> header_size h = 92 \<and> header_crc32 h = 0
     \<and> my_lba h = 1 \<and> alternate_lba h = ucast (n - 1) \<and> first_usable_lba h = 34
     \<and> last_usable_lba h = ucast (n - 34) \<and> length (disk_guid h) = 16 \<and> partition_entry_lba h = 2
     \<and> num_partition_entries h = 128 \<and> sizeof_partition_entry h = 128"

text \<open>What the device holds after a table was written.\<close>

definition table_on_device :: "u32 \<Rightarrow> gpt_header \<Rightarrow> gpt_entry list \<Rightarrow> (nat \<Rightarrow> bytes) \<Rightarrow> bool" where
  "table_on_device n h es b \<longleftrightarrow>
     run_bytes b 0 1 = legacy_mbr_bytes (protective_mbr n)
     \<and> run_bytes b 1 1 = gpt_header_bytes (primary_header h es) @ replicate 420 0
     \<and> run_bytes b 2 32 = concat (map gpt_entry_bytes es)
     \<and> run_bytes b (unat n - 33) 32 = concat (map gpt_entry_bytes es)
     \<and> run_bytes b (unat n - 1) 1 = gpt_header_bytes (backup_header h es) @ replicate 420 0"

context block_device
begin

lemma write_gpt_table_ok:
  assumes g: "good d" and bs: "blksz desc = 512" and n: "68 \<le> unat (lba desc)"
    and h: "header_wf (lba desc) h" and es: "length es = 128" "\<forall>e\<in>set es. entry_wf e"
    and a: "2048 \<le> unat a"
  shows "\<exists>d' a'. write_gpt_table sp desc h es (d, a) = Some (0, d', a') \<and> good d'
    \<and> table_on_device (lba desc) h es (blk d') \<and> unat a \<le> unat a' + 1535"
proof -
  let ?E = "concat (map gpt_entry_bytes es)"
  let ?L = "unat (lba desc)"
  have lenE: "length ?E = 16384" using es by (simp add: length_entries)
  have gl: "length (disk_guid h) = 16" using h by (simp add: header_wf_def)
  have H: "num_partition_entries h = 128" "sizeof_partition_entry h = 128" "header_size h = 92"
    "header_crc32 h = 0" "my_lba h = 1" "alternate_lba h = ucast (lba desc - 1)"
    "last_usable_lba h = ucast (lba desc - 34)" using h by (simp_all add: header_wf_def)
  obtain a' where al: "try_calloc sp 512 a = (True, a')" "unat a \<le> unat a' + 1535"
    using try_calloc_ok [of 512 a sp] a by auto
  have bw: "blksz desc = 512 \<Longrightarrow> unat (blksz desc) = 512" by simp
  note W = write_range [unfolded bw [OF bs]]
  obtain d1 where d1: "block_write_gpt desc (dev desc) 0 1 (legacy_mbr_bytes (protective_mbr (lba desc))) d = Some (1, d1)"
    "good d1" "blk d1 = store_run 512 (blk d) 0 1 (legacy_mbr_bytes (protective_mbr (lba desc)))"
    using W [OF g, of 1 0 "legacy_mbr_bytes (protective_mbr (lba desc))"] n by (auto simp: length_protective)
  define h1 where "h1 = primary_header h es"
  define h2 where "h2 = backup_header h es"
  have g1: "length (disk_guid h1) = 16" "length (disk_guid h2) = 16"
    by (simp_all add: h1_def h2_def primary_header_def backup_header_def seal_def gl)
  let ?H1 = "gpt_header_bytes h1 @ replicate 420 0" and ?H2 = "gpt_header_bytes h2 @ replicate 420 0"
  have lenH: "length ?H1 = 512" "length ?H2 = 512" using g1 by (simp_all add: length_gpt_header_bytes)
  obtain d2 where d2: "block_write_gpt desc (dev desc) 1 1 ?H1 d1 = Some (1, d2)"
    "good d2" "blk d2 = store_run 512 (blk d1) 1 1 ?H1"
    using W [OF d1(2), of 1 1 ?H1] n lenH by auto
  obtain d3 where d3: "block_write_gpt desc (dev desc) 2 32 ?E d2 = Some (32, d3)"
    "good d3" "blk d3 = store_run 512 (blk d2) 2 32 ?E"
    using W [OF d2(2), of 32 2 ?E] n lenE by auto
  have u33: "unat (lba desc - 33) = ?L - 33" and u1: "unat (lba desc - 1) = ?L - 1"
    using n by (simp_all add: unat_sub_small)
  obtain d4 where d4: "block_write_gpt desc (dev desc) (lba desc - 33) 32 ?E d3 = Some (32, d4)"
    "good d4" "blk d4 = store_run 512 (blk d3) (?L - 33) 32 ?E"
    using W [OF d3(2), of 32 "lba desc - 33" ?E] n lenE u33 by auto
  obtain d5 where d5: "block_write_gpt desc (dev desc) (lba desc - 1) 1 ?H2 d4 = Some (1, d5)"
    "good d5" "blk d5 = store_run 512 (blk d4) (?L - 1) 1 ?H2"
    using W [OF d4(2), of 1 "lba desc - 1" ?H2] n lenH u1 by auto
  have c1: "ucast (ucast (lba desc - 34) + 1 :: u64) = lba desc - 33"
  proof -
    have "unat (lba desc - 34) = ?L - 34" using n by (simp add: unat_sub_small)
    then have "unat (ucast (lba desc - 34) + 1 :: u64) = ?L - 33"
      using n unat_u32_less [of "lba desc"] by (subst unat_add_small) (simp_all add: unat_ucast_u32_u64)
    then show ?thesis using u33 unat_u32_less [of "lba desc"]
      by (simp only: word_unat_eq_iff unat_ucast_u64_u32) simp
  qed
  have c2: "ucast (ucast (lba desc - 1) :: u64) = lba desc - 1"
    using unat_u32_less [of "lba desc - 1"] by (simp add: word_unat_eq_iff unat_ucast_u64_u32 unat_ucast_u32_u64)
  have cnt: "BLOCK_CNT (128 * 128) desc = 32" by (rule sizes_512 [OF bs])
  note crc = efi_crc32_def buffers_512 [OF bs] es(1) lenE length_gpt_header_bytes [OF gl]
  have "write_gpt_table sp desc h es (d, a) = Some (0, d5, a')"
    unfolding write_gpt_table_def set_protective_mbr_def
    using d1(1) d2(1) d3(1) d4(1) d5(1) al(1)
    by (simp add: H crc cnt [simplified] length_gpt_header_bytes gl c1 h1_def h2_def primary_header_def
        backup_header_def seal_def Let_def c2)
  moreover have "table_on_device (lba desc) h es (blk d5)"
    unfolding table_on_device_def h1_def [symmetric] h2_def [symmetric]
  proof (intro conjI)
    have sep: "Suc (Suc 0) \<le> ?L - 33" "34 \<le> ?L - 33" "Suc (Suc 0) \<le> ?L - 1" "34 \<le> ?L - 1" using n by simp_all
    show "run_bytes (blk d5) 0 1 = legacy_mbr_bytes (protective_mbr (lba desc))"
      using n by (simp add: d5(3) d4(3) d3(3) d2(3) d1(3) run_store_other run_store_same length_protective)
    show "run_bytes (blk d5) 1 1 = ?H1"
      using sep lenH by (simp add: d5(3) d4(3) d3(3) d2(3) run_store_other run_store_same)
    show "run_bytes (blk d5) 2 32 = ?E"
      using sep lenE by (simp add: d5(3) d4(3) d3(3) run_store_other run_store_same)
    show "run_bytes (blk d5) (?L - 33) 32 = ?E"
      using n lenE by (simp add: d5(3) d4(3) run_store_other run_store_same)
    show "run_bytes (blk d5) (?L - 1) 1 = ?H2"
      using n lenH by (simp add: d5(3) run_store_other run_store_same)
  qed
  ultimately show ?thesis using d5(2) al(2) by blast
qed


text \<open>A table on the device passes the check of its reader.\<close>

lemma is_gpt_valid_table:
  assumes g: "good d" and bs: "blksz desc = 512" and n: "68 \<le> unat (lba desc)"
    and h: "header_wf (lba desc) h" and es: "length es = 128" "\<forall>e\<in>set es. entry_wf e"
    and t: "table_on_device (lba desc) h es (blk d)" and a: "17408 \<le> unat a"
  shows "\<exists>d' a'. is_gpt_valid sp desc 1 (d, a)
    = Some (Some (primary_header h es, concat (map gpt_entry_bytes es)), d', a') \<and> good d' \<and> blk d' = blk d"
proof -
  let ?E = "concat (map gpt_entry_bytes es)" and ?h = "primary_header h es"
  have lenE: "length ?E = 16384" using es by (simp add: length_entries)
  have gl: "length (disk_guid ?h) = 16" "length (disk_guid h) = 16"
    using h by (simp_all add: header_wf_def primary_header_def seal_def)
  have H: "signature ?h = GPT_HEADER_SIGNATURE" "num_partition_entries ?h = 128" "sizeof_partition_entry ?h = 128"
    "header_size ?h = 92" "my_lba ?h = 1" "first_usable_lba ?h = 34" "last_usable_lba ?h = ucast (lba desc - 34)"
    "partition_entry_lba ?h = 2" "partition_entry_array_crc32 ?h = crc32 0 0 ?E"
    using h by (simp_all add: header_wf_def primary_header_def seal_def)
  obtain d1 where r1: "block_read_gpt desc (dev desc) 1 1 d = Some ((1, gpt_header_bytes ?h @ replicate 420 0), d1)"
    "good d1" "blk d1 = blk d"
    using read_range [OF g, of 1 1] n t by (auto simp: table_on_device_def)
  obtain d2 where r2: "block_read_gpt desc (dev desc) 2 32 d1 = Some ((32, ?E), d2)" "good d2" "blk d2 = blk d"
    using read_range [OF r1(2), of 32 2] n t r1(3) by (auto simp: table_on_device_def)
  obtain a' where al: "try_calloc sp 16384 a = (True, a')" using try_calloc_ok [of 16384 a sp] a by auto
  have hc: "efi_crc32 (take 16 (gpt_header_bytes ?h @ replicate 420 0) @ replicate 4 0
      @ drop 20 (gpt_header_bytes ?h @ replicate 420 0)) (header_size ?h) = Some (header_crc32 ?h)"
  proof -
    have "?h\<lparr>header_crc32 := 0\<rparr> = h\<lparr>partition_entry_array_crc32 := crc32 0 0 ?E\<rparr>"
      using h by (simp add: header_wf_def primary_header_def seal_def)
    then show ?thesis
      using H(4) gl by (simp only: gpt_header_bytes_crc [OF gl(1)] efi_crc32_def)
        (simp add: length_gpt_header_bytes primary_header_def seal_def)
  qed
  have lims: "\<not> ucast (lba desc) < (34 :: u64)" "\<not> ucast (lba desc) < (ucast (lba desc - 34) :: u64)"
    using n unat_sub_small [of 34 "lba desc"] by (simp_all add: word_less_nat_alt unat_ucast_u32_u64)
  have cnt: "BLOCK_CNT (128 * 128) desc = 32" "PAD_TO_BLOCKSIZE (128 * 128) desc = 16384"
    by (rule sizes_512 [OF bs])+
  have rd: "alloc_read_gpt_entries sp desc ?h (d1, a) = Some (Some ?E, d2, a')"
    unfolding alloc_read_gpt_entries_def using r2(1) al cnt by (simp add: H Let_def)
  have ec: "efi_crc32 ?E (num_partition_entries ?h * sizeof_partition_entry ?h) = Some (crc32 0 0 ?E)"
    by (simp add: efi_crc32_def H lenE)
  have "is_gpt_valid sp desc 1 (d, a) = Some (Some (?h, ?E), d2, a')"
    unfolding is_gpt_valid_def using r1(1) hc rd ec lims
    by (simp add: gpt_header_of_bytes [OF gl(1)] H(1,5-7,9))
  then show ?thesis using r2 by blast
qed

text \<open>The MBR test accepts it as well.\<close>

lemma test_part_efi_table:
  assumes g: "good d" and n: "0 < unat (lba desc)" and t: "table_on_device (lba desc) h es (blk d)"
  shows "\<exists>d'. test_part_efi desc d = Some (0, d') \<and> good d' \<and> blk d' = blk d"
proof -
  obtain d1 where r: "block_read_gpt desc (dev desc) 0 1 d = Some ((1, legacy_mbr_bytes (protective_mbr (lba desc))), d1)"
    "good d1" "blk d1 = blk d"
    using read_range [OF g, of 1 0] n t by (auto simp: table_on_device_def)
  show ?thesis using r legacy_mbr_of_protective [of "lba desc" "[]"] by (simp add: test_part_efi_def)
qed

text \<open>The lookup of a partition reads its entry.\<close>

lemma get_partition_info_table:
  assumes g: "good d" and bs: "blksz desc = 512" and n: "68 \<le> unat (lba desc)"
    and h: "header_wf (lba desc) h" and es: "length es = 128" "\<forall>e\<in>set es. entry_wf e"
    and t: "table_on_device (lba desc) h es (blk d)" and a: "17408 \<le> unat a"
    and i: "i < 128" "is_pte_valid (es ! i)"
  shows "\<exists>info' d' a'. get_partition_info_efi sp desc (int i + 1) info (d, a) = Some ((0, info'), d', a')
    \<and> part_start info' = ucast (starting_lba (es ! i)) \<and> part_blksz info' = 512
    \<and> part_size info' = ucast (ending_lba (es ! i) + 1 - ucast (part_start info'))
    \<and> part_uuid info' = uuid_string (unique_partition_guid (es ! i)) @ [0] \<and> good d' \<and> blk d' = blk d"
proof -
  obtain d' a' where v: "is_gpt_valid sp desc 1 (d, a)
      = Some (Some (primary_header h es, concat (map gpt_entry_bytes es)), d', a')" "good d'" "blk d' = blk d"
    using is_gpt_valid_table [OF g bs n h es t a] by blast
  have e: "nth_entry (concat (map gpt_entry_bytes es)) i = Some (es ! i)"
    using nth_entry_bytes [OF es(2), of i "[]"] es(1) i by simp
  have num: "num_partition_entries (primary_header h es) = 128"
    using h by (simp add: header_wf_def primary_header_def seal_def)
  have "unat (word_of_int (int i + 1) :: u32) = Suc i"
  proof -
    have "(word_of_int (int i + 1) :: u32) = of_nat (Suc i)" by simp
    then show ?thesis using i by (simp only: unat_of_nat_u32)
  qed
  then have lt: "\<not> (128 :: u32) < word_of_int (int i + 1)" using i by (simp add: word_less_nat_alt)
  have idx: "nat (int i + 1) - Suc 0 = i" "\<not> int i + 1 < 1" by simp_all
  show ?thesis
    unfolding get_partition_info_efi_def using v e num lt i bs
    by (simp add: GPT_PRIMARY_PARTITION_TABLE_LBA_def idx Let_def)
qed

end

lemma header_wf_fill:
  assumes "gpt_fill_header desc empty_header g = Some (0, h)"
  shows "header_wf (lba desc) h"
proof -
  obtain u where u: "parse_uuid g = Some (Some u)"
    using assms by (auto simp: gpt_fill_header_def Let_def split: option.splits)
  have "length (disk_guid h) = 16" and "h = h\<lparr>disk_guid := u\<rparr>"
    using assms parse_uuid_length [OF u] by (auto simp: gpt_fill_header_def Let_def u)
  then show ?thesis using assms by (auto simp: gpt_fill_header_def Let_def u header_wf_def GPT_ENTRY_NUMBERS_def)
qed

lemma fill_pte_wf:
  assumes "gpt_fill_pte h (replicate 128 empty_entry) ps = Some (0, es)"
  shows "length es = 128" and "\<forall>e\<in>set es. entry_wf e"
proof -
  have "\<forall>e\<in>set (replicate 128 empty_entry). entry_wf e" by (simp add: entry_wf_def empty_entry_def)
  from fill_loop_wf [OF assms [unfolded gpt_fill_pte_def] this]
  show "length es = 128" and "\<forall>e\<in>set es. entry_wf e" by simp_all
qed

context block_device
begin

lemma gpt_restore_table:
  assumes g: "good d" and bs: "blksz desc = 512" and n: "68 \<le> unat (lba desc)" and a: "65536 \<le> unat a"
    and h: "gpt_fill_header desc empty_header sg = Some (0, h)"
    and es: "gpt_fill_pte h (replicate 128 empty_entry) ps = Some (0, es)"
  shows "\<exists>d' a'. gpt_restore sp desc sg ps (d, a) = Some (0, d', a') \<and> good d'
    \<and> table_on_device (lba desc) h es (blk d') \<and> 17408 \<le> unat a'"
proof -
  obtain a1 where a1: "try_calloc sp 512 a = (True, a1)" "unat a \<le> unat a1 + 1535"
    using try_calloc_ok [of 512 a sp] a by auto
  obtain a2 where a2: "try_calloc sp 16384 a1 = (True, a2)" "unat a1 \<le> unat a2 + 17407"
    using try_calloc_ok [of 16384 a1 sp] a a1(2) by auto
  have room: "2048 \<le> unat a2" and more: "18943 \<le> unat a2" using a a1(2) a2(2) by simp_all
  obtain d' a' where w: "write_gpt_table sp desc h es (d, a2) = Some (0, d', a')" "good d'"
      "table_on_device (lba desc) h es (blk d')" "unat a2 \<le> unat a' + 1535"
    using write_gpt_table_ok [OF g bs n header_wf_fill [OF h] fill_pte_wf [OF es] room, of sp] by blast
  have "unat GPT_ENTRY_NUMBERS = 128" by (simp add: GPT_ENTRY_NUMBERS_def)
  then have "gpt_restore sp desc sg ps (d, a) = Some (0, d', a')"
    unfolding gpt_restore_def sizes_512 [OF bs] using a1(1) a2(1) h es w(1) by simp
  then show ?thesis using w more by auto
qed

end

section \<open>Writing a table and reading it\<close>

text \<open>
  C9. On a device that keeps what is written to it, a table that \<open>gpt_restore\<close> accepts is written so that
  the MBR test and the check of the table succeed, and the entries that are read are those that were
  filled in.
\<close>

theorem gpt_restore_valid:
  assumes "block_device desc good blk" and "good d" and "blksz desc = 512" and "68 \<le> unat (lba desc)"
    and "65536 \<le> unat a"
    and "gpt_fill_header desc empty_header sg = Some (0, h)"
    and "gpt_fill_pte h (replicate 128 empty_entry) ps = Some (0, es)"
  shows "\<exists>d' a'. gpt_restore sp desc sg ps (d, a) = Some (0, d', a')
    \<and> (\<exists>d''. test_part_efi desc d' = Some (0, d''))
    \<and> (\<exists>h' pte d'' a''. is_gpt_valid sp desc GPT_PRIMARY_PARTITION_TABLE_LBA (d', a') = Some (Some (h', pte), d'', a'')
        \<and> disk_guid h' = disk_guid h \<and> (\<forall>i<128. nth_entry pte i = Some (es ! i)))"
proof -
  note wf = header_wf_fill [OF assms(6)] fill_pte_wf [OF assms(7)]
  obtain d' a' where r: "gpt_restore sp desc sg ps (d, a) = Some (0, d', a')" "good d'"
      "table_on_device (lba desc) h es (blk d')" "17408 \<le> unat a'"
    using block_device.gpt_restore_table [OF assms] by blast
  have t: "\<exists>d''. test_part_efi desc d' = Some (0, d'')"
    using block_device.test_part_efi_table [OF assms(1) r(2) _ r(3)] assms(4) by auto
  obtain d'' a'' where v: "is_gpt_valid sp desc 1 (d', a')
      = Some (Some (primary_header h es, concat (map gpt_entry_bytes es)), d'', a'')"
    using block_device.is_gpt_valid_table [OF assms(1) r(2) assms(3,4) wf r(3,4)] by blast
  have "nth_entry (concat (map gpt_entry_bytes es)) i = Some (es ! i)" if "i < 128" for i
    using nth_entry_bytes [OF wf(3), of i "[]"] wf(2) that by simp
  moreover have "disk_guid (primary_header h es) = disk_guid h" by (simp add: primary_header_def seal_def)
  ultimately show ?thesis using r(1) t v unfolding GPT_PRIMARY_PARTITION_TABLE_LBA_def by blast
qed

text \<open>
  C3. After \<open>gpt_restore\<close> accepted a list of partitions that are numbered without wrapping, the lookup of
  the partition with number \<open>i + 1\<close> returns the start (where one was asked for) and the size of the \<open>i\<close>-th
  element of the list.
\<close>

theorem gpt_restore_lookup:
  assumes "block_device desc good blk" and "good d" and "blksz desc = 512" and "68 \<le> unat (lba desc)"
    and "65536 \<le> unat a"
    and "gpt_fill_header desc empty_header sg = Some (0, h)"
    and "gpt_fill_pte h (replicate 128 empty_entry) ps = Some (0, es)"
    and "\<forall>p\<in>set ps. unat (part_start p) + unat (part_size p) < 2 ^ 32
      \<and> unat (lba desc) + unat (part_size p) < 2 ^ 32"
    and "i < length ps" and "part_size (ps ! i) \<noteq> 0"
  shows "\<exists>d' a' info' st. gpt_restore sp desc sg ps (d, a) = Some (0, d', a')
    \<and> get_partition_info_efi sp desc (int i + 1) info (d', a') = Some ((0, info'), st)
    \<and> (part_start (ps ! i) \<noteq> 0 \<longrightarrow> part_start info' = part_start (ps ! i))
    \<and> part_size info' = part_size (ps ! i) \<and> part_blksz info' = 512"
proof -
  note wf = header_wf_fill [OF assms(6)] fill_pte_wf [OF assms(7)]
  have lu: "unat (last_usable_lba h) = unat (lba desc) - 34" "first_usable_lba h = 34"
    using wf(1) assms(4) by (simp_all add: header_wf_def unat_ucast_u32_u64 unat_sub_small)
  have fit: "first_usable_lba h \<noteq> 0" "first_usable_lba h \<le> last_usable_lba h" "unat (last_usable_lba h) < 2 ^ 32"
    using lu assms(4) unat_u32_less [of "lba desc"] by (simp_all add: word_le_nat_alt)
  have w: "\<forall>p\<in>set ps. unat (part_start p) + unat (part_size p) < 2 ^ 32
      \<and> unat (last_usable_lba h) + unat (part_size p) < 2 ^ 32"
    using assms(8) lu(1) by fastforce
  note B = filled_bounds [OF assms(7) fit w assms(9)]
  let ?e = "es ! i" and ?l = "layout (ucast (first_usable_lba h)) ps ! i"
  have i: "i < 128" and v: "is_pte_valid ?e"
    using filled_valid [OF assms(7,9)] by simp_all
  have l: "part_start (ps ! i) \<noteq> 0 \<longrightarrow> ?l = part_start (ps ! i)"
    using fill_loop_layout [OF assms(7) [unfolded gpt_fill_pte_def] w] assms(4,9) lu
    by (simp add: unat_ucast_u64_u32)
  have start: "ucast (starting_lba ?e) = ?l" by (simp add: B(1) ucast_ucast_u32)
  have "ending_lba ?e + 1 - starting_lba ?e = ucast (part_size (ps ! i))"
  proof -
    have ub: "unat (ending_lba ?e) + 1 = unat (starting_lba ?e) + unat (part_size (ps ! i))"
      using B(2,3) assms(10) by simp
    then have "(of_nat (unat (ending_lba ?e) + 1) :: u64) = of_nat (unat (starting_lba ?e) + unat (part_size (ps ! i)))"
      by (rule arg_cong)
    then show ?thesis by (simp add: diff_eq_eq add.commute)
  qed
  then have sz: "ucast (ending_lba ?e + 1 - ucast ?l) = part_size (ps ! i)"
    by (simp add: B(1) ucast_ucast_u32)
  obtain d' a' where r: "gpt_restore sp desc sg ps (d, a) = Some (0, d', a')" "good d'"
      "table_on_device (lba desc) h es (blk d')" "17408 \<le> unat a'"
    using block_device.gpt_restore_table [OF assms(1-7)] by blast
  obtain info' st where "get_partition_info_efi sp desc (int i + 1) info (d', a') = Some ((0, info'), st)"
      "part_start info' = ucast (starting_lba ?e)" "part_blksz info' = 512"
      "part_size info' = ucast (ending_lba ?e + 1 - ucast (part_start info'))"
    using block_device.get_partition_info_table [OF assms(1) r(2) assms(3,4) wf r(3,4) i v] by blast
  then show ?thesis using r(1) l sz unfolding start by metis
qed

text \<open>A table of two partitions on the emulated card.\<close>

definition demo_uuid :: bytes where
  "demo_uuid = uuid_string (replicate 16 171) @ [0]"

definition demo_part :: "u32 \<Rightarrow> u32 \<Rightarrow> disk_partition" where
  "demo_part s n = \<lparr>part_start = s, part_size = n, part_blksz = 512, part_label = replicate 32 97,
     part_type = replicate 32 0, part_bootable = False, part_uuid = demo_uuid\<rparr>"

definition demo_parts :: "disk_partition list" where
  "demo_parts = [demo_part 256 512, demo_part 0 4096]"

definition demo_header :: gpt_header where
  "demo_header = empty_header\<lparr>signature := GPT_HEADER_SIGNATURE, revision := GPT_HEADER_REVISION_V1, header_size := 92,
     my_lba := 1, alternate_lba := 0x3fffff, first_usable_lba := 34, last_usable_lba := 0x3fffde,
     partition_entry_lba := 2, num_partition_entries := GPT_ENTRY_NUMBERS, sizeof_partition_entry := 128,
     header_crc32 := 0, partition_entry_array_crc32 := 0, disk_guid := replicate 16 171\<rparr>"

lemma parse_demo_uuid: "parse_uuid demo_uuid = Some (Some (replicate 16 171))"
  by (simp add: demo_uuid_def parse_uuid_string)

lemma demo_header_fill:
  "gpt_fill_header (mmc_block_dev sim_host sim_mmc) empty_header demo_uuid = Some (0, demo_header)"
  by (simp add: gpt_fill_header_def parse_demo_uuid demo_header_def mmc_block_dev_def sim_mmc_def)

lemma demo_fill: "\<exists>es. gpt_fill_pte demo_header (replicate 128 empty_entry) demo_parts = Some (0, es)"
  by (simp add: gpt_fill_pte_def demo_parts_def demo_part_def parse_demo_uuid demo_header_def)

lemma demo_fits:
  "\<forall>p\<in>set demo_parts. unat (part_start p) + unat (part_size p) < 2 ^ 32
    \<and> unat (0x400000 :: u32) + unat (part_size p) < 2 ^ 32"
  by (simp add: demo_parts_def demo_part_def)

lemma gpt_fill_pte_sound_witness:
  "\<exists>es. gpt_fill_pte demo_header (replicate 128 empty_entry) demo_parts = Some (0, es)
    \<and> ending_lba (es ! 0) < starting_lba (es ! 1)"
proof -
  obtain es where es: "gpt_fill_pte demo_header (replicate 128 empty_entry) demo_parts = Some (0, es)"
    using demo_fill by blast
  have u: "first_usable_lba demo_header \<noteq> 0" "first_usable_lba demo_header \<le> last_usable_lba demo_header"
    "unat (last_usable_lba demo_header) < 2 ^ 32"
    by (simp_all add: demo_header_def)
  have w: "\<forall>p\<in>set demo_parts. unat (part_start p) + unat (part_size p) < 2 ^ 32
      \<and> unat (last_usable_lba demo_header) + unat (part_size p) < 2 ^ 32"
    by (simp add: demo_parts_def demo_part_def demo_header_def)
  have "length demo_parts = 2" by (simp add: demo_parts_def)
  then show ?thesis using gpt_fill_pte_sound [OF es u w] es by auto
qed

lemma gpt_restore_valid_witness:
  "\<exists>w a. gpt_restore 0 (mmc_block_dev sim_host sim_mmc) demo_uuid demo_parts (sim_world, 0x1000000) = Some (0, w, a)"
proof -
  obtain es where es: "gpt_fill_pte demo_header (replicate 128 empty_entry) demo_parts = Some (0, es)"
    using demo_fill by blast
  have d: "blksz (mmc_block_dev sim_host sim_mmc) = 512" "68 \<le> unat (lba (mmc_block_dev sim_host sim_mmc))"
    "65536 \<le> unat (0x1000000 :: u32)"
    by (simp_all add: mmc_block_dev_def sim_mmc_def)
  show ?thesis
    using gpt_restore_valid [OF simdev.block_device_axioms sim_world_good d demo_header_fill es, of 0] by blast
qed

lemma gpt_restore_lookup_witness:
  "\<exists>w a info st. gpt_restore 0 (mmc_block_dev sim_host sim_mmc) demo_uuid demo_parts (sim_world, 0x1000000) = Some (0, w, a)
    \<and> get_partition_info_efi 0 (mmc_block_dev sim_host sim_mmc) 1 (demo_part 0 0) (w, a) = Some ((0, info), st)
    \<and> part_start info = 256 \<and> part_size info = 512"
proof -
  obtain es where es: "gpt_fill_pte demo_header (replicate 128 empty_entry) demo_parts = Some (0, es)"
    using demo_fill by blast
  have d: "blksz (mmc_block_dev sim_host sim_mmc) = 512" "68 \<le> unat (lba (mmc_block_dev sim_host sim_mmc))"
    "65536 \<le> unat (0x1000000 :: u32)" and l: "lba (mmc_block_dev sim_host sim_mmc) = 0x400000"
    by (simp_all add: mmc_block_dev_def sim_mmc_def)
  have p: "0 < length demo_parts" "part_size (demo_parts ! 0) \<noteq> 0" by (simp_all add: demo_parts_def demo_part_def)
  show ?thesis
    using gpt_restore_lookup [OF simdev.block_device_axioms sim_world_good d demo_header_fill es
        demo_fits [folded l] p, of 0 "demo_part 0 0"]
    by (auto simp: demo_parts_def demo_part_def)
qed

end
