(* ===== verification/MmcInit.thy ===== *)
theory MmcInit
  imports Mmc
begin

text \<open>
  drivers/mmc/mmc.c: identification and set-up of a card: voltage negotiation, the registers CSD,
  EXT\_CSD and SCR, bus width, clock and the geometry of the block device.  Delays, messages and the
  vendor strings are left out; the partition probe \<open>init_part\<close> of disk/part.c is an argument of
  \<open>mmc_startup\<close>.
\<close>

section \<open>Commands\<close>

abbreviation "MMC_CMD_ALL_SEND_CID \<equiv> 2 :: u16"
abbreviation "SD_CMD_SEND_RELATIVE_ADDR \<equiv> 3 :: u16"
abbreviation "SD_CMD_SWITCH_FUNC \<equiv> 6 :: u16"
abbreviation "SD_CMD_APP_SET_BUS_WIDTH \<equiv> 6 :: u16"
abbreviation "MMC_CMD_SELECT_CARD \<equiv> 7 :: u16"
abbreviation "SD_CMD_SEND_IF_COND \<equiv> 8 :: u16"
abbreviation "MMC_CMD_SEND_CSD \<equiv> 9 :: u16"
abbreviation "MMC_CMD_SEND_CID \<equiv> 10 :: u16"
abbreviation "SD_CMD_APP_SEND_OP_COND \<equiv> 41 :: u16"
abbreviation "SD_CMD_APP_SEND_SCR \<equiv> 51 :: u16"
abbreviation "MMC_CMD_APP_CMD \<equiv> 55 :: u16"
abbreviation "MMC_CMD_SPI_READ_OCR \<equiv> 58 :: u16"

abbreviation "MMC_RSP_NONE \<equiv> 0 :: u32"
abbreviation "MMC_RSP_R2 \<equiv> 7 :: u32"
abbreviation "MMC_RSP_R3 \<equiv> 1 :: u32"
abbreviation "MMC_RSP_R6 \<equiv> 0x15 :: u32"
abbreviation "MMC_RSP_R7 \<equiv> 0x15 :: u32"

abbreviation "OCR_BUSY \<equiv> 0x80000000 :: u32"
abbreviation "OCR_HCS \<equiv> 0x40000000 :: u32"
abbreviation "OCR_VOLTAGE_MASK \<equiv> 0x007FFF80 :: u32"
abbreviation "OCR_ACCESS_MODE \<equiv> 0x60000000 :: u32"

abbreviation "SD_VERSION_2 \<equiv> 0x20020 :: u32"
abbreviation "SD_VERSION_1_0 \<equiv> 0x20010 :: u32"
abbreviation "SD_VERSION_1_10 \<equiv> 0x2001a :: u32"
abbreviation "MMC_VERSION_UNKNOWN \<equiv> 0x10000 :: u32"
abbreviation "MMC_VERSION_1_2 \<equiv> 0x10012 :: u32"
abbreviation "MMC_VERSION_1_4 \<equiv> 0x10014 :: u32"
abbreviation "MMC_VERSION_2_2 \<equiv> 0x10022 :: u32"
abbreviation "MMC_VERSION_3 \<equiv> 0x10030 :: u32"
abbreviation "MMC_VERSION_4 \<equiv> 0x10040 :: u32"

abbreviation "MMC_MODE_HS \<equiv> 0x001 :: u32"
abbreviation "MMC_MODE_HS_52MHz \<equiv> 0x010 :: u32"
abbreviation "MMC_MODE_4BIT \<equiv> 0x100 :: u32"
abbreviation "MMC_MODE_HC \<equiv> 0x800 :: u32"
abbreviation "SD_DATA_4BIT \<equiv> 0x00040000 :: u32"
abbreviation "SD_HIGHSPEED_BUSY \<equiv> 0x00020000 :: u32"
abbreviation "SD_HIGHSPEED_SUPPORTED \<equiv> 0x00020000 :: u32"

text \<open>A command without data; the shape all of them share in the source.\<close>

definition send_simple ::
  "'h mmc_host \<Rightarrow> nat \<Rightarrow> u16 \<Rightarrow> u32 \<Rightarrow> u32 \<Rightarrow> 'h mmc_world \<Rightarrow> (int \<times> u32 list) \<times> 'h mmc_world" where
  "send_simple drv p idx rsp arg w =
     (let ((err, resp, _), w) = mmc_send_cmd drv p
            \<lparr>cmdidx = idx, resp_type = rsp, cmdarg = arg, cmd_flags = 0\<rparr> None w
      in ((err, resp), w))"

definition mmc_go_idle :: "'h mmc_host \<Rightarrow> nat \<Rightarrow> 'h mmc_world \<Rightarrow> int \<times> 'h mmc_world" where
  "mmc_go_idle drv p w =
     (let ((err, _), w) = send_simple drv p MMC_CMD_GO_IDLE_STATE MMC_RSP_NONE 0 w
      in if err \<noteq> 0 then (err, w) else (0, w))"

section \<open>Operating conditions\<close>

text \<open>
  The negotiation loops end with an error, or with the counter and the last response; a counter of
  \<open>- 1\<close> is running out.
\<close>

fun sd_op_loop ::
  "'h mmc_host \<Rightarrow> nat \<Rightarrow> nat \<Rightarrow> 'h mmc_world \<Rightarrow> (int + int \<times> u32) \<times> 'h mmc_world" where
  "sd_op_loop drv p timeout w =
     (let ((err, _), w) = send_simple drv p MMC_CMD_APP_CMD MMC_RSP_R1 0 w
      in if err \<noteq> 0 then (Inl err, w)
         else
           let m = mmc_at p w;
               arg = (if mmc_host_is_spi m then 0 else voltages m AND 0xff8000);
               arg = (if version m = SD_VERSION_2 then arg OR OCR_HCS else arg);
               ((err, resp), w) = send_simple drv p SD_CMD_APP_SEND_OP_COND MMC_RSP_R3 arg w
           in if err \<noteq> 0 then (Inl err, w)
              else if resp ! 0 AND OCR_BUSY \<noteq> 0 then (Inr (int timeout, resp ! 0), w)
              else (case timeout of 0 \<Rightarrow> (Inr (- 1, resp ! 0), w) | Suc t \<Rightarrow> sd_op_loop drv p t w))"

declare sd_op_loop.simps [simp del]

text \<open>The OCR as the code stores it: read again over SPI.\<close>

definition final_ocr :: "'h mmc_host \<Rightarrow> nat \<Rightarrow> u32 \<Rightarrow> 'h mmc_world \<Rightarrow> (int + u32) \<times> 'h mmc_world" where
  "final_ocr drv p resp0 w =
     (if mmc_host_is_spi (mmc_at p w) then
        (let ((err, resp), w) = send_simple drv p MMC_CMD_SPI_READ_OCR MMC_RSP_R3 0 w
         in if err \<noteq> 0 then (Inl err, w) else (Inr (resp ! 0), w))
      else (Inr resp0, w))"

definition sd_send_op_cond :: "'h mmc_host \<Rightarrow> nat \<Rightarrow> 'h mmc_world \<Rightarrow> int \<times> 'h mmc_world" where
  "sd_send_op_cond drv p w =
     (case sd_op_loop drv p 1000 w of
        (Inl err, w) \<Rightarrow> (err, w)
      | (Inr (timeout, resp0), w) \<Rightarrow>
          if timeout \<le> 0 then (UNUSABLE_ERR, w)
          else
            let w = (if version (mmc_at p w) \<noteq> SD_VERSION_2
                     then set_mmc p (\<lambda>m. m\<lparr>version := SD_VERSION_1_0\<rparr>) w else w)
            in case final_ocr drv p resp0 w of
                 (Inl err, w) \<Rightarrow> (err, w)
               | (Inr oc, w) \<Rightarrow>
                   (0, set_mmc p (\<lambda>m. m\<lparr>ocr := oc, high_capacity := (oc AND OCR_HCS = OCR_HCS), rca := 0\<rparr>) w))"

fun mmc_op_loop ::
  "'h mmc_host \<Rightarrow> nat \<Rightarrow> u32 \<Rightarrow> nat \<Rightarrow> 'h mmc_world \<Rightarrow> (int + int \<times> u32) \<times> 'h mmc_world" where
  "mmc_op_loop drv p prev timeout w =
     (let m = mmc_at p w;
          arg = (if mmc_host_is_spi m then 0
                 else (voltages m AND (prev AND OCR_VOLTAGE_MASK)) OR (prev AND OCR_ACCESS_MODE));
          arg = (if host_caps m AND MMC_MODE_HC \<noteq> 0 then arg OR OCR_HCS else arg);
          ((err, resp), w) = send_simple drv p MMC_CMD_SEND_OP_COND MMC_RSP_R3 arg w
      in if err \<noteq> 0 then (Inl err, w)
         else if resp ! 0 AND OCR_BUSY \<noteq> 0 then (Inr (int timeout, resp ! 0), w)
         else (case timeout of 0 \<Rightarrow> (Inr (- 1, resp ! 0), w) | Suc t \<Rightarrow> mmc_op_loop drv p (resp ! 0) t w))"

declare mmc_op_loop.simps [simp del]

definition mmc_send_op_cond :: "'h mmc_host \<Rightarrow> nat \<Rightarrow> 'h mmc_world \<Rightarrow> int \<times> 'h mmc_world" where
  "mmc_send_op_cond drv p w =
     (let (_, w) = mmc_go_idle drv p w;
          ((err, resp), w) = send_simple drv p MMC_CMD_SEND_OP_COND MMC_RSP_R3 0x40ff8080 w
      in if err \<noteq> 0 then (err, w)
         else case mmc_op_loop drv p (resp ! 0) 10000 w of
           (Inl err, w) \<Rightarrow> (err, w)
         | (Inr (timeout, resp0), w) \<Rightarrow>
             if timeout \<le> 0 then (UNUSABLE_ERR, w)
             else case final_ocr drv p resp0 w of
                 (Inl err, w) \<Rightarrow> (err, w)
               | (Inr oc, w) \<Rightarrow>
                   (0, set_mmc p (\<lambda>m. m\<lparr>version := MMC_VERSION_UNKNOWN, ocr := oc,
                          high_capacity := (oc AND OCR_HCS = OCR_HCS), rca := 0\<rparr>) w))"

definition mmc_send_if_cond :: "'h mmc_host \<Rightarrow> nat \<Rightarrow> 'h mmc_world \<Rightarrow> int \<times> 'h mmc_world" where
  "mmc_send_if_cond drv p w =
     (let arg = (push_bit 8 (if voltages (mmc_at p w) AND 0xff8000 \<noteq> 0 then 1 else 0)) OR 0xaa;
          ((err, resp), w) = send_simple drv p SD_CMD_SEND_IF_COND MMC_RSP_R7 arg w
      in if err \<noteq> 0 then (err, w)
         else if resp ! 0 AND 0xff \<noteq> 0xaa then (UNUSABLE_ERR, w)
         else (0, set_mmc p (\<lambda>m. m\<lparr>version := SD_VERSION_2\<rparr>) w))"

section \<open>Capabilities\<close>

text \<open>A read of \<open>n\<close> bytes into a buffer: the host may store fewer.\<close>

definition into_buffer :: "bytes \<Rightarrow> bytes \<Rightarrow> bytes" where
  "into_buffer old got = got @ drop (length got) old"

definition mmc_send_ext_csd ::
  "'h mmc_host \<Rightarrow> nat \<Rightarrow> bytes \<Rightarrow> 'h mmc_world \<Rightarrow> (int \<times> bytes) \<times> 'h mmc_world" where
  "mmc_send_ext_csd drv p ext_csd w =
     (let ((err, _, got), w) = mmc_send_cmd drv p
            \<lparr>cmdidx = MMC_CMD_SEND_EXT_CSD, resp_type = MMC_RSP_R1, cmdarg = 0, cmd_flags = 0\<rparr>
            (Some \<lparr>src = [], data_flags = MMC_DATA_READ, blocks = 1, blocksize = 512\<rparr>) w
      in ((err, into_buffer ext_csd got), w))"

definition mmc_change_freq :: "'h mmc_host \<Rightarrow> nat \<Rightarrow> bytes \<Rightarrow> 'h mmc_world \<Rightarrow> int \<times> 'h mmc_world" where
  "mmc_change_freq drv p ext_csd w =
     (let w = set_mmc p (\<lambda>m. m\<lparr>card_caps := 0\<rparr>) w
      in if mmc_host_is_spi (mmc_at p w) then (0, w)
         else if version (mmc_at p w) < MMC_VERSION_4 then (0, w)
         else
           let ((err, ext_csd), w) = mmc_send_ext_csd drv p ext_csd w
           in if err \<noteq> 0 then (err, w)
              else
                let cardtype = ext_csd ! 196 AND 0xf;
                    (err, w) = mmc_switch drv p 1 185 1 w
                in if err \<noteq> 0 then (err, w)
                   else
                     let ((err, ext_csd), w) = mmc_send_ext_csd drv p ext_csd w
                     in if err \<noteq> 0 then (err, w)
                        else if ext_csd ! 185 = 0 then (0, w)
                        else if cardtype AND 2 \<noteq> 0
                        then (0, set_mmc p (\<lambda>m. m\<lparr>card_caps := card_caps m OR (MMC_MODE_HS_52MHz OR MMC_MODE_HS)\<rparr>) w)
                        else (0, set_mmc p (\<lambda>m. m\<lparr>card_caps := card_caps m OR MMC_MODE_HS\<rparr>) w))"

definition sd_switch ::
  "'h mmc_host \<Rightarrow> nat \<Rightarrow> u32 \<Rightarrow> nat \<Rightarrow> u8 \<Rightarrow> bytes \<Rightarrow> 'h mmc_world \<Rightarrow> (int \<times> bytes) \<times> 'h mmc_world" where
  "sd_switch drv p mode grp value resp w =
     (let arg = push_bit 31 mode OR 0xffffff;
          arg = arg AND NOT (push_bit (grp * 4) 0xf);
          arg = arg OR push_bit (grp * 4) (ucast value);
          ((err, _, got), w) = mmc_send_cmd drv p
            \<lparr>cmdidx = SD_CMD_SWITCH_FUNC, resp_type = MMC_RSP_R1, cmdarg = arg, cmd_flags = 0\<rparr>
            (Some \<lparr>src = [], data_flags = MMC_DATA_READ, blocks = 1, blocksize = 64\<rparr>) w
      in ((err, into_buffer resp got), w))"

text \<open>\<open>retry_scr\<close>: up to four reads of the SCR.\<close>

fun scr_loop :: "'h mmc_host \<Rightarrow> nat \<Rightarrow> nat \<Rightarrow> bytes \<Rightarrow> 'h mmc_world \<Rightarrow> (int \<times> bytes) \<times> 'h mmc_world" where
  "scr_loop drv p timeout buf w =
     (let ((err, _, got), w) = mmc_send_cmd drv p
            \<lparr>cmdidx = SD_CMD_APP_SEND_SCR, resp_type = MMC_RSP_R1, cmdarg = 0, cmd_flags = 0\<rparr>
            (Some \<lparr>src = [], data_flags = MMC_DATA_READ, blocks = 1, blocksize = 8\<rparr>) w;
          buf = into_buffer buf got
      in if err \<noteq> 0 then (case timeout of 0 \<Rightarrow> ((err, buf), w) | Suc t \<Rightarrow> scr_loop drv p t buf w)
         else ((0, buf), w))"

declare scr_loop.simps [simp del]

definition be_word_at :: "bytes \<Rightarrow> nat \<Rightarrow> u32" where
  "be_word_at buf i = be_word (take 4 (drop (4 * i) buf))"

fun check_loop :: "'h mmc_host \<Rightarrow> nat \<Rightarrow> nat \<Rightarrow> bytes \<Rightarrow> 'h mmc_world \<Rightarrow> (int \<times> bytes) \<times> 'h mmc_world" where
  "check_loop drv p 0 st w = ((0, st), w)"
| "check_loop drv p (Suc t) st w =
     (let ((err, st), w) = sd_switch drv p 0 0 1 st w
      in if err \<noteq> 0 then ((err, st), w)
         else if be_word_at st 7 AND SD_HIGHSPEED_BUSY = 0 then ((0, st), w)
         else check_loop drv p t st w)"

text \<open>\<open>sbuf\<close> and \<open>st\<close> are the uninitialised buffers \<open>scr\<close> and \<open>switch_status\<close>.\<close>

definition sd_change_freq :: "'h mmc_host \<Rightarrow> nat \<Rightarrow> bytes \<Rightarrow> bytes \<Rightarrow> 'h mmc_world \<Rightarrow> int \<times> 'h mmc_world" where
  "sd_change_freq drv p sbuf st w =
     (let w = set_mmc p (\<lambda>m. m\<lparr>card_caps := 0\<rparr>) w
      in if mmc_host_is_spi (mmc_at p w) then (0, w)
         else
           let ((err, _), w) = send_simple drv p MMC_CMD_APP_CMD MMC_RSP_R1 (push_bit 16 (ucast (rca (mmc_at p w)))) w
           in if err \<noteq> 0 then (err, w)
              else
                let ((err, sbuf), w) = scr_loop drv p 3 sbuf w
                in if err \<noteq> 0 then (err, w)
                   else
                     let s0 = be_word_at sbuf 0; s1 = be_word_at sbuf 1;
                         v = drop_bit 24 s0 AND 0xf;
                         ver = (if v = 0 then SD_VERSION_1_0 else if v = 1 then SD_VERSION_1_10
                                else if v = 2 then SD_VERSION_2 else SD_VERSION_1_0);
                         w = set_mmc p (\<lambda>m. m\<lparr>scr := [s0, s1], version := ver,
                               card_caps := (if s0 AND SD_DATA_4BIT \<noteq> 0 then card_caps m OR MMC_MODE_4BIT
                                             else card_caps m)\<rparr>) w
                     in if ver = SD_VERSION_1_0 then (0, w)
                        else
                          let ((err, st), w) = check_loop drv p 4 st w
                          in if err \<noteq> 0 then (err, w)
                             else if be_word_at st 3 AND SD_HIGHSPEED_SUPPORTED = 0 then (0, w)
                             else
                               let ((err, st), w) = sd_switch drv p 1 0 1 st w
                               in if err \<noteq> 0 then (err, w)
                                  else if be_word_at st 4 AND 0x0f000000 = 0x01000000
                                  then (0, set_mmc p (\<lambda>m. m\<lparr>card_caps := card_caps m OR MMC_MODE_HS\<rparr>) w)
                                  else (0, w))"

definition mmc_set_ios :: "'h mmc_host \<Rightarrow> nat \<Rightarrow> 'h mmc_world \<Rightarrow> 'h mmc_world" where
  "mmc_set_ios drv p w = w\<lparr>host := set_ios drv (mmc_at p w) (host w)\<rparr>"

definition mmc_set_clock :: "'h mmc_host \<Rightarrow> nat \<Rightarrow> u32 \<Rightarrow> 'h mmc_world \<Rightarrow> 'h mmc_world" where
  "mmc_set_clock drv p clk w =
     (let m = mmc_at p w;
          clk = (if clk > f_max m then f_max m else clk);
          clk = (if clk < f_min m then f_min m else clk)
      in mmc_set_ios drv p (set_mmc p (\<lambda>m. m\<lparr>clock := clk\<rparr>) w))"

definition mmc_set_bus_width :: "'h mmc_host \<Rightarrow> nat \<Rightarrow> u32 \<Rightarrow> 'h mmc_world \<Rightarrow> 'h mmc_world" where
  "mmc_set_bus_width drv p width w = mmc_set_ios drv p (set_mmc p (\<lambda>m. m\<lparr>bus_width := width\<rparr>) w)"

section \<open>Start-up\<close>

definition fbase :: "u32 list" where
  "fbase = [10000, 100000, 1000000, 10000000]"

definition multipliers :: "u32 list" where
  "multipliers = [0, 10, 12, 13, 15, 20, 25, 30, 35, 40, 45, 50, 55, 60, 70, 80]"

text \<open>
  The card-specific data.  The frequency table has four entries and the index eight values: for an
  index past the table the code reads past it, and there is no defined result.
\<close>

definition csd_version :: "u32 \<Rightarrow> u32 \<Rightarrow> u32" where
  "csd_version ver resp0 =
     (if ver = MMC_VERSION_UNKNOWN then
        (let v = drop_bit 26 resp0 AND 0xf
         in if v = 0 then MMC_VERSION_1_2 else if v = 1 then MMC_VERSION_1_4
            else if v = 2 then MMC_VERSION_2_2 else if v = 3 then MMC_VERSION_3
            else if v = 4 then MMC_VERSION_4 else MMC_VERSION_1_2)
      else ver)"

definition csd_capacity :: "bool \<Rightarrow> u32 \<Rightarrow> u32 \<Rightarrow> u32 \<Rightarrow> u64" where
  "csd_capacity hc csd1 csd2 bl_len =
     (let csize = (if hc then push_bit 16 (csd1 AND 0x3f) OR drop_bit 16 (csd2 AND 0xffff0000)
                   else push_bit 2 (csd1 AND 0x3ff) OR drop_bit 30 (csd2 AND 0xc0000000));
          cmult = (if hc then 8 else drop_bit 15 (csd2 AND 0x00038000))
      in push_bit (unat cmult + 2) (ucast csize + 1) * ucast bl_len)"

definition startup_csd :: "u32 list \<Rightarrow> mmc \<Rightarrow> mmc option" where
  "startup_csd resp m =
     (let i = unat (resp ! 0 AND 0x7)
      in if length fbase \<le> i then None
         else
           let ver = csd_version (version m) (resp ! 0);
               tr = fbase ! i * multipliers ! unat (drop_bit 3 (resp ! 0) AND 0xf);
               rl = push_bit (unat (drop_bit 16 (resp ! 1) AND 0xf)) 1;
               wl = (if ver AND 0x20000 \<noteq> 0 then rl else push_bit (unat (drop_bit 22 (resp ! 3) AND 0xf)) 1);
               cap = csd_capacity (high_capacity m) (resp ! 1) (resp ! 2) rl
           in Some (m\<lparr>csd := take 4 resp, version := ver, tran_speed := tr,
                read_bl_len := (if rl > 512 then 512 else rl),
                write_bl_len := (if wl > 512 then 512 else wl), capacity := cap\<rparr>))"

text \<open>
  The extended data of version-4 cards.  The sector count is assembled in a signed \<open>int\<close>, so a count
  with the top bit set is extended with ones when it is widened.
\<close>

definition ext_capacity :: "bytes \<Rightarrow> u64" where
  "ext_capacity ext_csd = scast (le_word (take 4 (drop 212 ext_csd)) :: u32) * 512"

definition startup_ext :: "int \<Rightarrow> bytes \<Rightarrow> mmc \<Rightarrow> mmc" where
  "startup_ext err ext_csd m =
     (let cap = ext_capacity ext_csd;
          m = (if err = 0 \<and> ext_csd ! 192 \<ge> 2 \<and> drop_bit 20 cap > 2 * 1024 then m\<lparr>capacity := cap\<rparr> else m);
          m = (if ext_csd ! 175 \<noteq> 0 then m\<lparr>erase_grp_size := ucast (ext_csd ! 224) * 512 * 1024\<rparr>
               else m\<lparr>erase_grp_size := (drop_bit 10 (csd m ! 2 AND 0x00007c00) + 1)
                        * (drop_bit 5 (csd m ! 2 AND 0x000003e0) + 1)\<rparr>);
          m = (if ext_csd ! 160 AND 1 \<noteq> 0 then m\<lparr>part_config := ext_csd ! 179\<rparr> else m)
      in m\<lparr>boot_part_size := ucast (ext_csd ! 226) * 128 * 1024\<rparr>)"

text \<open>The widths 8, 4 and 1: the first whose read of EXT\_CSD agrees with the one before.\<close>

definition ext_csd_agrees :: "bytes \<Rightarrow> bytes \<Rightarrow> bool" where
  "ext_csd_agrees ext_csd test_csd \<longleftrightarrow>
     ext_csd ! 160 = test_csd ! 160 \<and> ext_csd ! 175 = test_csd ! 175 \<and> ext_csd ! 192 = test_csd ! 192 \<and>
     ext_csd ! 224 = test_csd ! 224 \<and> take 4 (drop 212 ext_csd) = take 4 (drop 212 test_csd)"

fun width_loop ::
  "'h mmc_host \<Rightarrow> nat \<Rightarrow> bytes \<Rightarrow> u8 list \<Rightarrow> bytes \<Rightarrow> 'h mmc_world \<Rightarrow> 'h mmc_world" where
  "width_loop drv p ext_csd [] test_csd w = w"
| "width_loop drv p ext_csd (width # ws) test_csd w =
     (let (err, w) = mmc_switch drv p 1 183 width w
      in if err \<noteq> 0 then width_loop drv p ext_csd ws test_csd w
         else if width = 0 then mmc_set_bus_width drv p 1 w
         else
           let w = mmc_set_bus_width drv p (4 * ucast width) w;
               ((err, test_csd), w) = mmc_send_ext_csd drv p test_csd w
           in if err = 0 \<and> ext_csd_agrees ext_csd test_csd
              then set_mmc p (\<lambda>m. m\<lparr>card_caps := card_caps m OR ucast width\<rparr>) w
              else width_loop drv p ext_csd ws test_csd w)"

text \<open>Identification up to the transfer state, and the set-up of bus, clock and block device.\<close>

definition startup_identify :: "'h mmc_host \<Rightarrow> nat \<Rightarrow> 'h mmc_world \<Rightarrow> int \<times> 'h mmc_world" where
  "startup_identify drv p w =
     (let spi = mmc_host_is_spi (mmc_at p w);
          ((err, resp), w) = send_simple drv p (if spi then MMC_CMD_SEND_CID else MMC_CMD_ALL_SEND_CID) MMC_RSP_R2 0 w
      in if err \<noteq> 0 then (err, w)
         else
           let w = set_mmc p (\<lambda>m. m\<lparr>cid := take 4 resp\<rparr>) (w\<lparr>emmc_mid := resp ! 0, emmc_did := resp ! 1\<rparr>)
           in if spi then (0, w)
              else
                let ((err, resp), w) = send_simple drv p SD_CMD_SEND_RELATIVE_ADDR MMC_RSP_R6
                       (push_bit 16 (ucast (rca (mmc_at p w)))) w
                in if err \<noteq> 0 then (err, w)
                   else if IS_SD (mmc_at p w)
                   then (0, set_mmc p (\<lambda>m. m\<lparr>rca := ucast (drop_bit 16 (resp ! 0))\<rparr>) w)
                   else (0, w))"

definition startup_sd_bus :: "'h mmc_host \<Rightarrow> nat \<Rightarrow> 'h mmc_world \<Rightarrow> int \<times> 'h mmc_world" where
  "startup_sd_bus drv p w =
     (let (err, w) =
            (if card_caps (mmc_at p w) AND MMC_MODE_4BIT \<noteq> 0 then
               (let ((err, _), w) = send_simple drv p MMC_CMD_APP_CMD MMC_RSP_R1 (push_bit 16 (ucast (rca (mmc_at p w)))) w
                in if err \<noteq> 0 then (err, w)
                   else
                     let ((err, _), w) = send_simple drv p SD_CMD_APP_SET_BUS_WIDTH MMC_RSP_R1 2 w
                     in if err \<noteq> 0 then (err, w) else (0, mmc_set_bus_width drv p 4 w))
             else (0, w))
      in if err \<noteq> 0 then (err, w)
         else if card_caps (mmc_at p w) AND MMC_MODE_HS \<noteq> 0 then (0, mmc_set_clock drv p 50000000 w)
         else (0, mmc_set_clock drv p 25000000 w))"

definition startup_mmc_bus :: "'h mmc_host \<Rightarrow> nat \<Rightarrow> bytes \<Rightarrow> bytes \<Rightarrow> 'h mmc_world \<Rightarrow> 'h mmc_world" where
  "startup_mmc_bus drv p ext_csd test_csd w =
     (let w = width_loop drv p ext_csd [2, 1, 0] test_csd w; caps = card_caps (mmc_at p w)
      in if caps AND MMC_MODE_HS \<noteq> 0 then
           (if caps AND MMC_MODE_HS_52MHz \<noteq> 0 then mmc_set_clock drv p 52000000 w
            else mmc_set_clock drv p 26000000 w)
         else mmc_set_clock drv p 20000000 w)"

definition startup_geometry :: "mmc \<Rightarrow> mmc" where
  "startup_geometry m = m\<lparr>bdev_blksz := read_bl_len m, bdev_lba := ucast (capacity m div ucast (read_bl_len m))\<rparr>"

text \<open>
  The buffers \<open>ext_csd\<close> and \<open>test_csd\<close>, and those of the frequency code, start with whatever the stack
  holds: \<open>jk n\<close> for the \<open>n\<close>-th of them.
\<close>

definition mmc_startup ::
  "('h mmc_world \<Rightarrow> 'h mmc_world) \<Rightarrow> 'h mmc_host \<Rightarrow> (nat \<Rightarrow> bytes) \<Rightarrow> nat \<Rightarrow> 'h mmc_world
     \<Rightarrow> (int \<times> 'h mmc_world) option" where
  "mmc_startup init_part drv jk p w =
     (let (err, w) = startup_identify drv p w
      in if err \<noteq> 0 then Some (err, w)
         else
           let ((err, resp), w) = send_simple drv p MMC_CMD_SEND_CSD MMC_RSP_R2 (push_bit 16 (ucast (rca (mmc_at p w)))) w;
               (_, w) = mmc_send_status drv p 1000 w
           in if err \<noteq> 0 then Some (err, w)
              else case startup_csd resp (mmc_at p w) of None \<Rightarrow> None
              | Some m \<Rightarrow>
                  let w = set_mmc p (\<lambda>_. m) w;
                      (err, w) = (if mmc_host_is_spi m then (0, w)
                        else let ((err, _), w) = send_simple drv p MMC_CMD_SELECT_CARD MMC_RSP_R1
                                    (push_bit 16 (ucast (rca m))) w in (err, w))
                  in if err \<noteq> 0 then Some (err, w)
                     else
                       let w = set_mmc p (\<lambda>m. m\<lparr>erase_grp_size := 1, part_config := MMCPART_NOAVAILABLE\<rparr>) w;
                           (ext_csd, w) =
                             (if \<not> IS_SD (mmc_at p w) \<and> version (mmc_at p w) \<ge> MMC_VERSION_4 then
                                (let ((err, ext_csd), w) = mmc_send_ext_csd drv p (jk 0) w
                                 in (ext_csd, set_mmc p (startup_ext err ext_csd) w))
                              else (jk 0, w));
                           (err, w) = (if IS_SD (mmc_at p w) then sd_change_freq drv p (jk 2) (jk 3) w
                                       else mmc_change_freq drv p (jk 4) w)
                       in if err \<noteq> 0 then Some (err, w)
                          else
                            let w = set_mmc p (\<lambda>m. m\<lparr>card_caps := card_caps m AND host_caps m\<rparr>) w;
                                (err, w) = (if IS_SD (mmc_at p w) then startup_sd_bus drv p w
                                            else (0, startup_mmc_bus drv p ext_csd (jk 1) w))
                            in if err \<noteq> 0 then Some (err, w)
                               else if read_bl_len (mmc_at p w) = 0 then None
                               else Some (0, init_part (set_mmc p startup_geometry w)))"

section \<open>Registration and initialisation\<close>

definition CONFIG_SYS_MMC_MAX_BLK_COUNT :: u32 where
  "CONFIG_SYS_MMC_MAX_BLK_COUNT = 65535"

definition mmc_register :: "mmc \<Rightarrow> 'h mmc_world \<Rightarrow> int \<times> 'h mmc_world" where
  "mmc_register m w =
     (let m = m\<lparr>bdev_dev := cur_dev_num w\<rparr>;
          m = (if b_max m = 0 then m\<lparr>b_max := CONFIG_SYS_MMC_MAX_BLK_COUNT\<rparr> else m)
      in (0, w\<lparr>mmc_devices := mmc_devices w @ [m], cur_dev_num := cur_dev_num w + 1\<rparr>))"

text \<open>\<open>mmc_initialize\<close> empties the list and runs the board's registration, the argument \<open>board\<close>.\<close>

definition mmc_initialize :: "('h mmc_world \<Rightarrow> 'h mmc_world) \<Rightarrow> 'h mmc_world \<Rightarrow> int \<times> 'h mmc_world" where
  "mmc_initialize board w = (0, board (w\<lparr>mmc_devices := [], cur_dev_num := 0\<rparr>))"

definition mmc_init ::
  "('h mmc_world \<Rightarrow> 'h mmc_world) \<Rightarrow> 'h mmc_host \<Rightarrow> (nat \<Rightarrow> bytes) \<Rightarrow> nat \<Rightarrow> 'h mmc_world
     \<Rightarrow> (int \<times> 'h mmc_world) option" where
  "mmc_init init_part drv jk p w =
     (if has_init (mmc_at p w) then Some (0, w)
      else
        let (err, h) = host_init drv (mmc_at p w) (host w); w = w\<lparr>host := h\<rparr>
        in if err \<noteq> 0 then Some (err, w)
           else
             let w = set_mmc p (\<lambda>m. m\<lparr>clock := (if clock m > f_max m then f_max m else clock m)\<rparr>) w;
                 w = set_mmc p (\<lambda>m. m\<lparr>clock := (if clock m < f_min m then f_min m else clock m)\<rparr>) w;
                 w = mmc_set_bus_width drv p 1 w;
                 w = mmc_set_clock drv p 1 w;
                 (err, w) = mmc_go_idle drv p w
             in if err \<noteq> 0 then Some (err, w)
                else
                  let w = set_mmc p (\<lambda>m. m\<lparr>part_num := 0\<rparr>) w;
                      (_, w) = mmc_send_if_cond drv p w;
                      (err, w) = sd_send_op_cond drv p w;
                      (dead, w) = (if err = TIMEOUT then
                          (let (err, w) = mmc_send_op_cond drv p w in (err \<noteq> 0, w)) else (False, w))
                  in if dead then Some (UNUSABLE_ERR, w)
                     else do {
                       (err, w) \<leftarrow> mmc_startup init_part drv jk p w;
                       Some (err, set_mmc p (\<lambda>m. m\<lparr>has_init := (err = 0)\<rparr>) w) })"

definition get_emmc_vendor :: "'h mmc_world \<Rightarrow> int" where
  "get_emmc_vendor w =
     (if emmc_mid w = 0x15010052 then 1
      else if emmc_mid w = 0x90014a48 then 3
      else if emmc_mid w = 0x13010152 \<or> emmc_mid w = 0x13014E52 \<or> emmc_mid w = 0xfe014e50 then 2
      else 0)"

section \<open>Capacities\<close>

text \<open>The device size field of the CSD, as a number.\<close>

definition csd_size :: "bool \<Rightarrow> u32 \<Rightarrow> u32 \<Rightarrow> nat" where
  "csd_size hc csd1 csd2 =
     (if hc then (unat csd1 mod 64) * 2 ^ 16 + unat csd2 div 2 ^ 16
      else (unat csd1 mod 1024) * 4 + unat csd2 div 2 ^ 30)"

definition csd_mult :: "bool \<Rightarrow> u32 \<Rightarrow> nat" where
  "csd_mult hc csd2 = (if hc then 8 else unat csd2 div 2 ^ 15 mod 8)"

lemma field_or:
  fixes a b :: u32
  assumes "unat a * 2 ^ k < 2 ^ 32" and "unat b < 2 ^ k"
  shows "unat (push_bit k a OR b) = unat a * 2 ^ k + unat b"
proof -
  have "unat (take_bit k b) = unat b"
    by (simp only: unsigned_take_bit_eq) (simp add: take_bit_nat_eq_self assms(2))
  then have b: "take_bit k b = b" by (rule unsigned_word_eqI)
  have "push_bit k a AND b = 0"
    by (subst b [symmetric]) (rule bit_word_eqI, auto simp: bit_simps)
  then have "push_bit k a OR b = push_bit k a + b" by (simp add: disjunctive_add_eq_or)
  moreover have pa: "unat (push_bit k a) = unat a * 2 ^ k"
    using assms(1) by (subst unsigned_push_bit_eq) (simp add: push_bit_eq_mult take_bit_nat_eq_self)
  moreover have "unat a * 2 ^ k + unat b < 2 ^ 32"
  proof (cases "k < 32")
    case True
    then have e: "(2 :: nat) ^ 32 = 2 ^ (32 - k) * 2 ^ k" by (simp flip: power_add)
    have "unat a * 2 ^ k < 2 ^ (32 - k) * 2 ^ k" using assms(1) unfolding e .
    then have "unat a < 2 ^ (32 - k)" by simp
    then have "(unat a + 1) * 2 ^ k \<le> 2 ^ (32 - k) * 2 ^ k" by (intro mult_right_mono) simp_all
    then show ?thesis using assms(2) e by simp
  next
    case False
    then have "(2 :: nat) ^ 32 \<le> 2 ^ k" by (intro power_increasing) simp_all
    then have "unat a * 2 ^ k < 2 ^ k" using assms(1) by linarith
    then have "unat a = 0" by simp
    then show ?thesis using unat_u32_less [of b] by simp
  qed
  ultimately show ?thesis by (simp add: unat_add_small)
qed

lemma csize_value:
  "unat (if hc then push_bit 16 (csd1 AND 0x3f) OR drop_bit 16 (csd2 AND 0xffff0000)
         else push_bit 2 (csd1 AND 0x3ff) OR drop_bit 30 (csd2 AND 0xc0000000) :: u32) = csd_size hc csd1 csd2"
proof -
  have m: "(0x3f :: u32) = mask 6" "(0x3ff :: u32) = mask 10"
    by (simp_all add: mask_eq_exp_minus_1)
  have n: "(0xffff0000 :: u32) = NOT (mask 16)" "(0xc0000000 :: u32) = NOT (mask 30)"
    by (simp_all add: mask_eq_exp_minus_1)
  have top: "drop_bit 16 (csd2 AND 0xffff0000) = drop_bit 16 csd2" "drop_bit 30 (csd2 AND 0xc0000000) = drop_bit 30 csd2"
    unfolding n by (rule bit_word_eqI, auto simp: bit_simps dest: bit_imp_le_length)+
  have l: "unat csd2 < 4294967296" by (rule unat_u32_less)
  have "unat csd1 mod 64 < 64" "unat csd1 mod 1024 < 1024" "unat csd2 div 2 ^ 16 < 2 ^ 16" "unat csd2 div 2 ^ 30 < 2 ^ 2"
    using l by (simp_all add: div_less_iff_less_mult)
  then show ?thesis
  proof (cases hc)
    case True
    then show ?thesis
      using field_or [of "csd1 AND mask 6" 16 "drop_bit 16 csd2"] \<open>unat csd1 mod 64 < 64\<close>
        \<open>unat csd2 div 2 ^ 16 < 2 ^ 16\<close>
      unfolding m top csd_size_def unat_and_mask unat_drop_bit by simp
  next
    case False
    then show ?thesis
      using field_or [of "csd1 AND mask 10" 2 "drop_bit 30 csd2"] \<open>unat csd1 mod 1024 < 1024\<close>
        \<open>unat csd2 div 2 ^ 30 < 2 ^ 2\<close>
      unfolding m top csd_size_def unat_and_mask unat_drop_bit by simp
  qed
qed

text \<open>
  The capacity of the CSD is computed without overflow: for every register content and every block
  length up to \<open>2 ^ 15\<close>, the 64-bit result is the size field plus one, times the multiplier's power of
  two, times the block length.
\<close>

theorem csd_capacity_value:
  assumes "unat bl_len \<le> 2 ^ 15"
  shows "unat (csd_capacity hc csd1 csd2 bl_len)
    = (csd_size hc csd1 csd2 + 1) * 2 ^ (csd_mult hc csd2 + 2) * unat bl_len"
proof -
  define cs :: u32 where "cs = (if hc then push_bit 16 (csd1 AND 0x3f) OR drop_bit 16 (csd2 AND 0xffff0000)
         else push_bit 2 (csd1 AND 0x3ff) OR drop_bit 30 (csd2 AND 0xc0000000))"
  define k where "k = csd_mult hc csd2"
  have c: "unat cs = csd_size hc csd1 csd2" unfolding cs_def by (rule csize_value)
  have l: "unat csd2 < 4294967296" by (rule unat_u32_less)
  have "unat csd1 mod 64 < 64" "unat csd1 mod 1024 < 1024" "unat csd2 div 2 ^ 16 < 2 ^ 16" "unat csd2 div 2 ^ 30 < 2 ^ 2"
    using l by (simp_all add: div_less_iff_less_mult)
  then have c22: "csd_size hc csd1 csd2 < 2 ^ 22" unfolding csd_size_def by (cases hc) simp_all
  have k8: "k \<le> 8" by (auto simp: k_def csd_mult_def intro: less_imp_le)
  have m3: "(0x38000 :: u32) = push_bit 15 (mask 3)" by (simp add: mask_eq_exp_minus_1)
  have "drop_bit 15 (csd2 AND 0x38000) = drop_bit 15 csd2 AND mask 3"
    unfolding m3 by (rule bit_word_eqI) (auto simp: bit_simps)
  then have mult: "unat (if hc then 8 else drop_bit 15 (csd2 AND 0x38000)) = k"
    by (simp add: k_def csd_mult_def unat_and_mask unat_drop_bit)
  have cap: "csd_capacity hc csd1 csd2 bl_len = push_bit (k + 2) (ucast cs + 1) * ucast bl_len"
    by (simp only: csd_capacity_def Let_def cs_def [symmetric] mult)
  have u1: "unat (ucast cs + 1 :: u64) = csd_size hc csd1 csd2 + 1"
    using c22 by (subst unat_add_small) (simp_all only: unat_ucast_u32_u64 c, simp_all)
  have p10: "(2 :: nat) ^ (k + 2) \<le> 2 ^ 10" using k8 by (intro power_increasing) simp_all
  have b32: "(csd_size hc csd1 csd2 + 1) * 2 ^ (k + 2) \<le> 2 ^ 22 * 2 ^ 10"
    using c22 p10 by (intro mult_le_mono) simp_all
  then have u2: "unat (push_bit (k + 2) (ucast cs + 1) :: u64) = (csd_size hc csd1 csd2 + 1) * 2 ^ (k + 2)"
    by (subst unsigned_push_bit_eq) (simp only: push_bit_eq_mult u1, simp add: take_bit_nat_eq_self)
  have "(csd_size hc csd1 csd2 + 1) * 2 ^ (k + 2) * unat bl_len \<le> 2 ^ 22 * 2 ^ 10 * 2 ^ 15"
    by (rule mult_le_mono [OF b32 assms])
  then have "unat (push_bit (k + 2) (ucast cs + 1) :: u64) * unat (ucast bl_len :: u64) < 2 ^ LENGTH(64)"
    by (simp only: u2 unat_ucast_u32_u64) simp
  then show ?thesis
    unfolding cap k_def [symmetric] by (subst unat_mult_small) (simp_all only: u2 unat_ucast_u32_u64)
qed

theorem csd_capacity_value_witness:
  "unat (csd_capacity True 0x3f 0xffff0000 512) = (csd_size True 0x3f 0xffff0000 + 1) * 2 ^ (csd_mult True 0xffff0000 + 2)
    * unat (512 :: u32)"
  by (rule csd_capacity_value) simp

text \<open>
  The sector count of EXT\_CSD loses its sign: a count below \<open>2 ^ 31\<close> gives its number of bytes, and a
  larger one is extended with ones, which gives a capacity near \<open>2 ^ 64\<close>.
\<close>

theorem ext_capacity_value:
  assumes "length ext_csd = 512"
  defines "n \<equiv> le_val (take 4 (drop 212 ext_csd))"
  shows "unat (ext_capacity ext_csd) = (if n < 2 ^ 31 then n * 512 else 2 ^ 64 - (2 ^ 32 - n) * 512)"
proof -
  define v :: u32 where "v = le_word (take 4 (drop 212 ext_csd))"
  have v: "unat v = n" unfolding v_def n_def by (rule unat_le_word) (simp add: assms(1))
  have lt: "n < 4294967296" using unat_u32_less [of v] by (simp add: v)
  have "uint v = int (unat v)" by simp
  then have "uint v = int n" unfolding v .
  then have "sint v = (int n + 2147483648) mod 4294967296 - 2147483648"
    by (simp add: sint_uint signed_take_bit_eq_take_bit_shift take_bit_eq_mod)
  also have "(int n + 2147483648) mod 4294967296
      = (if n < 2 ^ 31 then int n + 2147483648 else int n - 2147483648)"
  proof (cases "n < 2 ^ 31")
    case True
    then show ?thesis by (simp add: mod_pos_pos_trivial)
  next
    case False
    then have "(int n + 2147483648) mod 4294967296 = (int n + 2147483648 - 4294967296) mod 4294967296"
      by (intro mod_pos_geq) simp_all
    then show ?thesis using False lt by (simp add: mod_pos_pos_trivial)
  qed
  finally have sv: "sint v = (if n < 2 ^ 31 then int n else int n - 2 ^ 32)" by simp
  have "(word_of_int (sint v * 512) :: u64) = word_of_int (sint v) * word_of_int 512"
    by (rule wi_hom_mult [symmetric])
  also have "\<dots> = ext_capacity ext_csd"
    unfolding ext_capacity_def v_def [symmetric] scast_eq by simp
  finally have e: "ext_capacity ext_csd = word_of_int (sint v * 512)" by (rule sym)
  have u: "uint (ext_capacity ext_csd) = (sint v * 512) mod 18446744073709551616"
    unfolding e uint_word_of_int by simp
  show ?thesis
  proof (cases "n < 2 ^ 31")
    case True
    then have "(sint v * 512) mod 18446744073709551616 = int (n * 512)"
      using lt by (simp add: sv mod_pos_pos_trivial)
    then have "unat (ext_capacity ext_csd) = n * 512"
      using u by (metis nat_int unat_eq_nat_uint)
    then show ?thesis using True by simp
  next
    case False
    have "(sint v * 512) mod 18446744073709551616
        = (sint v * 512 + 18446744073709551616) mod 18446744073709551616" by simp
    also have "\<dots> = sint v * 512 + 18446744073709551616"
      using False lt by (intro mod_pos_pos_trivial) (simp_all add: sv)
    also have "\<dots> = int (2 ^ 64 - (2 ^ 32 - n) * 512)"
      using False lt by (simp add: sv of_nat_diff)
    finally have "unat (ext_capacity ext_csd) = 2 ^ 64 - (2 ^ 32 - n) * 512"
      using u by (metis nat_int unat_eq_nat_uint)
    then show ?thesis using False by simp
  qed
qed

theorem ext_capacity_value_witness:
  "unat (ext_capacity (replicate 215 0 @ 0x80 # replicate 296 0)) = 2 ^ 64 - (2 ^ 32 - 2 ^ 31) * 512"
proof -
  have "take 4 (drop 212 (replicate 215 (0 :: u8) @ 0x80 # replicate 296 0)) = [0, 0, 0, 0x80]"
    by (simp add: eval_nat_numeral)
  then have "le_val (take 4 (drop 212 (replicate 215 0 @ 0x80 # replicate 296 0))) = 2 ^ 31"
    by simp
  then show ?thesis
    using ext_capacity_value [of "replicate 215 0 @ 0x80 # replicate 296 0"] by simp
qed

end
