(* ===== verification/Flash.thy ===== *)
theory Flash
  imports PartEfi MmcInit
begin

text \<open>
  drivers/misc/comip\_flash.c with include/mach/comip\_flash.h, the eMMC build without a GUID table: named
  partitions on the device in slot 0.  The state holds the partition table, the block layer's world,
  the memory that buffers point into and the text of the last error (lib/error.c).  No result (\<open>None\<close>)
  stands for a null device, a division by a block length of 0, or \<open>pmic_power_off\<close>.  Messages are left out.
\<close>

section \<open>State\<close>

record 'h flash =
  partitions :: "partition list"
  fworld :: "'h mmc_world"
  fmem :: memory
  error_string :: bytes

definition EIO :: int where
  "EIO = 5"

definition ERROR_STR_LEN :: nat where
  "ERROR_STR_LEN = 60"

definition put_error :: "bytes \<Rightarrow> 'h flash \<Rightarrow> 'h flash" where
  "put_error err_str st =
     (let count = length err_str; count = (if count \<ge> ERROR_STR_LEN then ERROR_STR_LEN - 1 else count)
      in st\<lparr>error_string := take count err_str\<rparr>)"

section \<open>Partitions\<close>

text \<open>The pointer that the search returns is the index of the partition in the table.\<close>

fun find_index :: "(partition \<Rightarrow> bool) \<Rightarrow> nat \<Rightarrow> partition list \<Rightarrow> nat option" where
  "find_index P i [] = None"
| "find_index P i (pt # pts) = (if P pt then Some i else find_index P (i + 1) pts)"

definition partition_find_by_name :: "bytes \<Rightarrow> 'h flash \<Rightarrow> nat option" where
  "partition_find_by_name name st = find_index (\<lambda>pt. name = pname pt) 0 (partitions st)"

definition partition_find_by_start :: "u32 \<Rightarrow> 'h flash \<Rightarrow> nat option" where
  "partition_find_by_start start st = find_index (\<lambda>pt. start = pstart pt) 0 (partitions st)"

definition flash_partition_start_find :: "bytes \<Rightarrow> 'h flash \<Rightarrow> int" where
  "flash_partition_start_find name st =
     (case partition_find_by_name name st of Some i \<Rightarrow> sint (pstart (partitions st ! i)) | None \<Rightarrow> 1)"

text \<open>With a GUID table the search reads the table; an invalid table counts as found.\<close>

definition partition_find_gpt ::
  "u32 \<Rightarrow> 'h mmc_host \<Rightarrow> bytes \<Rightarrow> partition \<Rightarrow> 'h mmc_world efi_state
     \<Rightarrow> (partition option \<times> 'h mmc_world efi_state) option" where
  "partition_find_gpt sp drv name part st = do {
     p \<leftarrow> find_mmc_device 0 (fst st);
     ((r, part), st) \<leftarrow> gpt_find_part_by_name sp (mmc_block_dev drv (mmc_at p (fst st))) name part st;
     Some (if r \<noteq> 0 then Some part else None, st)
   }"

definition flash_partition_fixup :: "u64 \<Rightarrow> 'h flash \<Rightarrow> 'h flash" where
  "flash_partition_fixup cap st =
     (case partition_find_by_name (str ''userdata'') st of
        None \<Rightarrow> st
      | Some i \<Rightarrow>
          let pt = partitions st ! i; cap = (cap div 1024) div 1024
          in st\<lparr>partitions := (partitions st)[i := pt\<lparr>plength := ucast (cap * 1024 * 2 - ucast (pstart pt))\<rparr>]\<rparr>)"

text \<open>\<open>board\<close>, \<open>init_part\<close> and \<open>jk\<close> are the arguments of the block layer's start-up.\<close>

definition flash_init ::
  "('h mmc_world \<Rightarrow> 'h mmc_world) \<Rightarrow> ('h mmc_world \<Rightarrow> 'h mmc_world) \<Rightarrow> 'h mmc_host \<Rightarrow> (nat \<Rightarrow> bytes) \<Rightarrow> 'h flash
     \<Rightarrow> (int \<times> 'h flash) option" where
  "flash_init board init_part drv jk st = do {
     let (_, w) = mmc_initialize board (fworld st);
     p \<leftarrow> find_mmc_device 0 w;
     (_, w) \<leftarrow> mmc_init init_part drv jk p w;
     if read_bl_len (mmc_at p w) = 0 then None
     else if bdev_lba (mmc_at p w) = 0 then None
     else Some (0, flash_partition_fixup (capacity (mmc_at p w)) (st\<lparr>fworld := w\<rparr>))
   }"

text \<open>
  The partitions from the second on as a text; the entry of a partition goes through a buffer of 30
  characters first, and one that does not fit has no result.
\<close>

definition partition_entry :: "partition \<Rightarrow> bytes option" where
  "partition_entry pt =
     (let temp = pname pt @ str '':'' @ number (ucast (pstart pt)) 16 (-1) (-1) SMALL
            @ str '':'' @ number (ucast (plength pt)) 16 (-1) (-1) SMALL
            @ str '':'' @ number (ucast (sector_size pt)) 16 (-1) (-1) SMALL
      in if length temp + 1 \<le> 30 then Some temp else None)"

fun string_loop :: "partition list \<Rightarrow> bytes \<Rightarrow> bytes option" where
  "string_loop [] text = Some text"
| "string_loop (pt # pts) text = do {
     temp \<leftarrow> partition_entry pt;
     string_loop pts (text @ temp @ (if pts \<noteq> [] then str '','' else []))
   }"

definition flash_partition_string :: "'h flash \<Rightarrow> bytes option" where
  "flash_partition_string st = do {
     text \<leftarrow> string_loop (drop 1 (partitions st)) (str ''lcpart=mmcblk0='');
     Some (text @ str '' '')
   }"

section \<open>Transfers\<close>

text \<open>The byte range of a partition; the product is computed in 32 bits.\<close>

definition part_offset :: "partition \<Rightarrow> u64" where
  "part_offset pt = ucast (sector_size pt * pstart pt)"

definition part_bytes :: "partition \<Rightarrow> u64" where
  "part_bytes pt = ucast (sector_size pt * plength pt)"

text \<open>\<open>block_read\<close> into and \<open>block_write\<close> from the memory at a buffer.\<close>

definition read_to :: "'h mmc_host \<Rightarrow> u64 \<Rightarrow> u64 \<Rightarrow> u32 \<Rightarrow> 'h flash \<Rightarrow> (u32 \<times> 'h flash) option" where
  "read_to drv start cnt buf st = do {
     ((n, got), w) \<leftarrow> mmc_bread drv 0 (ucast start) (ucast cnt) (fworld st);
     Some (n, st\<lparr>fworld := w, fmem := store_bytes (fmem st) buf got\<rparr>)
   }"

definition write_from :: "'h mmc_host \<Rightarrow> u64 \<Rightarrow> u64 \<Rightarrow> u32 \<Rightarrow> u32 \<Rightarrow> 'h flash \<Rightarrow> (u32 \<times> 'h flash) option" where
  "write_from drv start cnt bl buf st = do {
     (n, w) \<leftarrow> mmc_bwrite drv 0 (ucast start) (ucast cnt)
        (load_bytes (fmem st) buf (unat (ucast cnt :: u32) * unat bl)) (fworld st);
     Some (n, st\<lparr>fworld := w\<rparr>)
   }"

text \<open>A block length of the device in slot 0 that can be divided by.\<close>

definition block_len :: "(mmc \<Rightarrow> u32) \<Rightarrow> 'h flash \<Rightarrow> u64 option" where
  "block_len len st = do {
     p \<leftarrow> find_mmc_device 0 (fworld st);
     if len (mmc_at p (fworld st)) = 0 then None else Some (ucast (len (mmc_at p (fworld st))))
   }"

definition flash_partition_read :: "'h mmc_host \<Rightarrow> bytes \<Rightarrow> u32 \<Rightarrow> u32 \<Rightarrow> 'h flash \<Rightarrow> (int \<times> 'h flash) option" where
  "flash_partition_read drv name buffer sz st =
     (case partition_find_by_name name st of
        None \<Rightarrow> Some (- EINVAL, put_error (str ''40001'') st)
      | Some i \<Rightarrow> do {
          let pt = partitions st ! i;
          let start = part_offset pt;
          let length = part_bytes pt;
          let length = (if length > ucast sz then ucast sz else length);
          bl \<leftarrow> block_len read_bl_len st;
          (n, st) \<leftarrow> read_to drv (start div bl) (length div bl) buffer st;
          Some (if n > 0 then 0 else - EIO, st)
        })"

text \<open>On an eMMC the reader that ignores bad blocks is the same.\<close>

definition flash_partition_read_all :: "'h mmc_host \<Rightarrow> bytes \<Rightarrow> u32 \<Rightarrow> u32 \<Rightarrow> 'h flash \<Rightarrow> (int \<times> 'h flash) option" where
  "flash_partition_read_all drv name buffer sz st =
     (case partition_find_by_name name st of
        None \<Rightarrow> Some (- EINVAL, put_error (str ''40001'') st)
      | Some i \<Rightarrow> do {
          let pt = partitions st ! i;
          let start = part_offset pt;
          let length = part_bytes pt;
          let length = (if length > ucast sz then ucast sz else length);
          bl \<leftarrow> block_len read_bl_len st;
          (n, st) \<leftarrow> read_to drv (start div bl) (length div bl) buffer st;
          Some (if n > 0 then 0 else - EIO, st)
        })"

definition flash_get_block_size :: "'h flash \<Rightarrow> int option" where
  "flash_get_block_size st = do {
     p \<leftarrow> find_mmc_device 0 (fworld st);
     Some (sint (read_bl_len (mmc_at p (fworld st))))
   }"

text \<open>
  \<open>tmp\<close> is what the 512 bytes on the stack hold before the call.  The byte counts of the request are
  added in 32 bits.
\<close>

definition flash_block_read ::
  "'h mmc_host \<Rightarrow> bytes \<Rightarrow> bytes \<Rightarrow> u32 \<Rightarrow> u32 \<Rightarrow> u32 \<Rightarrow> 'h flash \<Rightarrow> (int \<times> 'h flash) option" where
  "flash_block_read drv tmp name offstart buffer sz st =
     (case partition_find_by_name name st of
        None \<Rightarrow> Some (- EINVAL, put_error (str ''40001'') st)
      | Some i \<Rightarrow>
          let pt = partitions st ! i; part_start = part_offset pt; part_length = part_bytes pt
          in if ucast (offstart + sz) > part_length then Some (- EINVAL, put_error (str ''40002'') st)
          else do {
            p \<leftarrow> find_mmc_device 0 (fworld st);
            let bl = read_bl_len (mmc_at p (fworld st));
            if buffer = 0 then Some (- EINVAL, st)
            else if bl = 0 then None
            else if offstart mod bl \<noteq> 0 then Some (- EINVAL, st)
            else do {
              let part_length = sz mod bl;
              let part_start = part_start + ucast offstart;
              (ret, st) \<leftarrow>
                (if sz div bl \<noteq> 0 then do {
                   (n, st) \<leftarrow> read_to drv (part_start div ucast bl) (ucast (sz div bl)) buffer st;
                   Some (if n > 0 then 0 else - EIO, st)
                 } else Some (0, st));
              if part_length \<noteq> 0 \<and> ret = 0 then do {
                ((n, got), w) \<leftarrow> mmc_bread drv 0 (ucast ((part_start + ucast sz) div ucast bl)) 1 (fworld st);
                let tmp = got @ drop (length got) tmp;
                Some (ret, st\<lparr>fworld := w, fmem := store_bytes (fmem st) (buffer + sz - part_length)
                  (take (unat part_length) tmp)\<rparr>)
              } else Some (ret, st)
            }
          })"

definition flash_block_write ::
  "'h mmc_host \<Rightarrow> bytes \<Rightarrow> u32 \<Rightarrow> u32 \<Rightarrow> u32 \<Rightarrow> 'h flash \<Rightarrow> (int \<times> 'h flash) option" where
  "flash_block_write drv name offstart buffer sz st =
     (case partition_find_by_name name st of
        None \<Rightarrow> Some (- EINVAL, put_error (str ''40001'') st)
      | Some i \<Rightarrow>
          let pt = partitions st ! i; part_start = part_offset pt; part_length = part_bytes pt
          in if ucast (offstart + sz) > part_length then Some (- EINVAL, put_error (str ''40002'') st)
          else do {
            p \<leftarrow> find_mmc_device 0 (fworld st);
            let bl = write_bl_len (mmc_at p (fworld st));
            if bl = 0 then None
            else do {
              let part_length = (if sz mod bl \<noteq> 0 then 1 else 0);
              let part_start = part_start + ucast offstart;
              (n, st) \<leftarrow> write_from drv (part_start div ucast bl) (ucast (sz div bl) + part_length) bl buffer st;
              Some (if n > 0 then 0 else - EIO, st)
            }
          })"

definition flash_get_devinfo :: "'h flash \<Rightarrow> int \<times> (u32 \<times> u32) option" where
  "flash_get_devinfo st =
     (case find_mmc_device 0 (fworld st) of
        Some p \<Rightarrow> (0, Some (cid (mmc_at p (fworld st)) ! 0, cid (mmc_at p (fworld st)) ! 1))
      | None \<Rightarrow> (-1, None))"

text \<open>One block more than the image is long is written.\<close>

definition flash_partition_write :: "'h mmc_host \<Rightarrow> bytes \<Rightarrow> u32 \<Rightarrow> u32 \<Rightarrow> 'h flash \<Rightarrow> (int \<times> 'h flash) option" where
  "flash_partition_write drv name buffer sz st =
     (case partition_find_by_name name st of
        None \<Rightarrow> Some (- EINVAL, put_error (str ''40001'') st)
      | Some i \<Rightarrow>
          let pt = partitions st ! i; start = part_offset pt; length = part_bytes pt
          in if ucast sz > length then Some (- EINVAL, st)
          else do {
            p \<leftarrow> find_mmc_device 0 (fworld st);
            let bl = read_bl_len (mmc_at p (fworld st));
            if bl = 0 then None
            else do {
              (n, st) \<leftarrow> write_from drv (start div ucast bl) (ucast (sz div bl + 1)) bl buffer st;
              Some (if n > 0 then 0 else - EIO, st)
            }
          })"

text \<open>The erase passes the length in bytes where the device takes blocks.\<close>

definition flash_partition_erase :: "'h mmc_host \<Rightarrow> bytes \<Rightarrow> 'h flash \<Rightarrow> (int \<times> 'h flash) option" where
  "flash_partition_erase drv name st =
     (case partition_find_by_name name st of
        None \<Rightarrow> Some (- EINVAL, put_error (str ''40001'') st)
      | Some i \<Rightarrow> do {
          let pt = partitions st ! i;
          let start = part_offset pt;
          let length = part_bytes pt;
          bl \<leftarrow> block_len read_bl_len st;
          (n, w) \<leftarrow> mmc_berase drv 0 (ucast (start div bl)) (ucast length) (fworld st);
          Some (if n > 0 then 0 else - EIO, st\<lparr>fworld := w\<rparr>)
        })"

section \<open>Byte ranges\<close>

text \<open>A partition of the usable blocks below 4 GB.\<close>

definition part_fits :: "nat \<Rightarrow> nat \<Rightarrow> partition \<Rightarrow> bool" where
  "part_fits first blks pt \<longleftrightarrow> sector_size pt = 512 \<and> first \<le> unat (pstart pt)
     \<and> unat (pstart pt) + unat (plength pt) \<le> blks \<and> 512 * (unat (pstart pt) + unat (plength pt)) < 2 ^ 32"

lemma part_fits_bytes:
  assumes "part_fits first blks pt"
  shows "unat (part_offset pt) = 512 * unat (pstart pt)" and "unat (part_bytes pt) = 512 * unat (plength pt)"
proof -
  have "unat ((512 :: u32) * pstart pt) = 512 * unat (pstart pt)"
    "unat ((512 :: u32) * plength pt) = 512 * unat (plength pt)"
    using assms by (simp_all add: part_fits_def unat_mult_small)
  then show "unat (part_offset pt) = 512 * unat (pstart pt)" "unat (part_bytes pt) = 512 * unat (plength pt)"
    using assms by (simp_all add: part_fits_def part_offset_def part_bytes_def unat_ucast_u32_u64)
qed

lemma ceil_512: "(x + 511) div 512 = x div 512 + (if x mod 512 = 0 then 0 else 1 :: nat)"
proof (cases "x mod 512 = 0")
  case True
  then obtain q where "x = 512 * q" by auto
  then show ?thesis by simp
next
  case False
  define q r where "q = x div 512" and "r = x mod 512"
  have "x = 512 * q + r" "r \<noteq> 0" "r < 512" using False by (simp_all add: q_def r_def)
  then have "(x + 511) div 512 = q + 1" by (intro div_nat_eqI) simp_all
  then show ?thesis using False by (simp add: q_def)
qed

section \<open>The contract of the device\<close>

text \<open>
  What the flash code relies on: the device in slot 0 has blocks of 512 bytes, and reads and writes of a
  non-empty range of the \<open>blks\<close> blocks that starts behind the first \<open>first\<close> ones (which the block layer keeps
  in a boot partition) succeed; \<open>blk w i\<close> is the content of block \<open>i\<close>.
\<close>

locale flash_device =
  fixes drv :: "'h mmc_host"
    and good :: "'h mmc_world \<Rightarrow> bool"
    and blk :: "'h mmc_world \<Rightarrow> nat \<Rightarrow> bytes"
    and first :: nat
    and blks :: nat
  assumes slot: "good w \<Longrightarrow> \<exists>p. find_mmc_device 0 w = Some p \<and> read_bl_len (mmc_at p w) = 512
      \<and> write_bl_len (mmc_at p w) = 512"
    and blks_32: "blks < 2 ^ 32"
    and block_512: "good w \<Longrightarrow> length (blk w i) = 512"
    and bread: "good w \<Longrightarrow> 0 < n \<Longrightarrow> first \<le> unat s \<Longrightarrow> unat s + unat n \<le> blks \<Longrightarrow>
      \<exists>w'. mmc_bread drv 0 s n w = Some ((n, run_bytes (blk w) (unat s) (unat n)), w') \<and> good w' \<and> blk w' = blk w"
    and bwrite: "good w \<Longrightarrow> 0 < n \<Longrightarrow> first \<le> unat s \<Longrightarrow> unat s + unat n \<le> blks \<Longrightarrow>
      length data = 512 * unat n \<Longrightarrow>
      \<exists>w'. mmc_bwrite drv 0 s n data w = Some (n, w') \<and> good w'
        \<and> blk w' = store_run 512 (blk w) (unat s) (unat n) data"
begin

lemma narrow: "unat (x :: u64) < 2 ^ 32 \<Longrightarrow> unat (ucast x :: u32) = unat x"
  by (simp add: unat_ucast_u64_u32)

lemma block_len_512:
  assumes "good (fworld st)"
  shows "block_len read_bl_len st = Some 512" and "block_len write_bl_len st = Some 512"
  using slot [OF assms] by (auto simp: block_len_def)

lemma read_to_ok:
  assumes g: "good (fworld st)" and n: "cnt \<noteq> 0" "first \<le> unat start" "unat start + unat cnt \<le> blks"
  shows "\<exists>w'. read_to drv start cnt buf st = Some (ucast cnt, st\<lparr>fworld := w',
      fmem := store_bytes (fmem st) buf (run_bytes (blk (fworld st)) (unat start) (unat cnt))\<rparr>)
    \<and> (ucast cnt :: u32) \<noteq> 0 \<and> good w' \<and> blk w' = blk (fworld st)"
proof -
  have u: "unat (ucast start :: u32) = unat start" "unat (ucast cnt :: u32) = unat cnt"
    using n(3) blks_32 by (simp_all add: narrow)
  have "0 < unat cnt" using n(1) by (metis gr0I unsigned_eq_0_iff)
  then have pos: "0 < (ucast cnt :: u32)" using u(2) by (simp add: word_less_nat_alt)
  then show ?thesis using bread [OF g pos, of "ucast start"] n(2,3) u by (auto simp: read_to_def)
qed

lemma write_from_ok:
  assumes g: "good (fworld st)" and n: "cnt \<noteq> 0" "first \<le> unat start" "unat start + unat cnt \<le> blks"
  shows "\<exists>w'. write_from drv start cnt 512 buf st = Some (ucast cnt, st\<lparr>fworld := w'\<rparr>)
    \<and> (ucast cnt :: u32) \<noteq> 0 \<and> good w'
    \<and> blk w' = store_run 512 (blk (fworld st)) (unat start) (unat cnt) (load_bytes (fmem st) buf (512 * unat cnt))"
proof -
  have u: "unat (ucast start :: u32) = unat start" "unat (ucast cnt :: u32) = unat cnt"
    using n(3) blks_32 by (simp_all add: narrow)
  have "0 < unat cnt" using n(1) by (metis gr0I unsigned_eq_0_iff)
  then have pos: "0 < (ucast cnt :: u32)" using u(2) by (simp add: word_less_nat_alt)
  then show ?thesis
    using bwrite [OF g pos, of "ucast start" "load_bytes (fmem st) buf (512 * unat cnt)"] n(2,3) u
    by (auto simp: write_from_def mult.commute)
qed

lemma run_drop:
  assumes "good w"
  shows "drop (512 * a) (run_bytes (blk w) s (a + b)) = run_bytes (blk w) (s + a) b"
proof -
  have "length (run_bytes (blk w) s a) = 512 * a" using assms by (intro length_run_bytes block_512)
  then show ?thesis by (simp add: run_bytes_add)
qed

lemma run_take:
  assumes "good w" and "r \<le> 512" and "k < n \<or> k = n \<and> r = 0"
  shows "take (512 * k + r) (run_bytes (blk w) s n) = run_bytes (blk w) s k @ take r (blk w (s + k))"
proof (cases "k < n")
  case True
  then obtain b where n: "n = k + (1 + b)" by (metis add.assoc add.commute less_imp_Suc_add plus_1_eq_Suc)
  have l: "length (run_bytes (blk w) s k) = 512 * k" using assms(1) by (intro length_run_bytes block_512)
  show ?thesis using assms(2) block_512 [OF assms(1), of "s + k"]
    by (simp only: n run_bytes_add take_append l) (simp add: run_bytes_1 l)
next
  case False
  then have e: "k = n" "r = 0" using assms(3) by auto
  have l: "length (run_bytes (blk w) s n) = 512 * n" using assms(1) by (intro length_run_bytes block_512)
  show ?thesis by (simp add: e l)
qed

text \<open>Where a request starts, in blocks.\<close>

lemma request_start:
  fixes offs sz :: u32
  assumes "part_fits first blks pt" and "unat offs + unat sz \<le> 512 * unat (plength pt)"
  shows "unat (part_offset pt + ucast offs) = 512 * unat (pstart pt) + unat offs"
    and "\<not> ucast (offs + sz) > part_bytes pt"
proof -
  have lim: "512 * unat (pstart pt) + unat offs + unat sz < 4294967296"
    using assms by (simp add: part_fits_def)
  have "unat (part_offset pt + ucast offs) = unat (part_offset pt) + unat (ucast offs :: u64)"
    using lim by (intro unat_add_small) (simp add: part_fits_bytes [OF assms(1)] unat_ucast_u32_u64)
  then show "unat (part_offset pt + ucast offs) = 512 * unat (pstart pt) + unat offs"
    by (simp add: part_fits_bytes [OF assms(1)] unat_ucast_u32_u64)
  have "unat (offs + sz) = unat offs + unat sz" using lim by (intro unat_add_small) simp
  then show "\<not> ucast (offs + sz) > part_bytes pt"
    using assms(2) by (simp add: word_less_nat_alt part_fits_bytes [OF assms(1)] unat_ucast_u32_u64)
qed

lemma block_read_ok:
  assumes g: "good (fworld st)" and f: "partition_find_by_name name st = Some i" "pt = partitions st ! i"
    and pt: "part_fits first blks pt" and o: "unat offs mod 512 = 0"
    and lim: "unat offs + unat sz \<le> 512 * unat (plength pt)" and buf: "buffer \<noteq> 0"
  shows "\<exists>w'. flash_block_read drv tmp name offs buffer sz st = Some (0, st\<lparr>fworld := w', fmem := store_bytes (fmem st) buffer
      (take (unat sz) (drop (unat offs) (run_bytes (blk (fworld st)) (unat (pstart pt)) (unat (plength pt)))))\<rparr>)
    \<and> good w' \<and> blk w' = blk (fworld st)"
proof -
  define A k r where "A = unat offs div 512" and "k = unat sz div 512" and "r = unat sz mod 512"
  have oA: "unat offs = 512 * A" using o by (auto simp: A_def)
  have szk: "unat sz = 512 * k + r" and r: "r < 512" by (simp_all add: k_def r_def)
  let ?B = "blk (fworld st)" and ?S = "unat (pstart pt)" and ?L = "unat (plength pt)"
  have fitL: "A + k \<le> ?L" "r \<noteq> 0 \<Longrightarrow> A + k < ?L" using lim oA szk by linarith+
  have tot: "first \<le> ?S" "?S + ?L \<le> blks" "512 * (?S + ?L) < 2 ^ 32" using pt by (simp_all add: part_fits_def)
  note R = request_start [OF pt lim]
  have data: "take (unat sz) (drop (unat offs) (run_bytes ?B ?S ?L)) = run_bytes ?B (?S + A) k @ take r (?B (?S + A + k))"
  proof -
    have "k < ?L - A \<or> k = ?L - A \<and> r = 0" using fitL by (cases "r = 0") auto
    from run_take [OF g _ this] show ?thesis using run_drop [OF g, of A ?S "?L - A"] fitL(1) r oA szk by simp
  qed
  have ustart: "unat ((part_offset pt + ucast offs) div 512) = ?S + A"
    using R(1) oA by (simp add: unat_div)
  have uk: "unat (ucast (sz div 512) :: u64) = k" by (simp add: unat_ucast_u32_u64 unat_div k_def)
  have k0: "sz div 512 = 0 \<longleftrightarrow> k = 0" by (simp add: k_def word_unat_eq_iff unat_div)
  have r0: "sz mod 512 = 0 \<longleftrightarrow> r = 0" by (simp add: r_def word_unat_eq_iff unat_mod)
  have ur: "unat (sz mod 512) = r" by (simp add: r_def unat_mod)
  have om: "offs mod 512 = 0" using o by (simp add: word_unat_eq_iff unat_mod)
  obtain p where p: "find_mmc_device 0 (fworld st) = Some p" "read_bl_len (mmc_at p (fworld st)) = 512"
    using slot [OF g] by blast
  obtain w1 n1 where w1: "good w1" "blk w1 = ?B"
    and skip: "k = 0 \<Longrightarrow> w1 = fworld st"
    and main: "k \<noteq> 0 \<Longrightarrow> read_to drv ((part_offset pt + ucast offs) div 512) (ucast (sz div 512)) buffer st
      = Some (n1, st\<lparr>fworld := w1, fmem := store_bytes (fmem st) buffer (run_bytes ?B (?S + A) k)\<rparr>) \<and> 0 < n1"
  proof (cases "k = 0")
    case True
    then show thesis using that [of "fworld st" 0] g by blast
  next
    case False
    then have "ucast (sz div 512) \<noteq> (0 :: u64)" using uk by auto
    from read_to_ok [OF g this, of "(part_offset pt + ucast offs) div 512" buffer]
    show thesis using False tot fitL(1) that by (auto simp: ustart uk word_gt_0)
  qed
  have first_part: "(if sz div 512 \<noteq> 0 then do {
        (n, st) \<leftarrow> read_to drv ((part_offset pt + ucast offs) div 512) (ucast (sz div 512)) buffer st;
        Some (if n > 0 then 0 else - EIO, st)
      } else Some (0, st)) = Some (0, st\<lparr>fworld := w1, fmem := store_bytes (fmem st) buffer (run_bytes ?B (?S + A) k)\<rparr>)"
    using main skip by (cases "k = 0") (simp_all add: k0)
  have body: "flash_block_read drv tmp name offs buffer sz st = Some (0, st\<lparr>fworld := w1,
        fmem := store_bytes (fmem st) buffer (run_bytes ?B (?S + A) k)\<rparr>) \<bind> (\<lambda>(ret, st).
      if sz mod 512 \<noteq> 0 \<and> ret = 0 then do {
        ((n, got), w) \<leftarrow> mmc_bread drv 0 (ucast ((part_offset pt + ucast offs + ucast sz) div 512)) 1 (fworld st);
        let tmp = got @ drop (length got) tmp;
        Some (ret, st\<lparr>fworld := w, fmem := store_bytes (fmem st) (buffer + sz - sz mod 512)
          (take (unat (sz mod 512)) tmp)\<rparr>)
      } else Some (ret, st))"
    unfolding first_part [symmetric] flash_block_read_def
    using R(2) buf by (simp add: f(1) f(2) [symmetric] p om Let_def split del: if_split cong: if_cong)
  show ?thesis
  proof (cases "r = 0")
    case True
    have "flash_block_read drv tmp name offs buffer sz st
        = Some (0, st\<lparr>fworld := w1, fmem := store_bytes (fmem st) buffer (run_bytes ?B (?S + A) k)\<rparr>)"
      using True unfolding body by (simp add: r0)
    then show ?thesis using w1 True unfolding data by auto
  next
    case False
    let ?s2 = "(part_offset pt + ucast offs + ucast sz) div 512"
    have "unat (part_offset pt + ucast offs + ucast sz) = 512 * (?S + A + k) + r"
    proof -
      have "unat (part_offset pt + ucast offs + ucast sz) = unat (part_offset pt + ucast offs) + unat (ucast sz :: u64)"
        using R(1) lim tot(3) by (intro unat_add_small) (simp add: unat_ucast_u32_u64)
      then show ?thesis using R(1) oA szk by (simp add: unat_ucast_u32_u64)
    qed
    then have u2: "unat ?s2 = ?S + A + k" using r by (simp add: unat_div)
    have in_range: "?S + A + k < blks" using fitL(2) [OF False] tot(2) by linarith
    then have u2': "unat (ucast ?s2 :: u32) = ?S + A + k" using u2 blks_32 by (simp add: narrow)
    obtain w2 where w2: "mmc_bread drv 0 (ucast ?s2) 1 w1 = Some ((1, ?B (?S + A + k)), w2)" "good w2" "blk w2 = ?B"
      using bread [OF w1(1), of 1 "ucast ?s2"] tot(1) in_range w1(2) by (auto simp: u2' run_bytes_1)
    have lenk: "length (run_bytes ?B (?S + A) k) = 512 * k" using g by (intro length_run_bytes block_512)
    have "sz - sz mod 512 = of_nat (512 * k)"
    proof -
      have "sz = of_nat (unat sz)" "sz mod 512 = of_nat (unat (sz mod 512))" by simp_all
      then have "sz = of_nat (512 * k + r)" "sz mod 512 = of_nat r" unfolding szk ur .
      then show ?thesis by (metis add_diff_cancel_right' of_nat_add)
    qed
    then have at: "buffer + sz - sz mod 512 = buffer + of_nat (length (run_bytes ?B (?S + A) k))"
      unfolding lenk by (metis add_diff_eq)
    have mem: "store_bytes (store_bytes (fmem st) buffer (run_bytes ?B (?S + A) k)) (buffer + sz - sz mod 512)
        (take r (?B (?S + A + k))) = store_bytes (fmem st) buffer (run_bytes ?B (?S + A) k @ take r (?B (?S + A + k)))"
      unfolding at store_bytes_append by simp
    have "flash_block_read drv tmp name offs buffer sz st = Some (0, st\<lparr>fworld := w2, fmem := store_bytes (fmem st) buffer
        (run_bytes ?B (?S + A) k @ take r (?B (?S + A + k)))\<rparr>)"
      using False w2(1) r mem unfolding body by (simp add: r0 ur block_512 [OF g])
    then show ?thesis using w2 unfolding data by auto
  qed
qed

lemma block_write_ok:
  assumes g: "good (fworld st)" and f: "partition_find_by_name name st = Some i" "pt = partitions st ! i"
    and pt: "part_fits first blks pt" and o: "unat offs mod 512 = 0"
    and lim: "unat offs + unat sz \<le> 512 * unat (plength pt)" and sz: "sz \<noteq> 0"
  shows "\<exists>w'. flash_block_write drv name offs buffer sz st = Some (0, st\<lparr>fworld := w'\<rparr>) \<and> good w'
    \<and> blk w' = store_run 512 (blk (fworld st)) (unat (pstart pt) + unat offs div 512) ((unat sz + 511) div 512)
        (load_bytes (fmem st) buffer (512 * ((unat sz + 511) div 512)))"
proof -
  define A c where "A = unat offs div 512" and "c = (unat sz + 511) div 512"
  have oA: "unat offs = 512 * A" using o by (auto simp: A_def)
  let ?S = "unat (pstart pt)" and ?L = "unat (plength pt)"
  let ?start = "(part_offset pt + ucast offs) div 512"
  let ?cnt = "ucast (sz div 512) + (if sz mod 512 \<noteq> 0 then 1 else 0) :: u64"
  have c0: "c \<noteq> 0" using sz by (simp add: c_def unsigned_eq_0_iff div_eq_0_iff)
  have fit: "A + c \<le> ?L" using lim oA by (simp add: c_def)
  have tot: "first \<le> ?S" "?S + ?L \<le> blks" using pt by (simp_all add: part_fits_def)
  note R = request_start [OF pt lim]
  have us: "unat ?start = ?S + A" using R(1) oA by (simp add: unat_div)
  have uc: "unat ?cnt = c"
  proof -
    have "unat ?cnt = unat (sz div 512) + (if sz mod 512 \<noteq> 0 then 1 else 0)"
      using unat_u32_less [of "sz div 512"] by (subst unat_add_small) (simp_all add: unat_ucast_u32_u64)
    moreover have "sz mod 512 = 0 \<longleftrightarrow> unat sz mod 512 = 0" by (simp add: word_unat_eq_iff unat_mod)
    ultimately show ?thesis by (simp add: c_def unat_div ceil_512)
  qed
  then have "?cnt \<noteq> 0" using c0 by (metis unsigned_0)
  then obtain w' where w: "write_from drv ?start ?cnt 512 buffer st = Some (ucast ?cnt, st\<lparr>fworld := w'\<rparr>)"
      "(ucast ?cnt :: u32) \<noteq> 0" "good w'"
      "blk w' = store_run 512 (blk (fworld st)) (?S + A) c (load_bytes (fmem st) buffer (512 * c))"
    using write_from_ok [OF g, of ?cnt ?start buffer] tot fit unfolding us uc by auto
  obtain p where p: "find_mmc_device 0 (fworld st) = Some p" "write_bl_len (mmc_at p (fworld st)) = 512"
    using slot [OF g] by blast
  have "flash_block_write drv name offs buffer sz st = Some (0, st\<lparr>fworld := w'\<rparr>)"
    unfolding flash_block_write_def using R(2) w(1,2)
    by (simp add: f(1) f(2) [symmetric] p Let_def word_gt_0 split del: if_split cong: if_cong)
  then show ?thesis using w(3,4) unfolding A_def c_def by blast
qed

lemma block_write_read:
  assumes g: "good (fworld st)" and f: "partition_find_by_name name st = Some i"
    and pt: "part_fits first blks (partitions st ! i)" and o: "unat offs mod 512 = 0"
    and lim: "unat offs + unat sz \<le> 512 * unat (plength (partitions st ! i))" and sz: "sz \<noteq> 0" and dst: "dst \<noteq> 0"
  shows "\<exists>st1 w2. flash_block_write drv name offs srcp sz st = Some (0, st1) \<and> good w2
    \<and> flash_block_read drv tmp name offs dst sz st1
      = Some (0, st1\<lparr>fworld := w2, fmem := store_bytes (fmem st) dst (load_bytes (fmem st) srcp (unat sz))\<rparr>)
    \<and> (\<forall>j. j < unat (pstart (partitions st ! i)) + unat offs div 512
          \<or> unat (pstart (partitions st ! i)) + (unat offs + unat sz + 511) div 512 \<le> j
        \<longrightarrow> blk w2 j = blk (fworld st) j)"
proof -
  define A c where "A = unat offs div 512" and "c = (unat sz + 511) div 512"
  have oA: "unat offs = 512 * A" using o by (auto simp: A_def)
  let ?pt = "partitions st ! i" let ?S = "unat (pstart ?pt)" and ?L = "unat (plength ?pt)"
  let ?D = "load_bytes (fmem st) srcp (512 * c)"
  obtain w1 where w1: "flash_block_write drv name offs srcp sz st = Some (0, st\<lparr>fworld := w1\<rparr>)" "good w1"
      "blk w1 = store_run 512 (blk (fworld st)) (?S + A) c ?D"
    using block_write_ok [OF g f refl pt o lim sz] unfolding A_def c_def by blast
  have f1: "partition_find_by_name name (st\<lparr>fworld := w1\<rparr>) = Some i"
    "partitions st ! i = partitions (st\<lparr>fworld := w1\<rparr>) ! i" "good (fworld (st\<lparr>fworld := w1\<rparr>))"
    using f w1(2) by (simp_all add: partition_find_by_name_def)
  obtain w2 where w2: "flash_block_read drv tmp name offs dst sz (st\<lparr>fworld := w1\<rparr>) = Some (0, st\<lparr>fworld := w2,
        fmem := store_bytes (fmem st) dst (take (unat sz) (drop (unat offs) (run_bytes (blk w1) ?S ?L)))\<rparr>)"
      "good w2" "blk w2 = blk w1"
    using block_read_ok [OF f1(3,1,2) pt o lim dst] by auto
  have fit: "A + c \<le> ?L" "unat sz \<le> 512 * c" using lim oA by (simp_all add: c_def)
  have "drop (unat offs) (run_bytes (blk w1) ?S ?L) = run_bytes (blk w1) (?S + A) (?L - A)"
    using run_drop [OF w1(2), of A ?S "?L - A"] fit(1) oA by simp
  also have "run_bytes (blk w1) (?S + A) (?L - A) = ?D @ run_bytes (blk w1) (?S + A + c) (?L - A - c)"
    using run_bytes_add [of "blk w1" "?S + A" c "?L - A - c"] run_store_same [of ?D 512 c "blk (fworld st)" "?S + A"]
      fit(1) w1(3) by simp
  finally have "take (unat sz) (drop (unat offs) (run_bytes (blk w1) ?S ?L)) = load_bytes (fmem st) srcp (unat sz)"
    using fit(2) by (simp add: load_bytes_def take_map)
  moreover have "(unat offs + unat sz + 511) div 512 = A + c" using oA by (simp add: c_def)
  ultimately show ?thesis using w1 w2 by (auto simp: store_run_def A_def [symmetric])
qed

end

text \<open>The block layer over a card keeps the contract behind the blocks of its boot partition.\<close>

context emmc_card
begin

lemma select_for_range_user:
  assumes "0 < n" and "unat (boot_part_size (mmc_at p w) div write_bl_len (mmc_at p w)) \<le> unat s"
    and "unat s + unat n < 2 ^ 32" and "write_bl_len (mmc_at p w) \<noteq> 0"
  shows "select_for_range drv p s n w = select_user drv p w"
proof -
  have "unat (s + n) = unat s + unat n" using assms(3) by (intro unat_add_small) simp
  moreover have "0 < unat n" using assms(1) by (simp add: word_less_nat_alt)
  ultimately have "\<not> s + n \<le> boot_part_size (mmc_at p w) div write_bl_len (mmc_at p w)"
    using assms(2) by (simp add: word_le_nat_alt)
  then show ?thesis by (simp add: select_for_range_def select_user_def Let_def assms(4))
qed

lemma transfers_behind_boot:
  assumes g: "device_good p m w" and m: "device_ready m" and n: "0 < n" "unat s + unat n \<le> unat (bdev_lba m)"
    and s: "unat (boot_part_size m div 512) \<le> unat s"
  shows "mmc_bread drv 0 s n w = mmc_bread_gpt drv 0 s n w"
    and "mmc_bwrite drv 0 s n data w = mmc_bwrite_gpt drv 0 s n data w"
proof -
  have lt: "unat s + unat n < 2 ^ 32" using n(2) unat_u32_less [of "bdev_lba m"] by simp
  have f: "find_mmc_device 0 w = Some p" and sd: "same_device m (mmc_at p w)" using g by (simp_all add: device_good_def)
  note k = same_device_fields [OF sd] good_fields [OF g m]
  have sel: "select_for_range drv p s n w = select_user drv p w"
    using s m by (intro select_for_range_user n lt) (simp_all add: k device_ready_def)
  show "mmc_bwrite drv 0 s n data w = mmc_bwrite_gpt drv 0 s n data w"
    by (simp add: mmc_bwrite_def mmc_bwrite_gpt_def f sel)
  obtain w1 where w1: "select_user drv p w = Some w1" "device_good p m w1"
    using select_user_card [OF g] by blast
  have "bdev_lba (mmc_at p w1) = bdev_lba m" using good_fields [OF w1(2) m] by simp
  moreover have "\<not> bdev_lba m < s + n"
    using n(2) lt by (simp add: word_less_nat_alt unat_add_small)
  ultimately show "mmc_bread drv 0 s n w = mmc_bread_gpt drv 0 s n w"
    by (simp add: mmc_bread_def mmc_bread_gpt_def f sel w1(1) k)
qed

end

sublocale emmc_device \<subseteq> flash: flash_device drv "device_good p m" "\<lambda>w. cells (host w) 0"
  "unat (boot_part_size m div 512)" "unat (bdev_lba m)"
proof (unfold_locales, goal_cases)
  case (1 w)
  then show ?case using dev_ready good_fields [of p m w] by (auto simp: device_good_def)
next
  case 2
  then show ?case using unat_u32_less [of "bdev_lba m"] by simp
next
  case (3 w i)
  then show ?case using cell_bytes by (simp add: device_good_def)
next
  case (4 w n s)
  then show ?case
    using bread_gpt_card [of p m w n s] transfers_behind_boot(1) [of p m w n s] dev_ready by fastforce
next
  case (5 w n s data)
  then show ?case
    using bwrite_gpt_card [of p m w n s data] transfers_behind_boot(2) [of p m w n s data] dev_ready by fastforce
qed

section \<open>Named partitions\<close>

text \<open>
  C15. On a device that keeps what is written behind the boot blocks, data written to a block-aligned
  offset of a named partition is read back from there byte for byte, also when its length is not a
  multiple of the block size, and blocks outside the written range keep their content.
\<close>

theorem flash_block_write_read:
  assumes "flash_device drv good blk first blks" and "good (fworld st)"
    and "partition_find_by_name name st = Some i" and "part_fits first blks (partitions st ! i)"
    and "unat offs mod 512 = 0" and "unat offs + unat sz \<le> 512 * unat (plength (partitions st ! i))"
    and "sz \<noteq> 0" and "dst \<noteq> 0"
  shows "\<exists>st1 w2. flash_block_write drv name offs srcp sz st = Some (0, st1) \<and> good w2
    \<and> flash_block_read drv tmp name offs dst sz st1
      = Some (0, st1\<lparr>fworld := w2, fmem := store_bytes (fmem st) dst (load_bytes (fmem st) srcp (unat sz))\<rparr>)
    \<and> (\<forall>j. j < unat (pstart (partitions st ! i)) + unat offs div 512
          \<or> unat (pstart (partitions st ! i)) + (unat offs + unat sz + 511) div 512 \<le> j
        \<longrightarrow> blk w2 j = blk (fworld st) j)"
  using flash_device.block_write_read [OF assms] .

definition demo_flash :: "card_state flash" where
  "demo_flash = \<lparr>partitions = [\<lparr>sector_size = 512, pstart = 0x4000, plength = 16, pname = str ''misc''\<rparr>],
     fworld = sim_world, fmem = (\<lambda>a. ucast a), error_string = []\<rparr>"

lemma demo_flash_find: "partition_find_by_name (str ''misc'') demo_flash = Some 0"
  by (simp add: partition_find_by_name_def demo_flash_def)

lemma demo_flash_fits:
  "part_fits (unat (boot_part_size sim_mmc div 512)) (unat (bdev_lba sim_mmc)) (partitions demo_flash ! 0)"
  by (simp add: part_fits_def demo_flash_def sim_mmc_def)

lemma demo_flash_good: "sim.device_good 0 sim_mmc (fworld demo_flash)"
  by (simp add: demo_flash_def sim_world_good)

lemma flash_block_write_read_witness:
  "\<exists>st1 w2. flash_block_write sim_host (str ''misc'') 1024 0x100 700 demo_flash = Some (0, st1)
    \<and> flash_block_read sim_host [] (str ''misc'') 1024 0x8000 700 st1 = Some (0, st1\<lparr>fworld := w2,
        fmem := store_bytes (fmem demo_flash) 0x8000 (load_bytes (fmem demo_flash) 0x100 700)\<rparr>)"
proof -
  have r: "unat (1024 :: u32) mod 512 = 0"
    "unat (1024 :: u32) + unat (700 :: u32) \<le> 512 * unat (plength (partitions demo_flash ! 0))"
    "(700 :: u32) \<noteq> 0" "(0x8000 :: u32) \<noteq> 0"
    by (simp_all add: demo_flash_def)
  show ?thesis
    using flash_block_write_read [OF simdev.flash.flash_device_axioms demo_flash_good demo_flash_find demo_flash_fits r,
        of "0x100" "[]"] by auto
qed

section \<open>The configured table\<close>

text \<open>
  The table of include/configs/comip\_lc1860\_evb2.h.  The length of the last partition is computed in
  floating point from 7.51 GB and truncated.
\<close>

definition entry :: "u32 \<Rightarrow> u32 \<Rightarrow> string \<Rightarrow> partition" where
  "entry start len name = \<lparr>sector_size = 0x200, pstart = start, plength = len, pname = str name\<rparr>"

definition CONFIG_COMIP_PARTITIONS :: "partition list" where
  "CONFIG_COMIP_PARTITIONS =
     (let lcboot = 0 + 0x100 + 0x300; logo = lcboot + 0x400; fota = logo + 0x4000; amt = fota + 0x800 + 0x800;
          panic = amt + 0x1000; tos = panic + 0x1000; modem_arm = tos + 0x5000; modem_dsp = modem_arm + 0xB000;
          kernel = modem_dsp + 0xB000; ramdisk = kernel + 0x3000 + 0x1000; amt1 = ramdisk + 0x800;
          amt3 = amt1 + 0x800; recovery = amt3 + 0x800; kernel_recovery = recovery + 0x1000;
          ddr = kernel_recovery + 0x3000; misc = ddr + 0x400 + 0xC00; cache = misc + 0x1000;
          system = cache + 0x40000; udisk = system + 0x148000; userdata = udisk + 0x200000
      in [entry 0 0x100 ''uboot'', entry lcboot 0x400 ''lcboot'', entry logo 0x4000 ''logo'',
          entry fota 0x800 ''fota'', entry amt 0x1000 ''amt'', entry panic 0x1000 ''panic'',
          entry tos 0x5000 ''tos'', entry modem_arm 0xB000 ''modemarm'', entry modem_dsp 0xB000 ''modemdsp'',
          entry kernel 0x3000 ''kernel'', entry ramdisk 0x800 ''ramdisk'', entry amt1 0x800 ''ramdisk_amt1'',
          entry amt3 0x800 ''ramdisk_amt3'', entry recovery 0x1000 ''ramdisk_recovery'',
          entry kernel_recovery 0x3000 ''kernel_recovery'', entry ddr 0x400 ''ddronflash'',
          entry misc 0x1000 ''misc'', entry cache 0x40000 ''cache'', entry system 0x148000 ''system'',
          entry udisk 0x200000 ''udisk'', entry userdata (15749611 - userdata) ''userdata''])"

definition ends_before :: "partition \<Rightarrow> partition \<Rightarrow> bool" where
  "ends_before p q \<longleftrightarrow> unat (pstart p) + unat (plength p) \<le> unat (pstart q)"

lemma configured_list:
  "CONFIG_COMIP_PARTITIONS =
    [entry 0 256 ''uboot'', entry 1024 1024 ''lcboot'', entry 2048 16384 ''logo'', entry 18432 2048 ''fota'',
     entry 22528 4096 ''amt'', entry 26624 4096 ''panic'', entry 30720 20480 ''tos'', entry 51200 45056 ''modemarm'',
     entry 96256 45056 ''modemdsp'', entry 141312 12288 ''kernel'', entry 157696 2048 ''ramdisk'',
     entry 159744 2048 ''ramdisk_amt1'', entry 161792 2048 ''ramdisk_amt3'', entry 163840 4096 ''ramdisk_recovery'',
     entry 167936 12288 ''kernel_recovery'', entry 180224 1024 ''ddronflash'', entry 184320 4096 ''misc'',
     entry 188416 262144 ''cache'', entry 450560 1343488 ''system'', entry 1794048 2097152 ''udisk'',
     entry 3891200 11858411 ''userdata'']"
  by (simp add: CONFIG_COMIP_PARTITIONS_def Let_def)

lemma recovery_entry: "partition_entry (entry 163840 4096 ''ramdisk_recovery'') = None"
proof -
  have "length (digits_of 16 163840) = 5" "length (digits_of 16 4096) = 4" "length (digits_of 16 512) = 3"
    by (simp_all add: digits_of_step digits_of_small)
  then show ?thesis by (simp add: partition_entry_def entry_def number_hex str_def)
qed

lemma string_loop_None: "partition_entry pt = None \<Longrightarrow> pt \<in> set pts \<Longrightarrow> string_loop pts acc = None"
  by (induction pts arbitrary: acc) (auto simp: bind_eq_None_conv)

text \<open>
  The configured partitions have different names, follow each other without overlap and end (but for
  the last one) below 4 GB; but the text of the recovery ramdisk's entry does not fit the buffer it is
  printed to, so the partition string of this table is not defined.
\<close>

theorem configured_table:
  "distinct (map pname CONFIG_COMIP_PARTITIONS) \<and> sorted_wrt ends_before CONFIG_COMIP_PARTITIONS
    \<and> list_all (part_fits 0 3891200) (butlast CONFIG_COMIP_PARTITIONS)
    \<and> flash_partition_string (st\<lparr>partitions := CONFIG_COMIP_PARTITIONS\<rparr>) = None"
proof (intro conjI)
  show "distinct (map pname CONFIG_COMIP_PARTITIONS)"
    by (simp add: configured_list entry_def str_def)
  show "sorted_wrt ends_before CONFIG_COMIP_PARTITIONS"
    by (simp add: configured_list entry_def ends_before_def)
  show "list_all (part_fits 0 3891200) (butlast CONFIG_COMIP_PARTITIONS)"
    by (simp add: configured_list entry_def part_fits_def)
  have "string_loop (drop 1 CONFIG_COMIP_PARTITIONS) acc = None" for acc
    by (rule string_loop_None [OF recovery_entry]) (simp add: configured_list)
  then show "flash_partition_string (st\<lparr>partitions := CONFIG_COMIP_PARTITIONS\<rparr>) = None"
    by (simp add: flash_partition_string_def)
qed

end
