(* ===== verification/Sparse.thy ===== *)
theory Sparse
  imports Flash
begin

text \<open>
  drivers/usb/gadget/sparse\_file.c and sparse\_format.h, and the image writer of
  drivers/misc/comip\_flash.c: an image in memory, plain or in Android's sparse format, goes to a
  partition.  Messages and the unused \<open>flags\<close> are left out.
\<close>

section \<open>Format\<close>

definition SPARSE_HEADER_MAGIC :: u32 where
  "SPARSE_HEADER_MAGIC = 0xed26ff3a"

definition SPARSE_HEADER_MAJOR_VER :: u16 where
  "SPARSE_HEADER_MAJOR_VER = 1"

definition CHUNK_TYPE_RAW :: u16 where
  "CHUNK_TYPE_RAW = 0xCAC1"

definition CHUNK_TYPE_DONT_CARE :: u16 where
  "CHUNK_TYPE_DONT_CARE = 0xCAC3"

definition load_u16 :: "memory \<Rightarrow> u32 \<Rightarrow> u16" where
  "load_u16 mem a = le_word (load_bytes mem a 2)"

record sparse_header =
  magic :: u32
  major_version :: u16
  minor_version :: u16
  file_hdr_sz :: u16
  chunk_hdr_sz :: u16
  blk_sz :: u32
  total_blks :: u32
  total_chunks :: u32
  image_checksum :: u32

definition sparse_header_at :: "memory \<Rightarrow> u32 \<Rightarrow> sparse_header" where
  "sparse_header_at mem a = \<lparr>magic = load_u32 mem a, major_version = load_u16 mem (a + 4),
     minor_version = load_u16 mem (a + 6), file_hdr_sz = load_u16 mem (a + 8), chunk_hdr_sz = load_u16 mem (a + 10),
     blk_sz = load_u32 mem (a + 12), total_blks = load_u32 mem (a + 16), total_chunks = load_u32 mem (a + 20),
     image_checksum = load_u32 mem (a + 24)\<rparr>"

record chunk_header =
  chunk_type :: u16
  reserved1 :: u16
  chunk_sz :: u32
  total_sz :: u32

definition chunk_header_at :: "memory \<Rightarrow> u32 \<Rightarrow> chunk_header" where
  "chunk_header_at mem a = \<lparr>chunk_type = load_u16 mem a, reserved1 = load_u16 mem (a + 2),
     chunk_sz = load_u32 mem (a + 4), total_sz = load_u32 mem (a + 8)\<rparr>"

definition check_sparse_image :: "memory \<Rightarrow> u32 \<Rightarrow> bool" where
  "check_sparse_image mem a \<longleftrightarrow> magic (sparse_header_at mem a) = SPARSE_HEADER_MAGIC"

section \<open>Writing\<close>

text \<open>The count of bytes written, in the machine's 32 bits: blocks times block length less the padding.\<close>

definition flash_write :: "'h mmc_host \<Rightarrow> u32 \<Rightarrow> u64 \<Rightarrow> u64 \<Rightarrow> 'h flash \<Rightarrow> (u32 \<times> 'h flash) option" where
  "flash_write drv source sz start st = do {
     p \<leftarrow> find_mmc_device 0 (fworld st);
     let bl = write_bl_len (mmc_at p (fworld st));
     if bl = 0 then None
     else do {
       let pad_count = (if sz mod ucast bl = 0 then 0 else bl - ucast (sz mod ucast bl));
       (n, st) \<leftarrow> write_from drv (start div ucast bl)
          (if sz mod ucast bl \<noteq> 0 then sz div ucast bl + 1 else sz div ucast bl) bl source st;
       Some (n * bl - pad_count, st)
     }
   }"

fun chunk_loop ::
  "'h mmc_host \<Rightarrow> u32 \<Rightarrow> u64 \<Rightarrow> nat \<Rightarrow> u32 \<Rightarrow> u64 \<Rightarrow> u64 \<Rightarrow> 'h flash \<Rightarrow> (int \<times> 'h flash) option" where
  "chunk_loop drv bs partition_size 0 source start outlen st = Some (0, st)"
| "chunk_loop drv bs partition_size (Suc n) source start outlen st =
     (let chunk = chunk_header_at (fmem st) source;
          source = source + 12;
          clen = ucast (chunk_sz chunk) * ucast bs :: u64
      in if chunk_type chunk = CHUNK_TYPE_RAW then
           if ucast (total_sz chunk) \<noteq> clen + 12 then Some (1, put_error (str ''20004'') st)
           else let outlen = outlen + clen
           in if outlen > partition_size then Some (1, put_error (str ''20005'') st)
           else do {
             (written, st) \<leftarrow> flash_write drv source clen start st;
             if ucast written \<noteq> clen then Some (1, st)
             else chunk_loop drv bs partition_size n (source + ucast clen) (start + clen) outlen st
           }
         else if chunk_type chunk = CHUNK_TYPE_DONT_CARE then
           if total_sz chunk \<noteq> 12 then Some (1, put_error (str ''20007'') st)
           else let outlen = outlen + clen
           in if outlen > partition_size then Some (1, put_error (str ''20008'') st)
           else chunk_loop drv bs partition_size n source (start + clen) outlen st
         else Some (1, st))"

definition write_unsparse :: "'h mmc_host \<Rightarrow> u32 \<Rightarrow> u64 \<Rightarrow> u64 \<Rightarrow> u64 \<Rightarrow> 'h flash \<Rightarrow> (int \<times> 'h flash) option" where
  "write_unsparse drv source sz start partition_size st =
     (let header = sparse_header_at (fmem st) source
      in if magic header \<noteq> SPARSE_HEADER_MAGIC then Some (1, put_error (str ''20001'') st)
         else if ucast (total_blks header) * ucast (blk_sz header) > partition_size
         then Some (1, put_error (str ''20002'') st)
         else if major_version header \<noteq> SPARSE_HEADER_MAJOR_VER \<or> file_hdr_sz header \<noteq> 28 \<or> chunk_hdr_sz header \<noteq> 12
         then Some (1, put_error (str ''20003'') st)
         else chunk_loop drv (blk_sz header) partition_size (unat (total_chunks header))
                (source + ucast (file_hdr_sz header)) start 0 st)"

definition flash_partition_erase_write :: "'h mmc_host \<Rightarrow> bytes \<Rightarrow> u32 \<Rightarrow> u32 \<Rightarrow> 'h flash \<Rightarrow> (int \<times> 'h flash) option" where
  "flash_partition_erase_write drv name buffer sz st =
     (case partition_find_by_name name st of
        None \<Rightarrow> Some (- EINVAL, put_error (str ''40001'') st)
      | Some i \<Rightarrow>
          let pt = partitions st ! i;
              file_size = ucast sz :: u64;
              start = part_offset pt;
              partition_size = ucast (sector_size pt) * ucast (plength pt) :: u64
          in if file_size > partition_size then Some (- EINVAL, put_error (str ''40002'') st)
          else if check_sparse_image (fmem st) buffer
          then write_unsparse drv buffer file_size start partition_size st
          else do {
            p \<leftarrow> find_mmc_device 0 (fworld st);
            let bl = read_bl_len (mmc_at p (fworld st));
            if bl = 0 then None
            else do {
              (n, st) \<leftarrow> write_from drv (start div ucast bl) (file_size div ucast bl + 1) bl buffer st;
              Some (if n > 0 then 0 else - EIO, st)
            }
          })"

section \<open>Where an image can write\<close>

text \<open>The device in slot 0 has blocks of 512 bytes and is addressed by block.\<close>

definition slot_512 :: "'h mmc_world \<Rightarrow> bool" where
  "slot_512 w \<longleftrightarrow> (\<exists>p. find_mmc_device 0 w = Some p \<and> high_capacity (mmc_at p w) \<and> write_bl_len (mmc_at p w) = 512)"

lemma slot_512_same:
  assumes "slot_512 w" and "same_devices w w'"
  shows "slot_512 w'"
proof -
  obtain p where p: "find_mmc_device 0 w = Some p" "high_capacity (mmc_at p w)" "write_bl_len (mmc_at p w) = 512"
    using assms(1) by (auto simp: slot_512_def)
  then show ?thesis
    using find_same [OF assms(2), of 0] same_device_fields [OF same_devices_at [OF assms(2) find_device_bound [OF p(1)]]]
    by (auto simp: slot_512_def)
qed

lemma product_64: "unat (ucast (a :: u32) * ucast (b :: u32) :: u64) = unat a * unat b"
proof -
  have "unat a * unat b < 2 ^ 32 * 2 ^ 32"
    using unat_u32_less [of a] unat_u32_less [of b] by (intro mult_strict_mono) simp_all
  then show ?thesis by (subst unat_mult_small) (simp_all add: unat_ucast_u32_u64)
qed

lemma product_bound: "unat (a :: u32) * unat (b :: u32) \<le> 18446744065119617025"
proof -
  have "unat a * unat b \<le> 4294967295 * 4294967295"
    using unat_u32_less [of a] unat_u32_less [of b] by (intro mult_mono) simp_all
  then show ?thesis by simp
qed

lemma block_span:
  "(a :: nat) div 512 + (n + 511) div 512 \<le> (a + n + 511) div 512"
proof -
  define q r where "q = a div 512" and "r = a mod 512"
  have "a = 512 * q + r" by (simp add: q_def r_def)
  then have "(a + n + 511) div 512 = q + (r + n + 511) div 512" by simp
  moreover have "(n + 511) div 512 \<le> (r + n + 511) div 512" by (rule div_le_mono) simp
  ultimately show ?thesis by (simp add: q_def)
qed

context write_guard
begin

lemma write_from_guard:
  assumes "write_from drv start cnt bl buf st = Some (n, st')" and "P (host (fworld st))" and "slot_512 (fworld st)"
    and "F \<le> unat start" and "unat start + unat cnt \<le> L" and "L < 2 ^ 32"
  shows "P (host (fworld st')) \<and> same_devices (fworld st) (fworld st') \<and> fmem st' = fmem st"
proof -
  obtain p where p: "find_mmc_device 0 (fworld st) = Some p" "high_capacity (mmc_at p (fworld st))"
    using assms(3) by (auto simp: slot_512_def)
  have u: "unat (ucast start :: u32) = unat start" "unat (ucast cnt :: u32) = unat cnt"
    using assms(5,6) by (simp_all add: unat_ucast_u64_u32)
  obtain w' where b: "mmc_bwrite drv 0 (ucast start) (ucast cnt)
      (load_bytes (fmem st) buf (unat (ucast cnt :: u32) * unat bl)) (fworld st) = Some (n, w')"
      and st': "st' = st\<lparr>fworld := w'\<rparr>"
    using assms(1) by (auto simp: write_from_def bind_eq_Some_conv)
  show ?thesis
    using bwrite_guard [OF b assms(2) p] bwrite_same [OF b] assms(4-6) unfolding u st' by simp
qed

lemma flash_write_guard:
  assumes "flash_write drv source sz start st = Some (n, st')" and "P (host (fworld st))" and "slot_512 (fworld st)"
    and "F \<le> unat start div 512" and "(unat start + unat sz + 511) div 512 \<le> L" and "L < 2 ^ 32"
  shows "P (host (fworld st')) \<and> same_devices (fworld st) (fworld st') \<and> fmem st' = fmem st"
proof -
  obtain p where p: "find_mmc_device 0 (fworld st) = Some p" "write_bl_len (mmc_at p (fworld st)) = 512"
    using assms(3) by (auto simp: slot_512_def)
  define cnt where "cnt = (if sz mod 512 \<noteq> 0 then sz div 512 + 1 else sz div 512)"
  have "unat cnt = (unat sz + 511) div 512"
  proof -
    have "unat (sz div 512 + 1) = unat sz div 512 + 1"
      using unat_u64_less [of sz] by (subst unat_add_small) (simp_all add: unat_div)
    moreover have "sz mod 512 = 0 \<longleftrightarrow> unat sz mod 512 = 0" by (simp add: word_unat_eq_iff unat_mod)
    ultimately show ?thesis by (simp add: cnt_def ceil_512 unat_div)
  qed
  then have lim: "unat (start div 512) + unat cnt \<le> L"
    using block_span [of "unat start" "unat sz"] assms(5) by (simp add: unat_div)
  have first: "F \<le> unat (start div 512)" using assms(4) by (simp add: unat_div)
  obtain k where "write_from drv (start div 512) cnt 512 source st = Some (k, st')"
    using assms(1) p by (auto simp: flash_write_def cnt_def bind_eq_Some_conv split del: if_split cong: if_cong)
  from write_from_guard [OF this assms(2,3) first lim assms(6)] show ?thesis .
qed

lemma chunk_loop_guard:
  assumes "chunk_loop drv bs psize n source start outlen st = Some (r, st')"
    and "P (host (fworld st))" and "slot_512 (fworld st)" and "F \<le> unat start div 512"
    and "unat outlen \<le> unat psize" and "unat psize < 2 ^ 33 - 1"
    and "unat start + (unat psize - unat outlen) \<le> E" and "(E + 511) div 512 \<le> L" and "L < 2 ^ 32"
  shows "P (host (fworld st'))"
  using assms
proof (induction n arbitrary: source start outlen st)
  case (Suc n)
  define chunk where "chunk = chunk_header_at (fmem st) source"
  define clen where "clen = (ucast (chunk_sz chunk) * ucast bs :: u64)"
  have "unat clen \<le> 18446744065119617025" unfolding clen_def product_64 by (rule product_bound)
  then have uo: "unat (outlen + clen) = unat outlen + unat clen"
    using Suc.prems(5,6) by (intro unat_add_small) simp
  have "(E + 511) div 512 < 2 ^ 32" using Suc.prems(8,9) by linarith
  then have E: "E < 2 ^ 42" by (simp add: div_less_iff_less_mult)
  note step = Suc.prems(1) [unfolded chunk_loop.simps Let_def, folded chunk_def, folded clen_def]
  show ?case
  proof (cases "outlen + clen > psize")
    case True
    then show ?thesis using step Suc.prems(2) by (auto simp: put_error_def Let_def split: if_splits)
  next
    case False
    then have le: "unat outlen + unat clen \<le> unat psize" by (simp add: word_less_nat_alt uo)
    have us: "unat (start + clen) = unat start + unat clen"
      using le Suc.prems(5,7) E by (intro unat_add_small) simp
    have next_F: "F \<le> unat (start + clen) div 512"
      using Suc.prems(4) div_le_mono [of "unat start" "unat start + unat clen" 512] unfolding us by linarith
    have next_len: "unat (outlen + clen) \<le> unat psize" using le by (simp add: uo)
    have next_E: "unat (start + clen) + (unat psize - unat (outlen + clen)) \<le> E"
      using le Suc.prems(7) by (simp add: us uo)
    have rest: "P (host (fworld st'))"
      if "chunk_loop drv bs psize n src' (start + clen) (outlen + clen) st1 = Some (r, st')"
        and "P (host (fworld st1))" and "slot_512 (fworld st1)" for src' st1
      using Suc.IH [OF that next_F next_len Suc.prems(6) next_E Suc.prems(8,9)] .
    have "(unat start + unat clen + 511) div 512 \<le> (E + 511) div 512"
      using le Suc.prems(7) by (intro div_le_mono) linarith
    then have lim: "(unat start + unat clen + 511) div 512 \<le> L" using Suc.prems(8) by linarith
    show ?thesis
    proof (cases "\<exists>k st1. flash_write drv (source + 12) clen start st = Some (k, st1)")
      case True
      then obtain k st1 where w: "flash_write drv (source + 12) clen start st = Some (k, st1)" by blast
      from flash_write_guard [OF w Suc.prems(2-4) lim Suc.prems(9)]
      have "P (host (fworld st1))" "slot_512 (fworld st1)" using slot_512_same [OF Suc.prems(3)] by auto
      then show ?thesis using step False w rest Suc.prems(2,3)
        by (auto simp: put_error_def Let_def split: if_splits)
    next
      case no_write: False
      then show ?thesis using step False rest Suc.prems(2,3)
        by (auto simp: put_error_def Let_def bind_eq_Some_conv split: if_splits)
    qed
  qed
qed simp

end

text \<open>
  C12. Whatever bytes are offered as a sparse image and however the host answers, \<open>write_unsparse\<close> issues
  no write command outside the blocks of the partition it was given, if the partition is smaller than
  8 GB: every property of the card that only a write command outside could break is kept.
\<close>

theorem write_unsparse_confined:
  assumes "write_guard drv P (unat start div 512) L" and "(unat start + unat psize + 511) div 512 \<le> L"
    and "L < 2 ^ 32" and "unat psize < 2 ^ 33 - 1" and "slot_512 (fworld st)"
    and "write_unsparse drv source sz start psize st = Some (r, st')" and "P (host (fworld st))"
  shows "P (host (fworld st'))"
proof -
  have loop: "P (host (fworld st'))" if "chunk_loop drv bs psize n src' start 0 st = Some (r, st')" for bs n src'
    by (rule write_guard.chunk_loop_guard [OF assms(1) that assms(7,5) _ _ assms(4) _ assms(2,3)]) simp_all
  show ?thesis
    using assms(6,7) loop by (auto simp: write_unsparse_def Let_def put_error_def split: if_splits)
qed

section \<open>What an image means\<close>

text \<open>
  An image is a list of chunks for blocks of \<open>512 * q\<close> bytes; it stands for a list of device blocks, each
  with a content or left as it is.
\<close>

datatype chunk = Raw bytes | Skip nat

definition cut :: "bytes \<Rightarrow> bytes list" where
  "cut d = map (\<lambda>k. take 512 (drop (512 * k) d)) [0..<length d div 512]"

fun expand :: "nat \<Rightarrow> chunk \<Rightarrow> bytes option list" where
  "expand q (Raw d) = map Some (cut d)"
| "expand q (Skip n) = replicate (q * n) None"

definition expand_all :: "nat \<Rightarrow> chunk list \<Rightarrow> bytes option list" where
  "expand_all q cs = concat (map (expand q) cs)"

text \<open>A store with the blocks that have a content replaced.\<close>

definition overwrite :: "(nat \<Rightarrow> bytes) \<Rightarrow> nat \<Rightarrow> bytes option list \<Rightarrow> nat \<Rightarrow> bytes" where
  "overwrite b s xs j = (if s \<le> j \<and> j < s + length xs then case xs ! (j - s) of Some d \<Rightarrow> d | None \<Rightarrow> b j else b j)"

fun chunk_size :: "nat \<Rightarrow> chunk \<Rightarrow> nat" where
  "chunk_size q (Raw d) = length d div (512 * q)"
| "chunk_size q (Skip n) = n"

fun chunk_data :: "chunk \<Rightarrow> bytes" where
  "chunk_data (Raw d) = d"
| "chunk_data (Skip n) = []"

fun chunk_code :: "chunk \<Rightarrow> u16" where
  "chunk_code (Raw d) = CHUNK_TYPE_RAW"
| "chunk_code (Skip n) = CHUNK_TYPE_DONT_CARE"

definition chunk_bytes :: "nat \<Rightarrow> chunk \<Rightarrow> bytes" where
  "chunk_bytes q c = le_bytes 2 (chunk_code c) @ le_bytes 2 (0 :: u16) @ le_bytes 4 (of_nat (chunk_size q c) :: u32)
     @ le_bytes 4 (of_nat (length (chunk_data c) + 12) :: u32) @ chunk_data c"

definition image_bytes :: "nat \<Rightarrow> chunk list \<Rightarrow> bytes" where
  "image_bytes q cs = le_bytes 4 SPARSE_HEADER_MAGIC @ le_bytes 2 (1 :: u16) @ le_bytes 2 (0 :: u16)
     @ le_bytes 2 (28 :: u16) @ le_bytes 2 (12 :: u16) @ le_bytes 4 (of_nat (512 * q) :: u32)
     @ le_bytes 4 (of_nat (\<Sum>c\<leftarrow>cs. chunk_size q c) :: u32) @ le_bytes 4 (of_nat (length cs) :: u32)
     @ le_bytes 4 (0 :: u32) @ concat (map (chunk_bytes q) cs)"

fun chunk_wf :: "nat \<Rightarrow> chunk \<Rightarrow> bool" where
  "chunk_wf q (Raw d) \<longleftrightarrow> d \<noteq> [] \<and> length d mod (512 * q) = 0 \<and> length d + 12 < 2 ^ 32"
| "chunk_wf q (Skip n) \<longleftrightarrow> n < 2 ^ 32"

definition image_wf :: "nat \<Rightarrow> chunk list \<Rightarrow> bool" where
  "image_wf q cs \<longleftrightarrow> 0 < q \<and> 512 * q < 2 ^ 32 \<and> list_all (chunk_wf q) cs \<and> length cs < 2 ^ 32
     \<and> (\<Sum>c\<leftarrow>cs. chunk_size q c) < 2 ^ 32"

definition holds :: "memory \<Rightarrow> u32 \<Rightarrow> bytes \<Rightarrow> bool" where
  "holds m a bs \<longleftrightarrow> load_bytes m a (length bs) = bs"

lemma holds_append: "holds m a (xs @ ys) \<longleftrightarrow> holds m a xs \<and> holds m (a + of_nat (length xs)) ys"
  by (simp add: holds_def load_bytes_append)

lemma load_u16_holds: "holds m a (le_bytes 2 w) \<Longrightarrow> load_u16 m a = w"
  by (simp add: holds_def load_u16_def)

lemma load_u32_holds: "holds m a (le_bytes 4 w) \<Longrightarrow> load_u32 m a = w"
  by (simp add: holds_def load_u32_def)

lemmas holds_fields = holds_append load_u16_holds load_u32_holds add.assoc

lemma chunk_header_bytes:
  assumes "holds m a (chunk_bytes q c)"
  shows "chunk_header_at m a = \<lparr>chunk_type = chunk_code c, reserved1 = 0, chunk_sz = of_nat (chunk_size q c),
      total_sz = of_nat (length (chunk_data c) + 12)\<rparr>"
    and "holds m (a + 12) (chunk_data c)"
  using assms by (simp_all add: chunk_bytes_def chunk_header_at_def holds_fields)

lemma sparse_header_bytes:
  assumes "holds m a (image_bytes q cs)"
  shows "sparse_header_at m a = \<lparr>magic = SPARSE_HEADER_MAGIC, major_version = 1, minor_version = 0, file_hdr_sz = 28,
      chunk_hdr_sz = 12, blk_sz = of_nat (512 * q), total_blks = of_nat (\<Sum>c\<leftarrow>cs. chunk_size q c),
      total_chunks = of_nat (length cs), image_checksum = 0\<rparr>"
    and "holds m (a + 28) (concat (map (chunk_bytes q) cs))"
  using assms by (simp_all add: image_bytes_def sparse_header_at_def holds_fields)

lemma overwrite_outside: "\<not> (s \<le> j \<and> j < s + length xs) \<Longrightarrow> overwrite b s xs j = b j"
  by (simp only: overwrite_def if_False)

lemma overwrite_append:
  "overwrite (overwrite b s xs) (s + length xs) ys = overwrite b s (xs @ ys)"
proof (rule ext)
  fix j
  consider "j < s" | "s \<le> j" "j < s + length xs" | "s + length xs \<le> j" by linarith
  then show "overwrite (overwrite b s xs) (s + length xs) ys j = overwrite b s (xs @ ys) j"
  proof cases
    case 2
    then have "j - s < length xs" by simp
    then show ?thesis using 2 by (simp add: overwrite_def nth_append)
  next
    case 3
    then obtain m where j: "j = s + length xs + m" using le_Suc_ex by blast
    have "overwrite b s xs (s + length xs + m) = b (s + length xs + m)" by (simp add: overwrite_outside)
    then show ?thesis unfolding j
      by (simp add: overwrite_def [of _ "s + length xs"] overwrite_def [of _ s "xs @ ys"] nth_append split: option.split)
  qed (simp_all add: overwrite_def nth_append)
qed

lemma overwrite_skip: "overwrite b s (replicate n None) = b"
proof (rule ext)
  show "overwrite b s (replicate n None) j = b j" for j
    by (cases "s \<le> j \<and> j < s + n") (auto simp: overwrite_def)
qed

lemma overwrite_Nil [simp]: "overwrite b s [] = b"
  using overwrite_skip [of b s 0] by simp

lemma overwrite_cut:
  "length d = 512 * k \<Longrightarrow> overwrite b s (map Some (cut d)) = store_run 512 b s k d"
  by (rule ext) (auto simp: overwrite_def store_run_def cut_def)

lemma length_cut [simp]: "length (cut d) = length d div 512"
  by (simp add: cut_def)

lemma raw_blocks:
  assumes "chunk_wf q (Raw d)"
  shows "length d = 512 * length (expand q (Raw d))" and "0 < length (expand q (Raw d))"
    and "512 * length (expand q (Raw d)) + 12 < 2 ^ 32"
proof -
  have "512 * q dvd length d" using assms by (simp add: dvd_eq_mod_eq_0)
  then have "512 dvd length d" by (rule dvd_mult_left)
  then show e: "length d = 512 * length (expand q (Raw d))" by simp
  have "0 < length d" using assms by simp
  then show "0 < length (expand q (Raw d))" using e by linarith
  show "512 * length (expand q (Raw d)) + 12 < 2 ^ 32"
    using assms unfolding e [symmetric] by simp
qed

lemma chunk_wf_size:
  assumes "chunk_wf q c"
  shows "chunk_size q c < 2 ^ 32" and "chunk_size q c * (512 * q) = 512 * length (expand q c)"
proof -
  show "chunk_size q c < 2 ^ 32"
  proof (cases c)
    case (Raw d)
    then have "chunk_size q c \<le> length d" "length d < 2 ^ 32" using assms by simp_all
    then show ?thesis by (rule le_less_trans)
  qed (use assms in simp)
  show "chunk_size q c * (512 * q) = 512 * length (expand q c)"
  proof (cases c)
    case (Raw d)
    then have w: "chunk_wf q (Raw d)" using assms by simp
    then have "512 * q dvd length d" by (simp add: dvd_eq_mod_eq_0)
    then have "length d div (512 * q) * (512 * q) = length d" by (rule dvd_div_mult_self)
    then show ?thesis using raw_blocks(1) [OF w] by (simp only: Raw chunk_size.simps)
  qed simp
qed

context flash_device
begin

lemma flash_write_ok:
  assumes g: "good (fworld st)" and sz: "unat sz = 512 * k" "0 < k" "512 * k < 2 ^ 32"
    and start: "unat start = 512 * S" "first \<le> S" "S + k \<le> blks"
  shows "\<exists>w'. flash_write drv source sz start st = Some (of_nat (512 * k), st\<lparr>fworld := w'\<rparr>) \<and> good w'
    \<and> blk w' = store_run 512 (blk (fworld st)) S k (load_bytes (fmem st) source (512 * k))"
proof -
  obtain p where p: "find_mmc_device 0 (fworld st) = Some p" "write_bl_len (mmc_at p (fworld st)) = 512"
    using slot [OF g] by blast
  have us: "unat (start div 512) = S" "unat (sz div 512) = k" and m: "sz mod 512 = 0"
    using sz(1) start(1) by (simp_all add: unat_div word_unat_eq_iff unat_mod)
  then have ne: "sz div 512 \<noteq> 0" using sz(2) by auto
  obtain w' where w: "write_from drv (start div 512) (sz div 512) 512 source st = Some (ucast (sz div 512), st\<lparr>fworld := w'\<rparr>)"
      "good w'" "blk w' = store_run 512 (blk (fworld st)) S k (load_bytes (fmem st) source (512 * k))"
    using write_from_ok [OF g ne, of "start div 512" source] start(2,3) unfolding us by blast
  have "(ucast (sz div 512) :: u32) = of_nat k"
    using us(2) sz(3) by (simp add: word_unat_eq_iff unat_ucast_u64_u32 unat_of_nat_u32)
  then have "ucast (sz div 512) * 512 = (of_nat (512 * k) :: u32)" by (simp add: mult.commute)
  then show ?thesis using w p m by (intro exI [of _ w']) (simp add: flash_write_def)
qed

lemma chunk_step:
  assumes g: "good (fworld st)" and q: "0 < q" "512 * q < 2 ^ 32" and wf: "chunk_wf q c"
    and h: "holds (fmem st) source (chunk_bytes q c)"
    and start: "unat start = 512 * S" "first \<le> S" "S + length (expand q c) \<le> blks"
    and lim: "unat outlen + 512 * length (expand q c) \<le> unat psize" "unat psize < 2 ^ 63"
  shows "\<exists>w' start' outlen'. chunk_loop drv (of_nat (512 * q)) psize (Suc n) source start outlen st
      = chunk_loop drv (of_nat (512 * q)) psize n (source + of_nat (length (chunk_bytes q c))) start' outlen' (st\<lparr>fworld := w'\<rparr>)
    \<and> good w' \<and> blk w' = overwrite (blk (fworld st)) S (expand q c)
    \<and> unat start' = 512 * (S + length (expand q c)) \<and> unat outlen' = unat outlen + 512 * length (expand q c)"
proof -
  note H = chunk_header_bytes [OF h]
  define clen where "clen = (ucast (of_nat (chunk_size q c) :: u32) * ucast (of_nat (512 * q) :: u32) :: u64)"
  have size: "chunk_size q c < 2 ^ 32" "chunk_size q c * (512 * q) = 512 * length (expand q c)"
    using wf q chunk_wf_size [OF wf] by simp_all
  have uc: "unat clen = 512 * length (expand q c)"
  proof -
    have "unat (of_nat (chunk_size q c) :: u32) = chunk_size q c" using size(1) by (intro unat_of_nat_u32) simp
    moreover have "unat (of_nat (512 * q) :: u32) = 512 * q" using q(2) by (intro unat_of_nat_u32) simp
    ultimately show ?thesis unfolding clen_def product_64 using size(2) by simp
  qed
  have uo: "unat (outlen + clen) = unat outlen + 512 * length (expand q c)"
    using uc lim by (subst unat_add_small) simp_all
  have fit: "\<not> outlen + clen > psize" using lim(1) by (simp add: word_less_nat_alt uo)
  have us: "unat (start + clen) = 512 * (S + length (expand q c))"
    using uc start blks_32 by (subst unat_add_small) simp_all
  show ?thesis
  proof (cases c)
    case (Skip k)
    have e: "length (chunk_bytes q c) = 12" by (simp add: Skip chunk_bytes_def)
    have "chunk_loop drv (of_nat (512 * q)) psize (Suc n) source start outlen st
        = chunk_loop drv (of_nat (512 * q)) psize n (source + 12) (start + clen) (outlen + clen) st"
      using H(1) fit clen_def by (simp add: Skip CHUNK_TYPE_RAW_def CHUNK_TYPE_DONT_CARE_def Let_def)
    then show ?thesis using g us uo unfolding e
      by (intro exI [of _ "fworld st"] exI [of _ "start + clen"] exI [of _ "outlen + clen"])
        (simp add: Skip overwrite_skip)
  next
    case (Raw d)
    define k where "k = length (expand q c)"
    have dk: "length d = 512 * k" "0 < k" "512 * k < 2 ^ 32" "512 * k + 12 < 2 ^ 32"
      using raw_blocks [OF wf [unfolded Raw]] by (simp_all add: k_def Raw)
    have dm: "load_bytes (fmem st) (source + 12) (512 * k) = d" using H(2) dk by (simp add: Raw holds_def)
    obtain w' where w: "flash_write drv (source + 12) clen start st = Some (of_nat (512 * k), st\<lparr>fworld := w'\<rparr>)"
        "good w'" "blk w' = store_run 512 (blk (fworld st)) S k d"
      using flash_write_ok [OF g uc [folded k_def] dk(2,3) start(1,2) start(3) [folded k_def], of "source + 12"] dm by auto
    have e: "length (chunk_bytes q c) = 12 + 512 * k" using dk(1) by (simp add: Raw chunk_bytes_def)
    have "ucast (of_nat (512 * k) :: u32) = clen"
      using uc dk(3) by (simp add: word_unat_eq_iff unat_ucast_u32_u64 unat_of_nat_u32 k_def [symmetric] del: of_nat_mult)
    moreover have "ucast (of_nat (length d + 12) :: u32) = clen + 12"
    proof -
      have "unat (clen + 12) = 512 * k + 12" using uc dk(4) by (subst unat_add_small) (simp_all add: k_def)
      then show ?thesis using dk(1,4)
        by (simp add: word_unat_eq_iff unat_ucast_u32_u64 unat_of_nat_u32 del: of_nat_add of_nat_mult)
    qed
    ultimately have "chunk_loop drv (of_nat (512 * q)) psize (Suc n) source start outlen st
        = chunk_loop drv (of_nat (512 * q)) psize n (source + 12 + ucast clen) (start + clen) (outlen + clen)
            (st\<lparr>fworld := w'\<rparr>)"
      using H(1) fit w(1) clen_def by (simp add: Raw Let_def del: of_nat_add of_nat_mult)
    moreover have "source + 12 + ucast clen = source + of_nat (12 + 512 * k)"
    proof -
      have "(ucast clen :: u32) = of_nat (unat clen)" by simp
      then have "(ucast clen :: u32) = of_nat (512 * k)" unfolding uc k_def .
      then show ?thesis by (simp add: add.assoc)
    qed
    ultimately have "chunk_loop drv (of_nat (512 * q)) psize (Suc n) source start outlen st
        = chunk_loop drv (of_nat (512 * q)) psize n (source + of_nat (12 + 512 * k)) (start + clen) (outlen + clen)
            (st\<lparr>fworld := w'\<rparr>)"
      by simp
    then show ?thesis using w us uo dk(1) unfolding e k_def [symmetric]
      by (intro exI [of _ w'] exI [of _ "start + clen"] exI [of _ "outlen + clen"])
        (simp add: Raw overwrite_cut)
  qed
qed

lemma chunk_loop_image:
  assumes "good (fworld st)" and "0 < q" "512 * q < 2 ^ 32" and "list_all (chunk_wf q) cs"
    and "holds (fmem st) source (concat (map (chunk_bytes q) cs))"
    and "unat start = 512 * S" "first \<le> S" "S + length (expand_all q cs) \<le> blks"
    and "unat outlen + 512 * length (expand_all q cs) \<le> unat psize" "unat psize < 2 ^ 63"
  shows "\<exists>w'. chunk_loop drv (of_nat (512 * q)) psize (length cs) source start outlen st = Some (0, st\<lparr>fworld := w'\<rparr>)
    \<and> good w' \<and> blk w' = overwrite (blk (fworld st)) S (expand_all q cs)"
  using assms
proof (induction cs arbitrary: st source start outlen S)
  case Nil
  then show ?case by (intro exI [of _ "fworld st"]) (simp add: expand_all_def)
next
  case (Cons c cs)
  have e: "expand_all q (c # cs) = expand q c @ expand_all q cs" by (simp add: expand_all_def)
  have h: "holds (fmem st) source (chunk_bytes q c)"
      "holds (fmem st) (source + of_nat (length (chunk_bytes q c))) (concat (map (chunk_bytes q) cs))"
    using Cons.prems(5) by (simp_all add: holds_append)
  have wf: "chunk_wf q c" "list_all (chunk_wf q) cs" using Cons.prems(4) by simp_all
  have fits: "S + length (expand q c) \<le> blks" "unat outlen + 512 * length (expand q c) \<le> unat psize"
    using Cons.prems(8,9) by (simp_all add: e)
  obtain w1 start1 outlen1 where step: "chunk_loop drv (of_nat (512 * q)) psize (Suc (length cs)) source start outlen st
      = chunk_loop drv (of_nat (512 * q)) psize (length cs) (source + of_nat (length (chunk_bytes q c))) start1 outlen1
          (st\<lparr>fworld := w1\<rparr>)"
    and w1: "good w1" "blk w1 = overwrite (blk (fworld st)) S (expand q c)"
    and u1: "unat start1 = 512 * (S + length (expand q c))" "unat outlen1 = unat outlen + 512 * length (expand q c)"
    using chunk_step [OF Cons.prems(1-3) wf(1) h(1) Cons.prems(6,7) fits(1) fits(2) Cons.prems(10), of "length cs"] by blast
  have "\<exists>w'. chunk_loop drv (of_nat (512 * q)) psize (length cs) (source + of_nat (length (chunk_bytes q c))) start1 outlen1
      (st\<lparr>fworld := w1\<rparr>) = Some (0, st\<lparr>fworld := w1\<rparr>\<lparr>fworld := w'\<rparr>) \<and> good w'
    \<and> blk w' = overwrite (blk (fworld (st\<lparr>fworld := w1\<rparr>))) (S + length (expand q c)) (expand_all q cs)"
    using w1(1) h(2) wf(2) u1 Cons.prems by (intro Cons.IH) (simp_all add: e)
  then show ?case using step w1(2) by (auto simp: e overwrite_append)
qed

lemma length_expand_all:
  assumes "list_all (chunk_wf q) cs"
  shows "512 * length (expand_all q cs) = (\<Sum>c\<leftarrow>cs. chunk_size q c) * (512 * q)"
  using assms by (induction cs) (simp_all add: expand_all_def chunk_wf_size(2) add_mult_distrib)

lemma write_unsparse_ok:
  assumes g: "good (fworld st)" and wf: "image_wf q cs" and h: "holds (fmem st) source (image_bytes q cs)"
    and start: "unat start = 512 * S" "first \<le> S" "S + length (expand_all q cs) \<le> blks"
    and lim: "512 * length (expand_all q cs) \<le> unat psize" "unat psize < 2 ^ 63"
  shows "\<exists>w'. write_unsparse drv source sz start psize st = Some (0, st\<lparr>fworld := w'\<rparr>) \<and> good w'
    \<and> blk w' = overwrite (blk (fworld st)) S (expand_all q cs)"
proof -
  have q: "0 < q" "512 * q < 2 ^ 32" and wfs: "list_all (chunk_wf q) cs" and len: "length cs < 2 ^ 32"
    and blocks: "(\<Sum>c\<leftarrow>cs. chunk_size q c) < 2 ^ 32"
    using wf by (simp_all add: image_wf_def)
  note H = sparse_header_bytes [OF h]
  have "unat (of_nat (\<Sum>c\<leftarrow>cs. chunk_size q c) :: u32) = (\<Sum>c\<leftarrow>cs. chunk_size q c)"
    "unat (of_nat (512 * q) :: u32) = 512 * q" and n: "unat (of_nat (length cs) :: u32) = length cs"
    using blocks q(2) len by (simp_all add: unat_of_nat_u32 del: of_nat_mult)
  then have "unat (ucast (of_nat (\<Sum>c\<leftarrow>cs. chunk_size q c) :: u32) * ucast (of_nat (512 * q) :: u32) :: u64) \<le> unat psize"
    unfolding product_64 using lim(1) length_expand_all [OF wfs] by simp
  then have total: "\<not> ucast (of_nat (\<Sum>c\<leftarrow>cs. chunk_size q c) :: u32) * ucast (of_nat (512 * q) :: u32) > psize"
    by (simp add: word_less_nat_alt)
  have "write_unsparse drv source sz start psize st
      = chunk_loop drv (of_nat (512 * q)) psize (length cs) (source + 28) start 0 st"
    unfolding write_unsparse_def H(1) using total n
    by (simp add: SPARSE_HEADER_MAJOR_VER_def del: of_nat_mult)
  then show ?thesis
    using chunk_loop_image [OF g q wfs H(2) start, of 0 psize] lim by simp
qed

end

text \<open>
  C8. A well-formed sparse image that fits its partition is written so that the device holds the
  expanded image: the blocks of raw chunks have their data, skipped blocks and all other blocks of the
  device keep their content.
\<close>

theorem write_unsparse_refines:
  assumes "flash_device drv good blk first blks" and "good (fworld st)"
    and "image_wf q cs" and "holds (fmem st) source (image_bytes q cs)"
    and "unat start = 512 * S" and "first \<le> S" and "S + length (expand_all q cs) \<le> blks"
    and "512 * length (expand_all q cs) \<le> unat psize" and "unat psize < 2 ^ 63"
  shows "\<exists>w'. write_unsparse drv source sz start psize st = Some (0, st\<lparr>fworld := w'\<rparr>) \<and> good w'
    \<and> blk w' = overwrite (blk (fworld st)) S (expand_all q cs)"
  using flash_device.write_unsparse_ok [OF assms] .

text \<open>An image of three chunks in the memory of the emulated machine.\<close>

definition demo_image :: "chunk list" where
  "demo_image = [Raw (replicate 1024 7), Skip 3, Raw (replicate 512 9)]"

definition demo_sparse :: "card_state flash" where
  "demo_sparse = demo_flash\<lparr>fmem := store_bytes (fmem demo_flash) 0x10000 (image_bytes 1 demo_image)\<rparr>"

lemma demo_image_wf: "image_wf 1 demo_image"
  by (simp add: image_wf_def demo_image_def)

lemma demo_image_length: "length (expand_all 1 demo_image) = 6"
  by (simp add: expand_all_def demo_image_def)

lemma demo_image_held: "holds (fmem demo_sparse) 0x10000 (image_bytes 1 demo_image)"
proof -
  have "length (image_bytes 1 demo_image) < 4294967296"
    by (simp add: image_bytes_def demo_image_def chunk_bytes_def)
  then show ?thesis unfolding holds_def demo_sparse_def by (simp add: load_store_same)
qed

lemma demo_sparse_good: "sim.device_good 0 sim_mmc (fworld demo_sparse)"
  by (simp add: demo_sparse_def demo_flash_good)

lemma demo_sparse_range:
  "unat (0x800000 :: u64) = 512 * 0x4000" "unat (boot_part_size sim_mmc div 512) \<le> 0x4000"
  "0x4000 + length (expand_all 1 demo_image) \<le> unat (bdev_lba sim_mmc)"
  "512 * length (expand_all 1 demo_image) \<le> unat (0x2000 :: u64)" "unat (0x2000 :: u64) < 2 ^ 63"
  by (simp_all add: demo_image_length [simplified] sim_mmc_def)

lemma write_unsparse_refines_witness:
  "\<exists>w. write_unsparse sim_host 0x10000 2000 0x800000 0x2000 demo_sparse = Some (0, demo_sparse\<lparr>fworld := w\<rparr>)
    \<and> sim_cells (host w) 0 0x4001 = replicate 512 7 \<and> sim_cells (host w) 0 0x4005 = replicate 512 9"
proof -
  obtain w where w: "write_unsparse sim_host 0x10000 2000 0x800000 0x2000 demo_sparse
      = Some (0, demo_sparse\<lparr>fworld := w\<rparr>)"
    and c: "sim_cells (host w) 0 = overwrite (sim_cells (host (fworld demo_sparse)) 0) 0x4000 (expand_all 1 demo_image)"
    using write_unsparse_refines [OF simdev.flash.flash_device_axioms demo_sparse_good demo_image_wf demo_image_held
        demo_sparse_range] by blast
  have "expand_all 1 demo_image = [Some (replicate 512 7), Some (replicate 512 7), None, None, None, Some (replicate 512 9)]"
    by (simp add: expand_all_def demo_image_def cut_def upt_rec numeral_3_eq_3)
  then show ?thesis using w c by (intro exI [of _ w]) (simp add: overwrite_def)
qed

lemma write_unsparse_confined_witness:
  "\<exists>st. write_unsparse sim_host 0x10000 2000 0x800000 0x2000 demo_sparse = Some (0, st)
    \<and> intact_outside 0x4000 0x4010 (host (fworld st))"
proof -
  obtain w where w: "write_unsparse sim_host 0x10000 2000 0x800000 0x2000 demo_sparse
      = Some (0, demo_sparse\<lparr>fworld := w\<rparr>)"
    using simdev.flash.write_unsparse_ok [OF demo_sparse_good demo_image_wf demo_image_held demo_sparse_range] by blast
  have s: "slot_512 (fworld demo_sparse)"
    by (simp add: slot_512_def demo_sparse_def demo_flash_def sim_world_def find_mmc_device_def mmc_at_def sim_mmc_def)
  have i: "intact_outside 0x4000 0x4010 (host (fworld demo_sparse))"
    by (simp add: intact_outside_def sim_cells_def demo_sparse_def demo_flash_def sim_world_def)
  have g: "write_guard sim_host (intact_outside 0x4000 0x4010) (unat (0x800000 :: u64) div 512) 0x4010"
    using simguard.write_guard_axioms [of "0x4000" "0x4010"] by simp
  have r: "(unat (0x800000 :: u64) + unat (0x2000 :: u64) + 511) div 512 \<le> 0x4010" "(0x4010 :: nat) < 2 ^ 32"
    "unat (0x2000 :: u64) < 2 ^ 33 - 1"
    by simp_all
  show ?thesis using write_unsparse_confined [OF g r s w i] w by blast
qed

end
