(* ===== verification/Fastboot.thy ===== *)
theory Fastboot
  imports Sparse
begin

text \<open>
  drivers/usb/gadget/fastboot.c over the packet calls of drivers/usb/gadget/f\_abi.c: the command session
  that downloads images and writes them to named partitions.  A pass of the command loop is a function;
  the session is a step relation on states.  The bulk endpoints are the argument \<open>link\<close>.  No result
  (\<open>None\<close>) stands for a request that never completes or a store outside an array.  Messages are left out.
\<close>

section \<open>State\<close>

text \<open>
  The endpoints: \<open>ep_out\<close> waits for a packet of at most the given length, \<open>ep_in\<close> sends one and gives the
  count of bytes taken.
\<close>

record 'u usb_link =
  ep_out :: "u32 \<Rightarrow> 'u \<Rightarrow> (bytes \<times> 'u) option"
  ep_in :: "bytes \<Rightarrow> 'u \<Rightarrow> (u32 \<times> 'u) option"

datatype fastboot_state = STATE_OFFLINE | STATE_COMMAND | STATE_COMPLETE | STATE_ERROR

text \<open>The handlers that commands point to.\<close>

datatype handler = cmd_getvar | cmd_download | cmd_flash | cmd_erase | cmd_boot | cmd_reboot | cmd_powerdown
  | cmd_continue | cmd_reboot_bootloader

record fastboot_cmd =
  cmd_prefix :: bytes
  cmd_handle :: handler

record fastboot_var =
  var_name :: bytes
  var_value :: bytes

text \<open>The lists have the last registration first; \<open>sent\<close> records the packets that were sent.\<close>

record ('h, 'u) fastboot =
  cmdlist :: "fastboot_cmd list"
  varlist :: "fastboot_var list"
  buffer :: bytes
  download_base :: u32
  download_max :: u32
  download_size :: u32
  fb_state :: fastboot_state
  storage :: "'h flash"
  usb :: 'u
  sent :: "bytes list"

definition FASTBOOT_CMD_MAX :: nat where
  "FASTBOOT_CMD_MAX = 20"

definition FASTBOOT_VAR_MAX :: nat where
  "FASTBOOT_VAR_MAX = 5"

definition CONFIG_FASTBOOT_BUFFER_SIZE :: u32 where
  "CONFIG_FASTBOOT_BUFFER_SIZE = 800 * 1024 * 1024"

definition USB_DMA_BUFFER_LENGTH :: u32 where
  "USB_DMA_BUFFER_LENGTH = 32 * 1024"

definition fastboot_register :: "bytes \<Rightarrow> handler \<Rightarrow> ('h, 'u) fastboot \<Rightarrow> ('h, 'u) fastboot" where
  "fastboot_register pre h s =
     (if length (cmdlist s) \<ge> FASTBOOT_CMD_MAX then s
      else s\<lparr>cmdlist := \<lparr>cmd_prefix = pre, cmd_handle = h\<rparr> # cmdlist s\<rparr>)"

definition fastboot_publish :: "bytes \<Rightarrow> bytes \<Rightarrow> ('h, 'u) fastboot \<Rightarrow> ('h, 'u) fastboot" where
  "fastboot_publish name val s =
     (if length (varlist s) \<ge> FASTBOOT_VAR_MAX then s
      else s\<lparr>varlist := \<lparr>var_name = name, var_value = val\<rparr> # varlist s\<rparr>)"

section \<open>Packets\<close>

definition hex_digit :: "u8 \<Rightarrow> u32 option" where
  "hex_digit c =
     (if 48 \<le> c \<and> c \<le> 57 then Some (ucast (c - 48))
      else if 97 \<le> c \<and> c \<le> 102 then Some (ucast (c - 97 + 10))
      else if 65 \<le> c \<and> c \<le> 70 then Some (ucast (c - 65 + 10))
      else None)"

fun hex_loop :: "u32 \<Rightarrow> bytes \<Rightarrow> u32" where
  "hex_loop n [] = n"
| "hex_loop n (c # cs) = (case hex_digit c of Some d \<Rightarrow> hex_loop (push_bit 4 n OR d) cs | None \<Rightarrow> n)"

definition hex2unsigned :: "bytes \<Rightarrow> u32" where
  "hex2unsigned x = hex_loop 0 x"

text \<open>The packet that was received, with its length; -1 for a request that is too long.\<close>

definition usb_abi_recv :: "'u usb_link \<Rightarrow> u32 \<Rightarrow> 'u \<Rightarrow> ((int \<times> bytes) \<times> 'u) option" where
  "usb_abi_recv link len u =
     (if len > USB_DMA_BUFFER_LENGTH then Some ((-1, []), u)
      else do { (bs, u) \<leftarrow> ep_out link len u; Some ((int (length bs), bs), u) })"

definition usb_abi_send :: "'u usb_link \<Rightarrow> bytes \<Rightarrow> 'u \<Rightarrow> (u32 \<times> 'u) option" where
  "usb_abi_send link packet u = ep_in link packet u"

text \<open>The bytes of the packets go one behind the other to the destination.\<close>

partial_function (option) read_packets ::
  "'u usb_link \<Rightarrow> u32 \<Rightarrow> u32 \<Rightarrow> bytes \<Rightarrow> 'u \<Rightarrow> ((u32 \<times> bytes) \<times> 'u) option" where
  "read_packets link len read_cnt got u =
     (if len > read_cnt then do {
        let left_cnt = len - read_cnt;
        let want_cnt = (if left_cnt > USB_DMA_BUFFER_LENGTH then USB_DMA_BUFFER_LENGTH else left_cnt);
        ((r, bs), u) \<leftarrow> usb_abi_recv link want_cnt u;
        let current_cnt = word_of_int r;
        let read_cnt = read_cnt + current_cnt;
        if current_cnt < USB_DMA_BUFFER_LENGTH then Some ((read_cnt, got @ bs), u)
        else read_packets link len read_cnt (got @ bs) u
      } else Some ((read_cnt, got), u))"

text \<open>The count or -1, and the bytes that were stored.\<close>

definition usb_read :: "'u usb_link \<Rightarrow> u32 \<Rightarrow> ('h, 'u) fastboot \<Rightarrow> ((int \<times> bytes) \<times> ('h, 'u) fastboot) option" where
  "usb_read link len s =
     (if fb_state s = STATE_ERROR then Some ((-1, []), s)
      else do {
        ((n, got), u) \<leftarrow> read_packets link len 0 [] (usb s);
        Some ((sint n, got), s\<lparr>usb := u\<rparr>)
      })"

definition usb_write :: "'u usb_link \<Rightarrow> bytes \<Rightarrow> ('h, 'u) fastboot \<Rightarrow> (int \<times> ('h, 'u) fastboot) option" where
  "usb_write link buf s =
     (if fb_state s = STATE_ERROR then Some (-1, s)
      else do {
        (_, u) \<leftarrow> usb_abi_send link buf (usb s);
        Some (int (length buf), s\<lparr>usb := u, sent := sent s @ [buf]\<rparr>)
      })"

text \<open>The response is an array of 64 bytes.\<close>

definition fastboot_ack :: "'u usb_link \<Rightarrow> bytes \<Rightarrow> bytes \<Rightarrow> ('h, 'u) fastboot \<Rightarrow> ('h, 'u) fastboot option" where
  "fastboot_ack link code reason s =
     (if fb_state s \<noteq> STATE_COMMAND then Some s
      else if length code + length reason \<ge> 64 then None
      else do {
        (_, s) \<leftarrow> usb_write link (code @ reason) (s\<lparr>fb_state := STATE_COMPLETE\<rparr>);
        Some s
      })"

definition fastboot_fail :: "'u usb_link \<Rightarrow> bytes \<Rightarrow> ('h, 'u) fastboot \<Rightarrow> ('h, 'u) fastboot option" where
  "fastboot_fail link reason s = fastboot_ack link (str ''FAIL'') reason s"

definition fastboot_okay :: "'u usb_link \<Rightarrow> bytes \<Rightarrow> ('h, 'u) fastboot \<Rightarrow> ('h, 'u) fastboot option" where
  "fastboot_okay link info s = fastboot_ack link (str ''OKAY'') info s"

section \<open>Handlers\<close>

definition handle_getvar :: "'u usb_link \<Rightarrow> bytes \<Rightarrow> ('h, 'u) fastboot \<Rightarrow> ('h, 'u) fastboot option" where
  "handle_getvar link arg s =
     (case find (\<lambda>v. var_name v = arg) (varlist s) of
        Some v \<Rightarrow> fastboot_okay link (var_value v) s
      | None \<Rightarrow> fastboot_okay link [] s)"

definition handle_download :: "'u usb_link \<Rightarrow> bytes \<Rightarrow> ('h, 'u) fastboot \<Rightarrow> ('h, 'u) fastboot option" where
  "handle_download link arg s =
     (let len = hex2unsigned arg; s = s\<lparr>download_size := 0\<rparr>
      in if len > download_max s then
           let s = s\<lparr>storage := put_error (str ''10001'') (storage s)\<rparr>
           in fastboot_fail link (error_string (storage s)) s
         else do {
           (n, s) \<leftarrow> usb_write link (str ''DATA'' @ number (ucast len) 16 8 (-1) (ZEROPAD OR SMALL)) s;
           if n < 0 then Some s
           else do {
             ((r, got), s) \<leftarrow> usb_read link len s;
             let s = s\<lparr>storage := (storage s)\<lparr>fmem := store_bytes (fmem (storage s)) (download_base s) got\<rparr>\<rparr>;
             if r < 0 \<or> word_of_int r \<noteq> len then Some (s\<lparr>fb_state := STATE_ERROR\<rparr>)
             else fastboot_okay link (str ''download completed'') (s\<lparr>download_size := len\<rparr>)
           }
         })"

definition handle_flash ::
  "'h mmc_host \<Rightarrow> 'u usb_link \<Rightarrow> bytes \<Rightarrow> ('h, 'u) fastboot \<Rightarrow> ('h, 'u) fastboot option" where
  "handle_flash drv link arg s = do {
     (ret, st) \<leftarrow> flash_partition_erase_write drv arg (download_base s) (download_size s) (storage s);
     let s = s\<lparr>storage := st\<rparr>;
     if ret = 0 then fastboot_okay link [] s else fastboot_fail link (error_string (storage s)) s
   }"

definition handle_erase ::
  "'h mmc_host \<Rightarrow> 'u usb_link \<Rightarrow> bytes \<Rightarrow> ('h, 'u) fastboot \<Rightarrow> ('h, 'u) fastboot option" where
  "handle_erase drv link arg s = do {
     (ret, st) \<leftarrow> flash_partition_erase drv arg (storage s);
     let s = s\<lparr>storage := st\<rparr>;
     if ret = 0 then fastboot_okay link [] s else fastboot_fail link (str ''erase error'') s
   }"

text \<open>How a handler or a pass of the loop ends: the reboot handler does not come back.\<close>

datatype 's outcome = Next 's | Leave 's | Rebooting 's

definition run_handler ::
  "'h mmc_host \<Rightarrow> 'u usb_link \<Rightarrow> handler \<Rightarrow> bytes \<Rightarrow> ('h, 'u) fastboot \<Rightarrow> ('h, 'u) fastboot outcome option" where
  "run_handler drv link h arg s =
     (case h of
        cmd_getvar \<Rightarrow> map_option Next (handle_getvar link arg s)
      | cmd_download \<Rightarrow> map_option Next (handle_download link arg s)
      | cmd_flash \<Rightarrow> map_option Next (handle_flash drv link arg s)
      | cmd_erase \<Rightarrow> map_option Next (handle_erase drv link arg s)
      | cmd_boot \<Rightarrow> map_option Next (fastboot_okay link [] s)
      | cmd_reboot \<Rightarrow> map_option Rebooting (fastboot_okay link [] s)
      | cmd_powerdown \<Rightarrow> map_option Next (fastboot_okay link [] s)
      | cmd_continue \<Rightarrow> map_option Next (fastboot_okay link [] s)
      | cmd_reboot_bootloader \<Rightarrow> map_option Next (fastboot_okay link [] s))"

section \<open>The session\<close>

definition find_cmd :: "bytes \<Rightarrow> fastboot_cmd list \<Rightarrow> fastboot_cmd option" where
  "find_cmd buf cmds = find (\<lambda>cmd. take (length (cmd_prefix cmd)) buf = cmd_prefix cmd) cmds"

definition cmd_arg :: "fastboot_cmd \<Rightarrow> bytes \<Rightarrow> bytes" where
  "cmd_arg cmd buf = takeWhile (\<lambda>c. c \<noteq> 0) (drop (length (cmd_prefix cmd)) buf)"

text \<open>The search for the command in the buffer, its handler and the reply that a handler did not send.\<close>

definition dispatch ::
  "'h mmc_host \<Rightarrow> 'u usb_link \<Rightarrow> ('h, 'u) fastboot \<Rightarrow> ('h, 'u) fastboot outcome option" where
  "dispatch drv link s =
     (case find_cmd (buffer s) (cmdlist s) of
        Some cmd \<Rightarrow> do {
          res \<leftarrow> run_handler drv link (cmd_handle cmd) (cmd_arg cmd (buffer s)) (s\<lparr>fb_state := STATE_COMMAND\<rparr>);
          case res of
            Next s \<Rightarrow>
              if fb_state s = STATE_COMMAND then map_option Next (fastboot_fail link (str ''unknown reason'') s)
              else Some (Next s)
          | _ \<Rightarrow> Some res
        }
      | None \<Rightarrow> map_option Next (fastboot_fail link (str ''unknown command'') s))"

text \<open>A pass of the loop after its test.\<close>

definition command_pass ::
  "'h mmc_host \<Rightarrow> 'u usb_link \<Rightarrow> ('h, 'u) fastboot \<Rightarrow> ('h, 'u) fastboot outcome option" where
  "command_pass drv link s = do {
     let s = s\<lparr>buffer := overlay (replicate 64 0) 0 (buffer s)\<rparr>;
     ((r, got), s) \<leftarrow> usb_read link 64 s;
     let s = s\<lparr>buffer := overlay got 0 (buffer s)\<rparr>;
     if r < 0 then Some (Leave s)
     else if nat r \<ge> 4096 then None
     else dispatch drv link (s\<lparr>buffer := (buffer s)[nat r := 0]\<rparr>)
   }"

text \<open>
  The command loop with the endless loop of \<open>fastboot_handler\<close> around it: a pass, or the end of the
  command loop and its restart.  After a reboot there is no step.
\<close>

inductive fastboot_step ::
  "'h mmc_host \<Rightarrow> 'u usb_link \<Rightarrow> ('h, 'u) fastboot \<Rightarrow> ('h, 'u) fastboot \<Rightarrow> bool"
  for drv :: "'h mmc_host" and link :: "'u usb_link" where
  pass: "fb_state s \<noteq> STATE_ERROR \<Longrightarrow> command_pass drv link s = Some (Next s') \<Longrightarrow> fastboot_step drv link s s'"
| leave: "fb_state s \<noteq> STATE_ERROR \<Longrightarrow> command_pass drv link s = Some (Leave s') \<Longrightarrow>
    fastboot_step drv link s (s'\<lparr>fb_state := STATE_OFFLINE\<rparr>)"
| restart: "fb_state s = STATE_ERROR \<Longrightarrow> fastboot_step drv link s (s\<lparr>fb_state := STATE_OFFLINE\<rparr>)"

inductive_cases fastboot_stepE: "fastboot_step drv link s s'"

text \<open>
  \<open>fastboot_init\<close> up to the handler: \<open>serial\<close> is the device id; the allocation is not checked.
\<close>

definition fastboot_init ::
  "u32 \<Rightarrow> u32 \<Rightarrow> bytes \<Rightarrow> 'h flash \<Rightarrow> 'u \<Rightarrow> ('h, 'u) fastboot" where
  "fastboot_init sp a serial st u =
     (let (base, mem, _) = calloc sp 1 CONFIG_FASTBOOT_BUFFER_SIZE (fmem st) a;
          s = \<lparr>cmdlist = [], varlist = [], buffer = replicate 4096 0, download_base = base,
               download_max = CONFIG_FASTBOOT_BUFFER_SIZE, download_size = 0, fb_state = STATE_OFFLINE,
               storage = st\<lparr>fmem := mem\<rparr>, usb = u, sent = []\<rparr>;
          s = fastboot_register (str ''getvar:'') cmd_getvar s;
          s = fastboot_register (str ''download:'') cmd_download s;
          s = fastboot_publish (str ''version'') (str ''1.0'') s;
          s = fastboot_publish (str ''serial'') serial s;
          s = fastboot_register (str ''flash:'') cmd_flash s;
          s = fastboot_register (str ''erase:'') cmd_erase s;
          s = fastboot_register (str ''boot'') cmd_boot s;
          s = fastboot_register (str ''reboot'') cmd_reboot s;
          s = fastboot_register (str ''powerdown'') cmd_powerdown s;
          s = fastboot_register (str ''continue'') cmd_continue s
      in fastboot_register (str ''reboot-bootloader'') cmd_reboot_bootloader s)"

section \<open>What the image writer leaves alone\<close>

text \<open>The result of an operation that changes the device and the error text only.\<close>

definition writes_device :: "'h flash \<Rightarrow> 'h flash \<Rightarrow> bool" where
  "writes_device st st' \<longleftrightarrow> (\<exists>w e. st' = st\<lparr>fworld := w, error_string := e\<rparr> \<and> (e = error_string st \<or> length e < 60)
     \<and> same_devices (fworld st) w)"

lemma writes_device_refl [simp]: "writes_device st st"
  unfolding writes_device_def by (intro exI [of _ "fworld st"] exI [of _ "error_string st"]) simp

lemma writes_device_world: "same_devices (fworld st) w \<Longrightarrow> writes_device st (st\<lparr>fworld := w\<rparr>)"
  unfolding writes_device_def by (intro exI [of _ w] exI [of _ "error_string st"]) simp

lemma writes_device_error [simp]: "writes_device st (put_error e st)"
  unfolding writes_device_def put_error_def Let_def
  by (intro exI [of _ "fworld st"] exI) (auto simp: ERROR_STR_LEN_def)

lemma writes_device_trans:
  assumes "writes_device a b" and "writes_device b c"
  shows "writes_device a c"
proof -
  obtain w e where b: "b = a\<lparr>fworld := w, error_string := e\<rparr>" "e = error_string a \<or> length e < 60"
      "same_devices (fworld a) w"
    using assms(1) by (auto simp: writes_device_def)
  obtain w' e' where "c = b\<lparr>fworld := w', error_string := e'\<rparr>" "e' = error_string b \<or> length e' < 60"
      "same_devices (fworld b) w'"
    using assms(2) by (auto simp: writes_device_def)
  then show ?thesis using b unfolding writes_device_def
    by (intro exI [of _ w'] exI [of _ e']) (auto dest: same_devices_trans)
qed

lemma writes_deviceD:
  assumes "writes_device st st'"
  shows "fmem st' = fmem st" "partitions st' = partitions st"
    "length (error_string st) < 60 \<Longrightarrow> length (error_string st') < 60" "same_devices (fworld st) (fworld st')"
  using assms by (auto simp: writes_device_def)

lemma write_from_device: "write_from drv start cnt bl buf st = Some (n, st') \<Longrightarrow> writes_device st st'"
  by (auto simp: write_from_def bind_eq_Some_conv intro!: writes_device_world dest: bwrite_same)

lemma flash_write_device: "flash_write drv source sz start st = Some (n, st') \<Longrightarrow> writes_device st st'"
  by (auto simp: flash_write_def Let_def bind_eq_Some_conv dest: write_from_device split: if_splits)

lemma chunk_loop_device:
  "chunk_loop drv bs psize n source start outlen st = Some (r, st') \<Longrightarrow> writes_device st st'"
proof (induction n arbitrary: source start outlen st)
  case (Suc n)
  show ?case
    using Suc.prems
    by (auto simp: Let_def bind_eq_Some_conv dest!: Suc.IH dest: flash_write_device writes_device_trans split: if_splits)
qed simp

lemma erase_write_device:
  "flash_partition_erase_write drv name buf sz st = Some (r, st') \<Longrightarrow> writes_device st st'"
  by (auto simp: flash_partition_erase_write_def write_unsparse_def Let_def bind_eq_Some_conv
      dest: write_from_device chunk_loop_device split: if_splits option.splits)

lemma erase_loop_keeps:
  assumes "erase_loop drv p start cnt b w = Some y"
  shows "mmc_devices (snd y) = mmc_devices w"
  using assms
proof (rule erase_loop.raw_induct [rotated], goal_cases)
  case (1 loop drv' p start cnt b w y)
  define r where "r = (if cnt - b > erase_grp_size (mmc_at p w) then erase_grp_size (mmc_at p w) else cnt - b)"
  obtain err w1 where e: "mmc_erase_t drv' p (start + b) r w = (err, w1)" by fastforce
  have "y = (b, w) \<or> y = (b, w1) \<or> loop drv' p start cnt (b + r) w1 = Some y"
    using 1(2) e by (auto simp: Let_def r_def split: if_splits)
  then show ?case using 1(1) erase_t_keeps [OF e] by fastforce
qed

lemma berase_same: "mmc_berase drv d start cnt w = Some (n, w') \<Longrightarrow> same_devices w w'"
  using erase_loop_keeps [of drv _ start cnt 0 w "(n, w')"]
  by (auto simp: mmc_berase_def split: option.splits if_splits)

lemma partition_erase_device: "flash_partition_erase drv name st = Some (r, st') \<Longrightarrow> writes_device st st'"
  by (auto simp: flash_partition_erase_def Let_def bind_eq_Some_conv split: option.splits
      intro!: writes_device_world dest: berase_same)

section \<open>The image writer returns\<close>

text \<open>The device in slot 0 is there and its geometry is set up.\<close>

definition storage_ready :: "'h flash \<Rightarrow> bool" where
  "storage_ready st \<longleftrightarrow> (\<exists>p. find_mmc_device 0 (fworld st) = Some p \<and> write_bl_len (mmc_at p (fworld st)) \<noteq> 0
     \<and> read_bl_len (mmc_at p (fworld st)) \<noteq> 0 \<and> b_max (mmc_at p (fworld st)) \<noteq> 0
     \<and> erase_grp_size (mmc_at p (fworld st)) \<noteq> 0)"

lemma storage_ready_same:
  assumes "storage_ready st" and sd: "same_devices (fworld st) (fworld st')"
  shows "storage_ready st'"
proof -
  obtain p where p: "find_mmc_device 0 (fworld st) = Some p" "write_bl_len (mmc_at p (fworld st)) \<noteq> 0"
      "read_bl_len (mmc_at p (fworld st)) \<noteq> 0" "b_max (mmc_at p (fworld st)) \<noteq> 0"
      "erase_grp_size (mmc_at p (fworld st)) \<noteq> 0"
    using assms(1) by (auto simp: storage_ready_def)
  have d: "same_device (mmc_at p (fworld st)) (mmc_at p (fworld st'))"
    by (rule same_devices_at [OF sd find_device_bound [OF p(1)]])
  have "erase_grp_size (mmc_at p (fworld st')) = erase_grp_size (mmc_at p (fworld st))"
    using arg_cong [OF d [unfolded same_device_def], of erase_grp_size] by simp
  then show ?thesis using p find_same [OF sd, of 0] same_device_fields [OF d] by (auto simp: storage_ready_def)
qed

lemma storage_ready_writes: "storage_ready st \<Longrightarrow> writes_device st st' \<Longrightarrow> storage_ready st'"
  by (blast intro: storage_ready_same writes_deviceD(4))

text \<open>Rules that follow the shape of a program that returns.\<close>

lemma bind_returns: "x \<noteq> None \<Longrightarrow> (\<And>a. x = Some a \<Longrightarrow> f a \<noteq> None) \<Longrightarrow> x \<bind> f \<noteq> None"
  by (cases x) simp_all

lemma if_returns: "(c \<Longrightarrow> x \<noteq> None) \<Longrightarrow> (\<not> c \<Longrightarrow> y \<noteq> None) \<Longrightarrow> (if c then x else y) \<noteq> None"
  by simp

lemma pair_returns: "(\<And>a b. x = (a, b) \<Longrightarrow> f a b \<noteq> None) \<Longrightarrow> (case x of (a, b) \<Rightarrow> f a b) \<noteq> None"
  by (cases x) simp

lemma option_returns:
  "(x = None \<Longrightarrow> y \<noteq> None) \<Longrightarrow> (\<And>a. x = Some a \<Longrightarrow> f a \<noteq> None) \<Longrightarrow> (case x of None \<Rightarrow> y | Some a \<Rightarrow> f a) \<noteq> None"
  by (cases x) simp_all

lemmas returns = bind_returns if_returns pair_returns option_returns option.distinct(2)

lemma write_from_returns:
  assumes "storage_ready st"
  shows "write_from drv start cnt bl buf st \<noteq> None"
proof -
  obtain p where p: "find_mmc_device 0 (fworld st) = Some p" "b_max (mmc_at p (fworld st)) \<noteq> 0"
      "write_bl_len (mmc_at p (fworld st)) \<noteq> 0"
    using assms by (auto simp: storage_ready_def)
  have "mmc_bwrite drv 0 s n data (fworld st) \<noteq> None" for s n data
    using mmc_bwrite_returns [OF p(1,1,2,3)] by simp
  then show ?thesis unfolding write_from_def by (intro returns)
qed

lemma flash_write_returns:
  assumes "storage_ready st"
  shows "flash_write drv source sz start st \<noteq> None"
  using assms unfolding flash_write_def Let_def
  by (intro returns write_from_returns) (auto simp: storage_ready_def)

lemma chunk_loop_returns: "storage_ready st \<Longrightarrow> chunk_loop drv bs psize n source start outlen st \<noteq> None"
proof (induction n arbitrary: source start outlen st)
  case (Suc n)
  then show ?case
    unfolding chunk_loop.simps Let_def
    by (intro returns flash_write_returns Suc.IH)
      (auto intro: storage_ready_writes flash_write_device)
qed simp

lemma erase_write_returns:
  assumes "storage_ready st"
  shows "flash_partition_erase_write drv name buf sz st \<noteq> None"
  using assms unfolding flash_partition_erase_write_def write_unsparse_def Let_def
  by (intro returns write_from_returns chunk_loop_returns) (auto simp: storage_ready_def)

lemma erase_loop_returns:
  assumes "p < length (mmc_devices w)" and "erase_grp_size (mmc_at p w) \<noteq> 0" and "b \<le> cnt"
  shows "\<exists>r. erase_loop drv p start cnt b w = Some r"
  using assms
proof (induction "unat cnt - unat b" arbitrary: b w rule: less_induct)
  case less
  show ?case
  proof (cases "b < cnt")
    case False
    then show ?thesis by (subst erase_loop.simps) simp
  next
    case True
    define r where "r = (if cnt - b > erase_grp_size (mmc_at p w) then erase_grp_size (mmc_at p w) else cnt - b)"
    obtain err w1 where e: "mmc_erase_t drv p (start + b) r w = (err, w1)" by fastforce
    have kept: "mmc_devices w1 = mmc_devices w" by (rule erase_t_keeps [OF e])
    have ucb: "unat (cnt - b) = unat cnt - unat b" using True by (simp add: unat_sub_small word_less_nat_alt)
    have lt: "unat b < unat cnt" using True by (simp add: word_less_nat_alt)
    have r: "r \<le> cnt - b" by (auto simp: r_def)
    have "r \<noteq> 0" using less.prems(2) True by (auto simp: r_def)
    then have pos: "0 < unat r" by (metis gr0I unsigned_eq_0_iff)
    have ur: "unat r \<le> unat cnt - unat b" using r ucb by (simp add: word_le_nat_alt)
    then have ubr: "unat (b + r) = unat b + unat r"
      using lt unat_u32_less [of cnt] by (intro unat_add_small) simp
    have "\<exists>y. erase_loop drv p start cnt (b + r) w1 = Some y"
    proof (rule less.hyps)
      show "unat cnt - unat (b + r) < unat cnt - unat b" using pos lt ubr by simp
      show "b + r \<le> cnt" using ur lt ubr by (simp add: word_le_nat_alt)
    qed (use less.prems kept keeps_at [OF kept] in simp_all)
    then show ?thesis using True e by (subst erase_loop.simps) (simp add: Let_def r_def)
  qed
qed

lemma partition_erase_returns:
  assumes "storage_ready st"
  shows "flash_partition_erase drv name st \<noteq> None"
proof -
  obtain p where p: "find_mmc_device 0 (fworld st) = Some p" "read_bl_len (mmc_at p (fworld st)) \<noteq> 0"
      "erase_grp_size (mmc_at p (fworld st)) \<noteq> 0"
    using assms by (auto simp: storage_ready_def)
  have e: "mmc_berase drv 0 s n (fworld st) \<noteq> None" for s n
    using erase_loop_returns [OF find_device_bound [OF p(1)] p(3), of 0 n drv s] p by (auto simp: mmc_berase_def)
  have "block_len read_bl_len st \<noteq> None" using p by (simp add: block_len_def)
  then show ?thesis
    unfolding flash_partition_erase_def Let_def by (intro returns e)
qed

section \<open>What a session leaves alone\<close>

text \<open>
  The relation between the state \<open>s0\<close> at the start of a session and a later one: the tables and the
  download area are those of the start, sizes are in their bounds, and memory outside the download area
  has not changed.
\<close>

definition session_frame :: "('h, 'u) fastboot \<Rightarrow> ('h, 'u) fastboot \<Rightarrow> bool" where
  "session_frame s0 s \<longleftrightarrow> cmdlist s = cmdlist s0 \<and> varlist s = varlist s0 \<and> download_base s = download_base s0
     \<and> download_max s = download_max s0 \<and> partitions (storage s) = partitions (storage s0)
     \<and> download_size s \<le> download_max s \<and> length (buffer s) = 4096 \<and> length (error_string (storage s)) < 60
     \<and> same_devices (fworld (storage s0)) (fworld (storage s))
     \<and> (\<forall>a. download_max s \<le> a - download_base s \<longrightarrow> fmem (storage s) a = fmem (storage s0) a)"

named_theorems frame \<open>operations keep the frame of the session\<close>

lemma frame_fields [simp]:
  "session_frame s0 (s\<lparr>usb := u\<rparr>) = session_frame s0 s" "session_frame s0 (s\<lparr>sent := l\<rparr>) = session_frame s0 s"
  "session_frame s0 (s\<lparr>fb_state := b\<rparr>) = session_frame s0 s"
  by (simp_all add: session_frame_def)

lemma usb_read_frame [frame]: "usb_read link len s = Some (r, s') \<Longrightarrow> session_frame s0 s \<Longrightarrow> session_frame s0 s'"
  by (auto simp: usb_read_def bind_eq_Some_conv split: if_splits)

lemma usb_write_frame [frame]: "usb_write link buf s = Some (r, s') \<Longrightarrow> session_frame s0 s \<Longrightarrow> session_frame s0 s'"
  by (auto simp: usb_write_def bind_eq_Some_conv split: if_splits)

lemma ack_frame [frame]: "fastboot_ack link code reason s = Some s' \<Longrightarrow> session_frame s0 s \<Longrightarrow> session_frame s0 s'"
  by (auto simp: fastboot_ack_def bind_eq_Some_conv split: if_splits dest: usb_write_frame)

lemma okay_frame [frame]: "fastboot_okay link reason s = Some s' \<Longrightarrow> session_frame s0 s \<Longrightarrow> session_frame s0 s'"
  unfolding fastboot_okay_def by (rule ack_frame)

lemma fail_frame [frame]: "fastboot_fail link reason s = Some s' \<Longrightarrow> session_frame s0 s \<Longrightarrow> session_frame s0 s'"
  unfolding fastboot_fail_def by (rule ack_frame)

lemma storage_frame:
  assumes "session_frame s0 s" and "writes_device (storage s) st'"
  shows "session_frame s0 (s\<lparr>storage := st'\<rparr>)"
  using assms(1) writes_deviceD [OF assms(2)] by (auto simp: session_frame_def dest: same_devices_trans)

lemma download_frame:
  assumes "session_frame s0 s" and "length got \<le> unat (download_max s)"
  shows "session_frame s0 (s\<lparr>storage := (storage s)\<lparr>fmem := store_bytes (fmem (storage s)) (download_base s) got\<rparr>\<rparr>)"
proof -
  have "length got < 4294967296" using assms(2) unat_u32_less [of "download_max s"] by simp
  then have "store_bytes (fmem (storage s)) (download_base s) got a = fmem (storage s) a"
    if "download_max s \<le> a - download_base s" for a
    using that assms(2) by (simp add: store_bytes_patch patch_def word_le_nat_alt)
  then show ?thesis using assms(1) by (auto simp: session_frame_def)
qed

section \<open>Packets of a link\<close>

lemma sint_u32: "sint (b :: u32) = (if unat b < 2 ^ 31 then int (unat b) else int (unat b) - 2 ^ 32)"
proof -
  have "sint b = (uint b + 2 ^ 31) mod 2 ^ 32 - 2 ^ 31"
    by (simp add: sint_uint signed_take_bit_eq_take_bit_shift take_bit_eq_mod)
  moreover have u: "uint b = int (unat b)" by simp
  ultimately show ?thesis
    unfolding u using unat_u32_less [of b]
    by (auto simp: mod_pos_pos_trivial mod_pos_geq simp del: of_nat_unat)
qed

text \<open>The controller never stores more bytes than the request has room for.\<close>

locale bulk_link =
  fixes link :: "'u usb_link"
  assumes packet_fits: "ep_out link len u = Some (bs, u') \<Longrightarrow> length bs \<le> unat len"
begin

lemma recv_fits:
  assumes "usb_abi_recv link len u = Some ((r, bs), u')" and "len \<le> USB_DMA_BUFFER_LENGTH"
  shows "r = int (length bs) \<and> length bs \<le> unat len"
  using assms packet_fits by (auto simp: usb_abi_recv_def bind_eq_Some_conv not_less split: if_splits)

lemma read_packets_fit:
  assumes "read_packets link len cnt got u = Some ((n, got'), u')" and "length got = unat cnt" and "cnt \<le> len"
  shows "length got' = unat n \<and> n \<le> len"
proof -
  have "link' = link \<longrightarrow> length got = unat cnt \<longrightarrow> cnt \<le> len \<longrightarrow>
      length (snd (fst y)) = unat (fst (fst y)) \<and> fst (fst y) \<le> len"
    if "read_packets link' len cnt got u = Some y" for link' len cnt got u y
  proof (rule read_packets.raw_induct [OF _ that], goal_cases)
    case (1 loop link' len cnt got u y)
    show ?case
    proof (intro impI)
      assume h: "link' = link" "length got = unat cnt" "cnt \<le> len"
      define want where "want = (if len - cnt > USB_DMA_BUFFER_LENGTH then USB_DMA_BUFFER_LENGTH else len - cnt)"
      show "length (snd (fst y)) = unat (fst (fst y)) \<and> fst (fst y) \<le> len"
      proof (cases "len > cnt")
        case False
        then show ?thesis using 1(2) h by auto
      next
        case True
        obtain r bs u1 where r: "usb_abi_recv link want u = Some ((r, bs), u1)"
          using 1(2) True h(1) by (auto simp: Let_def want_def bind_eq_Some_conv split: if_splits)
        have want: "want \<le> USB_DMA_BUFFER_LENGTH" "want \<le> len - cnt" by (auto simp: want_def)
        note rb = recv_fits [OF r want(1)]
        have uw: "unat want \<le> unat len - unat cnt"
          using want(2) h(3) by (simp add: word_le_nat_alt unat_sub_small)
        have ur: "unat (word_of_int r :: u32) = length bs"
        proof -
          have "length bs < 4294967296" using rb uw unat_u32_less [of len] by linarith
          then show ?thesis using rb by (simp add: unat_of_nat_u32)
        qed
        have "unat cnt \<le> unat len" "length bs \<le> unat want" using h(3) rb by (simp_all add: word_le_nat_alt)
        then have sum: "unat cnt + length bs \<le> unat len" using uw by simp
        then have un: "unat (cnt + word_of_int r) = unat cnt + length bs"
          using ur unat_u32_less [of len] by (subst unat_add_small) simp_all
        have lim: "cnt + word_of_int r \<le> len" "length (got @ bs) = unat (cnt + word_of_int r)"
          using un sum h(2) rb by (simp_all add: word_le_nat_alt)
        have "y = ((cnt + word_of_int r, got @ bs), u1) \<or> loop link' len (cnt + word_of_int r) (got @ bs) u1 = Some y"
          using 1(2) True r h(1) by (auto simp: Let_def want_def split: if_splits)
        then show ?thesis using 1(1) h(1) lim by fastforce
      qed
    qed
  qed
  from this [OF assms(1)] show ?thesis using assms(2,3) by simp
qed

lemma usb_read_fits:
  assumes "usb_read link len s = Some ((r, got), s')"
  shows "length got \<le> unat len" and "0 \<le> r \<Longrightarrow> r = int (length got)"
proof -
  have "length got \<le> unat len \<and> (0 \<le> r \<longrightarrow> r = int (length got))"
  proof (cases "fb_state s = STATE_ERROR")
    case True
    then show ?thesis using assms by (simp add: usb_read_def)
  next
    case False
    then obtain n u where n: "read_packets link len 0 [] (usb s) = Some ((n, got), u)" "r = sint n"
      using assms by (auto simp: usb_read_def bind_eq_Some_conv)
    have f: "length got = unat n" "n \<le> len" using read_packets_fit [OF n(1)] by simp_all
    have "sint n = int (unat n)" if "0 \<le> sint n"
      using that unat_u32_less [of n] by (simp add: sint_u32 del: of_nat_unat split: if_splits)
    then show ?thesis using f n(2) by (simp add: word_le_nat_alt)
  qed
  then show "length got \<le> unat len" and "0 \<le> r \<Longrightarrow> r = int (length got)" by simp_all
qed

lemma handle_download_frame:
  assumes "handle_download link arg s = Some s'" and f: "session_frame s0 s"
  shows "session_frame s0 s'"
proof -
  define len where "len = hex2unsigned arg"
  have f0: "session_frame s0 (s\<lparr>download_size := 0\<rparr>)" using f by (simp add: session_frame_def)
  show ?thesis
  proof (cases "len > download_max s")
    case True
    have "session_frame s0 (s\<lparr>download_size := 0, storage := put_error (str ''10001'') (storage s)\<rparr>)"
      using storage_frame [OF f0, of "put_error (str ''10001'') (storage s)"] by simp
    then show ?thesis using assms(1) True fail_frame by (auto simp: handle_download_def Let_def len_def)
  next
    case False
    obtain n s1 where w: "usb_write link (str ''DATA'' @ number (ucast len) 16 8 (-1) (ZEROPAD OR SMALL))
        (s\<lparr>download_size := 0\<rparr>) = Some (n, s1)"
      using assms(1) False by (auto simp: handle_download_def Let_def len_def bind_eq_Some_conv)
    have f1: "session_frame s0 s1" by (rule usb_write_frame [OF w f0])
    show ?thesis
    proof (cases "n < 0")
      case True
      then show ?thesis using assms(1) False w f1 by (simp add: handle_download_def Let_def len_def)
    next
      case n: False
      obtain r got s2 where r: "usb_read link len s1 = Some ((r, got), s2)"
        using assms(1) False w n by (auto simp: handle_download_def Let_def len_def bind_eq_Some_conv)
      have f2: "session_frame s0 s2" by (rule usb_read_frame [OF r f1])
      have max: "download_max s2 = download_max s" using f f2 by (simp add: session_frame_def)
      have "unat len \<le> unat (download_max s2)" using False by (simp add: max word_le_nat_alt not_less)
      then have "length got \<le> unat (download_max s2)" using usb_read_fits(1) [OF r] by simp
      note f3 = download_frame [OF f2 this]
      have f4: "session_frame s0 (s2\<lparr>storage := (storage s2)\<lparr>fmem := store_bytes (fmem (storage s2)) (download_base s2) got\<rparr>,
          download_size := len\<rparr>)"
        using f3 False max by (auto simp: session_frame_def not_less)
      show ?thesis
        using assms(1) False w n r f3 okay_frame [OF _ f4]
        by (auto simp: handle_download_def Let_def len_def split: if_splits)
    qed
  qed
qed

lemma run_handler_frame:
  assumes "run_handler drv link h arg s = Some res" and "session_frame s0 s"
  shows "\<forall>s'\<in>set_outcome res. session_frame s0 s'"
proof -
  have "session_frame s0 s'" if "handle_flash drv link arg s = Some s'" for s'
    using that assms(2)
    by (auto simp: handle_flash_def Let_def bind_eq_Some_conv split: if_splits
        dest!: erase_write_device dest: storage_frame okay_frame fail_frame)
  moreover have "session_frame s0 s'" if "handle_erase drv link arg s = Some s'" for s'
    using that assms(2)
    by (auto simp: handle_erase_def Let_def bind_eq_Some_conv split: if_splits
        dest!: partition_erase_device dest: storage_frame okay_frame fail_frame)
  moreover have "session_frame s0 s'" if "handle_getvar link arg s = Some s'" for s'
    using that assms(2) by (auto simp: handle_getvar_def split: option.splits dest: okay_frame)
  ultimately show ?thesis
    using assms handle_download_frame [OF _ assms(2)] okay_frame [OF _ assms(2)]
    by (auto simp: run_handler_def split: handler.splits)
qed

lemma dispatch_frame:
  assumes "dispatch drv link s = Some res" and f: "session_frame s0 s"
  shows "\<forall>s'\<in>set_outcome res. session_frame s0 s'"
proof (cases "find_cmd (buffer s) (cmdlist s)")
  case None
  then show ?thesis using assms fail_frame [OF _ f] by (auto simp: dispatch_def)
next
  case (Some cmd)
  then obtain res1 where r: "run_handler drv link (cmd_handle cmd) (cmd_arg cmd (buffer s)) (s\<lparr>fb_state := STATE_COMMAND\<rparr>)
      = Some res1"
    using assms(1) by (auto simp: dispatch_def bind_eq_Some_conv)
  have "\<forall>s'\<in>set_outcome res1. session_frame s0 s'" by (rule run_handler_frame [OF r]) (simp add: f)
  then show ?thesis
    using assms(1) Some r by (auto simp: dispatch_def split: outcome.splits if_splits dest: fail_frame)
qed

lemma command_pass_frame:
  assumes "command_pass drv link s = Some res" and f: "session_frame s0 s"
  shows "\<forall>s'\<in>set_outcome res. session_frame s0 s'"
proof -
  define s1 where "s1 = s\<lparr>buffer := overlay (replicate 64 0) 0 (buffer s)\<rparr>"
  have f1: "session_frame s0 s1" using f by (auto simp: s1_def session_frame_def overlay_def)
  obtain r got s2 where r: "usb_read link 64 s1 = Some ((r, got), s2)"
    using assms(1) by (auto simp: command_pass_def Let_def s1_def bind_eq_Some_conv)
  have f2: "session_frame s0 s2" by (rule usb_read_frame [OF r f1])
  have got: "length got \<le> 64" using usb_read_fits(1) [OF r] by simp
  define s3 where "s3 = s2\<lparr>buffer := overlay got 0 (buffer s2)\<rparr>"
  have f3: "session_frame s0 s3" using f2 got by (auto simp: s3_def session_frame_def overlay_def)
  then have f4: "session_frame s0 (s3\<lparr>buffer := (buffer s3)[nat r := 0]\<rparr>)" by (auto simp: session_frame_def)
  show ?thesis
    using assms(1) r f3 dispatch_frame [OF _ f4]
    by (auto simp: command_pass_def Let_def s1_def [symmetric] s3_def [symmetric] split: if_splits)
qed

lemma step_frame: "fastboot_step drv link s s' \<Longrightarrow> session_frame s0 s \<Longrightarrow> session_frame s0 s'"
  by (erule fastboot_stepE) (auto dest!: command_pass_frame)

lemma session_keeps_frame: "(fastboot_step drv link)\<^sup>*\<^sup>* s s' \<Longrightarrow> session_frame s0 s \<Longrightarrow> session_frame s0 s'"
  by (induction rule: rtranclp_induct) (auto intro: step_frame)

end

section \<open>Answers\<close>

definition is_reply :: "bytes \<Rightarrow> bool" where
  "is_reply b \<longleftrightarrow> take 4 b = str ''OKAY'' \<or> take 4 b = str ''FAIL''"

text \<open>Exactly one status reply was sent, as the last packet.\<close>

definition one_reply :: "('h, 'u) fastboot \<Rightarrow> ('h, 'u) fastboot \<Rightarrow> bool" where
  "one_reply s s' \<longleftrightarrow> (\<exists>l r. sent s' = sent s @ l @ [r] \<and> is_reply r \<and> list_all (\<lambda>b. \<not> is_reply b) l)"

text \<open>How a handler ends: with one reply, or with a download that broke off.\<close>

fun answered :: "('h, 'u) fastboot \<Rightarrow> ('h, 'u) fastboot outcome \<Rightarrow> bool" where
  "answered s (Next s') \<longleftrightarrow> fb_state s' = STATE_COMPLETE \<and> one_reply s s' \<or> fb_state s' = STATE_ERROR"
| "answered s (Leave s') \<longleftrightarrow> False"
| "answered s (Rebooting s') \<longleftrightarrow> one_reply s s'"

text \<open>What a handler needs to answer: it was called for a command, its texts fit and the device is there.\<close>

definition can_answer :: "('h, 'u) fastboot \<Rightarrow> bool" where
  "can_answer s \<longleftrightarrow> fb_state s = STATE_COMMAND \<and> list_all (\<lambda>v. length (var_value v) < 60) (varlist s)
     \<and> length (error_string (storage s)) < 60 \<and> storage_ready (storage s)"

text \<open>A host that sends packets and takes those it gets.\<close>

lemma is_reply_simps [simp, intro]:
  "is_reply (str ''OKAY'')" "is_reply (str ''OKAY'' @ reason)" "is_reply (str ''FAIL'' @ reason)"
  by (simp_all add: is_reply_def str_def)

lemma data_no_reply [simp]: "\<not> is_reply (str ''DATA'' @ reason)"
  by (simp add: is_reply_def str_def)

lemma one_reply_sent: "sent s' = sent s @ [r] \<Longrightarrow> is_reply r \<Longrightarrow> one_reply s s'"
  unfolding one_reply_def by (intro exI [of _ "[]"] exI [of _ r]) simp

lemma one_reply_data: "sent s' = sent s @ [str ''DATA'' @ digits, str ''OKAY'' @ reason] \<Longrightarrow> one_reply s s'"
  unfolding one_reply_def by (intro exI [of _ "[str ''DATA'' @ digits]"] exI [of _ "str ''OKAY'' @ reason"]) simp

lemma put_error_short: "length (error_string (put_error e st)) < 60"
  by (simp add: put_error_def Let_def ERROR_STR_LEN_def)

locale live_link = bulk_link link for link :: "'u usb_link" +
  assumes out_completes: "ep_out link len u \<noteq> None"
    and in_completes: "ep_in link packet u \<noteq> None"
begin

lemma recv_returns: "usb_abi_recv link len u \<noteq> None"
  unfolding usb_abi_recv_def using out_completes by (intro returns)

lemma read_packets_returns:
  "cnt \<le> len \<Longrightarrow> read_packets link len cnt got u \<noteq> None"
proof (induction "unat len - unat cnt" arbitrary: cnt got u rule: less_induct)
  case less
  show ?case
  proof (cases "len > cnt")
    case False
    then show ?thesis by (subst read_packets.simps) simp
  next
    case True
    define want where "want = (if len - cnt > USB_DMA_BUFFER_LENGTH then USB_DMA_BUFFER_LENGTH else len - cnt)"
    obtain r bs u1 where r: "usb_abi_recv link want u = Some ((r, bs), u1)"
      using recv_returns [of want u] by auto
    have w: "want \<le> USB_DMA_BUFFER_LENGTH" "want \<le> len - cnt" by (auto simp: want_def)
    note rb = recv_fits [OF r w(1)]
    have le: "unat cnt < unat len" using True by (simp add: word_less_nat_alt)
    have uw: "unat want \<le> unat len - unat cnt"
      using w(2) True by (simp add: word_le_nat_alt unat_sub_small word_less_nat_alt)
    then have lb: "unat cnt + length bs \<le> unat len" using rb le by linarith
    then have ur: "unat (word_of_int r :: u32) = length bs"
      using rb unat_u32_less [of len] by (simp add: unat_of_nat_u32)
    then have un: "unat (cnt + word_of_int r) = unat cnt + length bs"
      using lb unat_u32_less [of len] by (subst unat_add_small) simp_all
    have "read_packets link len (cnt + word_of_int r) (got @ bs) u1 \<noteq> None"
      if "\<not> word_of_int r < USB_DMA_BUFFER_LENGTH"
    proof (rule less.hyps)
      have "32768 \<le> length bs" using that ur by (simp add: word_less_nat_alt USB_DMA_BUFFER_LENGTH_def not_less)
      then show "unat len - unat (cnt + word_of_int r) < unat len - unat cnt" unfolding un using le by linarith
      show "cnt + word_of_int r \<le> len" using un lb by (simp add: word_le_nat_alt)
    qed
    then show ?thesis using True r by (subst read_packets.simps) (simp add: Let_def want_def)
  qed
qed

lemma usb_read_returns: "usb_read link len s \<noteq> None"
proof -
  obtain n got u where "read_packets link len 0 [] (usb s) = Some ((n, got), u)"
    using read_packets_returns [of 0 len "[]" "usb s"] by auto
  then show ?thesis by (simp add: usb_read_def)
qed

lemma usb_write_live:
  assumes "fb_state s \<noteq> STATE_ERROR"
  shows "\<exists>u. usb_write link buf s = Some (int (length buf), s\<lparr>usb := u, sent := sent s @ [buf]\<rparr>)"
  using assms in_completes [of buf "usb s"] by (auto simp: usb_write_def usb_abi_send_def)

lemma ack_live:
  assumes "fb_state s = STATE_COMMAND" and "length code + length reason < 64"
  shows "\<exists>u. fastboot_ack link code reason s
    = Some (s\<lparr>fb_state := STATE_COMPLETE, usb := u, sent := sent s @ [code @ reason]\<rparr>)"
  using assms usb_write_live [of "s\<lparr>fb_state := STATE_COMPLETE\<rparr>" "code @ reason"] by (auto simp: fastboot_ack_def)

lemma okay_live:
  assumes "fb_state s = STATE_COMMAND" and "length reason < 60"
  shows "\<exists>u. fastboot_okay link reason s
    = Some (s\<lparr>fb_state := STATE_COMPLETE, usb := u, sent := sent s @ [str ''OKAY'' @ reason]\<rparr>)"
  unfolding fastboot_okay_def using assms by (intro ack_live) (simp_all add: str_def)

lemma fail_live:
  assumes "fb_state s = STATE_COMMAND" and "length reason < 60"
  shows "\<exists>u. fastboot_fail link reason s
    = Some (s\<lparr>fb_state := STATE_COMPLETE, usb := u, sent := sent s @ [str ''FAIL'' @ reason]\<rparr>)"
  unfolding fastboot_fail_def using assms by (intro ack_live) (simp_all add: str_def)

lemma usb_read_live: "\<exists>r got u. usb_read link len s = Some ((r, got), s\<lparr>usb := u\<rparr>)"
proof -
  obtain r got s' where r: "usb_read link len s = Some ((r, got), s')" using usb_read_returns [of len s] by auto
  then have "\<exists>u. s' = s\<lparr>usb := u\<rparr>" by (auto simp: usb_read_def bind_eq_Some_conv split: if_splits intro: exI [of _ "usb s"])
  then show ?thesis using r by auto
qed

lemma okay_answers: "fb_state s = STATE_COMMAND \<Longrightarrow> length reason < 60 \<Longrightarrow>
    \<exists>s'. fastboot_okay link reason s = Some s' \<and> fb_state s' = STATE_COMPLETE \<and> sent s' = sent s @ [str ''OKAY'' @ reason]"
  using okay_live by fastforce

lemma fail_answers: "fb_state s = STATE_COMMAND \<Longrightarrow> length reason < 60 \<Longrightarrow>
    \<exists>s'. fastboot_fail link reason s = Some s' \<and> fb_state s' = STATE_COMPLETE \<and> sent s' = sent s @ [str ''FAIL'' @ reason]"
  using fail_live by fastforce

lemma getvar_answers:
  assumes "can_answer s"
  shows "\<exists>s'. handle_getvar link arg s = Some s' \<and> answered s (Next s')"
proof (cases "find (\<lambda>v. var_name v = arg) (varlist s)")
  case None
  then show ?thesis using assms okay_answers [of s "[]"] by (auto simp: handle_getvar_def can_answer_def intro: one_reply_sent)
next
  case (Some v)
  then have "length (var_value v) < 60" using assms by (auto simp: find_Some_iff can_answer_def list_all_iff)
  then show ?thesis
    using Some assms okay_answers [of s "var_value v"] by (auto simp: handle_getvar_def can_answer_def intro: one_reply_sent)
qed

lemma download_answers:
  assumes "can_answer s"
  shows "\<exists>s'. handle_download link arg s = Some s' \<and> answered s (Next s')"
proof -
  define len where "len = hex2unsigned arg"
  define s1 where "s1 = s\<lparr>download_size := 0\<rparr>"
  have c: "fb_state s1 = STATE_COMMAND" "sent s1 = sent s" using assms by (simp_all add: s1_def can_answer_def)
  show ?thesis
  proof (cases "len > download_max s")
    case True
    define s2 where "s2 = s1\<lparr>storage := put_error (str ''10001'') (storage s1)\<rparr>"
    have "length (error_string (storage s2)) < 60" "fb_state s2 = STATE_COMMAND" "sent s2 = sent s"
      using c by (simp_all add: s2_def put_error_short)
    then have "\<exists>s'. fastboot_fail link (error_string (storage s2)) s2 = Some s' \<and> answered s (Next s')"
      using fail_answers [of s2 "error_string (storage s2)"] by (auto intro: one_reply_sent)
    then show ?thesis using True by (simp add: handle_download_def Let_def len_def s1_def s2_def)
  next
    case False
    define ans where "ans = str ''DATA'' @ number (ucast len) 16 8 (-1) (ZEROPAD OR SMALL)"
    obtain u where w: "usb_write link ans s1 = Some (int (length ans), s1\<lparr>usb := u, sent := sent s @ [ans]\<rparr>)"
      using usb_write_live [of s1 ans] c by auto
    obtain r got u2 where r: "usb_read link len (s1\<lparr>usb := u, sent := sent s @ [ans]\<rparr>)
        = Some ((r, got), s1\<lparr>sent := sent s @ [ans], usb := u2\<rparr>)"
      using usb_read_live [of len "s1\<lparr>usb := u, sent := sent s @ [ans]\<rparr>"] by auto
    define s2 where "s2 = s1\<lparr>sent := sent s @ [ans], usb := u2,
      storage := (storage s1)\<lparr>fmem := store_bytes (fmem (storage s1)) (download_base s1) got\<rparr>\<rparr>"
    have s2: "handle_download link arg s = (if r < 0 \<or> word_of_int r \<noteq> len then Some (s2\<lparr>fb_state := STATE_ERROR\<rparr>)
        else fastboot_okay link (str ''download completed'') (s2\<lparr>download_size := len\<rparr>))"
      using False w r by (simp add: handle_download_def Let_def len_def ans_def s1_def s2_def)
    have "fb_state (s2\<lparr>download_size := len\<rparr>) = STATE_COMMAND" "sent (s2\<lparr>download_size := len\<rparr>) = sent s @ [ans]"
      using c by (simp_all add: s2_def)
    moreover have "length (str ''download completed'') < 60" by (simp add: str_def)
    ultimately have "\<exists>s'. fastboot_okay link (str ''download completed'') (s2\<lparr>download_size := len\<rparr>) = Some s' \<and> answered s (Next s')"
      using okay_answers [of "s2\<lparr>download_size := len\<rparr>" "str ''download completed''"]
      by (auto simp: ans_def intro: one_reply_data)
    then show ?thesis unfolding s2 by auto
  qed
qed

lemma flash_answers:
  assumes "can_answer s"
  shows "\<exists>s'. handle_flash drv link arg s = Some s' \<and> answered s (Next s')"
proof -
  obtain ret st where w: "flash_partition_erase_write drv arg (download_base s) (download_size s) (storage s) = Some (ret, st)"
    using erase_write_returns [of "storage s" drv arg "download_base s" "download_size s"] assms
    by (auto simp: can_answer_def)
  have "length (error_string st) < 60"
    using writes_deviceD(3) [OF erase_write_device [OF w]] assms by (simp add: can_answer_def)
  then show ?thesis
    using w assms okay_answers [of "s\<lparr>storage := st\<rparr>" "[]"] fail_answers [of "s\<lparr>storage := st\<rparr>" "error_string st"]
    by (auto simp: handle_flash_def Let_def can_answer_def intro: one_reply_sent)
qed

lemma erase_answers:
  assumes "can_answer s"
  shows "\<exists>s'. handle_erase drv link arg s = Some s' \<and> answered s (Next s')"
proof -
  obtain ret st where w: "flash_partition_erase drv arg (storage s) = Some (ret, st)"
    using partition_erase_returns [of "storage s" drv arg] assms by (auto simp: can_answer_def)
  have "length (str ''erase error'') < 60" by (simp add: str_def)
  then show ?thesis
    using w assms okay_answers [of "s\<lparr>storage := st\<rparr>" "[]"] fail_answers [of "s\<lparr>storage := st\<rparr>" "str ''erase error''"]
    by (auto simp: handle_erase_def Let_def can_answer_def intro: one_reply_sent)
qed

lemma handler_answers:
  assumes "can_answer s"
  shows "\<exists>res. run_handler drv link h arg s = Some res \<and> answered s res"
proof -
  obtain s' where "fastboot_okay link [] s = Some s'" "fb_state s' = STATE_COMPLETE" "one_reply s s'"
    using okay_answers [of s "[]"] assms by (auto simp: can_answer_def intro: one_reply_sent)
  then show ?thesis
    using getvar_answers [OF assms, of arg] download_answers [OF assms, of arg] flash_answers [OF assms, of drv arg]
      erase_answers [OF assms, of drv arg]
    by (cases h) (auto simp: run_handler_def)
qed

lemma dispatch_answers:
  assumes "can_answer (s\<lparr>fb_state := STATE_COMMAND\<rparr>)" and "fb_state s \<noteq> STATE_COMMAND"
  shows "\<exists>res. dispatch drv link s = Some res
    \<and> (if find_cmd (buffer s) (cmdlist s) = None then res = Next s else answered s res)"
proof (cases "find_cmd (buffer s) (cmdlist s)")
  case None
  then show ?thesis using assms(2) by (simp add: dispatch_def fastboot_fail_def fastboot_ack_def)
next
  case (Some cmd)
  obtain res where r: "run_handler drv link (cmd_handle cmd) (cmd_arg cmd (buffer s)) (s\<lparr>fb_state := STATE_COMMAND\<rparr>)
      = Some res" "answered (s\<lparr>fb_state := STATE_COMMAND\<rparr>) res"
    using handler_answers [OF assms(1)] by blast
  have "answered s res" using r(2) by (cases res) (simp_all add: one_reply_def)
  then show ?thesis using Some r by (cases res) (auto simp: dispatch_def)
qed

lemma command_pass_answers:
  assumes "fb_state s \<noteq> STATE_COMMAND" and "fb_state s \<noteq> STATE_ERROR"
    and "can_answer (s\<lparr>fb_state := STATE_COMMAND\<rparr>)"
  shows "\<exists>res. command_pass drv link s = Some res
    \<and> (answered s res \<or> (\<exists>s'. res = Next s' \<and> fb_state s' = fb_state s \<and> sent s' = sent s
      \<and> find_cmd (buffer s') (cmdlist s') = None))"
proof -
  define s1 where "s1 = s\<lparr>buffer := overlay (replicate 64 0) 0 (buffer s)\<rparr>"
  obtain r got u where r: "usb_read link 64 s1 = Some ((r, got), s1\<lparr>usb := u\<rparr>)" using usb_read_live by blast
  obtain n u' where n: "read_packets link 64 0 [] (usb s1) = Some ((n, got), u')" "r = sint n"
    using r assms(2) by (auto simp: usb_read_def s1_def bind_eq_Some_conv)
  have "n \<le> 64" using read_packets_fit [OF n(1)] by simp
  then have r64: "0 \<le> r" "r \<le> 64" using n(2) by (auto simp: sint_u32 word_le_nat_alt simp del: of_nat_unat)
  define s2 where "s2 = s1\<lparr>usb := u, buffer := (overlay got 0 (buffer s1))[nat r := 0]\<rparr>"
  have same: "sent s2 = sent s" "fb_state s2 = fb_state s" by (simp_all add: s2_def s1_def)
  have a: "can_answer (s2\<lparr>fb_state := STATE_COMMAND\<rparr>)" using assms(3) by (simp add: can_answer_def s2_def s1_def)
  have d: "command_pass drv link s = dispatch drv link s2"
  proof -
    have "nat r < 4096" using r64 by linarith
    then show ?thesis using r r64(1) by (simp add: command_pass_def Let_def s1_def [symmetric] s2_def)
  qed
  obtain res where res: "dispatch drv link s2 = Some res"
      "if find_cmd (buffer s2) (cmdlist s2) = None then res = Next s2 else answered s2 res"
    using dispatch_answers [OF a] assms(1) same by auto
  have "answered s res" if "answered s2 res" using that same by (cases res) (simp_all add: one_reply_def)
  then show ?thesis using d res same by (auto split: if_splits)
qed

end

end
