(* ===== verification/Session.thy ===== *)
theory Session
  imports Fastboot
begin

text \<open>
  What a fastboot session guarantees from its start on: the bounds and tables of its state, an answer to
  every command it knows, and the way of an image from the packets of a host to the blocks of the device.
\<close>

section \<open>The start of a session\<close>

lemma register_room:
  "length (cmdlist s) < 20 \<Longrightarrow>
    fastboot_register pre h s = s\<lparr>cmdlist := \<lparr>cmd_prefix = pre, cmd_handle = h\<rparr> # cmdlist s\<rparr>"
  by (simp add: fastboot_register_def FASTBOOT_CMD_MAX_def)

lemma publish_room:
  "length (varlist s) < 5 \<Longrightarrow>
    fastboot_publish name val s = s\<lparr>varlist := \<lparr>var_name = name, var_value = val\<rparr> # varlist s\<rparr>"
  by (simp add: fastboot_publish_def FASTBOOT_VAR_MAX_def)

definition start_commands :: "fastboot_cmd list" where
  "start_commands = map (\<lambda>(pre, h). \<lparr>cmd_prefix = str pre, cmd_handle = h\<rparr>)
     [(''reboot-bootloader'', cmd_reboot_bootloader), (''continue'', cmd_continue), (''powerdown'', cmd_powerdown),
      (''reboot'', cmd_reboot), (''boot'', cmd_boot), (''erase:'', cmd_erase), (''flash:'', cmd_flash),
      (''download:'', cmd_download), (''getvar:'', cmd_getvar)]"

lemma init_state:
  "\<exists>base mem. fastboot_init sp a serial st u = \<lparr>cmdlist = start_commands,
     varlist = [\<lparr>var_name = str ''serial'', var_value = serial\<rparr>, \<lparr>var_name = str ''version'', var_value = str ''1.0''\<rparr>],
     buffer = replicate 4096 0, download_base = base, download_max = CONFIG_FASTBOOT_BUFFER_SIZE, download_size = 0,
     fb_state = STATE_OFFLINE, storage = st\<lparr>fmem := mem\<rparr>, usb = u, sent = []\<rparr>"
proof -
  obtain base mem a' where c: "calloc sp 1 CONFIG_FASTBOOT_BUFFER_SIZE (fmem st) a = (base, mem, a')"
    by (metis prod_cases3)
  show ?thesis
    by (intro exI [of _ base] exI [of _ mem])
      (simp add: fastboot_init_def c Let_def register_room publish_room start_commands_def)
qed

lemma init_fields:
  "fb_state (fastboot_init sp a serial st u) = STATE_OFFLINE" "cmdlist (fastboot_init sp a serial st u) = start_commands"
  "sent (fastboot_init sp a serial st u) = []" "usb (fastboot_init sp a serial st u) = u"
  "length (buffer (fastboot_init sp a serial st u)) = 4096"
  "download_max (fastboot_init sp a serial st u) = CONFIG_FASTBOOT_BUFFER_SIZE"
  "download_size (fastboot_init sp a serial st u) = 0"
  "varlist (fastboot_init sp a serial st u)
     = [\<lparr>var_name = str ''serial'', var_value = serial\<rparr>, \<lparr>var_name = str ''version'', var_value = str ''1.0''\<rparr>]"
  "fworld (storage (fastboot_init sp a serial st u)) = fworld st"
  "partitions (storage (fastboot_init sp a serial st u)) = partitions st"
  "error_string (storage (fastboot_init sp a serial st u)) = error_string st"
  using init_state [of sp a serial st u] by auto

lemma init_frame:
  assumes "length (error_string st) < 60" and "s0 = fastboot_init sp a serial st u"
  shows "session_frame s0 s0"
  using assms by (simp add: session_frame_def init_fields)

section \<open>No command is left open\<close>

lemma ack_closes: "fastboot_ack link code reason s = Some s' \<Longrightarrow> fb_state s' \<noteq> STATE_COMMAND"
  by (auto simp: fastboot_ack_def usb_write_def bind_eq_Some_conv split: if_splits)

lemma dispatch_closes:
  assumes "dispatch drv link s = Some (Next s')"
  shows "fb_state s' \<noteq> STATE_COMMAND"
proof (cases "find_cmd (buffer s) (cmdlist s)")
  case None
  then show ?thesis using assms by (auto simp: dispatch_def fastboot_fail_def dest: ack_closes)
next
  case (Some cmd)
  then obtain res where r: "(case res of Next s \<Rightarrow> if fb_state s = STATE_COMMAND
        then map_option Next (fastboot_fail link (str ''unknown reason'') s) else Some (Next s) | _ \<Rightarrow> Some res)
      = Some (Next s')"
    using assms by (auto simp: dispatch_def bind_eq_Some_conv)
  then show ?thesis by (cases res) (auto simp: fastboot_fail_def split: if_splits dest: ack_closes)
qed

lemma step_closes:
  assumes "fastboot_step drv link s s'"
  shows "fb_state s' \<noteq> STATE_COMMAND"
  using assms dispatch_closes
  by (cases rule: fastboot_stepE) (auto simp: command_pass_def Let_def bind_eq_Some_conv split: if_splits)

lemma session_closes:
  "(fastboot_step drv link)\<^sup>*\<^sup>* s0 s \<Longrightarrow> fb_state s0 \<noteq> STATE_COMMAND \<Longrightarrow> fb_state s \<noteq> STATE_COMMAND"
  by (induction rule: rtranclp_induct) (auto dest: step_closes)

section \<open>The invariant of a session\<close>

text \<open>
  C10. In every state that a session reaches, whatever the host sends and the card answers: the command
  and variable tables, the download area and the partition table are those of the start; the size of the
  last download is at most that of the area, the command buffer keeps its 4096 bytes and the error text
  fits a reply; no byte of memory outside the download area has changed; and no command is left without
  the end of its handling.
\<close>

theorem session_invariant:
  assumes "bulk_link link" and "s0 = fastboot_init sp a serial st u" and "length (error_string st) < 60"
    and "(fastboot_step drv link)\<^sup>*\<^sup>* s0 s"
  shows "cmdlist s = cmdlist s0 \<and> varlist s = varlist s0 \<and> download_base s = download_base s0
    \<and> download_max s = CONFIG_FASTBOOT_BUFFER_SIZE \<and> partitions (storage s) = partitions st
    \<and> download_size s \<le> CONFIG_FASTBOOT_BUFFER_SIZE \<and> length (buffer s) = 4096
    \<and> length (error_string (storage s)) < 60
    \<and> (\<forall>x. x - download_base s0 \<ge> CONFIG_FASTBOOT_BUFFER_SIZE \<longrightarrow> fmem (storage s) x = fmem (storage s0) x)
    \<and> fb_state s \<noteq> STATE_COMMAND"
proof -
  have "session_frame s0 s"
    by (rule bulk_link.session_keeps_frame [OF assms(1,4) init_frame [OF assms(3,2)]])
  moreover have "fb_state s \<noteq> STATE_COMMAND" using session_closes [OF assms(4)] assms(2) by (simp add: init_fields)
  ultimately show ?thesis using assms(2) by (auto simp: session_frame_def init_fields)
qed

section \<open>Every command is answered\<close>

lemma storage_ready_init: "storage_ready (storage (fastboot_init sp a serial st u)) = storage_ready st"
  by (simp add: storage_ready_def init_fields)

text \<open>
  C11. With a host that sends packets and takes those it gets, and a device that is there, a pass of the
  command loop comes to an end in every state a session reaches, and gives the host exactly one status
  reply (after at most one data reply), or it ends in the error state, which only a broken download
  enters, or no command matched the packet: then nothing is sent and the state stays.
\<close>

theorem session_answers:
  assumes "live_link link" and "s0 = fastboot_init sp a serial st u" and "length (error_string st) < 60"
    and "length serial < 60" and "storage_ready st"
    and "(fastboot_step drv link)\<^sup>*\<^sup>* s0 s" and "fb_state s \<noteq> STATE_ERROR"
  shows "\<exists>res. command_pass drv link s = Some res
    \<and> (answered s res \<or> (\<exists>s'. res = Next s' \<and> fb_state s' = fb_state s \<and> sent s' = sent s
      \<and> find_cmd (buffer s') (cmdlist s') = None))"
proof -
  have "bulk_link link" using assms(1) by (simp add: live_link_def)
  note f = bulk_link.session_keeps_frame [OF this assms(6) init_frame [OF assms(3,2)]]
  have "fb_state s \<noteq> STATE_COMMAND" using session_closes [OF assms(6)] assms(2) by (simp add: init_fields)
  moreover have "storage_ready (storage s)"
    using f assms(2,5) storage_ready_same [of "storage s0" "storage s"]
    by (simp add: session_frame_def storage_ready_init)
  then have "can_answer (s\<lparr>fb_state := STATE_COMMAND\<rparr>)"
    using f assms(2,4) by (simp add: can_answer_def session_frame_def init_fields str_def)
  ultimately show ?thesis using live_link.command_pass_answers [OF assms(1)] assms(7) by blast
qed

section \<open>A host with a script\<close>

text \<open>
  A host that sends the packets of a list, cut to the length of the request, then empty ones, and takes
  every packet.
\<close>

fun script_out :: "u32 \<Rightarrow> bytes list \<Rightarrow> (bytes \<times> bytes list) option" where
  "script_out len [] = Some ([], [])"
| "script_out len (p # ps) = Some (take (unat len) p, ps)"

definition script_link :: "bytes list usb_link" where
  "script_link = \<lparr>ep_out = script_out, ep_in = (\<lambda>packet u. Some (of_nat (length packet), u))\<rparr>"

interpretation script: live_link script_link
proof
  show "ep_out script_link len u = Some (bs, u') \<Longrightarrow> length bs \<le> unat len" for len u bs u'
    by (cases u) (auto simp: script_link_def)
  show "ep_out script_link len u \<noteq> None" for len u by (cases u) (simp_all add: script_link_def)
  show "ep_in script_link packet u \<noteq> None" for packet u by (simp add: script_link_def)
qed

text \<open>The packets of a transfer.\<close>

fun split_packets :: "bytes \<Rightarrow> bytes list" where
  "split_packets d = (if length d \<le> 32768 then [d] else take 32768 d # split_packets (drop 32768 d))"

declare split_packets.simps [simp del]

lemma script_recv:
  "unat len \<le> 32768 \<Longrightarrow> usb_abi_recv script_link len (p # ps)
     = Some ((int (length (take (unat len) p)), take (unat len) p), ps)"
  by (simp add: usb_abi_recv_def script_link_def USB_DMA_BUFFER_LENGTH_def word_less_nat_alt)

lemma read_script:
  assumes "unat len = unat cnt + length d" and "d \<noteq> []"
  shows "read_packets script_link len cnt got (split_packets d @ ps) = Some ((len, got @ d), ps)"
  using assms
proof (induction d arbitrary: cnt got rule: split_packets.induct)
  case (1 d)
  have more: "cnt < len" and left: "unat (len - cnt) = length d"
    using 1(2,3) by (simp_all add: word_less_nat_alt unat_sub_small)
  have lim: "length d < 4294967296" using unat_u32_less [of "len - cnt"] left by simp
  show ?case
  proof (cases "length d \<le> 32768")
    case True
    have all: "cnt + of_nat (length d) = len"
      using arg_cong [OF 1(2), of "of_nat :: nat \<Rightarrow> u32"] by simp
    have "read_packets script_link len len (got @ d) ps = Some ((len, got @ d), ps)"
      by (subst read_packets.simps) simp
    then show ?thesis
      using True more left all script_recv [of "len - cnt" d ps]
      by (subst read_packets.simps, subst split_packets.simps)
        (simp add: Let_def USB_DMA_BUFFER_LENGTH_def word_less_nat_alt)
  next
    case False
    have c: "unat (cnt + 0x8000) = unat cnt + 32768"
      using False 1(2) unat_u32_less [of len] by (subst unat_add_small) simp_all
    have "read_packets script_link len (cnt + 0x8000) (got @ take 32768 d) (split_packets (drop 32768 d) @ ps)
        = Some ((len, (got @ take 32768 d) @ drop 32768 d), ps)"
      using False 1(2) c by (intro 1(1)) simp_all
    then show ?thesis
      using False more left script_recv [of "0x8000" "take 32768 d"]
      by (subst read_packets.simps, subst split_packets.simps)
        (simp add: Let_def USB_DMA_BUFFER_LENGTH_def word_less_nat_alt)
  qed
qed

section \<open>From the packets to the blocks\<close>

lemma script_send: "usb_abi_send script_link packet u = Some (of_nat (length packet), u)"
  by (simp add: usb_abi_send_def script_link_def)

lemma overlay_front: "overlay cs 0 old = cs @ drop (length cs) old"
  by (simp add: overlay_def)

lemma script_command:
  assumes "fb_state s \<noteq> STATE_ERROR" and "usb s = p # ps" and "length p \<le> 64" and "length (buffer s) = 4096"
  shows "\<exists>rest. length (p @ 0 # rest) = 4096
    \<and> command_pass drv script_link s = dispatch drv script_link (s\<lparr>usb := ps, buffer := p @ 0 # rest\<rparr>)"
proof -
  have n: "unat (of_nat (length p) :: u32) = length p" using assms(3) by (simp add: unat_of_nat_u32)
  then have "sint (of_nat (length p) :: u32) = int (length p)" using assms(3) by (simp add: sint_u32)
  moreover have "read_packets script_link 64 0 [] (p # ps) = Some ((of_nat (length p), p), ps)"
    using assms(3) n script_recv [of 64 p ps]
    by (subst read_packets.simps) (simp add: Let_def USB_DMA_BUFFER_LENGTH_def word_less_nat_alt)
  ultimately have r: "usb_read script_link 64 (s\<lparr>buffer := b\<rparr>) = Some ((int (length p), p), s\<lparr>buffer := b, usb := ps\<rparr>)" for b
    using assms(1,2) by (simp add: usb_read_def)
  define b0 where "b0 = overlay (replicate 64 0) 0 (buffer s)"
  have b0: "overlay p 0 b0 = p @ drop (length p) b0" "length b0 = 4096"
    using assms(4) by (simp_all add: overlay_front b0_def)
  then have "drop (length p) b0 \<noteq> []" using assms(3) by simp
  then obtain x rest where x: "drop (length p) b0 = x # rest" by (meson neq_Nil_conv)
  have "length (p @ 0 # rest) = 4096" using arg_cong [OF x, of length] assms(3) b0(2) by simp
  moreover have "(p @ drop (length p) b0)[length p := 0] = p @ 0 # rest" using x by (simp add: list_update_append)
  then have "command_pass drv script_link s = dispatch drv script_link (s\<lparr>usb := ps, buffer := p @ 0 # rest\<rparr>)"
    using assms(3) by (simp add: command_pass_def Let_def b0_def [symmetric] r b0(1))
  ultimately show ?thesis by blast
qed

lemma download_script:
  assumes "fb_state s = STATE_COMMAND" and "usb s = split_packets d @ ps" and "d \<noteq> []"
    and "hex2unsigned arg = of_nat (length d)" and "length d \<le> unat (download_max s)" and "length d < 2 ^ 31"
  shows "handle_download script_link arg s = Some (s\<lparr>download_size := of_nat (length d), fb_state := STATE_COMPLETE,
    usb := ps, storage := (storage s)\<lparr>fmem := store_bytes (fmem (storage s)) (download_base s) d\<rparr>,
    sent := sent s @ [str ''DATA'' @ number (of_nat (length d)) 16 8 (-1) (ZEROPAD OR SMALL),
      str ''OKAY'' @ str ''download completed'']\<rparr>)"
proof -
  define len where "len = (of_nat (length d) :: u32)"
  have ul: "unat len = length d" using assms(6) by (simp add: len_def unat_of_nat_u32)
  have s_len: "sint len = int (length d)" "word_of_int (int (length d)) = len"
    using assms(6) ul by (simp_all add: sint_u32 len_def)
  have max: "\<not> len > download_max s" using assms(5) ul by (simp add: word_less_nat_alt)
  have u64: "(ucast len :: u64) = of_nat (length d)" using ul by (metis of_nat_unat)
  have short: "length (str ''OKAY'') + length (str ''download completed'') < 64" by (simp add: str_def)
  have r: "read_packets script_link len 0 [] (split_packets d @ ps) = Some ((len, d), ps)"
    using read_script [of len 0 d "[]" ps] ul assms(3) by simp
  show ?thesis
    using assms(1,2,4) max short
    by (simp add: handle_download_def Let_def len_def [symmetric] usb_write_def script_send
       usb_read_def r s_len u64 fastboot_okay_def fastboot_ack_def)
qed

lemma str_append: "str (a @ b) = str a @ str b"
  by (simp add: str_def)

lemma find_start:
  "find_cmd (str ''download:'' @ x) start_commands = Some \<lparr>cmd_prefix = str ''download:'', cmd_handle = cmd_download\<rparr>"
  "find_cmd (str ''flash:'' @ x) start_commands = Some \<lparr>cmd_prefix = str ''flash:'', cmd_handle = cmd_flash\<rparr>"
  by (simp_all add: find_cmd_def start_commands_def str_def)

lemma cmd_arg_zero:
  assumes "0 \<notin> set arg"
  shows "cmd_arg cmd (cmd_prefix cmd @ arg @ 0 # rest) = arg"
proof -
  have "takeWhile (\<lambda>c. c \<noteq> 0) arg = arg" using assms by (intro takeWhile_eq_all_conv [THEN iffD2]) auto
  then show ?thesis using assms by (simp add: cmd_arg_def takeWhile_tail)
qed

text \<open>A pass for the command \<open>cmd\<close>: what its handler is called with and what the pass then gives.\<close>

lemma script_pass:
  assumes "fb_state s \<noteq> STATE_ERROR" and "usb s = (cmd_prefix cmd @ arg) # ps" and "length (cmd_prefix cmd @ arg) \<le> 64"
    and "length (buffer s) = 4096" and "0 \<notin> set arg"
    and "\<And>x. find_cmd (cmd_prefix cmd @ x) (cmdlist s) = Some cmd"
    and "\<And>b. length b = 4096 \<Longrightarrow>
      \<exists>s'. run_handler drv script_link (cmd_handle cmd) arg (s\<lparr>usb := ps, buffer := b, fb_state := STATE_COMMAND\<rparr>) = Some (Next s')
        \<and> fb_state s' = STATE_COMPLETE \<and> Q s'"
  shows "\<exists>s'. command_pass drv script_link s = Some (Next s') \<and> fb_state s' = STATE_COMPLETE \<and> Q s'"
proof -
  obtain rest where c: "length (cmd_prefix cmd @ arg @ 0 # rest) = 4096" "command_pass drv script_link s
      = dispatch drv script_link (s\<lparr>usb := ps, buffer := cmd_prefix cmd @ arg @ 0 # rest\<rparr>)"
    using script_command [OF assms(1-4), of drv] by auto
  obtain s' where s': "run_handler drv script_link (cmd_handle cmd) arg
      (s\<lparr>usb := ps, buffer := cmd_prefix cmd @ arg @ 0 # rest, fb_state := STATE_COMMAND\<rparr>) = Some (Next s')"
    "fb_state s' = STATE_COMPLETE" "Q s'"
    using assms(7) [OF c(1)] by blast
  then have "dispatch drv script_link (s\<lparr>usb := ps, buffer := cmd_prefix cmd @ arg @ 0 # rest\<rparr>) = Some (Next s')"
    by (simp add: dispatch_def assms(6) cmd_arg_zero [OF assms(5)])
  then show ?thesis using c(2) s'(2,3) by auto
qed

context flash_device
begin

lemma flash_image_ok:
  assumes g: "good (fworld st)" and f: "partition_find_by_name name st = Some i" "part_fits first blks (partitions st ! i)"
    and wf: "image_wf q cs" and h: "holds (fmem st) buf (image_bytes q cs)"
    and len: "unat sz = length (image_bytes q cs)" "length (image_bytes q cs) \<le> 512 * unat (plength (partitions st ! i))"
      "length (expand_all q cs) \<le> unat (plength (partitions st ! i))"
  shows "\<exists>w'. flash_partition_erase_write drv name buf sz st = Some (0, st\<lparr>fworld := w'\<rparr>) \<and> good w'
    \<and> blk w' = overwrite (blk (fworld st)) (unat (pstart (partitions st ! i))) (expand_all q cs)"
proof -
  define pt where "pt = partitions st ! i"
  have pt: "sector_size pt = 512" "first \<le> unat (pstart pt)" "unat (pstart pt) + unat (plength pt) \<le> blks"
    using f(2) by (simp_all add: part_fits_def pt_def)
  have ps: "unat (ucast (sector_size pt) * ucast (plength pt) :: u64) = 512 * unat (plength pt)"
    by (simp only: product_64) (simp add: pt(1))
  have "\<not> (ucast sz :: u64) > ucast (sector_size pt) * ucast (plength pt)"
    using len(1,2) by (simp add: word_less_nat_alt ps unat_ucast_u32_u64 pt_def [symmetric])
  moreover have "check_sparse_image (fmem st) buf" by (simp add: check_sparse_image_def sparse_header_bytes(1) [OF h])
  ultimately have "flash_partition_erase_write drv name buf sz st
      = write_unsparse drv buf (ucast sz) (part_offset pt) (ucast (sector_size pt) * ucast (plength pt)) st"
    using f(1) by (simp add: flash_partition_erase_write_def Let_def pt_def)
  moreover have "\<exists>w'. write_unsparse drv buf (ucast sz) (part_offset pt) (ucast (sector_size pt) * ucast (plength pt)) st
      = Some (0, st\<lparr>fworld := w'\<rparr>) \<and> good w' \<and> blk w' = overwrite (blk (fworld st)) (unat (pstart pt)) (expand_all q cs)"
    using g wf h part_fits_bytes(1) [OF f(2)] pt(2,3) len(3) unat_u32_less [of "plength pt"] ps
    by (intro write_unsparse_ok) (simp_all add: pt_def)
  ultimately show ?thesis by (simp add: pt_def)
qed

end

text \<open>
  C2. A host downloads a well-formed sparse image in packets of 32 KB and asks for it to be flashed: after
  the two commands the host has been sent the data reply and two status replies that say so, and the
  device holds the expanded image in the blocks of the named partition, with every other block as it was.
\<close>

theorem download_then_flash:
  assumes "flash_device drv good blk first blks" and "good (fworld st)"
    and "partition_find_by_name name st = Some i" and "part_fits first blks (partitions st ! i)"
    and "image_wf q cs" and "d = image_bytes q cs" and "length d \<le> unat CONFIG_FASTBOOT_BUFFER_SIZE"
    and "length d \<le> 512 * unat (plength (partitions st ! i))"
    and "length (expand_all q cs) \<le> unat (plength (partitions st ! i))"
    and "hex2unsigned digits = of_nat (length d)" and "0 \<notin> set digits" and "length digits \<le> 55"
    and "0 \<notin> set name" and "length name \<le> 58"
  shows "\<exists>s1 s2. command_pass drv script_link (fastboot_init sp a serial st
        ([str ''download:'' @ digits] @ split_packets d @ [str ''flash:'' @ name])) = Some (Next s1)
    \<and> command_pass drv script_link s1 = Some (Next s2)
    \<and> sent s2 = [str ''DATA'' @ number (of_nat (length d)) 16 8 (-1) (ZEROPAD OR SMALL),
        str ''OKAY'' @ str ''download completed'', str ''OKAY'']
    \<and> good (fworld (storage s2))
    \<and> blk (fworld (storage s2)) = overwrite (blk (fworld st)) (unat (pstart (partitions st ! i))) (expand_all q cs)"
proof -
  define s0 where "s0 = fastboot_init sp a serial st ([str ''download:'' @ digits] @ split_packets d @ [str ''flash:'' @ name])"
  note s0 = init_fields [of sp a serial st "[str ''download:'' @ digits] @ split_packets d @ [str ''flash:'' @ name]", folded s0_def]
  have "28 \<le> length d" by (simp add: assms(6) image_bytes_def)
  then have d: "d \<noteq> []" "length d < 2 ^ 31"
    using assms(7) by (auto simp: CONFIG_FASTBOOT_BUFFER_SIZE_def)
  have l1: "length (str ''download:'' @ digits) \<le> 64" using assms(12) by (simp add: str_def)
  define msgs where "msgs = [str ''DATA'' @ number (of_nat (length d)) 16 8 (-1) (ZEROPAD OR SMALL),
      str ''OKAY'' @ str ''download completed'']"
  have "\<exists>s1. command_pass drv script_link s0 = Some (Next s1) \<and> fb_state s1 = STATE_COMPLETE
      \<and> usb s1 = [str ''flash:'' @ name] \<and> cmdlist s1 = start_commands \<and> length (buffer s1) = 4096
      \<and> download_size s1 = of_nat (length d) \<and> download_base s1 = download_base s0 \<and> sent s1 = msgs
      \<and> storage s1 = (storage s0)\<lparr>fmem := store_bytes (fmem (storage s0)) (download_base s0) d\<rparr>"
  proof (rule script_pass [where cmd = "\<lparr>cmd_prefix = str ''download:'', cmd_handle = cmd_download\<rparr>"
        and arg = digits and ps = "split_packets d @ [str ''flash:'' @ name]"], goal_cases)
    case (7 b)
    then show ?case
      using download_script [of "s0\<lparr>usb := split_packets d @ [str ''flash:'' @ name], buffer := b, fb_state := STATE_COMMAND\<rparr>"
          d "[str ''flash:'' @ name]" digits] s0 assms(7,10) d
      by (simp add: run_handler_def msgs_def)
  qed (use s0 l1 find_start assms(11) in simp_all)
  then obtain s1 where s1: "command_pass drv script_link s0 = Some (Next s1)" "fb_state s1 = STATE_COMPLETE"
      "usb s1 = [str ''flash:'' @ name]" "cmdlist s1 = start_commands" "length (buffer s1) = 4096"
      "download_size s1 = of_nat (length d)" "download_base s1 = download_base s0" "sent s1 = msgs"
      "storage s1 = (storage s0)\<lparr>fmem := store_bytes (fmem (storage s0)) (download_base s0) d\<rparr>"
    by blast
  have u: "unat (of_nat (length d) :: u32) = length d" using d(2) by (simp add: unat_of_nat_u32)
  have h: "holds (fmem (storage s1)) (download_base s1) (image_bytes q cs)"
    using load_store_same [of d] d(2) by (simp add: holds_def s1 assms(6) [symmetric])
  have "partition_find_by_name name (storage s1) = Some i"
    using assms(3) s0(10) by (simp add: partition_find_by_name_def s1)
  from flash_device.flash_image_ok [OF assms(1) _ this _ assms(5) h, of "download_size s1"] obtain w where
    w: "flash_partition_erase_write drv name (download_base s1) (download_size s1) (storage s1)
        = Some (0, (storage s1)\<lparr>fworld := w\<rparr>)" "good w"
      "blk w = overwrite (blk (fworld st)) (unat (pstart (partitions st ! i))) (expand_all q cs)"
    using assms(2,4,6,8,9) s0 u by (auto simp: s1)
  have l2: "length (str ''flash:'' @ name) \<le> 64" using assms(14) by (simp add: str_def)
  have "\<exists>s2. command_pass drv script_link s1 = Some (Next s2) \<and> fb_state s2 = STATE_COMPLETE
      \<and> sent s2 = msgs @ [str ''OKAY''] \<and> fworld (storage s2) = w"
  proof (rule script_pass [where cmd = "\<lparr>cmd_prefix = str ''flash:'', cmd_handle = cmd_flash\<rparr>" and arg = name
        and ps = "[]"], goal_cases)
    case (7 b)
    then show ?case
      using script.okay_live [of "s1\<lparr>usb := [], buffer := b, fb_state := STATE_COMMAND, storage := (storage s1)\<lparr>fworld := w\<rparr>\<rparr>" "[]"] w(1)
      by (auto simp: run_handler_def handle_flash_def Let_def s1(8))
  qed (use s1 l2 find_start assms(13) in simp_all)
  then show ?thesis using s1(1) w(2,3) unfolding s0_def msgs_def by auto
qed

section \<open>A session with the emulated card\<close>

definition demo_session :: "bytes list \<Rightarrow> (card_state, bytes list) fastboot" where
  "demo_session ps = fastboot_init 0x88000000 0 (str ''0123'') demo_flash ps"

lemma demo_text: "length (error_string demo_flash) < 60" "length (str ''0123'') < 60"
  by (simp_all add: demo_flash_def str_def)

lemma demo_ready: "storage_ready demo_flash"
  by (simp add: storage_ready_def demo_flash_def sim_world_def find_mmc_device_def mmc_at_def sim_mmc_def)

lemma demo_boot:
  "\<exists>s. (fastboot_step sim_host script_link)\<^sup>*\<^sup>* (demo_session [str ''boot'', str ''powerdown'']) s \<and> sent s = [str ''OKAY'']
    \<and> fb_state s = STATE_COMPLETE"
proof -
  define s0 where "s0 = demo_session [str ''boot'', str ''powerdown'']"
  note s0 = init_fields [of "0x88000000" 0 "str ''0123''" demo_flash "[str ''boot'', str ''powerdown'']",
      folded demo_session_def, folded s0_def]
  have "\<exists>s. command_pass sim_host script_link s0 = Some (Next s) \<and> fb_state s = STATE_COMPLETE \<and> sent s = [str ''OKAY'']"
  proof (rule script_pass [where cmd = "\<lparr>cmd_prefix = str ''boot'', cmd_handle = cmd_boot\<rparr>" and arg = "[]"
        and ps = "[str ''powerdown'']"], goal_cases)
    case (7 b)
    then show ?case
      using script.okay_live [of "s0\<lparr>usb := [str ''powerdown''], buffer := b, fb_state := STATE_COMMAND\<rparr>" "[]"] s0
      by (auto simp: run_handler_def)
  qed (simp_all add: s0 start_commands_def find_cmd_def str_def)
  then show ?thesis using fastboot_step.pass [of s0 sim_host script_link] s0(1) unfolding s0_def
    by (metis fastboot_state.distinct(5) r_into_rtranclp)
qed

lemma session_invariant_witness:
  "\<exists>s. (fastboot_step sim_host script_link)\<^sup>*\<^sup>* (demo_session [str ''boot'', str ''powerdown'']) s
    \<and> sent s = [str ''OKAY''] \<and> length (buffer s) = 4096 \<and> partitions (storage s) = partitions demo_flash"
proof -
  obtain s where s: "(fastboot_step sim_host script_link)\<^sup>*\<^sup>* (demo_session [str ''boot'', str ''powerdown'']) s"
      "sent s = [str ''OKAY'']"
    using demo_boot by blast
  then show ?thesis
    using session_invariant [OF script.bulk_link_axioms demo_session_def demo_text(1) s(1)] by blast
qed

lemma session_answers_witness:
  "\<exists>s res. (fastboot_step sim_host script_link)\<^sup>*\<^sup>* (demo_session [str ''boot'', str ''powerdown'']) s
    \<and> command_pass sim_host script_link s = Some res"
proof -
  obtain s where s: "(fastboot_step sim_host script_link)\<^sup>*\<^sup>* (demo_session [str ''boot'', str ''powerdown'']) s"
      "fb_state s \<noteq> STATE_ERROR"
    using demo_boot by fastforce
  show ?thesis
    using session_answers [OF script.live_link_axioms demo_session_def demo_text demo_ready s] s(1) by blast
qed

lemma download_then_flash_witness:
  "\<exists>s1 s2. command_pass sim_host script_link (demo_session
        ([str ''download:00000640''] @ split_packets (image_bytes 1 demo_image) @ [str ''flash:misc''])) = Some (Next s1)
    \<and> command_pass sim_host script_link s1 = Some (Next s2)
    \<and> sent s2 = [str ''DATA00000640'', str ''OKAYdownload completed'', str ''OKAY'']
    \<and> sim_cells (host (fworld (storage s2))) 0 0x4001 = replicate 512 7
    \<and> sim_cells (host (fworld (storage s2))) 0 0x4005 = replicate 512 9"
proof -
  have l: "length (image_bytes 1 demo_image) = 1600"
    by (simp add: image_bytes_def demo_image_def chunk_bytes_def)
  have n: "hex2unsigned (str ''00000640'') = of_nat (length (image_bytes 1 demo_image))"
    "number (of_nat (length (image_bytes 1 demo_image))) 16 8 (-1) (ZEROPAD OR SMALL) = str ''00000640''"
    unfolding l by code_simp+
  have p: "0 \<notin> set (str ''00000640'')" "length (str ''00000640'') \<le> 55" "0 \<notin> set (str ''misc'')" "length (str ''misc'') \<le> 58"
    by (simp_all add: str_def)
  have r: "length (image_bytes 1 demo_image) \<le> unat CONFIG_FASTBOOT_BUFFER_SIZE"
    "length (image_bytes 1 demo_image) \<le> 512 * unat (plength (partitions demo_flash ! 0))"
    "length (expand_all 1 demo_image) \<le> unat (plength (partitions demo_flash ! 0))"
    unfolding l demo_image_length by (simp_all add: CONFIG_FASTBOOT_BUFFER_SIZE_def demo_flash_def)
  have e: "expand_all 1 demo_image = [Some (replicate 512 7), Some (replicate 512 7), None, None, None, Some (replicate 512 9)]"
    by (simp add: expand_all_def demo_image_def cut_def upt_rec numeral_3_eq_3)
  have start: "unat (pstart (partitions demo_flash ! 0)) = 0x4000" by (simp add: demo_flash_def)
  obtain s1 s2 where s: "command_pass sim_host script_link (demo_session
        ([str ''download:'' @ str ''00000640''] @ split_packets (image_bytes 1 demo_image) @ [str ''flash:'' @ str ''misc'']))
        = Some (Next s1)" "command_pass sim_host script_link s1 = Some (Next s2)"
      "sent s2 = [str ''DATA'' @ str ''00000640'', str ''OKAY'' @ str ''download completed'', str ''OKAY'']"
      and c: "sim_cells (host (fworld (storage s2))) 0
        = overwrite (sim_cells (host (fworld demo_flash)) 0) 0x4000 (expand_all 1 demo_image)"
    using download_then_flash [OF simdev.flash.flash_device_axioms demo_flash_good demo_flash_find demo_flash_fits
        demo_image_wf refl r n(1) p, of "0x88000000" 0 "str ''0123''", folded demo_session_def, unfolded n(2) start]
    by blast
  have "sim_cells (host (fworld (storage s2))) 0 0x4001 = replicate 512 7"
    "sim_cells (host (fworld (storage s2))) 0 0x4005 = replicate 512 9"
    unfolding c e by (simp_all add: overwrite_def)
  then show ?thesis using s unfolding str_append [symmetric] append.simps by blast
qed

end
