(* ===== verification/DiskDesc.thy ===== *)
theory DiskDesc
  imports Flash
begin

text \<open>
  include/part.h: what the partition code of disk/ shares beside the operations of a device: the type of
  its interface, the kind of table that was found on it, and how a sector is read.
\<close>

section \<open>Devices\<close>

text \<open>The fields of the descriptor that only the code of disk/ reads.\<close>

record 'd part_dev = "'d block_dev_desc" +
  if_type :: int
  table_type :: u8
  target :: u8
  lun :: u8
  dev_type :: u8
  removable :: bool
  vendor :: bytes
  product :: bytes
  rev_text :: bytes

definition IF_TYPE_UNKNOWN :: int where "IF_TYPE_UNKNOWN = 0"
definition IF_TYPE_IDE :: int where "IF_TYPE_IDE = 1"
definition IF_TYPE_SCSI :: int where "IF_TYPE_SCSI = 2"
definition IF_TYPE_ATAPI :: int where "IF_TYPE_ATAPI = 3"
definition IF_TYPE_USB :: int where "IF_TYPE_USB = 4"
definition IF_TYPE_DOC :: int where "IF_TYPE_DOC = 5"
definition IF_TYPE_MMC :: int where "IF_TYPE_MMC = 6"
definition IF_TYPE_SD :: int where "IF_TYPE_SD = 7"
definition IF_TYPE_SATA :: int where "IF_TYPE_SATA = 8"

lemmas if_types = IF_TYPE_UNKNOWN_def IF_TYPE_IDE_def IF_TYPE_SCSI_def IF_TYPE_ATAPI_def IF_TYPE_USB_def
  IF_TYPE_DOC_def IF_TYPE_MMC_def IF_TYPE_SD_def IF_TYPE_SATA_def

text \<open>A read of one sector: the bytes, or nothing when the count is not 1.\<close>

definition read_sector :: "'d part_dev \<Rightarrow> u32 \<Rightarrow> 'd \<Rightarrow> (bytes option \<times> 'd) option" where
  "read_sector desc s d = do {
     ((n, buf), d) \<leftarrow> block_read desc (dev desc) s 1 d;
     Some (if n \<noteq> 1 then None else Some buf, d)
   }"

text \<open>A string printed into an array of characters.\<close>

definition put_text :: "bytes \<Rightarrow> bytes \<Rightarrow> bytes" where
  "put_text cs old = overlay (cs @ [0]) 0 old"

lemma put_text_front: "put_text cs old = cs @ 0 # drop (length cs + 1) old"
  by (simp add: put_text_def overlay_def)

text \<open>The decimal digits of an \<open>int\<close>.\<close>

definition decimal :: "int \<Rightarrow> bytes" where
  "decimal n = number (word_of_int n) 10 (-1) (-1) SIGN"

text \<open>The name that the DOS and ISO tables give a partition.\<close>

definition partition_label :: "'d part_dev \<Rightarrow> int \<Rightarrow> bytes" where
  "partition_label desc num =
     (let t = if_type desc;
          bus = (if t = IF_TYPE_IDE \<or> t = IF_TYPE_SATA \<or> t = IF_TYPE_ATAPI then str ''hd''
                 else if t = IF_TYPE_SCSI then str ''sd''
                 else if t = IF_TYPE_USB then str ''usbd''
                 else if t = IF_TYPE_DOC then str ''docd''
                 else str ''xx'')
      in bus @ [97 + word_of_int (dev desc)] @ decimal num)"

section \<open>The contract of a readable device\<close>

text \<open>
  What the lookups rely on: in a \<open>good\<close> state a read of a sector of the device succeeds and changes
  nothing that is read later; \<open>blk d i\<close> is the content of sector \<open>i\<close>.
\<close>

locale readable_device =
  fixes desc :: "'d part_dev"
    and good :: "'d \<Rightarrow> bool"
    and blk :: "'d \<Rightarrow> nat \<Rightarrow> bytes"
  assumes reads: "good d \<Longrightarrow> unat s < unat (lba desc) \<Longrightarrow>
    \<exists>d'. block_read desc (dev desc) s 1 d = Some ((1, blk d (unat s)), d') \<and> good d' \<and> blk d' = blk d"
begin

lemma read_sector_ok:
  assumes "good d" and "unat s < unat (lba desc)"
  shows "\<exists>d'. read_sector desc s d = Some (Some (blk d (unat s)), d') \<and> good d' \<and> blk d' = blk d"
  using reads [OF assms] by (auto simp: read_sector_def)

end

section \<open>The MMC device\<close>

text \<open>The descriptor that \<open>mmc_register\<close> and \<open>mmc_startup\<close> fill.\<close>

definition mmc_part_dev :: "'h mmc_host \<Rightarrow> mmc \<Rightarrow> 'h mmc_world part_dev" where
  "mmc_part_dev drv m = \<lparr>dev = bdev_dev m, lba = bdev_lba m, blksz = bdev_blksz m,
     block_read = mmc_bread drv, block_write = mmc_bwrite drv, block_write_gpt = mmc_bwrite_gpt drv,
     block_read_gpt = mmc_bread_gpt drv, block_erase = mmc_berase drv, if_type = IF_TYPE_MMC, table_type = 0,
     target = 0, lun = 0, dev_type = 0, removable = True,
     vendor = str ''Man '' @ number (ucast (drop_bit 8 (cid m ! 0))) 16 6 (-1) (ZEROPAD OR SMALL)
       @ str '' Snr '' @ number (ucast (push_bit 8 (cid m ! 2) OR drop_bit 24 (cid m ! 3))) 16 8 (-1) (ZEROPAD OR SMALL),
     product = map ucast [cid m ! 0, drop_bit 24 (cid m ! 1), drop_bit 16 (cid m ! 1), drop_bit 8 (cid m ! 1), cid m ! 1],
     rev_text = decimal (uint (drop_bit 28 (cid m ! 2))) @ str ''.'' @ decimal (uint (drop_bit 24 (cid m ! 2) AND 0xf))\<rparr>"

lemma truncate_mmc_part_dev: "block_dev_desc.truncate (mmc_part_dev drv m) = mmc_block_dev drv m"
  by (simp add: mmc_part_dev_def mmc_block_dev_def block_dev_desc.truncate_def)

text \<open>A card without boot partitions is readable from its first block on.\<close>

locale emmc_plain = emmc_device +
  assumes no_boot: "boot_part_size m < 512"

sublocale emmc_plain \<subseteq> plain: readable_device "mmc_part_dev drv m" "device_good p m" "\<lambda>w. cells (host w) 0"
proof (unfold_locales, goal_cases)
  case (1 w s)
  have "unat (boot_part_size m div 512) = 0" using no_boot by (simp add: unat_div word_less_nat_alt)
  moreover have "unat (1 :: u32) = 1" "0 < (1 :: u32)" by simp_all
  ultimately show ?case
    using 1 flash.bread [of w 1 s] dev_ready
    by (fastforce simp: mmc_part_dev_def device_ready_def run_bytes_1)
qed

definition plain_mmc :: mmc where
  "plain_mmc = sim_mmc\<lparr>boot_part_size := 0\<rparr>"

interpretation simplain: emmc_plain sim_host "\<lambda>h. True" sim_sel sim_cells 0 plain_mmc
  by unfold_locales (simp_all add: device_ready_def plain_mmc_def sim_mmc_def)

text \<open>The emulated card without boot partitions, with the given first sectors.\<close>

definition plain_world :: "bytes list \<Rightarrow> card_state mmc_world" where
  "plain_world sectors = sim_world\<lparr>mmc_devices := [plain_mmc],
     host := \<lparr>sim_sel = 1, sim_store = (\<lambda>q i. if q = 0 \<and> i < length sectors then sectors ! i else [])\<rparr>\<rparr>"

lemma plain_world_good: "sim.device_good 0 plain_mmc (plain_world sectors)"
  by (simp add: sim.device_good_def plain_world_def sim_world_def find_mmc_device_def mmc_at_def same_device_def
      plain_mmc_def sim_mmc_def)

lemma plain_world_sector:
  "i < length sectors \<Longrightarrow> length (sectors ! i) = 512 \<Longrightarrow> sim_cells (host (plain_world sectors)) 0 i = sectors ! i"
  by (simp add: sim_cells_def plain_world_def)

text \<open>A structure to look partitions up into.\<close>

definition blank_info :: disk_partition where
  "blank_info = \<lparr>part_start = 0, part_size = 0, part_blksz = 0, part_label = replicate 32 0, part_type = replicate 32 0,
     part_bootable = False, part_uuid = replicate 37 0\<rparr>"

end
