(* ===== verification/PartDos.thy ===== *)
theory PartDos
  imports DiskDesc
begin

text \<open>
  disk/part\_dos.c and disk/part\_dos.h: the DOS partition table with its chain of extended tables.  The
  listing is the list of its lines.  Looking past the end of a sector has no result, and neither has a
  chain that does not end.
\<close>

section \<open>Tables\<close>

record dos_partition =
  dp_boot_ind :: u8
  dp_head :: u8
  dp_sector :: u8
  dp_cyl :: u8
  dp_sys_ind :: u8
  dp_end_head :: u8
  dp_end_sector :: u8
  dp_end_cyl :: u8
  dp_start4 :: bytes
  dp_size4 :: bytes

definition DOS_PART_DISKSIG_OFFSET :: nat where "DOS_PART_DISKSIG_OFFSET = 0x1b8"
definition DOS_PART_TBL_OFFSET :: nat where "DOS_PART_TBL_OFFSET = 0x1be"
definition DOS_PART_MAGIC_OFFSET :: nat where "DOS_PART_MAGIC_OFFSET = 0x1fe"
definition DOS_PBR_FSTYPE_OFFSET :: nat where "DOS_PBR_FSTYPE_OFFSET = 0x36"
definition DOS_PBR32_FSTYPE_OFFSET :: nat where "DOS_PBR32_FSTYPE_OFFSET = 0x52"
definition DOS_MBR :: int where "DOS_MBR = 0"
definition DOS_PBR :: int where "DOS_PBR = 1"

definition dos_partition_of :: "bytes \<Rightarrow> dos_partition" where
  "dos_partition_of bs = \<lparr>dp_boot_ind = bs ! 0, dp_head = bs ! 1, dp_sector = bs ! 2, dp_cyl = bs ! 3,
     dp_sys_ind = bs ! 4, dp_end_head = bs ! 5, dp_end_sector = bs ! 6, dp_end_cyl = bs ! 7,
     dp_start4 = field bs 8 4, dp_size4 = field bs 12 4\<rparr>"

text \<open>The four entries of the table in a sector.\<close>

definition dos_table :: "bytes \<Rightarrow> dos_partition list" where
  "dos_table buf = map (\<lambda>i. dos_partition_of (field buf (DOS_PART_TBL_OFFSET + 16 * i) 16)) [0..<4]"

definition le32_to_int :: "bytes \<Rightarrow> u32" where
  "le32_to_int le32 = push_bit 24 (ucast (le32 ! 3)) + push_bit 16 (ucast (le32 ! 2)) + push_bit 8 (ucast (le32 ! 1))
     + ucast (le32 ! 0)"

definition is_extended :: "u8 \<Rightarrow> bool" where
  "is_extended type \<longleftrightarrow> type = 0x5 \<or> type = 0xf \<or> type = 0x85"

definition dos_bootable :: "dos_partition \<Rightarrow> bool" where
  "dos_bootable p \<longleftrightarrow> dp_boot_ind p = 0x80"

section \<open>Kinds of sectors\<close>

text \<open>The loop over the slots looks at the first entry each time.\<close>

fun slot_loop :: "bytes \<Rightarrow> nat list \<Rightarrow> int" where
  "slot_loop buf [] = DOS_MBR"
| "slot_loop buf (slot # slots) =
     (let p = dos_table buf ! 0
      in if dp_boot_ind p \<noteq> 0 \<and> dp_boot_ind p \<noteq> 0x80 then
           if slot = 0 \<and> (field buf DOS_PBR_FSTYPE_OFFSET 3 = str ''FAT'' \<or> field buf DOS_PBR32_FSTYPE_OFFSET 5 = str ''FAT32'')
           then DOS_PBR else -1
         else slot_loop buf slots)"

definition test_block_type :: "bytes \<Rightarrow> int" where
  "test_block_type buf =
     (if buf ! DOS_PART_MAGIC_OFFSET \<noteq> 0x55 \<or> buf ! (DOS_PART_MAGIC_OFFSET + 1) \<noteq> 0xaa then -1
      else slot_loop buf [0..<3])"

definition test_part_dos :: "'d part_dev \<Rightarrow> 'd \<Rightarrow> (int \<times> 'd) option" where
  "test_part_dos desc d = do {
     (r, d) \<leftarrow> read_sector desc 0 d;
     case r of
       None \<Rightarrow> Some (-1, d)
     | Some buf \<Rightarrow> if length buf < 512 then None else Some (if test_block_type buf \<noteq> DOS_MBR then -1 else 0, d)
   }"

section \<open>The listing\<close>

datatype dos_line = DosRow int u32 u32 u32 u8 bool bool | CantRead u32 | BadSector u8 u8

definition print_one_part :: "dos_partition \<Rightarrow> u32 \<Rightarrow> int \<Rightarrow> u32 \<Rightarrow> dos_line" where
  "print_one_part p ext num disksig =
     DosRow num (ext + le32_to_int (dp_start4 p)) (le32_to_int (dp_size4 p)) disksig (dp_sys_ind p)
       (is_extended (dp_sys_ind p)) (dos_bootable p)"

text \<open>The entry counts when it is in the MBR or is a partition.\<close>

definition next_num :: "u32 \<Rightarrow> dos_partition \<Rightarrow> int \<Rightarrow> int" where
  "next_num ext p num = (if ext = 0 \<or> dp_sys_ind p \<noteq> 0 \<and> \<not> is_extended (dp_sys_ind p) then num + 1 else num)"

fun print_rows :: "u32 \<Rightarrow> u32 \<Rightarrow> dos_partition list \<Rightarrow> int \<Rightarrow> dos_line list \<times> int" where
  "print_rows ext disksig [] num = ([], num)"
| "print_rows ext disksig (p # ps) num =
     (let row = (if dp_sys_ind p \<noteq> 0 \<and> (ext = 0 \<or> \<not> is_extended (dp_sys_ind p)) then [print_one_part p ext num disksig] else []);
          (rows, num) = print_rows ext disksig ps (next_num ext p num)
      in (row @ rows, num))"

text \<open>
  The calls that are still to be made, with their arguments: the recursive calls of a sector come before
  those that are left from the sectors around it.
\<close>

partial_function (option) print_sectors ::
  "'d part_dev \<Rightarrow> (u32 \<times> u32 \<times> int \<times> u32) list \<Rightarrow> dos_line list \<Rightarrow> 'd \<Rightarrow> (dos_line list \<times> 'd) option" where
  "print_sectors desc calls lines d =
     (case calls of
        [] \<Rightarrow> Some (lines, d)
      | (ext, relative, num, disksig) # calls \<Rightarrow> do {
          (r, d) \<leftarrow> read_sector desc ext d;
          case r of
            None \<Rightarrow> print_sectors desc calls (lines @ [CantRead ext]) d
          | Some buf \<Rightarrow>
              if length buf < 512 then None
              else if test_block_type buf \<noteq> DOS_MBR
              then print_sectors desc calls (lines @ [BadSector (buf ! DOS_PART_MAGIC_OFFSET) (buf ! (DOS_PART_MAGIC_OFFSET + 1))]) d
              else
                let disksig = (if ext = 0 then le32_to_int (field buf DOS_PART_DISKSIG_OFFSET 4) else disksig);
                    (rows, num) = print_rows ext disksig (dos_table buf) num;
                    inner = map (\<lambda>p. let lba_start = le32_to_int (dp_start4 p) + relative
                                     in (lba_start, if ext = 0 then lba_start else relative, num, disksig))
                              (filter (\<lambda>p. is_extended (dp_sys_ind p)) (dos_table buf))
                in print_sectors desc (inner @ calls) (lines @ rows) d
        })"

definition print_part_dos :: "'d part_dev \<Rightarrow> 'd \<Rightarrow> (dos_line list \<times> 'd) option" where
  "print_part_dos desc d = print_sectors desc [(0, 0, 1, 0)] [] d"

section \<open>Looking up a partition\<close>

definition fill_dos_info :: "'d part_dev \<Rightarrow> dos_partition \<Rightarrow> u32 \<Rightarrow> int \<Rightarrow> u32 \<Rightarrow> disk_partition \<Rightarrow> disk_partition" where
  "fill_dos_info desc p ext num disksig info = info\<lparr>part_blksz := 512, part_start := ext + le32_to_int (dp_start4 p),
     part_size := le32_to_int (dp_size4 p), part_label := put_text (partition_label desc num) (part_label info),
     part_type := put_text (str ''U-Boot'') (part_type info), part_bootable := dos_bootable p,
     part_uuid := put_text (number (ucast disksig) 16 8 (-1) (ZEROPAD OR SMALL) @ str ''-''
       @ number (word_of_int num) 16 2 (-1) (ZEROPAD OR SMALL)) (part_uuid info)\<rparr>"

text \<open>The first loop over the entries: the partition that was wanted, or the number after the table.\<close>

fun entry_loop :: "u32 \<Rightarrow> int \<Rightarrow> dos_partition list \<Rightarrow> int \<Rightarrow> dos_partition + int" where
  "entry_loop ext which [] num = Inr num"
| "entry_loop ext which (p # ps) num =
     (if dp_boot_ind p AND NOT 0x80 = 0 \<and> dp_sys_ind p \<noteq> 0 \<and> num = which \<and> \<not> is_extended (dp_sys_ind p)
      then Inl p else entry_loop ext which ps (next_num ext p num))"

partial_function (option) get_partition_info_extended ::
  "'d part_dev \<Rightarrow> u32 \<Rightarrow> u32 \<Rightarrow> int \<Rightarrow> int \<Rightarrow> disk_partition \<Rightarrow> u32 \<Rightarrow> 'd \<Rightarrow> ((int \<times> disk_partition) \<times> 'd) option" where
  "get_partition_info_extended desc ext relative num which info disksig d = do {
     (r, d) \<leftarrow> read_sector desc ext d;
     case r of
       None \<Rightarrow> Some ((-1, info), d)
     | Some buf \<Rightarrow>
         if length buf < 512 then None
         else if buf ! DOS_PART_MAGIC_OFFSET \<noteq> 0x55 \<or> buf ! (DOS_PART_MAGIC_OFFSET + 1) \<noteq> 0xaa then Some ((-1, info), d)
         else
           let disksig = (if ext = 0 then le32_to_int (field buf DOS_PART_DISKSIG_OFFSET 4) else disksig)
           in case entry_loop ext which (dos_table buf) num of
                Inl p \<Rightarrow> Some ((0, fill_dos_info desc p ext which disksig info), d)
              | Inr num \<Rightarrow>
                  case find (\<lambda>p. is_extended (dp_sys_ind p)) (dos_table buf) of
                    None \<Rightarrow> Some ((-1, info), d)
                  | Some p \<Rightarrow>
                      let lba_start = le32_to_int (dp_start4 p) + relative
                      in get_partition_info_extended desc lba_start (if ext = 0 then lba_start else relative) num which info disksig d
   }"

definition get_partition_info_dos ::
  "'d part_dev \<Rightarrow> int \<Rightarrow> disk_partition \<Rightarrow> 'd \<Rightarrow> ((int \<times> disk_partition) \<times> 'd) option" where
  "get_partition_info_dos desc part info d = get_partition_info_extended desc 0 0 1 part info 0 d"

section \<open>What a chain of tables says\<close>

text \<open>
  A chain is a list of sectors with the tables in them.  It is on a device when every sector has the
  signature and its table, at most one entry of a table is extended, and it leads to the next sector.
\<close>

fun chain_at :: "(nat \<Rightarrow> bytes) \<Rightarrow> nat \<Rightarrow> u32 \<Rightarrow> (u32 \<times> dos_partition list) list \<Rightarrow> bool" where
  "chain_at b n relative [] \<longleftrightarrow> False"
| "chain_at b n relative ((ext, t) # c) \<longleftrightarrow> unat ext < n \<and> length (b (unat ext)) = 512
     \<and> test_block_type (b (unat ext)) = DOS_MBR \<and> dos_table (b (unat ext)) = t
     \<and> (case filter (\<lambda>p. is_extended (dp_sys_ind p)) t of
          [] \<Rightarrow> c = []
        | [p] \<Rightarrow> (let nxt = le32_to_int (dp_start4 p) + relative
                 in nxt \<noteq> 0 \<and> c \<noteq> [] \<and> fst (hd c) = nxt \<and> chain_at b n (if ext = 0 then nxt else relative) c)
        | _ \<Rightarrow> False)"

text \<open>The entries of a chain with their numbers and the sector each is relative to.\<close>

fun number_entries :: "u32 \<Rightarrow> int \<Rightarrow> dos_partition list \<Rightarrow> (int \<times> u32 \<times> dos_partition) list" where
  "number_entries ext num [] = []"
| "number_entries ext num (p # ps) = (num, ext, p) # number_entries ext (next_num ext p num) ps"

fun number_chain :: "int \<Rightarrow> (u32 \<times> dos_partition list) list \<Rightarrow> (int \<times> u32 \<times> dos_partition) list" where
  "number_chain num [] = []"
| "number_chain num ((ext, t) # c) = number_entries ext num t @ number_chain (fold (next_num ext) t num) c"

definition is_partition :: "dos_partition \<Rightarrow> bool" where
  "is_partition p \<longleftrightarrow> dp_boot_ind p AND NOT 0x80 = 0 \<and> dp_sys_ind p \<noteq> 0 \<and> \<not> is_extended (dp_sys_ind p)"

fun chain_rows :: "u32 \<Rightarrow> int \<times> u32 \<times> dos_partition \<Rightarrow> dos_line list" where
  "chain_rows disksig (num, ext, p) =
     (if dp_sys_ind p \<noteq> 0 \<and> (ext = 0 \<or> \<not> is_extended (dp_sys_ind p)) then [print_one_part p ext num disksig] else [])"

fun wanted :: "int \<Rightarrow> int \<times> u32 \<times> dos_partition \<Rightarrow> bool" where
  "wanted which (num, ext, p) \<longleftrightarrow> num = which \<and> is_partition p"

lemma print_rows_spec:
  "print_rows ext disksig t num = (concat (map (chain_rows disksig) (number_entries ext num t)), fold (next_num ext) t num)"
  by (induction t arbitrary: num) (simp_all add: Let_def)

lemma entry_loop_spec:
  "entry_loop ext which t num = (case find (wanted which) (number_entries ext num t) of
     Some (_, _, p) \<Rightarrow> Inl p | None \<Rightarrow> Inr (fold (next_num ext) t num))"
  by (induction t arbitrary: num) (auto simp: is_partition_def split: option.split)

lemma number_entries_ext: "(n, e, p) \<in> set (number_entries ext num t) \<Longrightarrow> e = ext"
  by (induction t arbitrary: num) auto

lemma find_append: "find P (xs @ ys) = (case find P xs of None \<Rightarrow> find P ys | Some x \<Rightarrow> Some x)"
  by (induction xs) auto

lemma mbr_magic:
  "test_block_type buf = DOS_MBR \<Longrightarrow> buf ! DOS_PART_MAGIC_OFFSET = 0x55 \<and> buf ! (DOS_PART_MAGIC_OFFSET + 1) = 0xaa"
  by (auto simp: test_block_type_def DOS_MBR_def split: if_splits)

lemma find_filter: "find P xs = (case filter P xs of [] \<Rightarrow> None | x # _ \<Rightarrow> Some x)"
  by (induction xs) auto

context readable_device
begin

lemma chain_lookup:
  assumes "good d" and "chain_at (blk d) (unat (lba desc)) relative c"
  shows "\<exists>d'. get_partition_info_extended desc (fst (hd c)) relative num which info disksig d = Some
      (case find (wanted which) (number_chain num c) of
         Some (_, ext, p) \<Rightarrow> (0, fill_dos_info desc p ext which
           (if fst (hd c) = 0 then le32_to_int (field (blk d 0) DOS_PART_DISKSIG_OFFSET 4) else disksig) info)
       | None \<Rightarrow> (-1, info), d') \<and> good d' \<and> blk d' = blk d"
  using assms
proof (induction c arbitrary: relative num disksig d)
  case (Cons x c)
  obtain ext t where x: "x = (ext, t)" by fastforce
  define b where "b = blk d (unat ext)"
  have h: "unat ext < unat (lba desc)" "length b = 512" "test_block_type b = DOS_MBR" "dos_table b = t"
    using Cons.prems(2) by (simp_all add: x b_def)
  note magic = mbr_magic [OF h(3)]
  obtain d1 where d1: "read_sector desc ext d = Some (Some b, d1)" "good d1" "blk d1 = blk d"
    using read_sector_ok [OF Cons.prems(1) h(1)] by (auto simp: b_def)
  define sig where "sig = (if ext = 0 then le32_to_int (field b DOS_PART_DISKSIG_OFFSET 4) else disksig)"
  have sig: "sig = (if ext = 0 then le32_to_int (field (blk d 0) DOS_PART_DISKSIG_OFFSET 4) else disksig)"
    by (simp add: sig_def b_def)
  define here where "here = find (wanted which) (number_entries ext num t)"
  define after where "after = fold (next_num ext) t num"
  have el: "entry_loop ext which t num = (case here of Some (_, _, p) \<Rightarrow> Inl p | None \<Rightarrow> Inr after)"
    unfolding here_def after_def by (rule entry_loop_spec)
  have step: "get_partition_info_extended desc ext relative num which info disksig d =
     (case here of Some (_, _, p) \<Rightarrow> Some ((0, fill_dos_info desc p ext which sig info), d1)
      | None \<Rightarrow> (case find (\<lambda>p. is_extended (dp_sys_ind p)) t of
          None \<Rightarrow> Some ((-1, info), d1)
        | Some p \<Rightarrow> let lba_start = le32_to_int (dp_start4 p) + relative
            in get_partition_info_extended desc lba_start (if ext = 0 then lba_start else relative) after which info sig d1))"
    using d1(1) h magic
    by (subst get_partition_info_extended.simps)
      (simp add: el sig_def [symmetric] Let_def split: option.split)
  show ?case
  proof (cases here)
    case (Some r)
    then obtain n e p where r: "here = Some (n, e, p)" by (cases r) auto
    then have "(n, e, p) \<in> set (number_entries ext num t)" by (auto simp: here_def find_Some_iff set_conv_nth)
    then have "e = ext" by (rule number_entries_ext)
    then show ?thesis using r d1 sig unfolding here_def
      by (intro exI [of _ d1]) (simp add: x step [unfolded here_def] find_append)
  next
    case None
    have rest: "find (wanted which) (number_chain num ((ext, t) # c)) = find (wanted which) (number_chain after c)"
      using None by (simp add: find_append here_def after_def)
    show ?thesis
    proof (cases "filter (\<lambda>p. is_extended (dp_sys_ind p)) t")
      case Nil
      then have "c = []" using Cons.prems(2) by (simp add: x)
      moreover have "find (\<lambda>p. is_extended (dp_sys_ind p)) t = None" using Nil by (simp add: find_filter)
      ultimately show ?thesis using None d1 unfolding x rest by (intro exI [of _ d1]) (simp add: step)
    next
      case (Cons p ps)
      then have "ps = []" using Cons.prems(2) by (cases ps) (simp_all add: x)
      define nxt where "nxt = le32_to_int (dp_start4 p) + relative"
      have c: "nxt \<noteq> 0" "c \<noteq> []" "fst (hd c) = nxt"
          "chain_at (blk d1) (unat (lba desc)) (if ext = 0 then nxt else relative) c"
        using Cons.prems(2) Cons \<open>ps = []\<close> d1(3) by (auto simp: x nxt_def Let_def)
      from Cons.IH [OF d1(2) c(4), of after sig] obtain d2 where
        "get_partition_info_extended desc nxt (if ext = 0 then nxt else relative) after which info sig d1 = Some
          (case find (wanted which) (number_chain after c) of
             Some (_, ext, p) \<Rightarrow> (0, fill_dos_info desc p ext which sig info) | None \<Rightarrow> (-1, info), d2)"
        "good d2" "blk d2 = blk d"
        using c(1,3) d1(3) by auto
      moreover have "find (\<lambda>p. is_extended (dp_sys_ind p)) t = Some p" using Cons by (simp add: find_filter)
      ultimately show ?thesis using None unfolding x rest sig [symmetric] list.sel fst_conv
        by (intro exI [of _ d2]) (simp add: step nxt_def [symmetric] Let_def)
    qed
  qed
qed simp

lemma chain_print:
  assumes "good d" and "chain_at (blk d) (unat (lba desc)) relative c"
    and "sig = (if fst (hd c) = 0 then le32_to_int (field (blk d 0) DOS_PART_DISKSIG_OFFSET 4) else disksig)"
  shows "\<exists>d'. print_sectors desc ((fst (hd c), relative, num, disksig) # calls) lines d
      = print_sectors desc calls (lines @ concat (map (chain_rows sig) (number_chain num c))) d'
    \<and> good d' \<and> blk d' = blk d"
  using assms
proof (induction c arbitrary: relative num disksig lines d)
  case (Cons x c)
  obtain ext t where x: "x = (ext, t)" by fastforce
  define b where "b = blk d (unat ext)"
  have h: "unat ext < unat (lba desc)" "length b = 512" "test_block_type b = DOS_MBR" "dos_table b = t"
    using Cons.prems(2) by (simp_all add: x b_def)
  obtain d1 where d1: "read_sector desc ext d = Some (Some b, d1)" "good d1" "blk d1 = blk d"
    using read_sector_ok [OF Cons.prems(1) h(1)] by (auto simp: b_def)
  have sig: "(if ext = 0 then le32_to_int (field b DOS_PART_DISKSIG_OFFSET 4) else disksig) = sig"
    using Cons.prems(3) by (simp add: b_def x)
  define rows after where "rows = concat (map (chain_rows sig) (number_entries ext num t))"
    and "after = fold (next_num ext) t num"
  define inner where "inner = map (\<lambda>p. let lba_start = le32_to_int (dp_start4 p) + relative
      in (lba_start, if ext = 0 then lba_start else relative, after, sig)) (filter (\<lambda>p. is_extended (dp_sys_ind p)) t)"
  have step: "print_sectors desc ((ext, relative, num, disksig) # calls) lines d
      = print_sectors desc (inner @ calls) (lines @ rows) d1"
    using d1(1) h
    by (subst print_sectors.simps) (simp add: sig print_rows_spec rows_def inner_def after_def)
  show ?case
  proof (cases "filter (\<lambda>p. is_extended (dp_sys_ind p)) t")
    case Nil
    then have "c = []" using Cons.prems(2) by (simp add: x)
    then show ?thesis using Nil d1 step by (intro exI [of _ d1]) (simp add: x inner_def rows_def)
  next
    case (Cons p ps)
    then have "ps = []" using Cons.prems(2) by (cases ps) (simp_all add: x)
    define nxt where "nxt = le32_to_int (dp_start4 p) + relative"
    have c: "nxt \<noteq> 0" "fst (hd c) = nxt" "chain_at (blk d1) (unat (lba desc)) (if ext = 0 then nxt else relative) c"
      using Cons.prems(2) Cons \<open>ps = []\<close> d1(3) by (auto simp: x nxt_def Let_def)
    have inner: "inner = [(nxt, if ext = 0 then nxt else relative, after, sig)]"
      using Cons \<open>ps = []\<close> by (simp add: inner_def nxt_def Let_def)
    from Cons.IH [OF d1(2) c(3), of sig after "lines @ rows"] obtain d2 where
      "print_sectors desc (inner @ calls) (lines @ rows) d1
        = print_sectors desc calls ((lines @ rows) @ concat (map (chain_rows sig) (number_chain after c))) d2"
      "good d2" "blk d2 = blk d"
      using c(1,2) d1(3) by (auto simp: inner)
    then show ?thesis using step by (intro exI [of _ d2]) (simp add: x rows_def after_def)
  qed
qed simp

lemma dos_chain_read:
  assumes "good d" and "chain_at (blk d) (unat (lba desc)) 0 c" and "fst (hd c) = 0"
    and "sig = le32_to_int (field (blk d 0) DOS_PART_DISKSIG_OFFSET 4)"
  shows "(\<exists>d'. test_part_dos desc d = Some (0, d'))
    \<and> (\<exists>d'. print_part_dos desc d = Some (concat (map (chain_rows sig) (number_chain 1 c)), d'))
    \<and> (\<exists>d'. get_partition_info_dos desc which info d = Some
        (case find (wanted which) (number_chain 1 c) of
           Some (_, ext, p) \<Rightarrow> (0, fill_dos_info desc p ext which sig info)
         | None \<Rightarrow> (-1, info), d'))"
proof (intro conjI)
  obtain t c' where c: "c = (0, t) # c'" using assms(2,3) by (cases c) auto
  then have h: "0 < unat (lba desc)" "length (blk d 0) = 512" "test_block_type (blk d 0) = DOS_MBR" using assms(2) by simp_all
  then show "\<exists>d'. test_part_dos desc d = Some (0, d')"
    using read_sector_ok [OF assms(1), of 0] by (auto simp: test_part_dos_def)
  obtain d' where "print_sectors desc [(0, 0, 1, 0)] [] d
      = print_sectors desc [] ([] @ concat (map (chain_rows sig) (number_chain 1 c))) d'"
    using chain_print [OF assms(1,2), of sig 0 1 "[]" "[]"] assms(3,4) by auto
  then show "\<exists>d'. print_part_dos desc d = Some (concat (map (chain_rows sig) (number_chain 1 c)), d')"
    by (simp add: print_part_dos_def print_sectors.simps [of desc "[]"])
  show "\<exists>d'. get_partition_info_dos desc which info d = Some
        (case find (wanted which) (number_chain 1 c) of
           Some (_, ext, p) \<Rightarrow> (0, fill_dos_info desc p ext which sig info)
         | None \<Rightarrow> (-1, info), d')"
    using chain_lookup [OF assms(1,2), of 1 which info 0] assms(3,4) by (auto simp: get_partition_info_dos_def)
qed

end

section \<open>DOS disks\<close>

text \<open>
  What a disk with DOS partitions holds, by the layout of its sectors alone: four slots of 16 bytes from byte 446 on, the
  signature 55 AA behind them, the disk signature at byte 440.  A slot has the boot flag in its first byte, the kind
  in the fifth, the first sector and the count of sectors in its last eight bytes, low byte first.
\<close>

record dos_slot =
  sl_boot :: u8
  sl_kind :: u8
  sl_first :: u32
  sl_count :: u32

definition holds_slot :: "bytes \<Rightarrow> nat \<Rightarrow> dos_slot \<Rightarrow> bool" where
  "holds_slot b k e \<longleftrightarrow> b ! k = sl_boot e \<and> b ! (k + 4) = sl_kind e
     \<and> take 4 (drop (k + 8) b) = le_bytes 4 (sl_first e) \<and> take 4 (drop (k + 12) b) = le_bytes 4 (sl_count e)"

definition holds_table :: "bytes \<Rightarrow> dos_slot list \<Rightarrow> bool" where
  "holds_table b es \<longleftrightarrow> length b = 512 \<and> b ! 510 = 0x55 \<and> b ! 511 = 0xAA \<and> length es = 4
     \<and> list_all (\<lambda>i. holds_slot b (446 + 16 * i) (es ! i) \<and> (sl_boot (es ! i) = 0 \<or> sl_boot (es ! i) = 0x80)) [0, 1, 2, 3]"

definition extended_kind :: "u8 \<Rightarrow> bool" where
  "extended_kind k \<longleftrightarrow> k \<in> {0x05, 0x0F, 0x85}"

definition blank_slot :: dos_slot where
  "blank_slot = \<lparr>sl_boot = 0, sl_kind = 0, sl_first = 0, sl_count = 0\<rparr>"

text \<open>
  The logical partitions of an extended partition at \<open>base\<close>: a table at \<open>pos\<close> with the slot of the partition,
  relative to the table, and the slot that leads to the next table, relative to \<open>base\<close>.
\<close>

fun logicals_at :: "(nat \<Rightarrow> bytes) \<Rightarrow> nat \<Rightarrow> u32 \<Rightarrow> u32 \<Rightarrow> (dos_slot \<times> dos_slot) list \<Rightarrow> bool" where
  "logicals_at b n base pos [] \<longleftrightarrow> False"
| "logicals_at b n base pos ((e, link) # c) \<longleftrightarrow> pos \<noteq> 0 \<and> unat pos < n
     \<and> holds_table (b (unat pos)) [e, link, blank_slot, blank_slot] \<and> sl_kind e \<noteq> 0 \<and> \<not> extended_kind (sl_kind e)
     \<and> (if c = [] then sl_kind link = 0
        else extended_kind (sl_kind link) \<and> logicals_at b n base (base + sl_first link) c)"

text \<open>A disk: the four slots of its first sector, and the logical partitions of the extended one if there is one.\<close>

definition dos_disk_at :: "(nat \<Rightarrow> bytes) \<Rightarrow> nat \<Rightarrow> u32 \<Rightarrow> dos_slot list \<Rightarrow> (dos_slot \<times> dos_slot) list \<Rightarrow> bool" where
  "dos_disk_at b n sig mbr c \<longleftrightarrow> 0 < n \<and> holds_table (b 0) mbr \<and> take 4 (drop 440 (b 0)) = le_bytes 4 sig
     \<and> (case filter (\<lambda>e. extended_kind (sl_kind e)) mbr of
          [] \<Rightarrow> c = []
        | [x] \<Rightarrow> logicals_at b n (sl_first x) (sl_first x) c
        | _ \<Rightarrow> False)"

text \<open>
  The partitions with their numbers and first sectors: the slots of the first sector have the numbers 1 to 4
  by their place, the logical partitions the numbers from 5 on in the order of their tables.
\<close>

fun logical_parts :: "int \<Rightarrow> u32 \<Rightarrow> u32 \<Rightarrow> (dos_slot \<times> dos_slot) list \<Rightarrow> (int \<times> u32 \<times> dos_slot) list" where
  "logical_parts num base pos [] = []"
| "logical_parts num base pos ((e, link) # c)
     = (num, pos + sl_first e, e) # logical_parts (num + 1) base (base + sl_first link) c"

definition dos_parts :: "dos_slot list \<Rightarrow> (dos_slot \<times> dos_slot) list \<Rightarrow> (int \<times> u32 \<times> dos_slot) list" where
  "dos_parts mbr c = filter (\<lambda>(_, _, e). sl_kind e \<noteq> 0)
       [(1, sl_first (mbr ! 0), mbr ! 0), (2, sl_first (mbr ! 1), mbr ! 1),
        (3, sl_first (mbr ! 2), mbr ! 2), (4, sl_first (mbr ! 3), mbr ! 3)]
     @ (case filter (\<lambda>e. extended_kind (sl_kind e)) mbr of [x] \<Rightarrow> logical_parts 5 (sl_first x) (sl_first x) c | _ \<Rightarrow> [])"

definition part_row :: "u32 \<Rightarrow> int \<times> u32 \<times> dos_slot \<Rightarrow> dos_line" where
  "part_row sig = (\<lambda>(num, first, e). DosRow num first (sl_count e) sig (sl_kind e) (extended_kind (sl_kind e)) (sl_boot e = 0x80))"

definition has_number :: "int \<Rightarrow> int \<times> u32 \<times> dos_slot \<Rightarrow> bool" where
  "has_number which = (\<lambda>(num, first, e). num = which \<and> \<not> extended_kind (sl_kind e))"

text \<open>What a lookup gives: the place, the name, the kind of driver, and the signature with the number in hexadecimal.\<close>

definition dos_info :: "'d part_dev \<Rightarrow> u32 \<Rightarrow> int \<times> u32 \<times> dos_slot \<Rightarrow> disk_partition \<Rightarrow> disk_partition" where
  "dos_info desc sig = (\<lambda>(num, first, e) info. info\<lparr>part_start := first, part_size := sl_count e, part_blksz := 512,
     part_label := put_text (partition_label desc num) (part_label info),
     part_type := put_text (str ''U-Boot'') (part_type info), part_bootable := (sl_boot e = 0x80),
     part_uuid := put_text (number (ucast sig) 16 8 (-1) (ZEROPAD OR SMALL) @ str ''-''
       @ number (word_of_int num) 16 2 (-1) (ZEROPAD OR SMALL)) (part_uuid info)\<rparr>)"

definition dos_lookup :: "'d part_dev \<Rightarrow> u32 \<Rightarrow> (int \<times> u32 \<times> dos_slot) list \<Rightarrow> int \<Rightarrow> disk_partition \<Rightarrow> int \<times> disk_partition" where
  "dos_lookup desc sig ps which info =
     (case find (has_number which) ps of Some q \<Rightarrow> (0, dos_info desc sig q info) | None \<Rightarrow> (-1, info))"

text \<open>The entries the code sees are those slots.\<close>

definition slot_of :: "dos_partition \<Rightarrow> dos_slot" where
  "slot_of p = \<lparr>sl_boot = dp_boot_ind p, sl_kind = dp_sys_ind p, sl_first = le32_to_int (dp_start4 p),
     sl_count = le32_to_int (dp_size4 p)\<rparr>"

lemma slot_of_fields [simp]:
  "sl_boot (slot_of p) = dp_boot_ind p" "sl_kind (slot_of p) = dp_sys_ind p"
  "sl_first (slot_of p) = le32_to_int (dp_start4 p)" "sl_count (slot_of p) = le32_to_int (dp_size4 p)"
  by (simp_all add: slot_of_def)

lemma is_extended_kind [simp]: "is_extended k \<longleftrightarrow> extended_kind k"
  by (simp add: is_extended_def extended_kind_def)

lemma le32_to_int_bytes: "le32_to_int (le_bytes 4 w) = w"
proof -
  have b: "le_bytes 4 w = [ucast w, ucast (drop_bit 8 w), ucast (drop_bit 16 w), ucast (drop_bit 24 w)]"
    by (simp add: numeral_eq_Suc)
  let ?a = "\<lambda>k. push_bit k (ucast (ucast (drop_bit k w) :: u8)) :: u32"
  have bit: "bit (?a k) n \<longleftrightarrow> k \<le> n \<and> n < k + 8 \<and> n < 32 \<and> bit w n" for k n
    by (auto simp: bit_simps)
  have z: "?a 24 AND ?a 16 = 0" "(?a 24 OR ?a 16) AND ?a 8 = 0" "(?a 24 OR ?a 16 OR ?a 8) AND ?a 0 = 0"
    by (rule bit_word_eqI; simp only: bit_and_iff bit_or_iff bit bit_0_eq; force)+
  have "le32_to_int (le_bytes 4 w) = ?a 24 + ?a 16 + ?a 8 + ?a 0" by (simp add: le32_to_int_def b)
  also have "\<dots> = ?a 24 OR ?a 16 OR ?a 8 OR ?a 0"
    by (simp only: disjunctive_add_eq_or [OF z(1)] disjunctive_add_eq_or [OF z(2)] disjunctive_add_eq_or [OF z(3)] or.assoc)
  also have "\<dots> = w"
    by (rule bit_word_eqI) (simp only: bit_or_iff bit, auto)
  finally show ?thesis .
qed

lemma field_field: "k + n \<le> m \<Longrightarrow> field (field bs off m) k n = field bs (off + k) n"
  by (simp add: field_def take_drop add.commute min_def)

lemma dos_table_entries: "dos_table b = [dos_partition_of (field b 446 16), dos_partition_of (field b 462 16),
   dos_partition_of (field b 478 16), dos_partition_of (field b 494 16)]"
  by (simp add: dos_table_def DOS_PART_TBL_OFFSET_def upt_rec)

lemma field_nth: "i < n \<Longrightarrow> off + i < length b \<Longrightarrow> field b off n ! i = b ! (off + i)"
  by (simp add: field_def)

lemma slot_of_entry:
  assumes "holds_slot b k e" and "k + 16 \<le> length b"
  shows "slot_of (dos_partition_of (field b k 16)) = e"
  using assms by (simp add: slot_of_def dos_partition_of_def holds_slot_def field_field field_nth)
    (simp add: field_def le32_to_int_bytes)

lemma holds_table_slots:
  assumes "holds_table b es"
  shows "map slot_of (dos_table b) = es" "test_block_type b = DOS_MBR" "length b = 512"
    "\<forall>p\<in>set (dos_table b). dp_boot_ind p AND NOT 0x80 = 0"
proof -
  have h: "length b = 512" "length es = 4" "b ! 510 = 0x55" "b ! 511 = 0xAA" using assms by (simp_all add: holds_table_def)
  obtain e0 e1 e2 e3 where es: "es = [e0, e1, e2, e3]" using h(2) by (auto simp: numeral_eq_Suc length_Suc_conv)
  have sl: "holds_slot b 446 e0" "holds_slot b 462 e1" "holds_slot b 478 e2" "holds_slot b 494 e3"
    and bt: "\<forall>e\<in>set es. sl_boot e = 0 \<or> sl_boot e = 0x80"
    using assms by (simp_all add: holds_table_def es)
  have m: "map slot_of (dos_table b) = es"
    using slot_of_entry [OF sl(1)] slot_of_entry [OF sl(2)] slot_of_entry [OF sl(3)] slot_of_entry [OF sl(4)] h(1)
    by (simp add: dos_table_entries es)
  then show "map slot_of (dos_table b) = es" .
  have boot: "dp_boot_ind p = 0 \<or> dp_boot_ind p = 0x80" if "p \<in> set (dos_table b)" for p
    using bt that unfolding m [symmetric] by auto
  then show "\<forall>p\<in>set (dos_table b). dp_boot_ind p AND NOT 0x80 = 0" by fastforce
  have "dos_table b ! 0 \<in> set (dos_table b)" by (simp add: dos_table_entries)
  from boot [OF this] show "test_block_type b = DOS_MBR"
    using h by (auto simp: test_block_type_def DOS_PART_MAGIC_OFFSET_def upt_rec Let_def)
  show "length b = 512" by (rule h)
qed

text \<open>The chain of tables behind the logical partitions, and the entries of a chain that are shown, as slots.\<close>

fun table_chain :: "(nat \<Rightarrow> bytes) \<Rightarrow> u32 \<Rightarrow> u32 \<Rightarrow> (dos_slot \<times> dos_slot) list \<Rightarrow> (u32 \<times> dos_partition list) list" where
  "table_chain b base pos [] = []"
| "table_chain b base pos ((e, link) # c) = (pos, dos_table (b (unat pos))) # table_chain b base (base + sl_first link) c"

definition shown :: "int \<times> u32 \<times> dos_partition \<Rightarrow> bool" where
  "shown = (\<lambda>(num, ext, p). dp_sys_ind p \<noteq> 0 \<and> (ext = 0 \<or> \<not> extended_kind (dp_sys_ind p)))"

definition as_slot :: "int \<times> u32 \<times> dos_partition \<Rightarrow> int \<times> u32 \<times> dos_slot" where
  "as_slot = (\<lambda>(num, ext, p). (num, ext + sl_first (slot_of p), slot_of p))"

definition plain_flag :: "int \<times> u32 \<times> dos_partition \<Rightarrow> bool" where
  "plain_flag = (\<lambda>(num, ext, p). dp_boot_ind p AND NOT 0x80 = 0)"

lemma rows_as_slots: "concat (map (chain_rows sig) xs) = map (part_row sig \<circ> as_slot) (filter shown xs)"
  by (induction xs)
    (auto simp: shown_def as_slot_def part_row_def print_one_part_def dos_bootable_def)

lemma find_as_slots:
  "list_all plain_flag xs \<Longrightarrow>
    find (has_number which) (map as_slot (filter shown xs)) = map_option as_slot (find (wanted which) xs)"
  by (induction xs) (auto simp: shown_def as_slot_def has_number_def is_partition_def plain_flag_def)

lemma fill_as_slot:
  "fill_dos_info desc p ext which sig info = dos_info desc sig (as_slot (which, ext, p)) info"
  by (simp add: fill_dos_info_def dos_info_def as_slot_def dos_bootable_def)

lemma entries_plain: "\<forall>p\<in>set t. dp_boot_ind p AND NOT 0x80 = 0 \<Longrightarrow> list_all plain_flag (number_entries ext num t)"
  by (induction t arbitrary: num) (simp_all add: plain_flag_def)

lemma logical_table:
  assumes "map slot_of t = [e, link, blank_slot, blank_slot]" and "sl_kind e \<noteq> 0" "\<not> extended_kind (sl_kind e)"
    and "sl_kind link = 0 \<or> extended_kind (sl_kind link)" and "pos \<noteq> 0"
  shows "map as_slot (filter shown (number_entries pos num t)) = [(num, pos + sl_first e, e)]"
    and "fold (next_num pos) t num = num + 1"
    and "map slot_of (filter (\<lambda>p. is_extended (dp_sys_ind p)) t) = (if sl_kind link = 0 then [] else [link])"
proof -
  obtain p q r u where t: "t = [p, q, r, u]"
    using arg_cong [OF assms(1), of length] by (auto simp: numeral_eq_Suc length_Suc_conv)
  have el: "e = slot_of p" "link = slot_of q" and z: "dp_sys_ind r = 0" "dp_sys_ind u = 0"
    using assms(1) by (auto simp: t blank_slot_def slot_of_def)
  have k: "dp_sys_ind p \<noteq> 0" "\<not> extended_kind (dp_sys_ind p)" "dp_sys_ind q = 0 \<or> extended_kind (dp_sys_ind q)"
    "\<not> extended_kind 0"
    using assms(2-4) by (simp_all add: el extended_kind_def)
  then show "map as_slot (filter shown (number_entries pos num t)) = [(num, pos + sl_first e, e)]"
    "fold (next_num pos) t num = num + 1"
    "map slot_of (filter (\<lambda>p. is_extended (dp_sys_ind p)) t) = (if sl_kind link = 0 then [] else [link])"
    using assms(5) z unfolding t el by (auto simp: next_num_def shown_def as_slot_def)
qed

lemma logicals_chain:
  assumes "logicals_at b n base pos c"
  shows "chain_at b n base (table_chain b base pos c) \<and> table_chain b base pos c \<noteq> [] \<and> fst (hd (table_chain b base pos c)) = pos
    \<and> map as_slot (filter shown (number_chain num (table_chain b base pos c))) = logical_parts num base pos c
    \<and> list_all plain_flag (number_chain num (table_chain b base pos c))"
  using assms
proof (induction c arbitrary: pos num)
  case (Cons x c)
  obtain e link where x: "x = (e, link)" by fastforce
  have h: "pos \<noteq> 0" "unat pos < n" "holds_table (b (unat pos)) [e, link, blank_slot, blank_slot]" "sl_kind e \<noteq> 0"
      "\<not> extended_kind (sl_kind e)" and next_at: "c = [] \<Longrightarrow> sl_kind link = 0"
      "c \<noteq> [] \<Longrightarrow> extended_kind (sl_kind link) \<and> logicals_at b n base (base + sl_first link) c"
    using Cons.prems by (auto simp: x split: if_splits)
  note T = holds_table_slots [OF h(3)]
  have lk: "sl_kind link = 0 \<or> extended_kind (sl_kind link)" using next_at by blast
  note L = logical_table [OF T(1) h(4,5) lk h(1)]
  have z: "\<not> extended_kind 0" by (simp add: extended_kind_def)
  have plain: "list_all plain_flag (number_entries pos num (dos_table (b (unat pos))))" by (rule entries_plain [OF T(4)])
  show ?case
  proof (cases "c = []")
    case True
    then have "filter (\<lambda>p. is_extended (dp_sys_ind p)) (dos_table (b (unat pos))) = []" using L(3) next_at(1) by simp
    then show ?thesis using True h T L(1) plain by (simp add: x)
  next
    case False
    have ek: "extended_kind (sl_kind link)" and at: "logicals_at b n base (base + sl_first link) c"
      using next_at(2) [OF False] by simp_all
    then have "sl_kind link \<noteq> 0" using z by metis
    then obtain q where q: "filter (\<lambda>p. is_extended (dp_sys_ind p)) (dos_table (b (unat pos))) = [q]" "slot_of q = link"
      using L(3) by auto
    have pos': "base + sl_first link \<noteq> 0" "sl_first link + base \<noteq> 0" using at by (cases c; auto simp: add.commute)+
    have nxt: "le32_to_int (dp_start4 q) + base = base + sl_first link" using q(2) by (auto simp: add.commute)
    show ?thesis
      using Cons.IH [OF at, of "num + 1"] h T(2,3) L(1,2) plain pos' q(1) nxt by (simp add: x Let_def)
  qed
qed simp

lemma mbr_table:
  assumes "map slot_of t = mbr" and "length mbr = 4"
  shows "map as_slot (filter shown (number_entries 0 1 t)) = filter (\<lambda>(_, _, e). sl_kind e \<noteq> 0)
       [(1, sl_first (mbr ! 0), mbr ! 0), (2, sl_first (mbr ! 1), mbr ! 1),
        (3, sl_first (mbr ! 2), mbr ! 2), (4, sl_first (mbr ! 3), mbr ! 3)]"
    and "fold (next_num 0) t 1 = 5"
    and "map slot_of (filter (\<lambda>p. is_extended (dp_sys_ind p)) t) = filter (\<lambda>e. extended_kind (sl_kind e)) mbr"
proof -
  obtain p q r u where t: "t = [p, q, r, u]"
    using assms by (auto simp: numeral_eq_Suc length_Suc_conv)
  show "map as_slot (filter shown (number_entries 0 1 t)) = filter (\<lambda>(_, _, e). sl_kind e \<noteq> 0)
       [(1, sl_first (mbr ! 0), mbr ! 0), (2, sl_first (mbr ! 1), mbr ! 1),
        (3, sl_first (mbr ! 2), mbr ! 2), (4, sl_first (mbr ! 3), mbr ! 3)]"
    unfolding assms(1) [symmetric] t by (simp add: next_num_def shown_def as_slot_def)
  show "fold (next_num 0) t 1 = 5" by (simp add: t next_num_def)
  show "map slot_of (filter (\<lambda>p. is_extended (dp_sys_ind p)) t) = filter (\<lambda>e. extended_kind (sl_kind e)) mbr"
    unfolding assms(1) [symmetric] by (simp add: filter_map o_def)
qed

lemma disk_chain:
  assumes "dos_disk_at b n sig mbr c"
  shows "\<exists>C. chain_at b n 0 C \<and> fst (hd C) = 0 \<and> map as_slot (filter shown (number_chain 1 C)) = dos_parts mbr c
    \<and> list_all plain_flag (number_chain 1 C) \<and> le32_to_int (field (b 0) DOS_PART_DISKSIG_OFFSET 4) = sig"
proof -
  have h: "0 < n" "holds_table (b 0) mbr" "take 4 (drop 440 (b 0)) = le_bytes 4 sig"
    using assms by (simp_all add: dos_disk_at_def)
  note T = holds_table_slots [OF h(2)]
  have l: "length mbr = 4" using h(2) by (simp add: holds_table_def)
  note M = mbr_table [OF T(1) l]
  have sig: "le32_to_int (field (b 0) DOS_PART_DISKSIG_OFFSET 4) = sig"
    using h(3) by (simp add: field_def DOS_PART_DISKSIG_OFFSET_def le32_to_int_bytes)
  have plain: "list_all plain_flag (number_entries 0 1 (dos_table (b 0)))" by (rule entries_plain [OF T(4)])
  consider (none) "filter (\<lambda>e. extended_kind (sl_kind e)) mbr = []" "c = []"
    | (one) x where "filter (\<lambda>e. extended_kind (sl_kind e)) mbr = [x]" "logicals_at b n (sl_first x) (sl_first x) c"
    using assms by (auto simp: dos_disk_at_def split: list.splits)
  then show ?thesis
  proof cases
    case none
    then have "filter (\<lambda>p. is_extended (dp_sys_ind p)) (dos_table (b 0)) = []" using M(3) by simp
    then show ?thesis using h(1) T(2,3) M(1) plain sig none
      by (intro exI [of _ "[(0, dos_table (b 0))]"]) (simp add: dos_parts_def)
  next
    case one
    then obtain q where q: "filter (\<lambda>p. is_extended (dp_sys_ind p)) (dos_table (b 0)) = [q]" "slot_of q = x"
      using M(3) by auto
    define C where "C = table_chain b (sl_first x) (sl_first x) c"
    note L = logicals_chain [OF one(2), of 5, folded C_def]
    have x0: "sl_first x \<noteq> 0" using one(2) by (cases c) auto
    have nxt: "le32_to_int (dp_start4 q) = sl_first x" using q(2) by auto
    have "chain_at b n 0 ((0, dos_table (b 0)) # C)"
      using h(1) T(2,3) q(1) nxt x0 L by (simp add: Let_def)
    moreover have "map as_slot (filter shown (number_chain 1 ((0, dos_table (b 0)) # C))) = dos_parts mbr c"
      using M(1,2) L one(1) by (simp add: dos_parts_def)
    moreover have "list_all plain_flag (number_chain 1 ((0, dos_table (b 0)) # C))"
      using plain L M(2) by simp
    ultimately show ?thesis using sig by (intro exI [of _ "(0, dos_table (b 0)) # C"]) simp
  qed
qed

lemma lookup_as_slots:
  assumes "list_all plain_flag xs"
  shows "(case find (wanted which) xs of Some (_, ext, p) \<Rightarrow> (0, fill_dos_info desc p ext which sig info) | None \<Rightarrow> (-1, info))
    = dos_lookup desc sig (map as_slot (filter shown xs)) which info"
proof (cases "find (wanted which) xs")
  case None
  then show ?thesis by (simp add: dos_lookup_def find_as_slots [OF assms])
next
  case (Some y)
  obtain n ext p where y: "y = (n, ext, p)" by (cases y)
  have "wanted which y" using Some by (auto simp: find_Some_iff)
  then have "n = which" by (simp add: y)
  then show ?thesis using Some by (simp add: dos_lookup_def find_as_slots [OF assms] y fill_as_slot)
qed

context readable_device
begin

lemma dos_disk_read:
  assumes "good d" and "dos_disk_at (blk d) (unat (lba desc)) sig mbr c"
  shows "(\<exists>d'. test_part_dos desc d = Some (0, d'))
    \<and> (\<exists>d'. print_part_dos desc d = Some (map (part_row sig) (dos_parts mbr c), d'))
    \<and> (\<exists>d'. get_partition_info_dos desc which info d = Some (dos_lookup desc sig (dos_parts mbr c) which info, d'))"
proof -
  obtain C where C: "chain_at (blk d) (unat (lba desc)) 0 C" "fst (hd C) = 0"
      "map as_slot (filter shown (number_chain 1 C)) = dos_parts mbr c" "list_all plain_flag (number_chain 1 C)"
      "sig = le32_to_int (field (blk d 0) DOS_PART_DISKSIG_OFFSET 4)"
    using disk_chain [OF assms(2)] by blast
  have rows: "concat (map (chain_rows sig) (number_chain 1 C)) = map (part_row sig) (dos_parts mbr c)"
    by (simp only: rows_as_slots C(3) [symmetric] map_map)
  show ?thesis
    using dos_chain_read [OF assms(1) C(1,2,5), of which info] unfolding rows lookup_as_slots [OF C(4)] C(3) .
qed

end

text \<open>
  C24. On a disk with DOS partitions, laid out as the format says (signature, four slots, a chain of tables with one logical
  partition each behind an extended one): the probe accepts it; the listing shows exactly the used slots of the
  first sector under the numbers 1 to 4 and the logical partitions under 5 and up, with their first
  sectors, sizes, kinds and flags; and the lookup of any number gives the place, size, name, flag and
  identifier of the partition with that number, or fails when there is none or it is an extended one.
\<close>

theorem dos_listing_lookup:
  assumes "readable_device desc good blk" and "good d" and "dos_disk_at (blk d) (unat (lba desc)) sig mbr c"
  shows "(\<exists>d'. test_part_dos desc d = Some (0, d'))
    \<and> (\<exists>d'. print_part_dos desc d = Some (map (part_row sig) (dos_parts mbr c), d'))
    \<and> (\<exists>d'. get_partition_info_dos desc which info d = Some (dos_lookup desc sig (dos_parts mbr c) which info, d'))"
  using readable_device.dos_disk_read [OF assms] .

text \<open>A card with a primary partition and a logical one.\<close>

definition demo_entry :: "u8 \<Rightarrow> u8 \<Rightarrow> u32 \<Rightarrow> u32 \<Rightarrow> bytes" where
  "demo_entry boot type start len = [boot, 0, 0, 0, type, 0, 0, 0] @ le_bytes 4 start @ le_bytes 4 len"

definition demo_sector :: "bytes list \<Rightarrow> bytes" where
  "demo_sector es = replicate 440 0 @ [1, 2, 3, 4, 0, 0] @ concat es @ replicate (64 - 16 * length es) 0 @ [0x55, 0xaa]"

definition demo_tables :: "bytes list" where
  "demo_tables = [demo_sector [demo_entry 0x80 0x0c 8 100, demo_entry 0 0x05 2 50], replicate 512 0,
     demo_sector [demo_entry 0 0x83 1 20]]"

definition demo_mbr :: "dos_slot list" where
  "demo_mbr = [\<lparr>sl_boot = 0x80, sl_kind = 0x0c, sl_first = 8, sl_count = 100\<rparr>,
     \<lparr>sl_boot = 0, sl_kind = 0x05, sl_first = 2, sl_count = 50\<rparr>, blank_slot, blank_slot]"

definition demo_logicals :: "(dos_slot \<times> dos_slot) list" where
  "demo_logicals = [(\<lparr>sl_boot = 0, sl_kind = 0x83, sl_first = 1, sl_count = 20\<rparr>, blank_slot)]"

lemma demo_tables_facts:
  "length (demo_tables ! 0) = 512" "length (demo_tables ! 2) = 512"
  "holds_table (demo_tables ! 0) demo_mbr"
  "holds_table (demo_tables ! 2) [fst (demo_logicals ! 0), snd (demo_logicals ! 0), blank_slot, blank_slot]"
  "take 4 (drop 440 (demo_tables ! 0)) = le_bytes 4 (0x04030201 :: u32)"
  by code_simp+

lemma demo_cells:
  "sim_cells (host (plain_world demo_tables)) 0 0 = demo_tables ! 0"
  "sim_cells (host (plain_world demo_tables)) 0 2 = demo_tables ! 2"
  using demo_tables_facts(1,2) plain_world_sector [of 0 demo_tables] plain_world_sector [of 2 demo_tables]
  by (simp_all add: demo_tables_def [THEN arg_cong, of length])

lemma demo_disk:
  "dos_disk_at (sim_cells (host (plain_world demo_tables)) 0) (unat (lba (mmc_part_dev sim_host plain_mmc))) 0x04030201
     demo_mbr demo_logicals"
proof -
  have n: "unat (lba (mmc_part_dev sim_host plain_mmc)) = 0x400000"
    by (simp add: mmc_part_dev_def plain_mmc_def sim_mmc_def)
  have f: "filter (\<lambda>e. extended_kind (sl_kind e)) demo_mbr = [demo_mbr ! 1]"
    by (simp add: demo_mbr_def extended_kind_def blank_slot_def)
  have "sl_first (demo_mbr ! 1) = 2" by (simp add: demo_mbr_def)
  then show ?thesis
    using demo_tables_facts unfolding dos_disk_at_def n f
    by (simp add: demo_cells demo_logicals_def blank_slot_def extended_kind_def)
qed

lemma dos_listing_lookup_witness:
  "\<exists>w blank_info'. get_partition_info_dos (mmc_part_dev sim_host plain_mmc) 5 blank_info (plain_world demo_tables)
    = Some ((0, blank_info'), w) \<and> part_start blank_info' = 3 \<and> part_size blank_info' = 20"
proof -
  have "find (has_number 5) (dos_parts demo_mbr demo_logicals) = Some (5, 3, fst (demo_logicals ! 0))"
    by (simp add: dos_parts_def demo_mbr_def demo_logicals_def has_number_def extended_kind_def blank_slot_def)
  then show ?thesis
    using dos_listing_lookup [OF simplain.plain.readable_device_axioms plain_world_good demo_disk, of 5 blank_info]
    by (auto simp: dos_lookup_def dos_info_def demo_logicals_def)
qed

end
