(* ===== verification/PartMac.thy ===== *)
theory PartMac
  imports DiskDesc "HOL-Library.Signed_Division"
begin

text \<open>
  disk/part\_mac.c and disk/part\_mac.h: the Macintosh partition map, as the code reads it on this
  little-endian machine.  The format is big-endian and the code does not swap, so that no map written by a
  Macintosh is recognised.  The listing is the list of its lines.  A division by zero has no result.
\<close>

section \<open>The map\<close>

definition MAC_DRIVER_MAGIC :: u16 where "MAC_DRIVER_MAGIC = 0x4552"
definition MAC_PARTITION_MAGIC :: u16 where "MAC_PARTITION_MAGIC = 0x504d"

record mac_driver_desc =
  md_signature :: u16
  md_blk_size :: u16
  md_blk_count :: u32
  md_dev_type :: u16
  md_dev_id :: u16
  md_data :: u32
  md_drvr_cnt :: u16
  md_drvr_map :: "u16 list"

definition mac_driver_desc_of :: "bytes \<Rightarrow> mac_driver_desc" where
  "mac_driver_desc_of bs = \<lparr>md_signature = le_word (field bs 0 2), md_blk_size = le_word (field bs 2 2),
     md_blk_count = le_word (field bs 4 4), md_dev_type = le_word (field bs 8 2), md_dev_id = le_word (field bs 10 2),
     md_data = le_word (field bs 12 4), md_drvr_cnt = le_word (field bs 16 2),
     md_drvr_map = map (\<lambda>k. le_word (field bs (18 + 2 * k) 2)) [0..<247]\<rparr>"

record mac_partition =
  mp_signature :: u16
  mp_sig_pad :: u16
  mp_map_count :: u32
  mp_start_block :: u32
  mp_block_count :: u32
  mp_name :: bytes
  mp_type :: bytes
  mp_data_start :: u32
  mp_data_count :: u32
  mp_status :: u32
  mp_boot_start :: u32
  mp_boot_size :: u32
  mp_boot_load :: u32
  mp_boot_load2 :: u32
  mp_boot_entry :: u32
  mp_boot_entry2 :: u32
  mp_boot_cksum :: u32
  mp_processor :: bytes

definition mac_partition_of :: "bytes \<Rightarrow> mac_partition" where
  "mac_partition_of bs = \<lparr>mp_signature = le_word (field bs 0 2), mp_sig_pad = le_word (field bs 2 2),
     mp_map_count = le_word (field bs 4 4), mp_start_block = le_word (field bs 8 4), mp_block_count = le_word (field bs 12 4),
     mp_name = field bs 16 32, mp_type = field bs 48 32, mp_data_start = le_word (field bs 80 4),
     mp_data_count = le_word (field bs 84 4), mp_status = le_word (field bs 88 4), mp_boot_start = le_word (field bs 92 4),
     mp_boot_size = le_word (field bs 96 4), mp_boot_load = le_word (field bs 100 4), mp_boot_load2 = le_word (field bs 104 4),
     mp_boot_entry = le_word (field bs 108 4), mp_boot_entry2 = le_word (field bs 112 4),
     mp_boot_cksum = le_word (field bs 116 4), mp_processor = field bs 120 16\<rparr>"

text \<open>A sector that was read into a structure of 512 bytes.\<close>

definition read_struct :: "(bytes \<Rightarrow> 's) \<Rightarrow> 'd part_dev \<Rightarrow> u32 \<Rightarrow> 'd \<Rightarrow> ('s option \<times> 'd) option" where
  "read_struct f desc s d = do {
     (r, d) \<leftarrow> read_sector desc s d;
     case r of None \<Rightarrow> Some (None, d) | Some buf \<Rightarrow> if length buf < 512 then None else Some (Some (f buf), d)
   }"

definition part_mac_read_ddb :: "'d part_dev \<Rightarrow> 'd \<Rightarrow> (mac_driver_desc option \<times> 'd) option" where
  "part_mac_read_ddb desc d = do {
     (r, d) \<leftarrow> read_struct mac_driver_desc_of desc 0 d;
     Some (case r of None \<Rightarrow> None | Some ddb \<Rightarrow> if md_signature ddb \<noteq> MAC_DRIVER_MAGIC then None else Some ddb, d)
   }"

section \<open>The probe\<close>

partial_function (option) mac_test_loop :: "'d part_dev \<Rightarrow> u32 \<Rightarrow> u32 \<Rightarrow> 'd \<Rightarrow> (int \<times> 'd) option" where
  "mac_test_loop desc i n d =
     (if i \<le> n then do {
        (r, d) \<leftarrow> read_struct mac_partition_of desc i d;
        case r of
          None \<Rightarrow> Some (-1, d)
        | Some mpart \<Rightarrow>
            if mp_signature mpart \<noteq> MAC_PARTITION_MAGIC then Some (-1, d)
            else mac_test_loop desc (i + 1) (mp_map_count mpart) d
      } else Some (0, d))"

definition test_part_mac :: "'d part_dev \<Rightarrow> 'd \<Rightarrow> (int \<times> 'd) option" where
  "test_part_mac desc d = do {
     (r, d) \<leftarrow> part_mac_read_ddb desc d;
     case r of None \<Rightarrow> Some (-1, d) | Some _ \<Rightarrow> mac_test_loop desc 1 1 d
   }"

section \<open>The listing\<close>

datatype mac_line = MacSummary u16 u32 int int int int u16 u16 | MacRow u32 bytes bytes u32 u32 u32 char
  | MacCantRead u32 | MacBadSignature u32 u16

text \<open>\<open>ldiv\<close>: the quotient and the rest of a division that rounds to zero.\<close>

definition ldiv :: "int \<Rightarrow> int \<Rightarrow> int \<times> int" where
  "ldiv numer denom = (numer sdiv denom, numer smod denom)"

text \<open>The capacity in MB and GB, each with one digit behind the point.\<close>

definition mac_capacity :: "mac_driver_desc \<Rightarrow> (int \<times> int) \<times> (int \<times> int)" where
  "mac_capacity ddesc =
     (let bs = uint (md_blk_size ddesc);
          (mbq, mbr) = ldiv (sint (md_blk_count ddesc)) ((1024 * 1024) div bs);
          mbr = (mbr * (10 * bs) + 512 * 1024) sdiv (1024 * 1024);
          (gbq, gbr) = ldiv (10 * mbq + mbr) 10240;
          gbr = (gbr + 512) sdiv 1024
      in ((mbq, mbr), (gbq, gbr)))"

definition scale_size :: "u32 \<Rightarrow> u32 \<times> char" where
  "scale_size n =
     (let c = CHR ''k'';
          (n, c) = (if n \<ge> 1024 then (drop_bit 10 n, CHR ''M'') else (n, c))
      in if n \<ge> 1024 then (drop_bit 10 n, CHR ''G'') else (n, c))"

partial_function (option) mac_print_loop ::
  "'d part_dev \<Rightarrow> mac_driver_desc \<Rightarrow> u32 \<Rightarrow> u32 \<Rightarrow> mac_line list \<Rightarrow> 'd \<Rightarrow> (mac_line list \<times> 'd) option" where
  "mac_print_loop desc ddesc i n lines d =
     (if i \<le> n then do {
        (r, d) \<leftarrow> read_struct mac_partition_of desc i d;
        case r of
          None \<Rightarrow> Some (lines @ [MacCantRead i], d)
        | Some mpart \<Rightarrow>
            if mp_signature mpart \<noteq> MAC_PARTITION_MAGIC then Some (lines @ [MacBadSignature i (mp_signature mpart)], d)
            else if md_blk_size ddesc > 1024 then None
            else
              let (kb, c) = scale_size (mp_block_count mpart div (1024 div ucast (md_blk_size ddesc)))
              in mac_print_loop desc ddesc (i + 1) (mp_map_count mpart)
                   (lines @ [MacRow i (mp_type mpart) (mp_name mpart) (mp_block_count mpart) (mp_start_block mpart) kb c]) d
      } else Some (lines, d))"

definition print_part_mac :: "'d part_dev \<Rightarrow> 'd \<Rightarrow> (mac_line list \<times> 'd) option" where
  "print_part_mac desc d = do {
     (r, d) \<leftarrow> part_mac_read_ddb desc d;
     case r of
       None \<Rightarrow> Some ([], d)
     | Some ddesc \<Rightarrow>
         if md_blk_size ddesc = 0 then None
         else
           let ((mbq, mbr), (gbq, gbr)) = mac_capacity ddesc
           in mac_print_loop desc ddesc 1 1
                [MacSummary (md_blk_size ddesc) (md_blk_count ddesc) mbq mbr gbq gbr (md_dev_type ddesc) (md_dev_id ddesc)] d
   }"

section \<open>Looking up a partition\<close>

partial_function (option) part_mac_read_pdb :: "'d part_dev \<Rightarrow> int \<Rightarrow> int \<Rightarrow> 'd \<Rightarrow> (mac_partition option \<times> 'd) option" where
  "part_mac_read_pdb desc part n d = do {
     (r, d) \<leftarrow> read_struct mac_partition_of desc (word_of_int n) d;
     case r of
       None \<Rightarrow> Some (None, d)
     | Some pdb \<Rightarrow>
         if mp_signature pdb \<noteq> MAC_PARTITION_MAGIC then Some (None, d)
         else if n = part then Some (Some pdb, d)
         else if part < 1 \<or> word_of_int part > mp_map_count pdb then Some (None, d)
         else part_mac_read_pdb desc part part d
   }"

definition get_partition_info_mac ::
  "'d part_dev \<Rightarrow> int \<Rightarrow> disk_partition \<Rightarrow> 'd \<Rightarrow> ((int \<times> disk_partition) \<times> 'd) option" where
  "get_partition_info_mac desc part info d = do {
     (r, d) \<leftarrow> part_mac_read_ddb desc d;
     case r of
       None \<Rightarrow> Some ((-1, info), d)
     | Some ddesc \<Rightarrow> do {
         let info = info\<lparr>part_blksz := ucast (md_blk_size ddesc)\<rparr>;
         (r, d) \<leftarrow> part_mac_read_pdb desc part 1 d;
         Some (case r of
             None \<Rightarrow> (-1, info)
           | Some mpart \<Rightarrow> (0, info\<lparr>part_start := mp_start_block mpart, part_size := mp_block_count mpart,
               part_type := mp_type mpart, part_label := mp_name mpart\<rparr>), d)
       }
   }"

section \<open>Maps in the byte order of the format\<close>

text \<open>
  The format stores its numbers big-endian.  A sector 0 that begins with the bytes of its signature, which
  are the letters ER, is not taken for a map: the probe and every lookup fail, and the listing is empty.
\<close>

context readable_device
begin

lemma read_struct_ok:
  assumes "good d" and "unat s < unat (lba desc)" and "length (blk d (unat s)) = 512"
  shows "\<exists>d'. read_struct f desc s d = Some (Some (f (blk d (unat s))), d') \<and> good d' \<and> blk d' = blk d"
  using read_sector_ok [OF assms(1,2)] assms(3) by (auto simp: read_struct_def)

lemma big_endian_map_refused:
  assumes "good d" and "0 < lba desc" and "length (blk d 0) = 512" and "take 2 (blk d 0) = str ''ER''"
  shows "\<exists>d'. test_part_mac desc d = Some (-1, d')" and "\<exists>d'. print_part_mac desc d = Some ([], d')"
    and "\<exists>d'. get_partition_info_mac desc part info d = Some ((-1, info), d')"
proof -
  have "md_signature (mac_driver_desc_of (blk d 0)) \<noteq> MAC_DRIVER_MAGIC"
    using assms(4) by (simp add: mac_driver_desc_of_def field_def MAC_DRIVER_MAGIC_def str_def)
  then have "\<exists>d'. part_mac_read_ddb desc d = Some (None, d')"
    using read_struct_ok [OF assms(1), of 0 mac_driver_desc_of] assms(2,3)
    by (auto simp: part_mac_read_ddb_def word_less_nat_alt)
  then show "\<exists>d'. test_part_mac desc d = Some (-1, d')" "\<exists>d'. print_part_mac desc d = Some ([], d')"
    "\<exists>d'. get_partition_info_mac desc part info d = Some ((-1, info), d')"
    by (auto simp: test_part_mac_def print_part_mac_def get_partition_info_mac_def)
qed

end

end
