(* ===== verification/PartIso.thy ===== *)
theory PartIso
  imports DiskDesc
begin

text \<open>
  disk/part\_iso.c and disk/part\_iso.h: the boot catalog of a CD as a partition table.  The structures of
  the volume are read as this little-endian machine lays them out, and where the code swaps bytes it does
  so here: it swaps the words of the catalog, which are little-endian, so that a plain catalog is refused.  The listing is the list of its
  lines; a sector that is shorter than the buffer leaves the rest of it undefined, which has no result.
\<close>

section \<open>Structures\<close>

text \<open>The records have the fields that the code looks at, from their places in the structures.\<close>

definition CD_SECTSIZE :: u32 where "CD_SECTSIZE = 2048"
definition PVD_OFFSET :: u32 where "PVD_OFFSET = 0x10"

record iso_boot_rec =
  br_desctype :: u8
  br_stand_ident :: bytes
  br_vers :: u8
  br_ident_str :: bytes
  br_pointer :: bytes

definition iso_boot_rec_of :: "bytes \<Rightarrow> iso_boot_rec" where
  "iso_boot_rec_of bs = \<lparr>br_desctype = bs ! 0, br_stand_ident = field bs 1 5, br_vers = bs ! 6,
     br_ident_str = field bs 7 0x20, br_pointer = field bs 71 4\<rparr>"

record iso_pri_rec =
  pr_desctype :: u8
  pr_stand_ident :: bytes
  pr_secsize_BE :: u16
  pr_firstsek_LEpathtab1_LE :: u32

definition iso_pri_rec_of :: "bytes \<Rightarrow> iso_pri_rec" where
  "iso_pri_rec_of bs = \<lparr>pr_desctype = bs ! 0, pr_stand_ident = field bs 1 5, pr_secsize_BE = le_word (field bs 130 2),
     pr_firstsek_LEpathtab1_LE = le_word (field bs 140 4)\<rparr>"

record iso_init_def_entry =
  ie_boot_ind :: u8
  ie_boot_media :: u8
  ie_ld_seg :: bytes
  ie_systype :: u8
  ie_res :: u8
  ie_sec_cnt :: bytes
  ie_rel_block_addr :: bytes

definition iso_init_def_entry_of :: "bytes \<Rightarrow> iso_init_def_entry" where
  "iso_init_def_entry_of bs = \<lparr>ie_boot_ind = bs ! 0, ie_boot_media = bs ! 1, ie_ld_seg = field bs 2 2, ie_systype = bs ! 4,
     ie_res = bs ! 5, ie_sec_cnt = field bs 6 2, ie_rel_block_addr = field bs 8 4\<rparr>"

definition iso_le32_to_int :: "bytes \<Rightarrow> u32" where
  "iso_le32_to_int le32 = push_bit 24 (ucast (le32 ! 3)) + push_bit 16 (ucast (le32 ! 2)) + push_bit 8 (ucast (le32 ! 1))
     + ucast (le32 ! 0)"

definition iso_le16_to_int :: "bytes \<Rightarrow> u16" where
  "iso_le16_to_int le16 = push_bit 8 (ucast (le16 ! 1)) + ucast (le16 ! 0)"

section \<open>The way to the boot catalog\<close>

text \<open>A sector read into the static buffer.\<close>

definition read_cd :: "'d part_dev \<Rightarrow> u32 \<Rightarrow> 'd \<Rightarrow> (bytes option \<times> 'd) option" where
  "read_cd desc s d = do {
     (r, d) \<leftarrow> read_sector desc s d;
     case r of None \<Rightarrow> Some (None, d) | Some buf \<Rightarrow> if length buf \<noteq> 2048 then None else Some (Some buf, d)
   }"

text \<open>The last sector to look at: the bytes of the field are swapped.\<close>

definition iso_lastsect :: "iso_pri_rec \<Rightarrow> u32" where
  "iso_lastsect ppr =
     (let w = pr_firstsek_LEpathtab1_LE ppr
      in push_bit 24 (w AND 0xff) + push_bit 8 (w AND 0xff00) + drop_bit 8 (w AND 0xff0000) + drop_bit 24 (w AND 0xff000000))"

text \<open>The buffer after the loop over the descriptors, or nothing for its error returns.\<close>

partial_function (option) descriptor_loop :: "'d part_dev \<Rightarrow> u32 \<Rightarrow> u32 \<Rightarrow> bytes \<Rightarrow> 'd \<Rightarrow> (bytes option \<times> 'd) option" where
  "descriptor_loop desc i lastsect tmpbuf d =
     (if i < lastsect then do {
        (r, d) \<leftarrow> read_cd desc i d;
        case r of
          None \<Rightarrow> Some (None, d)
        | Some tmpbuf \<Rightarrow>
            if tmpbuf ! 0 = 0 then Some (Some tmpbuf, d)
            else if tmpbuf ! 0 = 0xff then Some (None, d)
            else descriptor_loop desc (i + 1) lastsect tmpbuf d
      } else Some (Some tmpbuf, d))"

text \<open>The sum of the first 16 half-words of the catalog, each with its bytes swapped.\<close>

definition catalog_sum :: "bytes \<Rightarrow> u16" where
  "catalog_sum buf = (\<Sum>i\<leftarrow>[0..<16]. let w = le_word (field buf (2 * i) 2) :: u16
     in push_bit 8 (w AND 0xff) + drop_bit 8 (w AND 0xff00))"

section \<open>The entries of the catalog\<close>

text \<open>The walk over the entries at the given offsets.\<close>

fun catalog_loop :: "bytes \<Rightarrow> int \<Rightarrow> nat list \<Rightarrow> int \<Rightarrow> iso_init_def_entry option" where
  "catalog_loop buf part [] entry_num = None"
| "catalog_loop buf part (offset # offsets) entry_num =
     (let pide = iso_init_def_entry_of (drop offset buf)
      in if ie_boot_ind pide = 0x88 \<or> ie_boot_ind pide = 0 then
           if entry_num = part then Some pide else catalog_loop buf part offsets (entry_num + 1)
         else if ie_boot_ind pide = 0x90 \<or> ie_boot_ind pide = 0x91 \<or> ie_boot_ind pide = 0x44
         then catalog_loop buf part offsets entry_num
         else None)"

definition media_size :: "iso_init_def_entry \<Rightarrow> u32" where
  "media_size pide =
     (let m = ie_boot_media pide
      in if m = 0 then ucast (drop_bit 2 (iso_le16_to_int (ie_sec_cnt pide)))
         else if m = 1 then drop_bit 2 2400
         else if m = 2 then drop_bit 2 2880
         else if m = 3 then drop_bit 2 5760
         else if m = 4 then drop_bit 2 2880
         else 0)"

definition get_partition_info_iso_verb ::
  "'d part_dev \<Rightarrow> int \<Rightarrow> disk_partition \<Rightarrow> 'd \<Rightarrow> ((int \<times> disk_partition) \<times> 'd) option" where
  "get_partition_info_iso_verb desc part info d =
     (if blksz desc \<noteq> CD_SECTSIZE then Some ((-1, info), d)
      else do {
        (r, d) \<leftarrow> read_cd desc PVD_OFFSET d;
        case r of
          None \<Rightarrow> Some ((-1, info), d)
        | Some tmpbuf \<Rightarrow>
            let ppr = iso_pri_rec_of tmpbuf
            in if pr_desctype ppr \<noteq> 1 then Some ((-1, info), d)
            else if pr_stand_ident ppr \<noteq> str ''CD001'' then Some ((-1, info), d)
            else do {
              let info = info\<lparr>part_blksz := ucast (pr_secsize_BE ppr)\<rparr>;
              (r, d) \<leftarrow> descriptor_loop desc PVD_OFFSET (iso_lastsect ppr) tmpbuf d;
              case r of
                None \<Rightarrow> Some ((-1, info), d)
              | Some tmpbuf \<Rightarrow>
                  if take 23 (br_ident_str (iso_boot_rec_of tmpbuf)) \<noteq> str ''EL TORITO SPECIFICATION'' then Some ((-1, info), d)
                  else do {
                    (r, d) \<leftarrow> read_cd desc (iso_le32_to_int (br_pointer (iso_boot_rec_of tmpbuf))) d;
                    case r of
                      None \<Rightarrow> Some ((-1, info), d)
                    | Some tmpbuf \<Rightarrow>
                        if catalog_sum tmpbuf \<noteq> 0 then Some ((-1, info), d)
                        else if tmpbuf ! 30 \<noteq> 0x55 \<or> tmpbuf ! 31 \<noteq> 0xAA then Some ((-1, info), d)
                        else
                          let info = info\<lparr>part_type := put_text (str ''U-Boot'') (part_type info),
                                part_label := put_text (partition_label desc part) (part_label info)\<rparr>
                          in case catalog_loop tmpbuf part (map (\<lambda>k. 32 * k) [1..<64]) 0 of
                               None \<Rightarrow> Some ((-1, info), d)
                             | Some pide \<Rightarrow>
                                 if ie_boot_ind pide \<noteq> 0x88 then Some ((-1, info), d)
                                 else Some ((0, info\<lparr>part_size := media_size pide,
                                        part_start := iso_le32_to_int (ie_rel_block_addr pide)\<rparr>), d)
                  }
            }
      })"

definition get_partition_info_iso ::
  "'d part_dev \<Rightarrow> int \<Rightarrow> disk_partition \<Rightarrow> 'd \<Rightarrow> ((int \<times> disk_partition) \<times> 'd) option" where
  "get_partition_info_iso desc part info d = get_partition_info_iso_verb desc part info d"

text \<open>The structure on the stack that the probe and the listing fill; what it holds before is not used.\<close>

definition test_part_iso :: "'d part_dev \<Rightarrow> disk_partition \<Rightarrow> 'd \<Rightarrow> (int \<times> 'd) option" where
  "test_part_iso desc info d = do {
     ((r, _), d) \<leftarrow> get_partition_info_iso_verb desc 0 info d;
     Some (r, d)
   }"

datatype iso_line = NoBootPartition int | IsoRow int u32 u32 u32 bytes

partial_function (option) iso_print_loop ::
  "'d part_dev \<Rightarrow> int \<Rightarrow> disk_partition \<Rightarrow> iso_line list \<Rightarrow> 'd \<Rightarrow> (iso_line list \<times> 'd) option" where
  "iso_print_loop desc i info lines d = do {
     let lines = lines @ [IsoRow i (part_start info) (part_size info) (part_blksz info)
       (takeWhile (\<lambda>c. c \<noteq> 0) (take 32 (part_type info)))];
     ((r, info), d) \<leftarrow> get_partition_info_iso_verb desc (i + 1) info d;
     if r \<noteq> -1 then iso_print_loop desc (i + 1) info lines d else Some (lines, d)
   }"

definition print_part_iso :: "'d part_dev \<Rightarrow> disk_partition \<Rightarrow> 'd \<Rightarrow> (iso_line list \<times> 'd) option" where
  "print_part_iso desc info d = do {
     ((r, info), d) \<leftarrow> get_partition_info_iso_verb desc 0 info d;
     if r = -1 then Some ([NoBootPartition (dev desc)], d) else iso_print_loop desc 0 info [] d
   }"

section \<open>Catalogs in the byte order of the format\<close>

text \<open>
  The words of a boot catalog are little-endian and those of its first entry add up to zero.  The code swaps
  their bytes first.  For the plain catalog of a PC, whose first entry has nothing but its header, key and
  checksum, the true sum is zero, and that of the code is not: it refuses the catalog.
\<close>

definition plain_catalog :: "bytes \<Rightarrow> bytes" where
  "plain_catalog entries = [1] @ replicate 27 0 @ [0xAA, 0x55, 0x55, 0xAA] @ entries"

lemma le_word_zeros: "le_word (replicate n 0) = 0"
  by (induction n) simp_all

lemma plain_catalog_refused:
  "(\<Sum>i\<leftarrow>[0..<16]. le_word (field (plain_catalog entries) (2 * i) 2) :: u16) = 0"
  "catalog_sum (plain_catalog entries) = 0x00FF"
  by (simp_all add: plain_catalog_def catalog_sum_def field_def upt_rec nth_append le_word_zeros)

end
