(* ===== verification/PartAmiga.thy ===== *)
theory PartAmiga
  imports DiskDesc
begin

text \<open>
  disk/part\_amiga.c and disk/part\_amiga.h: the rigid disk block and the list of partition blocks of an
  Amiga disk, as the code reads them on this little-endian machine.  The format is big-endian and the code
  does not swap, so that no disk written by an Amiga is recognised.  The listing is the list of its
  lines.  Reading past the sector buffer has no result, and neither has a list that does not end.
  The records have the fields that the code looks at.  The environment is an argument: \<open>env name\<close> is the address of the value of a variable.
\<close>

section \<open>Blocks\<close>

definition AMIGA_BLOCK_LIMIT :: int where "AMIGA_BLOCK_LIMIT = 16"
definition AMIGA_ID_RDISK :: u32 where "AMIGA_ID_RDISK = 0x5244534B"
definition AMIGA_ID_PART :: u32 where "AMIGA_ID_PART = 0x50415254"
definition AMIGA_ID_BOOT :: u32 where "AMIGA_ID_BOOT = 0x424f4f54"
definition DEFAULT_SECTOR_SIZE :: nat where "DEFAULT_SECTOR_SIZE = 512"

text \<open>The word at an offset of a block.\<close>

definition long_at :: "bytes \<Rightarrow> nat \<Rightarrow> u32" where
  "long_at bs off = le_word (field bs off 4)"

record rigid_disk_block =
  rd_id :: u32
  rd_summed_longs :: u32
  rd_block_bytes :: u32
  rd_partition_list :: u32
  rd_cylinders :: u32
  rd_sectors :: u32
  rd_heads :: u32

definition rigid_disk_block_of :: "bytes \<Rightarrow> rigid_disk_block" where
  "rigid_disk_block_of bs = \<lparr>rd_id = long_at bs 0, rd_summed_longs = long_at bs 4, rd_block_bytes = long_at bs 16,
     rd_partition_list = long_at bs 28, rd_cylinders = long_at bs 64, rd_sectors = long_at bs 68, rd_heads = long_at bs 72\<rparr>"

record amiga_part_geometry =
  ge_surfaces :: u32
  ge_block_per_track :: u32
  ge_low_cyl :: u32
  ge_high_cyl :: u32
  ge_boot_priority :: u32
  ge_dos_type :: u32

definition amiga_part_geometry_of :: "bytes \<Rightarrow> amiga_part_geometry" where
  "amiga_part_geometry_of bs = \<lparr>ge_surfaces = long_at bs 12, ge_block_per_track = long_at bs 20, ge_low_cyl = long_at bs 36,
     ge_high_cyl = long_at bs 40, ge_boot_priority = long_at bs 60, ge_dos_type = long_at bs 64\<rparr>"

text \<open>The name is a length and that many characters; they may go on behind the 32 bytes of the field.\<close>

record partition_block =
  pb_id :: u32
  pb_next :: u32
  pb_name :: bytes
  pb_geometry :: amiga_part_geometry

definition partition_block_of :: "bytes \<Rightarrow> partition_block" where
  "partition_block_of bs = \<lparr>pb_id = long_at bs 0, pb_next = long_at bs 16, pb_name = field bs 37 (unat (bs ! 36)),
     pb_geometry = amiga_part_geometry_of (field bs 128 80)\<rparr>"

definition bcpl_strcpy :: "bytes \<Rightarrow> bytes \<Rightarrow> bytes" where
  "bcpl_strcpy old from = overlay (from @ [0]) 0 old"

text \<open>The sum of the words of a block, with their count in its second word.\<close>

fun sum_longs :: "nat \<Rightarrow> bytes \<Rightarrow> u32 option" where
  "sum_longs 0 bs = Some 0"
| "sum_longs (Suc n) bs = (if length bs < 4 then None else map_option (\<lambda>s. le_word (take 4 bs) + s) (sum_longs n (drop 4 bs)))"

definition sum_block :: "bytes \<Rightarrow> bool option" where
  "sum_block bs = map_option (\<lambda>s. s \<noteq> 0) (sum_longs (unat (long_at bs 4)) bs)"

definition read_block :: "'d part_dev \<Rightarrow> u32 \<Rightarrow> 'd \<Rightarrow> (bytes option \<times> 'd) option" where
  "read_block desc s d = do {
     (r, d) \<leftarrow> read_sector desc s d;
     case r of None \<Rightarrow> Some (None, d) | Some buf \<Rightarrow> if length buf \<noteq> DEFAULT_SECTOR_SIZE then None else Some (Some buf, d)
   }"

section \<open>Scanning\<close>

definition scan_limit :: "memory \<Rightarrow> (bytes \<Rightarrow> u32 option) \<Rightarrow> int option" where
  "scan_limit m env =
     (case env (str ''amiga_scanlimit'') of
        Some s \<Rightarrow> map_option (\<lambda>(v, _). sint v) (simple_strtoul m s 10)
      | None \<Rightarrow> Some AMIGA_BLOCK_LIMIT)"

text \<open>The first block of the numbers that has the identification and a zero sum.\<close>

fun scan_loop :: "u32 \<Rightarrow> 'd part_dev \<Rightarrow> u32 list \<Rightarrow> 'd \<Rightarrow> (bytes option \<times> 'd) option" where
  "scan_loop ident desc [] d = Some (None, d)"
| "scan_loop ident desc (i # is) d = do {
     (r, d) \<leftarrow> read_block desc i d;
     case r of
       None \<Rightarrow> scan_loop ident desc is d
     | Some buf \<Rightarrow>
         if long_at buf 0 = ident then do {
           bad \<leftarrow> sum_block buf;
           if \<not> bad then Some (Some buf, d) else scan_loop ident desc is d
         }
         else scan_loop ident desc is d
   }"

definition get_rdisk ::
  "memory \<Rightarrow> (bytes \<Rightarrow> u32 option) \<Rightarrow> 'd part_dev \<Rightarrow> 'd \<Rightarrow> (rigid_disk_block option \<times> 'd) option" where
  "get_rdisk m env desc d = do {
     limit \<leftarrow> scan_limit m env;
     (r, d) \<leftarrow> scan_loop AMIGA_ID_RDISK desc (map of_nat [0..<nat limit]) d;
     Some (map_option rigid_disk_block_of r, d)
   }"

definition get_bootcode ::
  "memory \<Rightarrow> (bytes \<Rightarrow> u32 option) \<Rightarrow> 'd part_dev \<Rightarrow> 'd \<Rightarrow> (bytes option \<times> 'd) option" where
  "get_bootcode m env desc d = do {
     limit \<leftarrow> scan_limit m env;
     scan_loop AMIGA_ID_BOOT desc (map of_nat [0..<nat limit]) d
   }"

definition test_part_amiga :: "memory \<Rightarrow> (bytes \<Rightarrow> u32 option) \<Rightarrow> 'd part_dev \<Rightarrow> 'd \<Rightarrow> (int \<times> 'd) option" where
  "test_part_amiga m env desc d = do {
     (r, d) \<leftarrow> get_rdisk m env desc d;
     case r of
       None \<Rightarrow> Some (-1, d)
     | Some _ \<Rightarrow> do { (_, d) \<leftarrow> get_bootcode m env desc d; Some (0, d) }
   }"

section \<open>Looking up a partition\<close>

text \<open>A block with a wrong sum is read again.\<close>

partial_function (option) amiga_find_loop ::
  "'d part_dev \<Rightarrow> int \<Rightarrow> u32 \<Rightarrow> 'd \<Rightarrow> (bytes option \<times> 'd) option" where
  "amiga_find_loop desc partnum block d =
     (if block = 0xFFFFFFFF then Some (None, d)
      else do {
        (r, d) \<leftarrow> read_block desc block d;
        case r of
          None \<Rightarrow> Some (None, d)
        | Some buf \<Rightarrow>
            if long_at buf 0 \<noteq> AMIGA_ID_PART then Some (None, d)
            else do {
              bad \<leftarrow> sum_block buf;
              if bad then amiga_find_loop desc partnum block d
              else if partnum = 0 then Some (Some buf, d)
              else amiga_find_loop desc (partnum - 1) (pb_next (partition_block_of buf)) d
            }
      })"

definition find_partition ::
  "memory \<Rightarrow> (bytes \<Rightarrow> u32 option) \<Rightarrow> 'd part_dev \<Rightarrow> int \<Rightarrow> 'd \<Rightarrow> ((rigid_disk_block \<times> partition_block) option \<times> 'd) option" where
  "find_partition m env desc partnum d = do {
     (r, d) \<leftarrow> get_rdisk m env desc d;
     case r of
       None \<Rightarrow> Some (None, d)
     | Some rdb \<Rightarrow> do {
         (r, d) \<leftarrow> amiga_find_loop desc partnum (rd_partition_list rdb) d;
         Some (map_option (\<lambda>buf. (rdb, partition_block_of buf)) r, d)
       }
   }"

definition first_block :: "amiga_part_geometry \<Rightarrow> u32" where
  "first_block g = ge_low_cyl g * ge_block_per_track g * ge_surfaces g"

definition block_number :: "amiga_part_geometry \<Rightarrow> u32" where
  "block_number g = (ge_high_cyl g - ge_low_cyl g + 1) * ge_block_per_track g * ge_surfaces g - 1"

definition disk_type_text :: "u32 \<Rightarrow> bytes" where
  "disk_type_text t = [ucast (drop_bit 24 (t AND 0xFF000000)), ucast (drop_bit 16 (t AND 0x00FF0000)),
     ucast (drop_bit 8 (t AND 0x0000FF00)), 92, ucast ((t AND 0x000000FF) + 48)]"

text \<open>The name is copied to \<open>name[32]\<close>, which \<open>type[32]\<close> follows; behind both there is no room for it.\<close>

definition get_partition_info_amiga ::
  "memory \<Rightarrow> (bytes \<Rightarrow> u32 option) \<Rightarrow> 'd part_dev \<Rightarrow> int \<Rightarrow> disk_partition \<Rightarrow> 'd \<Rightarrow> ((int \<times> disk_partition) \<times> 'd) option" where
  "get_partition_info_amiga m env desc part info d = do {
     (r, d) \<leftarrow> find_partition m env desc (part - 1) d;
     case r of
       None \<Rightarrow> Some ((-1, info), d)
     | Some (rdb, p) \<Rightarrow>
         if length (pb_name p) + 1 > 64 then None
         else
           let g = pb_geometry p;
               text = bcpl_strcpy (part_label info @ part_type info) (pb_name p);
               text = overlay (disk_type_text (ge_dos_type g) @ [0]) 32 text
           in Some ((0, info\<lparr>part_start := first_block g, part_size := block_number g, part_blksz := rd_block_bytes rdb,
                part_label := take 32 text, part_type := drop 32 text\<rparr>), d)
   }"

section \<open>The listing\<close>

datatype amiga_line = AmigaSummary u32 u32 u32 u32 | AmigaRow int bytes u32 u32 bytes u32 | DiskBootable

definition print_part_info :: "int \<Rightarrow> partition_block \<Rightarrow> amiga_line" where
  "print_part_info i p =
     (let g = pb_geometry p
      in AmigaRow i (takeWhile (\<lambda>c. c \<noteq> 0) (pb_name p)) (first_block g) (block_number g) (disk_type_text (ge_dos_type g))
           (ge_boot_priority g))"

partial_function (option) amiga_print_loop ::
  "'d part_dev \<Rightarrow> int \<Rightarrow> u32 \<Rightarrow> amiga_line list \<Rightarrow> 'd \<Rightarrow> (amiga_line list \<times> 'd) option" where
  "amiga_print_loop desc i block lines d =
     (if block = 0xFFFFFFFF then Some (lines, d)
      else do {
        (r, d) \<leftarrow> read_block desc block d;
        case r of
          None \<Rightarrow> Some (lines, d)
        | Some buf \<Rightarrow>
            if long_at buf 0 \<noteq> AMIGA_ID_PART then Some (lines, d)
            else do {
              bad \<leftarrow> sum_block buf;
              if bad then amiga_print_loop desc i block lines d
              else amiga_print_loop desc (i + 1) (pb_next (partition_block_of buf))
                     (lines @ [print_part_info i (partition_block_of buf)]) d
            }
      })"

definition print_part_amiga ::
  "memory \<Rightarrow> (bytes \<Rightarrow> u32 option) \<Rightarrow> 'd part_dev \<Rightarrow> 'd \<Rightarrow> (amiga_line list \<times> 'd) option" where
  "print_part_amiga m env desc d = do {
     (r, d) \<leftarrow> get_rdisk m env desc d;
     case r of
       None \<Rightarrow> Some ([], d)
     | Some rdb \<Rightarrow> do {
         (lines, d) \<leftarrow> amiga_print_loop desc 1 (rd_partition_list rdb)
            [AmigaSummary (rd_block_bytes rdb) (rd_cylinders rdb) (rd_sectors rdb) (rd_heads rdb)] d;
         (boot, d) \<leftarrow> get_bootcode m env desc d;
         Some (if boot \<noteq> None then lines @ [DiskBootable] else lines, d)
       }
   }"

section \<open>Disks in the byte order of the format\<close>

text \<open>
  The format stores its words big-endian, and its rigid disk block begins with the letters RDSK.  The scan
  looks for them the other way round: unless one of the first 16 sectors begins with KSDR, the probe and
  every lookup fail and the listing is empty, whatever else is on the disk.
\<close>

lemma long_at_rdisk: "length bs = 512 \<Longrightarrow> long_at bs 0 = AMIGA_ID_RDISK \<longleftrightarrow> take 4 bs = str ''KSDR''"
proof
  assume l: "length bs = 512"
  show "take 4 bs = str ''KSDR'' \<Longrightarrow> long_at bs 0 = AMIGA_ID_RDISK"
    by (simp add: long_at_def field_def AMIGA_ID_RDISK_def str_def)
  assume "long_at bs 0 = AMIGA_ID_RDISK"
  then have "le_bytes 4 (le_word (take 4 bs) :: u32) = le_bytes 4 AMIGA_ID_RDISK" by (simp add: long_at_def field_def)
  moreover have "le_bytes 4 AMIGA_ID_RDISK = str ''KSDR''" by code_simp
  ultimately show "take 4 bs = str ''KSDR''"
    using le_bytes_le_word [of "take 4 bs", where 'a = 32] l by simp
qed

context readable_device
begin

lemma read_block_ok:
  assumes "good d" and "unat s < unat (lba desc)" and "length (blk d (unat s)) = 512"
  shows "\<exists>d'. read_block desc s d = Some (Some (blk d (unat s)), d') \<and> good d' \<and> blk d' = blk d"
  using read_sector_ok [OF assms(1,2)] assms(3) by (auto simp: read_block_def DEFAULT_SECTOR_SIZE_def)

lemma scan_finds_nothing:
  assumes "good d" and "\<forall>i\<in>set is. i < 16 \<and> length (blk d i) = 512 \<and> long_at (blk d i) 0 \<noteq> ident"
    and "16 \<le> unat (lba desc)"
  shows "\<exists>d'. scan_loop ident desc (map of_nat is) d = Some (None, d')"
  using assms
proof (induction "is" arbitrary: d)
  case (Cons i "is")
  then have u: "unat (of_nat i :: u32) = i" by (simp add: unat_of_nat_u32)
  obtain d1 where d1: "read_block desc (of_nat i) d = Some (Some (blk d i), d1)" "good d1" "blk d1 = blk d"
    using read_block_ok [OF Cons.prems(1), of "of_nat i"] Cons.prems u by auto
  moreover have "\<exists>d'. scan_loop ident desc (map of_nat is) d1 = Some (None, d')"
    using Cons.prems d1(2,3) by (intro Cons.IH) simp_all
  ultimately show ?case using Cons.prems(2) by auto
qed simp

lemma big_endian_disk_refused:
  assumes "good d" and "16 \<le> unat (lba desc)"
    and "\<And>i. i < 16 \<Longrightarrow> length (blk d i) = 512 \<and> take 4 (blk d i) \<noteq> str ''KSDR''"
    and "env (str ''amiga_scanlimit'') = None"
  shows "\<exists>d'. test_part_amiga m env desc d = Some (-1, d')" and "\<exists>d'. print_part_amiga m env desc d = Some ([], d')"
    and "\<exists>d'. get_partition_info_amiga m env desc part info d = Some ((-1, info), d')"
proof -
  have "scan_limit m env = Some 16" by (simp add: scan_limit_def assms(4) AMIGA_BLOCK_LIMIT_def)
  moreover have "\<exists>d'. scan_loop AMIGA_ID_RDISK desc (map of_nat [0..<16]) d = Some (None, d')"
    using assms(3) long_at_rdisk by (intro scan_finds_nothing assms(1,2)) auto
  ultimately have "\<exists>d'. get_rdisk m env desc d = Some (None, d')" by (auto simp: get_rdisk_def)
  then show "\<exists>d'. test_part_amiga m env desc d = Some (-1, d')" "\<exists>d'. print_part_amiga m env desc d = Some ([], d')"
    "\<exists>d'. get_partition_info_amiga m env desc part info d = Some ((-1, info), d')"
    by (auto simp: test_part_amiga_def print_part_amiga_def get_partition_info_amiga_def find_partition_def)
qed

end

end
