(* ===== verification/Part.thy ===== *)
theory Part
  imports PartDos PartMac PartIso PartAmiga
begin

text \<open>
  disk/part.c: the common entry points over the kinds of tables, and \<open>print_part_efi\<close> of disk/part\_efi.c.
  Which kinds are compiled in is an argument; so are the environment (\<open>m\<close>, \<open>env\<close>) that the Amiga code
  reads and \<open>sp\<close> of the allocator.  A listing is the list of its lines.
\<close>

section \<open>Configuration\<close>

definition PART_TYPE_UNKNOWN :: u8 where "PART_TYPE_UNKNOWN = 0x00"
definition PART_TYPE_MAC :: u8 where "PART_TYPE_MAC = 0x01"
definition PART_TYPE_DOS :: u8 where "PART_TYPE_DOS = 0x02"
definition PART_TYPE_ISO :: u8 where "PART_TYPE_ISO = 0x03"
definition PART_TYPE_AMIGA :: u8 where "PART_TYPE_AMIGA = 0x04"
definition PART_TYPE_EFI :: u8 where "PART_TYPE_EFI = 0x05"

lemmas part_types = PART_TYPE_UNKNOWN_def PART_TYPE_MAC_def PART_TYPE_DOS_def PART_TYPE_ISO_def PART_TYPE_AMIGA_def
  PART_TYPE_EFI_def

record part_config =
  config_mac :: bool
  config_dos :: bool
  config_iso :: bool
  config_amiga :: bool
  config_efi :: bool

record part_env =
  cfg :: part_config
  env_mem :: memory
  env_var :: "bytes \<Rightarrow> u32 option"
  alloc_sp :: u32

text \<open>A routine of the other tables in the state of the EFI code.\<close>

definition lift_dev :: "('d \<Rightarrow> ('r \<times> 'd) option) \<Rightarrow> 'd efi_state \<Rightarrow> ('r \<times> 'd efi_state) option" where
  "lift_dev f st = map_option (\<lambda>(r, d). (r, d, snd st)) (f (fst st))"

section \<open>Devices\<close>

text \<open>The drivers by name; each gives the device with a number.\<close>

fun get_dev :: "(bytes \<times> (int \<Rightarrow> 'd part_dev option)) list \<Rightarrow> bytes option \<Rightarrow> int \<Rightarrow> 'd part_dev option" where
  "get_dev drvrs None n = None"
| "get_dev [] (Some ifname) n = None"
| "get_dev ((name, get) # drvrs) (Some ifname) n =
     (if take (length name) ifname = name then get n else get_dev drvrs (Some ifname) n)"

definition mmc_get_dev :: "'h mmc_host \<Rightarrow> 'h mmc_world \<Rightarrow> int \<Rightarrow> 'h mmc_world part_dev option" where
  "mmc_get_dev drv w n = map_option (\<lambda>p. mmc_part_dev drv (mmc_at p w)) (find_mmc_device n w)"

definition DEV_TYPE_UNKNOWN :: u8 where "DEV_TYPE_UNKNOWN = 0xff"

definition get_device ::
  "(bytes \<times> (int \<Rightarrow> 'd part_dev option)) list \<Rightarrow> bytes \<Rightarrow> memory \<Rightarrow> u32 \<Rightarrow> (int \<times> 'd part_dev option) option" where
  "get_device drvrs ifname m dev_str = do {
     (n, ep) \<leftarrow> simple_strtoul m dev_str 16;
     if m ep \<noteq> 0 then Some (-1, None)
     else
       let dev_desc = get_dev drvrs (Some ifname) (sint n)
       in case dev_desc of
            None \<Rightarrow> Some (-1, dev_desc)
          | Some desc \<Rightarrow> Some (if dev_type desc = DEV_TYPE_UNKNOWN then -1 else sint n, dev_desc)
   }"

section \<open>The description of a device\<close>

definition lba512_muldiv :: "u32 \<Rightarrow> u32 \<Rightarrow> u32 \<Rightarrow> u32" where
  "lba512_muldiv block_count mul_by div_by =
     (let bc_quot = block_count div div_by;
          bc_rem = block_count - div_by * bc_quot
      in bc_quot * mul_by + (bc_rem * mul_by) div div_by)"

datatype dev_line = NotAvailable | ScsiModel u8 u8 bytes bytes bytes | DiskModel bytes bytes bytes | CardModel bytes bytes bytes
  | DocDevice | UnknownDevice | UnhandledType int | TypeLine bool u8 | CapacityLine u32 u32 u32 u32 u32 u32 | NoCapacity

definition capacity_line :: "'d part_dev \<Rightarrow> dev_line" where
  "capacity_line desc =
     (if lba desc > 0 \<and> blksz desc > 0 then
        let lba512 = lba desc * (blksz desc div 512);
            mb = lba512_muldiv lba512 10 2048;
            mb_quot = mb div 10;
            mb_rem = mb - 10 * mb_quot;
            gb = mb div 1024;
            gb_quot = gb div 10;
            gb_rem = gb - 10 * gb_quot
        in CapacityLine mb_quot mb_rem gb_quot gb_rem (lba desc) (blksz desc)
      else NoCapacity)"

definition dev_print :: "'d part_dev \<Rightarrow> dev_line list" where
  "dev_print desc =
     (let t = if_type desc; rest = [TypeLine (removable desc) (dev_type desc AND 0x1F), capacity_line desc]
      in if dev_type desc = DEV_TYPE_UNKNOWN then [NotAvailable]
         else if t = IF_TYPE_SCSI
         then ScsiModel (target desc) (lun desc) (vendor desc) (product desc) (rev_text desc) # rest
         else if t = IF_TYPE_ATAPI \<or> t = IF_TYPE_IDE \<or> t = IF_TYPE_SATA
         then DiskModel (vendor desc) (rev_text desc) (product desc) # rest
         else if t = IF_TYPE_SD \<or> t = IF_TYPE_MMC \<or> t = IF_TYPE_USB
         then CardModel (vendor desc) (rev_text desc) (product desc) # rest
         else if t = IF_TYPE_DOC then [DocDevice]
         else if t = IF_TYPE_UNKNOWN then [UnknownDevice]
         else [UnhandledType t])"

section \<open>Finding out the kind of a table\<close>

text \<open>The probes in their order; \<open>info\<close> is the structure on the stack of the ISO probe.\<close>

definition probes ::
  "part_env \<Rightarrow> 'd part_dev \<Rightarrow> disk_partition \<Rightarrow> (bool \<times> u8 \<times> ('d efi_state \<Rightarrow> (int \<times> 'd efi_state) option)) list" where
  "probes e desc info =
     [(config_iso (cfg e), PART_TYPE_ISO, lift_dev (test_part_iso desc info)),
      (config_mac (cfg e), PART_TYPE_MAC, lift_dev (test_part_mac desc)),
      (config_efi (cfg e), PART_TYPE_EFI, lift_dev (test_part_efi (block_dev_desc.truncate desc))),
      (config_dos (cfg e), PART_TYPE_DOS, lift_dev (test_part_dos desc)),
      (config_amiga (cfg e), PART_TYPE_AMIGA, lift_dev (test_part_amiga (env_mem e) (env_var e) desc))]"

fun probe_loop :: "(bool \<times> u8 \<times> ('s \<Rightarrow> (int \<times> 's) option)) list \<Rightarrow> 's \<Rightarrow> (u8 \<times> 's) option" where
  "probe_loop [] st = Some (PART_TYPE_UNKNOWN, st)"
| "probe_loop ((on, kind, test) # ps) st =
     (if on then do {
        (r, st) \<leftarrow> test st;
        if r = 0 then Some (kind, st) else probe_loop ps st
      } else probe_loop ps st)"

definition init_part ::
  "part_env \<Rightarrow> 'd part_dev \<Rightarrow> disk_partition \<Rightarrow> 'd efi_state \<Rightarrow> ('d part_dev \<times> 'd efi_state) option" where
  "init_part e desc info st = map_option (\<lambda>(kind, st). (desc\<lparr>table_type := kind\<rparr>, st)) (probe_loop (probes e desc info) st)"

section \<open>Looking up a partition\<close>

definition get_partition_info ::
  "part_env \<Rightarrow> 'd part_dev \<Rightarrow> int \<Rightarrow> disk_partition \<Rightarrow> 'd efi_state \<Rightarrow> ((int \<times> disk_partition) \<times> 'd efi_state) option" where
  "get_partition_info e desc part info st =
     (let info = info\<lparr>part_uuid := (part_uuid info)[0 := 0]\<rparr>;
          t = table_type desc;
          run = (if t = PART_TYPE_MAC \<and> config_mac (cfg e) then Some (lift_dev (get_partition_info_mac desc part info))
                 else if t = PART_TYPE_DOS \<and> config_dos (cfg e) then Some (lift_dev (get_partition_info_dos desc part info))
                 else if t = PART_TYPE_ISO \<and> config_iso (cfg e) then Some (lift_dev (get_partition_info_iso desc part info))
                 else if t = PART_TYPE_AMIGA \<and> config_amiga (cfg e)
                 then Some (lift_dev (get_partition_info_amiga (env_mem e) (env_var e) desc part info))
                 else if t = PART_TYPE_EFI \<and> config_efi (cfg e)
                 then Some (get_partition_info_efi (alloc_sp e) (block_dev_desc.truncate desc) part info)
                 else None)
      in case run of
           None \<Rightarrow> Some ((-1, info), st)
         | Some f \<Rightarrow> map_option (\<lambda>((r, info), st). ((if r = 0 then 0 else -1, info), st)) (f st))"

section \<open>The listing\<close>

datatype efi_line = InvalidGpt | EfiHeader | EfiRow nat u64 u64 bytes u64 bytes bytes

fun efi_rows :: "bytes \<Rightarrow> nat list \<Rightarrow> efi_line list option" where
  "efi_rows pte [] = Some []"
| "efi_rows pte (i # is) = do {
     e \<leftarrow> nth_entry pte i;
     if \<not> is_pte_valid e then Some []
     else do {
       rows \<leftarrow> efi_rows pte is;
       Some (EfiRow (i + 1) (starting_lba e) (ending_lba e) (takeWhile (\<lambda>c. c \<noteq> 0) (print_efiname e)) (attributes e)
         (uuid_string (partition_type_guid e)) (uuid_string (unique_partition_guid e)) # rows)
     }
   }"

definition print_part_efi :: "u32 \<Rightarrow> 'd block_dev_desc \<Rightarrow> 'd efi_state \<Rightarrow> (efi_line list \<times> 'd efi_state) option" where
  "print_part_efi sp desc st = do {
     (r, st) \<leftarrow> is_gpt_valid sp desc GPT_PRIMARY_PARTITION_TABLE_LBA st;
     case r of
       None \<Rightarrow> Some ([InvalidGpt], st)
     | Some (h, pte) \<Rightarrow> do {
         rows \<leftarrow> efi_rows pte [0..<unat (num_partition_entries h)];
         Some (EfiHeader # rows, st)
       }
   }"

definition if_type_text :: "int \<Rightarrow> bytes" where
  "if_type_text t =
     (if t = IF_TYPE_IDE then str ''IDE'' else if t = IF_TYPE_SATA then str ''SATA''
      else if t = IF_TYPE_SCSI then str ''SCSI'' else if t = IF_TYPE_ATAPI then str ''ATAPI''
      else if t = IF_TYPE_USB then str ''USB'' else if t = IF_TYPE_DOC then str ''DOC''
      else if t = IF_TYPE_MMC then str ''MMC'' else str ''UNKNOWN'')"

definition print_part_header :: "bytes \<Rightarrow> 'd part_dev \<Rightarrow> bytes" where
  "print_part_header type desc = str ''Partition Map for '' @ if_type_text (if_type desc) @ str '' device '' @ decimal (dev desc)
     @ str ''  --   Partition Type: '' @ type"

datatype part_listing = MacList bytes "mac_line list" | DosList bytes "dos_line list" | IsoList bytes "iso_line list"
  | AmigaList bytes "amiga_line list" | EfiList bytes "efi_line list" | UnknownTable

definition print_part ::
  "part_env \<Rightarrow> 'd part_dev \<Rightarrow> disk_partition \<Rightarrow> 'd efi_state \<Rightarrow> (part_listing \<times> 'd efi_state) option" where
  "print_part e desc info st =
     (let t = table_type desc; head = (\<lambda>name. print_part_header name desc)
      in if t = PART_TYPE_MAC \<and> config_mac (cfg e)
         then map_option (\<lambda>(ls, st). (MacList (head (str ''MAC'')) ls, st)) (lift_dev (print_part_mac desc) st)
         else if t = PART_TYPE_DOS \<and> config_dos (cfg e)
         then map_option (\<lambda>(ls, st). (DosList (head (str ''DOS'')) ls, st)) (lift_dev (print_part_dos desc) st)
         else if t = PART_TYPE_ISO \<and> config_iso (cfg e)
         then map_option (\<lambda>(ls, st). (IsoList (head (str ''ISO'')) ls, st)) (lift_dev (print_part_iso desc info) st)
         else if t = PART_TYPE_AMIGA \<and> config_amiga (cfg e)
         then map_option (\<lambda>(ls, st). (AmigaList (head (str ''AMIGA'')) ls, st))
                (lift_dev (print_part_amiga (env_mem e) (env_var e) desc) st)
         else if t = PART_TYPE_EFI \<and> config_efi (cfg e)
         then map_option (\<lambda>(ls, st). (EfiList (head (str ''EFI'')) ls, st))
                (print_part_efi (alloc_sp e) (block_dev_desc.truncate desc) st)
         else Some (UnknownTable, st))"

section \<open>Computing sizes\<close>

text \<open>The product is exact where it would not fit the machine word, as long as the factor is small.\<close>

lemma lba512_muldiv_exact:
  assumes "0 < unat k" and "unat f \<le> unat k" and "unat k * unat f < 2 ^ 32"
  shows "unat (lba512_muldiv x f k) = unat x * unat f div unat k"
proof -
  define q r where "q = unat x div unat k" and "r = unat x mod unat k"
  have x: "unat x = unat k * q + r" "r < unat k" using assms(1) by (simp_all add: q_def r_def)
  have "unat k * (unat x div unat k) < 4294967296"
    using unat_u32_less [of x] times_div_less_eq_dividend [of "unat k" "unat x"] by linarith
  then have kq: "unat (k * (x div k)) = unat k * q"
    by (subst unat_mult_small) (simp_all add: unat_div q_def)
  then have ur: "unat (x - k * (x div k)) = r" using x by (subst unat_sub_small) (simp_all add: unat_div)
  have "r * unat f \<le> unat k * unat f" using x(2) by (intro mult_le_mono1) simp
  from le_less_trans [OF this assms(3)] have urf: "unat ((x - k * (x div k)) * f) = r * unat f"
    using ur by (subst unat_mult_small) simp_all
  have qk: "q * unat f \<le> q * unat k" using assms(2) by (rule mult_le_mono2)
  have "unat x = q * unat k + r" using x(1) by (simp add: mult.commute)
  then have qf: "q * unat f \<le> unat x" using qk by linarith
  have uqf: "unat ((x div k) * f) = q * unat f"
    using qf unat_u32_less [of x] by (subst unat_mult_small) (simp_all add: unat_div q_def)
  have "r * unat f div unat k \<le> r" using assms(1,2) x(2)
    by (metis div_le_mono div_mult_self_is_m mult_le_mono2)
  then have "q * unat f + r * unat f div unat k \<le> unat x"
    using qk \<open>unat x = q * unat k + r\<close> by linarith
  then have "unat (lba512_muldiv x f k) = q * unat f + r * unat f div unat k"
    using unat_u32_less [of x] uqf urf
    unfolding lba512_muldiv_def Let_def by (subst unat_add_small) (simp_all add: unat_div)
  also have "\<dots> = (unat k * q + r) * unat f div unat k"
    using assms(1) by (simp add: add_mult_distrib mult.assoc)
  finally show ?thesis using x(1) by simp
qed

section \<open>Probe and lookup together\<close>

text \<open>A device that is also read through the operation for GUID tables.\<close>

locale probed_device = readable_device +
  assumes reads_gpt: "good d \<Longrightarrow> unat s < unat (lba desc) \<Longrightarrow>
    \<exists>d'. block_read_gpt desc (dev desc) s 1 d = Some ((1, blk d (unat s)), d') \<and> good d' \<and> blk d' = blk d"

sublocale emmc_plain \<subseteq> probed: probed_device "mmc_part_dev drv m" "device_good p m" "\<lambda>w. cells (host w) 0"
proof (unfold_locales, goal_cases)
  case (1 w s)
  then show ?case using read_range [of w 1 s]
    by (simp add: mmc_part_dev_def mmc_block_dev_def run_bytes_1)
qed

lemma readable_kind: "readable_device desc good blk \<Longrightarrow> readable_device (desc\<lparr>table_type := k\<rparr>) good blk"
  by (simp add: readable_device_def)

lemma label_kind [simp]: "partition_label (desc\<lparr>table_type := k\<rparr>) n = partition_label desc n"
  by (simp add: partition_label_def)

definition dos_and_efi :: part_config where
  "dos_and_efi = \<lparr>config_mac = False, config_dos = True, config_iso = False, config_amiga = False, config_efi = True\<rparr>"

text \<open>The kind that a first sector stands for in a build with DOS and GUID tables.\<close>

definition sector_kind :: "bytes \<Rightarrow> u8" where
  "sector_kind buf = (if is_pmbr_valid (legacy_mbr_of buf) then PART_TYPE_EFI
     else if test_block_type buf = DOS_MBR then PART_TYPE_DOS else PART_TYPE_UNKNOWN)"

context probed_device
begin

lemma init_part_kind:
  assumes g: "good d" and n: "0 < unat (lba desc)" and l: "length (blk d 0) = 512" and c: "cfg e = dos_and_efi"
  shows "\<exists>d'. init_part e desc info (d, a) = Some (desc\<lparr>table_type := sector_kind (blk d 0)\<rparr>, d', a)
    \<and> good d' \<and> blk d' = blk d"
proof -
  obtain d1 where d1: "block_read_gpt desc (dev desc) 0 1 d = Some ((1, blk d 0), d1)" "good d1" "blk d1 = blk d"
    using reads_gpt [OF g, of 0] n by auto
  have efi: "test_part_efi (block_dev_desc.truncate desc) d
      = Some (if is_pmbr_valid (legacy_mbr_of (blk d 0)) then 0 else -1, d1)"
    using d1(1) by (simp add: test_part_efi_def block_dev_desc.truncate_def)
  obtain d2 where d2: "read_sector desc 0 d1 = Some (Some (blk d 0), d2)" "good d2" "blk d2 = blk d"
    using read_sector_ok [OF d1(2), of 0] n d1(3) by auto
  have "test_part_dos desc d1 = Some (if test_block_type (blk d 0) \<noteq> DOS_MBR then -1 else 0, d2)"
    using d2(1) l by (simp add: test_part_dos_def)
  then show ?thesis
    using efi d1(2,3) d2(2,3) c
    by (auto simp: init_part_def probes_def lift_dev_def sector_kind_def dos_and_efi_def)
qed

lemma dos_lookup_ok:
  assumes g: "good d" and c: "cfg e = dos_and_efi" and t: "dos_disk_at (blk d) (unat (lba desc)) sig mbr ls"
  shows "\<exists>d'. get_partition_info e (desc\<lparr>table_type := PART_TYPE_DOS\<rparr>) which info (d, a)
      = Some (dos_lookup desc sig (dos_parts mbr ls) which (info\<lparr>part_uuid := (part_uuid info)[0 := 0]\<rparr>), d', a)"
proof -
  define desc' where "desc' = desc\<lparr>table_type := PART_TYPE_DOS\<rparr>"
  define info' where "info' = info\<lparr>part_uuid := (part_uuid info)[0 := 0]\<rparr>"
  have r: "readable_device desc' good blk" unfolding desc'_def by (rule readable_kind [OF readable_device_axioms])
  have "dos_info desc' = dos_info desc" by (intro ext) (simp add: dos_info_def desc'_def split: prod.split)
  then have "dos_lookup desc' = dos_lookup desc" by (intro ext) (simp add: dos_lookup_def split: option.split)
  then obtain d' where d': "get_partition_info_dos desc' which info' d = Some (dos_lookup desc sig (dos_parts mbr ls) which info', d')"
    using readable_device.dos_disk_read [OF r g, of sig mbr ls which info'] t by (auto simp: desc'_def)
  have "get_partition_info e desc' which info (d, a) = map_option (\<lambda>((r, info), st). ((if r = 0 then 0 else -1, info), st))
      (lift_dev (get_partition_info_dos desc' which info') (d, a))"
    by (simp add: get_partition_info_def Let_def c dos_and_efi_def desc'_def info'_def part_types)
  moreover have "fst (dos_lookup desc sig (dos_parts mbr ls) which info') \<in> {0, -1}"
    by (simp add: dos_lookup_def split: option.split)
  ultimately show ?thesis unfolding desc'_def [symmetric] info'_def [symmetric]
    by (cases "dos_lookup desc sig (dos_parts mbr ls) which info'") (auto simp: lift_dev_def d')
qed

end

text \<open>A slot that only protects a GUID table.\<close>

definition protective_slot :: "dos_slot \<Rightarrow> bool" where
  "protective_slot e \<longleftrightarrow> sl_kind e = 0xEE \<and> sl_first e = 1"

lemma protective_record:
  assumes "holds_table b es"
  shows "is_pmbr_valid (legacy_mbr_of b) \<longleftrightarrow> (\<exists>e\<in>set es. protective_slot e)"
proof -
  have h: "length b = 512" "length es = 4" "b ! 510 = 0x55" "b ! 511 = 0xAA" using assms by (simp_all add: holds_table_def)
  have "drop 510 b = [b ! 510, b ! 511]" using h(1) by (simp add: Cons_nth_drop_Suc [symmetric])
  then have sig: "mbr_signature (legacy_mbr_of b) = MSDOS_MBR_SIGNATURE"
    using h(3,4) by (simp add: legacy_mbr_of_def field_def MSDOS_MBR_SIGNATURE_def)
  have part: "pmbr_part_valid (partition_record (legacy_mbr_of b) ! i) \<longleftrightarrow> protective_slot (es ! i)" if i: "i < 4" for i
  proof -
    have "i = 0 \<or> i = 1 \<or> i = 2 \<or> i = 3" using i by auto
    then have sl: "holds_slot b (446 + 16 * i) (es ! i)" using assms by (auto simp: holds_table_def)
    have "partition_record (legacy_mbr_of b) ! i = efi_partition_of (field b (446 + 16 * i) 16)" using i by (simp add: legacy_mbr_of_def)
    moreover have "field (field b (446 + 16 * i) 16) 8 4 = le_bytes 4 (sl_first (es ! i))"
      using sl by (simp add: field_field) (simp add: field_def holds_slot_def add.commute)
    moreover have "field b (446 + 16 * i) 16 ! 4 = sl_kind (es ! i)"
      using sl i h(1) by (simp add: field_nth holds_slot_def add.commute)
    ultimately show ?thesis
      by (simp add: pmbr_part_valid_def protective_slot_def efi_partition_of_def EFI_PMBR_OSTYPE_EFI_GPT_def le_word_le_bytes take_bit_word_eq_self)
  qed
  have "(\<exists>i\<in>{0..<4}. protective_slot (es ! i)) \<longleftrightarrow> (\<exists>e\<in>set es. protective_slot e)"
    using h(2) by (simp add: Bex_def in_set_conv_nth) blast
  then show ?thesis using sig part by (auto simp: is_pmbr_valid_def)
qed

text \<open>
  C23. In a build with DOS and GUID tables, a disk with DOS partitions as the format lays them out is probed as
  a disk with a GUID table exactly when one of its first four slots is a protective one, and as a DOS disk
  otherwise; the lookup through the common entry point on a device of the DOS kind gives the partition with the number, or
  fails when there is none.
\<close>

theorem probe_then_lookup:
  assumes "probed_device desc good blk" and "good d" and "cfg e = dos_and_efi"
    and "dos_disk_at (blk d) (unat (lba desc)) sig mbr ls"
  shows "\<exists>d1. init_part e desc tmp (d, a)
      = Some (desc\<lparr>table_type := (if \<exists>s\<in>set mbr. protective_slot s then PART_TYPE_EFI else PART_TYPE_DOS)\<rparr>, d1, a)
    \<and> (\<exists>d2. get_partition_info e (desc\<lparr>table_type := PART_TYPE_DOS\<rparr>) which info (d1, a)
      = Some (dos_lookup desc sig (dos_parts mbr ls) which (info\<lparr>part_uuid := (part_uuid info)[0 := 0]\<rparr>), d2, a))"
proof -
  have h: "0 < unat (lba desc)" "holds_table (blk d 0) mbr" using assms(4) by (simp_all add: dos_disk_at_def)
  note T = holds_table_slots(2,3) [OF h(2)]
  obtain d1 where d1: "init_part e desc tmp (d, a) = Some (desc\<lparr>table_type := sector_kind (blk d 0)\<rparr>, d1, a)" "good d1" "blk d1 = blk d"
    using probed_device.init_part_kind [OF assms(1,2) h(1) T(2) assms(3)] by blast
  have "sector_kind (blk d 0) = (if \<exists>s\<in>set mbr. protective_slot s then PART_TYPE_EFI else PART_TYPE_DOS)"
    by (simp add: sector_kind_def protective_record [OF h(2)] T(1))
  then show ?thesis
    using d1 probed_device.dos_lookup_ok [OF assms(1) d1(2) assms(3), of sig mbr ls which info a] assms(4) by auto
qed

lemma probe_then_lookup_witness:
  "\<exists>d1 d2 blank_info'. init_part (\<lparr>cfg = dos_and_efi, env_mem = (\<lambda>_. 0), env_var = (\<lambda>_. None), alloc_sp = 0\<rparr>)
      (mmc_part_dev sim_host plain_mmc) blank_info (plain_world demo_tables, 0)
      = Some ((mmc_part_dev sim_host plain_mmc)\<lparr>table_type := PART_TYPE_DOS\<rparr>, d1, 0)
    \<and> get_partition_info (\<lparr>cfg = dos_and_efi, env_mem = (\<lambda>_. 0), env_var = (\<lambda>_. None), alloc_sp = 0\<rparr>)
      ((mmc_part_dev sim_host plain_mmc)\<lparr>table_type := PART_TYPE_DOS\<rparr>) 5 blank_info (d1, 0)
      = Some ((0, blank_info'), d2, 0) \<and> part_start blank_info' = 3"
proof -
  define e where "e = \<lparr>cfg = dos_and_efi, env_mem = (\<lambda>_. 0), env_var = (\<lambda>_. None), alloc_sp = 0\<rparr>"
  have e: "cfg e = dos_and_efi" by (simp add: e_def)
  have p: "\<not> (\<exists>s\<in>set demo_mbr. protective_slot s)" by (simp add: demo_mbr_def protective_slot_def blank_slot_def)
  have f: "find (has_number 5) (dos_parts demo_mbr demo_logicals) = Some (5, 3, fst (demo_logicals ! 0))"
    by (simp add: dos_parts_def demo_mbr_def demo_logicals_def has_number_def extended_kind_def blank_slot_def)
  show ?thesis
    using probe_then_lookup [OF simplain.probed.probed_device_axioms plain_world_good e demo_disk, of blank_info 0 5 blank_info]
    unfolding e_def [symmetric] if_not_P [OF p] by (auto simp: dos_lookup_def f dos_info_def)
qed

end
