(* ===== verification/Mmio.thy ===== *)
theory Mmio
  imports Prelude "HOL-Library.State_Monad"
begin

text \<open>
  Code that runs against the hardware: the bus through which a pointer dereference or a
  \<open>readl\<close>/\<open>writel\<close> reaches DRAM and the memory-mapped registers, the commands built from it,
  and the calculus the components use to reason about sequences of bus accesses.
  The bus is a parameter: reading may change the state of the hardware (a poll advances time, a
  read-to-clear status), so it returns the value and the new state.  Commands are terms of the
  state monad of the library over a record whose first field is the hardware; a component extends
  the record with the variables of its source file.
\<close>

section \<open>The bus\<close>

record 'h bus =
  read32 :: "u32 \<Rightarrow> 'h \<Rightarrow> u32 \<times> 'h"
  write32 :: "u32 \<Rightarrow> u32 \<Rightarrow> 'h \<Rightarrow> 'h"
  write16 :: "u32 \<Rightarrow> u16 \<Rightarrow> 'h \<Rightarrow> 'h"
  write8 :: "u32 \<Rightarrow> u8 \<Rightarrow> 'h \<Rightarrow> 'h"

record 'h machine =
  hw :: 'h

definition readl :: "'h bus \<Rightarrow> u32 \<Rightarrow> (('h, 'x) machine_scheme, u32) state" where
  "readl b a = State (\<lambda>s. case read32 b a (hw s) of (v, h) \<Rightarrow> (v, s\<lparr>hw := h\<rparr>))"

definition writel :: "'h bus \<Rightarrow> u32 \<Rightarrow> u32 \<Rightarrow> (('h, 'x) machine_scheme, unit) state" where
  "writel b v a = State (\<lambda>s. ((), s\<lparr>hw := write32 b a v (hw s)\<rparr>))"

definition writew :: "'h bus \<Rightarrow> u16 \<Rightarrow> u32 \<Rightarrow> (('h, 'x) machine_scheme, unit) state" where
  "writew b v a = State (\<lambda>s. ((), s\<lparr>hw := write16 b a v (hw s)\<rparr>))"

definition writeb :: "'h bus \<Rightarrow> u8 \<Rightarrow> u32 \<Rightarrow> (('h, 'x) machine_scheme, unit) state" where
  "writeb b v a = State (\<lambda>s. ((), s\<lparr>hw := write8 b a v (hw s)\<rparr>))"

definition gets :: "('s \<Rightarrow> 'a) \<Rightarrow> ('s, 'a) state" where
  "gets f = State (\<lambda>s. (f s, s))"

definition modify :: "('s \<Rightarrow> 's) \<Rightarrow> ('s, unit) state" where
  "modify f = State (\<lambda>s. ((), f s))"

text \<open>\<open>*reg |= m\<close> and \<open>*reg &= m\<close> through a volatile pointer: a read and a write.\<close>

definition reg_or :: "'h bus \<Rightarrow> u32 \<Rightarrow> u32 \<Rightarrow> (('h, 'x) machine_scheme, unit) state" where
  "reg_or b a m = do { x \<leftarrow> readl b a; writel b (x OR m) a }"

definition reg_and :: "'h bus \<Rightarrow> u32 \<Rightarrow> u32 \<Rightarrow> (('h, 'x) machine_scheme, unit) state" where
  "reg_and b a m = do { x \<leftarrow> readl b a; writel b (x AND m) a }"

section \<open>Loops\<close>

text \<open>
  \<open>for (i = 0; i < n; i++) f (i);\<close>, the same with an accumulator that is set to -1 whenever the
  body reports a fault, and the same with an early \<open>return\<close> of a non-zero value.
\<close>

primrec for_upto :: "nat \<Rightarrow> (nat \<Rightarrow> ('s, unit) state) \<Rightarrow> ('s, unit) state" where
  "for_upto 0 f = State_Monad.return ()"
| "for_upto (Suc n) f = do { for_upto n f; f n }"

primrec scan :: "nat \<Rightarrow> (nat \<Rightarrow> ('s, bool) state) \<Rightarrow> ('s, int) state" where
  "scan 0 f = State_Monad.return 0"
| "scan (Suc n) f = do { r \<leftarrow> scan n f; bad \<leftarrow> f n; State_Monad.return (if bad then - 1 else r) }"

primrec try_each :: "nat list \<Rightarrow> (nat \<Rightarrow> ('s, int) state) \<Rightarrow> ('s, int) state" where
  "try_each [] f = State_Monad.return 0"
| "try_each (j # js) f = do { r \<leftarrow> f j; if r \<noteq> 0 then State_Monad.return r else try_each js f }"

section \<open>Weakest preconditions\<close>

text \<open>
  \<open>wp f Q s\<close>: running \<open>f\<close> from \<open>s\<close> ends in a result and a state that satisfy \<open>Q\<close>.  Every command
  here ends, so the weakest precondition is a function of the start state.
\<close>

definition wp :: "('s, 'a) state \<Rightarrow> ('a \<Rightarrow> 's \<Rightarrow> bool) \<Rightarrow> 's \<Rightarrow> bool" where
  "wp f Q s = (case run_state f s of (r, s') \<Rightarrow> Q r s')"

named_theorems wps \<open>weakest preconditions of the commands\<close>

lemma wp_return [wps]: "wp (State_Monad.return x) Q = Q x"
  by (simp add: wp_def fun_eq_iff)

lemma wp_bind [wps]: "wp (f \<bind> g) Q = wp f (\<lambda>x. wp (g x) Q)"
  by (simp add: wp_def fun_eq_iff split: prod.splits)

lemma wp_readl [wps]:
  "wp (readl b a) Q = (\<lambda>s. case read32 b a (hw s) of (v, h) \<Rightarrow> Q v (s\<lparr>hw := h\<rparr>))"
  by (simp add: wp_def fun_eq_iff readl_def split: prod.splits)

lemma wp_writel [wps]: "wp (writel b v a) Q = (\<lambda>s. Q () (s\<lparr>hw := write32 b a v (hw s)\<rparr>))"
  by (simp add: wp_def fun_eq_iff writel_def)

lemma wp_writew [wps]: "wp (writew b v a) Q = (\<lambda>s. Q () (s\<lparr>hw := write16 b a v (hw s)\<rparr>))"
  by (simp add: wp_def fun_eq_iff writew_def)

lemma wp_writeb [wps]: "wp (writeb b v a) Q = (\<lambda>s. Q () (s\<lparr>hw := write8 b a v (hw s)\<rparr>))"
  by (simp add: wp_def fun_eq_iff writeb_def)

lemma wp_gets [wps]: "wp (gets f) Q = (\<lambda>s. Q (f s) s)"
  by (simp add: wp_def fun_eq_iff gets_def)

lemma wp_modify [wps]: "wp (modify f) Q = (\<lambda>s. Q () (f s))"
  by (simp add: wp_def fun_eq_iff modify_def)

lemma wp_get [wps]: "wp State_Monad.get Q = (\<lambda>s. Q s s)"
  by (simp add: wp_def fun_eq_iff)

lemma wp_if [wps]: "wp (if c then f else g) Q = (if c then wp f Q else wp g Q)"
  by simp

lemma wp_mono: "wp f Q s \<Longrightarrow> (\<And>r t. Q r t \<Longrightarrow> R r t) \<Longrightarrow> wp f R s"
  by (auto simp: wp_def split: prod.splits)

lemma wp_conj: "wp f Q s \<Longrightarrow> wp f R s \<Longrightarrow> wp f (\<lambda>r t. Q r t \<and> R r t) s"
  by (auto simp: wp_def split: prod.splits)

lemma wp_True [simp]: "wp f (\<lambda>_ _. True) s"
  by (simp add: wp_def split: prod.splits)

lemma wp_run: "wp f Q s \<Longrightarrow> run_state f s = (r, t) \<Longrightarrow> Q r t"
  by (simp add: wp_def)

lemma wp_runI: "(\<And>r t. run_state f s = (r, t) \<Longrightarrow> Q r t) \<Longrightarrow> wp f Q s"
  by (simp add: wp_def split: prod.splits)

lemma wp_for_upto:
  assumes "I 0 s" and "\<And>i t. i < n \<Longrightarrow> I i t \<Longrightarrow> wp (f i) (\<lambda>_. I (Suc i)) t"
    and "\<And>t. I n t \<Longrightarrow> Q () t"
  shows "wp (for_upto n f) Q s"
proof -
  have "k \<le> n \<Longrightarrow> wp (for_upto k f) (\<lambda>_. I k) s" for k
  proof (induction k)
    case 0
    then show ?case using assms(1) by (simp add: wps)
  next
    case (Suc k)
    from Suc have "wp (for_upto k f) (\<lambda>_. I k) s" by simp
    then have "wp (for_upto k f) (\<lambda>_. wp (f k) (\<lambda>_. I (Suc k))) s"
      by (rule wp_mono) (use Suc.prems assms(2) in simp)
    then show ?case by (simp add: wps)
  qed
  from this [OF le_refl] show ?thesis by (rule wp_mono) (simp add: assms(3))
qed

lemma wp_scan:
  assumes "I 0 0 s"
    and "\<And>i r t. i < n \<Longrightarrow> I i r t \<Longrightarrow> wp (f i) (\<lambda>bad. I (Suc i) (if bad then - 1 else r)) t"
    and "\<And>r t. I n r t \<Longrightarrow> Q r t"
  shows "wp (scan n f) Q s"
proof -
  have "k \<le> n \<Longrightarrow> wp (scan k f) (I k) s" for k
  proof (induction k)
    case 0
    then show ?case using assms(1) by (simp add: wps)
  next
    case (Suc k)
    from Suc have "wp (scan k f) (I k) s" by simp
    then have "wp (scan k f) (\<lambda>r. wp (f k) (\<lambda>bad. I (Suc k) (if bad then - 1 else r))) s"
      by (rule wp_mono) (use Suc.prems assms(2) in simp)
    then show ?case by (simp add: wps)
  qed
  from this [OF le_refl] show ?thesis by (rule wp_mono) (rule assms(3))
qed

text \<open>A scan whose body never reports a fault and keeps an invariant.\<close>

lemma wp_scan_clean:
  assumes "I s" and "\<And>i t. i < n \<Longrightarrow> I t \<Longrightarrow> wp (f i) (\<lambda>bad t'. \<not> bad \<and> I t') t"
    and "\<And>t. I t \<Longrightarrow> Q 0 t"
  shows "wp (scan n f) Q s"
proof (rule wp_scan [where I = "\<lambda>_ r t. r = 0 \<and> I t"])
  show "wp (f i) (\<lambda>bad t'. (if bad then - 1 else r) = 0 \<and> I t') t"
    if "i < n" and "r = 0 \<and> I t" for i r t
    by (rule wp_mono [OF assms(2)]) (use that in auto)
qed (use assms in auto)

text \<open>A scan whose body reports a fault in round \<open>k\<close>, whatever the state.\<close>

lemma scan_nonpos: "wp (scan n f) (\<lambda>r t. r = 0 \<or> r = - 1) s"
  by (rule wp_scan [where I = "\<lambda>_ r _. r = 0 \<or> r = - 1"]) (auto intro!: wp_runI)

lemma wp_scan_fault:
  assumes "k < n" and "\<And>t. wp (f k) (\<lambda>bad _. bad) t"
  shows "wp (scan n f) (\<lambda>r _. r = - 1) s"
proof (rule wp_scan [where I = "\<lambda>i r _. k < i \<longrightarrow> r = - 1"])
  show "wp (f i) (\<lambda>bad _. k < Suc i \<longrightarrow> (if bad then - 1 else r) = - 1) t"
    if "i < n" and "k < i \<longrightarrow> r = - 1" for i r t
  proof (cases "i = k")
    case True
    then show ?thesis by (auto intro: wp_mono [OF assms(2)])
  next
    case False
    with that show ?thesis by (auto intro!: wp_runI)
  qed
qed (use assms in auto)

lemma wp_try_each:
  assumes "I s" and "\<And>j t. j \<in> set js \<Longrightarrow> I t \<Longrightarrow> wp (f j) (\<lambda>r t'. r = 0 \<and> I t') t"
    and "\<And>t. I t \<Longrightarrow> Q 0 t"
  shows "wp (try_each js f) Q s"
  using assms
proof (induction js arbitrary: s)
  case Nil
  then show ?case by (simp add: wps)
next
  case (Cons j js)
  have "wp (f j) (\<lambda>r t. r = 0 \<and> I t) s" using Cons.prems by simp
  then have "wp (f j) (\<lambda>r. wp (if r \<noteq> 0 then State_Monad.return r else try_each js f) Q) s"
    by (rule wp_mono) (use Cons in \<open>auto simp: wps\<close>)
  then show ?case by (simp add: wps)
qed

text \<open>Collecting the results of a command over \<open>[0..<n]\<close>.\<close>

lemma wp_traverse_upto:
  assumes "I 0 [] s" and "\<And>i rs t. i < n \<Longrightarrow> I i rs t \<Longrightarrow> wp (f i) (\<lambda>r. I (Suc i) (rs @ [r])) t"
    and "\<And>rs t. I n rs t \<Longrightarrow> Q rs t"
  shows "wp (traverse_list f [0..<n]) Q s"
proof -
  have "k \<le> n \<Longrightarrow> wp (traverse_list f [0..<k]) (I k) s" for k
  proof (induction k)
    case 0
    then show ?case using assms(1) by (simp add: wps)
  next
    case (Suc k)
    from Suc have "wp (traverse_list f [0..<k]) (I k) s" by simp
    then have "wp (traverse_list f [0..<k]) (\<lambda>rs. wp (f k) (\<lambda>r. I (Suc k) (rs @ [r]))) s"
      by (rule wp_mono) (use Suc.prems assms(2) in simp)
    then show ?case by (simp add: wps)
  qed
  from this [OF le_refl] show ?thesis by (rule wp_mono) (rule assms(3))
qed

section \<open>Commands that change the hardware only\<close>

definition hw_only :: "(('h, 'x) machine_scheme, 'a) state \<Rightarrow> bool" where
  "hw_only f = (\<forall>s. wp f (\<lambda>_ t. machine.more t = machine.more s) s)"

named_theorems hw_rules \<open>commands that change the hardware only\<close>

lemma more_eq: "machine.more t = machine.more s \<Longrightarrow> t = s\<lparr>hw := hw t\<rparr>"
  by (rule machine.equality) simp_all

lemma hw_only_wp: "hw_only f \<Longrightarrow> wp f (\<lambda>_ t. machine.more t = machine.more s) s"
  by (simp add: hw_only_def)

lemma hw_only_return [hw_rules]: "hw_only (State_Monad.return x)"
  by (simp add: hw_only_def wps)

lemma hw_only_bind [hw_rules]:
  assumes "hw_only f" and "\<And>x. hw_only (g x)"
  shows "hw_only (f \<bind> g)"
  unfolding hw_only_def wp_bind
proof
  fix s
  show "wp f (\<lambda>x. wp (g x) (\<lambda>_ t. machine.more t = machine.more s)) s"
    by (rule wp_mono [OF hw_only_wp [OF assms(1)]]) (use hw_only_wp [OF assms(2)] in metis)
qed

lemma hw_only_readl [hw_rules]: "hw_only (readl b a)"
  by (simp add: hw_only_def wps split: prod.splits)

lemma hw_only_writel [hw_rules]: "hw_only (writel b v a)"
  by (simp add: hw_only_def wps)

lemma hw_only_get [hw_rules]: "hw_only State_Monad.get"
  by (simp add: hw_only_def wps)

lemma hw_only_gets [hw_rules]: "hw_only (gets f)"
  by (simp add: hw_only_def wps)

lemma hw_only_if [hw_rules]: "hw_only f \<Longrightarrow> hw_only g \<Longrightarrow> hw_only (if c then f else g)"
  by simp

lemma hw_only_reg_or [hw_rules]: "hw_only (reg_or b a m)"
  unfolding reg_or_def by (intro hw_rules)

lemma hw_only_reg_and [hw_rules]: "hw_only (reg_and b a m)"
  unfolding reg_and_def by (intro hw_rules)

lemma hw_only_traverse [hw_rules]: "(\<And>x. hw_only (f x)) \<Longrightarrow> hw_only (traverse_list f xs)"
  by (induction xs) (auto intro!: hw_rules)

lemma hw_only_for_upto [hw_rules]: "(\<And>i. hw_only (f i)) \<Longrightarrow> hw_only (for_upto n f)"
  by (induction n) (auto intro!: hw_rules)

section \<open>What a command keeps\<close>

text \<open>\<open>keeps c f\<close>: running \<open>f\<close> leaves the aspect \<open>c\<close> of the state as it is.\<close>

definition keeps :: "('s \<Rightarrow> 'c) \<Rightarrow> ('s, 'a) state \<Rightarrow> bool" where
  "keeps c f = (\<forall>s. wp f (\<lambda>_ t. c t = c s) s)"

named_theorems keeps_rules \<open>commands that keep an aspect of the state\<close>

lemma keeps_run: "keeps c f \<Longrightarrow> run_state f s = (x, t) \<Longrightarrow> c t = c s"
  by (auto simp: keeps_def wp_def dest!: spec [of _ s])

lemma keeps_return [keeps_rules]: "keeps c (State_Monad.return x)"
  by (simp add: keeps_def wps)

lemma keeps_bind [keeps_rules]:
  assumes "keeps c f" and "\<And>x. keeps c (g x)"
  shows "keeps c (f \<bind> g)"
  unfolding keeps_def wp_bind
proof
  fix s
  show "wp f (\<lambda>x. wp (g x) (\<lambda>_ t. c t = c s)) s"
  proof (rule wp_runI)
    fix x t
    assume "run_state f s = (x, t)"
    then have "c t = c s" by (rule keeps_run [OF assms(1)])
    moreover have "wp (g x) (\<lambda>_ u. c u = c t) t" using assms(2) [of x] unfolding keeps_def by (rule spec)
    ultimately show "wp (g x) (\<lambda>_ u. c u = c s) t" by simp
  qed
qed

lemma keeps_gets [keeps_rules]: "keeps c (gets f)"
  by (simp add: keeps_def wps)

lemma keeps_get [keeps_rules]: "keeps c State_Monad.get"
  by (simp add: keeps_def wps)

lemma keeps_modify [keeps_rules]: "(\<And>s. c (f s) = c s) \<Longrightarrow> keeps c (modify f)"
  by (simp add: keeps_def wps)

lemma keeps_if [keeps_rules]: "keeps c f \<Longrightarrow> keeps c g \<Longrightarrow> keeps c (if p then f else g)"
  by simp

lemma keeps_for_upto [keeps_rules]: "(\<And>i. keeps c (f i)) \<Longrightarrow> keeps c (for_upto n f)"
  by (induction n) (auto intro!: keeps_rules)

lemma keeps_traverse [keeps_rules]: "(\<And>x. keeps c (f x)) \<Longrightarrow> keeps c (traverse_list f xs)"
  by (induction xs) (auto intro!: keeps_rules)

lemma keeps_prod [keeps_rules]: "(\<And>x y. keeps c (f x y)) \<Longrightarrow> keeps c (case p of (x, y) \<Rightarrow> f x y)"
  by (simp split: prod.split)

lemma hw_only_keeps:
  assumes "hw_only f" and "\<And>s t. machine.more t = machine.more s \<Longrightarrow> c t = c s"
  shows "keeps c f"
  unfolding keeps_def
proof
  fix s
  show "wp f (\<lambda>_ t. c t = c s) s" by (rule wp_mono [OF hw_only_wp [OF assms(1)]]) (rule assms(2))
qed

section \<open>Register files\<close>

text \<open>
  The contract of a set of word-sized cells behind the bus, memory or configuration registers: a read
  returns what the cell holds and disturbs no cell, a write changes its own cell only, and a write to
  an aligned address outside the set changes none.
\<close>

locale register_file =
  fixes b :: "'h bus" and cell :: "'h \<Rightarrow> u32 \<Rightarrow> u32" and cells :: "u32 set"
  assumes read_cell: "a \<in> cells \<Longrightarrow> fst (read32 b a h) = cell h a"
    and read_keeps: "c \<in> cells \<Longrightarrow> cell (snd (read32 b a h)) c = cell h c"
    and write_cell: "a \<in> cells \<Longrightarrow> c \<in> cells \<Longrightarrow>
      cell (write32 b a v h) c = (if c = a then v else cell h c)"
    and write_other: "a \<notin> cells \<Longrightarrow> a AND 3 = 0 \<Longrightarrow> c \<in> cells \<Longrightarrow> cell (write32 b a v h) c = cell h c"
begin

text \<open>The cells of a state; addresses outside the set read as 0, so that states can be compared.\<close>

definition view :: "('h, 'x) machine_scheme \<Rightarrow> u32 \<Rightarrow> u32" where
  "view s = (\<lambda>c. if c \<in> cells then cell (hw s) c else 0)"

lemma wp_rd: "a \<in> cells \<Longrightarrow> (\<And>t. view t = view s \<Longrightarrow> Q (view s a) t) \<Longrightarrow> wp (readl b a) Q s"
  using read_cell [of a "hw s"] read_keeps [of _ a "hw s"]
  by (auto simp: wps view_def fun_eq_iff split: prod.splits)

lemma wp_rd_any: "(\<And>v h. view (s\<lparr>hw := h\<rparr>) = view s \<Longrightarrow> Q v (s\<lparr>hw := h\<rparr>)) \<Longrightarrow> wp (readl b a) Q s"
  using read_keeps [of _ a "hw s"]
  by (auto simp: wps view_def fun_eq_iff split: prod.splits)

lemma wp_wr: "a \<in> cells \<Longrightarrow> (\<And>t. view t = (view s)(a := v) \<Longrightarrow> Q () t) \<Longrightarrow> wp (writel b v a) Q s"
  using write_cell by (auto simp: wps view_def fun_eq_iff)

lemma wp_wr_other: "a \<notin> cells \<Longrightarrow> a AND 3 = 0 \<Longrightarrow> (\<And>t. view t = view s \<Longrightarrow> Q () t) \<Longrightarrow> wp (writel b v a) Q s"
  using write_other by (auto simp: wps view_def fun_eq_iff)

lemma view_cell: "a \<in> cells \<Longrightarrow> view s a = cell (hw s) a"
  by (simp add: view_def)

lemma wp_reg_or: "a \<in> cells \<Longrightarrow> (\<And>t. view t = (view s)(a := view s a OR m) \<Longrightarrow> Q () t) \<Longrightarrow> wp (reg_or b a m) Q s"
  unfolding reg_or_def wp_bind by (rule wp_rd, assumption, rule wp_wr) auto

lemma wp_reg_and: "a \<in> cells \<Longrightarrow> (\<And>t. view t = (view s)(a := view s a AND m) \<Longrightarrow> Q () t) \<Longrightarrow> wp (reg_and b a m) Q s"
  unfolding reg_and_def wp_bind by (rule wp_rd, assumption, rule wp_wr) auto

lemma wp_reg_or_other: "a \<notin> cells \<Longrightarrow> a AND 3 = 0 \<Longrightarrow> (\<And>t. view t = view s \<Longrightarrow> Q () t) \<Longrightarrow> wp (reg_or b a m) Q s"
  unfolding reg_or_def wp_bind by (rule wp_rd_any, rule wp_wr_other) auto

lemma wp_reg_and_other: "a \<notin> cells \<Longrightarrow> a AND 3 = 0 \<Longrightarrow> (\<And>t. view t = view s \<Longrightarrow> Q () t) \<Longrightarrow> wp (reg_and b a m) Q s"
  unfolding reg_and_def wp_bind by (rule wp_rd_any, rule wp_wr_other) auto

end

end
