(* ===== verification/DdrFreq.thy ===== *)
theory DdrFreq
  imports Mmio
begin

text \<open>
  \<open>ddr_frequency_adjust\<close> of board/leadcore/lc186x/dqs_training.c: the change of the DRAM clock the
  training and the memory test go through.  The registers are those of
  include/mach/lc186x/regs-ddr_pwr.h.
\<close>

definition DDR_PWR_BASE :: u32 where "DDR_PWR_BASE = 0xE100A000"
definition DDR_PWR_CMDFIFOCTL :: u32 where "DDR_PWR_CMDFIFOCTL = DDR_PWR_BASE + 0x5c"
definition DDR_PWR_AP_DDR_FREQ :: u32 where "DDR_PWR_AP_DDR_FREQ = DDR_PWR_BASE + 0x70"
definition DDR_PWR_CP_DDR_FREQ :: u32 where "DDR_PWR_CP_DDR_FREQ = DDR_PWR_BASE + 0x74"
definition DDR_PWR_INTR_RAW :: u32 where "DDR_PWR_INTR_RAW = DDR_PWR_BASE + 0x134"
definition DDR_PWR_INTR_APA7 :: u32 where "DDR_PWR_INTR_APA7 = DDR_PWR_BASE + 0x144"

lemmas ddr_pwr_regs = DDR_PWR_BASE_def DDR_PWR_CMDFIFOCTL_def DDR_PWR_AP_DDR_FREQ_def
  DDR_PWR_CP_DDR_FREQ_def DDR_PWR_INTR_RAW_def DDR_PWR_INTR_APA7_def

definition ddr_pwr_ports :: "u32 set" where
  "ddr_pwr_ports = {DDR_PWR_CMDFIFOCTL, DDR_PWR_AP_DDR_FREQ, DDR_PWR_CP_DDR_FREQ, DDR_PWR_INTR_APA7}"

text \<open>The wait for the interrupt: at most \<open>n\<close> reads of the raw status.\<close>

primrec await_freq :: "'h bus \<Rightarrow> nat \<Rightarrow> (('h, 'x) machine_scheme, bool) state" where
  "await_freq b 0 = State_Monad.return False"
| "await_freq b (Suc n) = do {
     raw \<leftarrow> readl b DDR_PWR_INTR_RAW;
     if raw AND 0x400 \<noteq> 0 then do { writel b 0x400 DDR_PWR_INTR_APA7; State_Monad.return True }
     else await_freq b n }"

definition ddr_frequency_adjust :: "'h bus \<Rightarrow> u32 \<Rightarrow> (('h, 'x) machine_scheme, int) state" where
  "ddr_frequency_adjust b select_low_fren = do {
     ap \<leftarrow> readl b DDR_PWR_AP_DDR_FREQ;
     cp \<leftarrow> readl b DDR_PWR_CP_DDR_FREQ;
     if select_low_fren \<noteq> ap OR cp then State_Monad.return 0
     else do {
       writel b (push_bit 21 1 OR push_bit 10 1) DDR_PWR_INTR_APA7;
       writel b 1 DDR_PWR_CMDFIFOCTL;
       (if select_low_fren \<noteq> 0 then do {
         writel b 0 DDR_PWR_AP_DDR_FREQ;
         writel b 0 DDR_PWR_CP_DDR_FREQ }
       else do {
         writel b 1 DDR_PWR_AP_DDR_FREQ;
         writel b 1 DDR_PWR_CP_DDR_FREQ });
       done \<leftarrow> await_freq b 10000000;
       State_Monad.return (if done then 0 else - 1) } }"

text \<open>
  What the adjustment leaves alone: any property of the hardware that neither reads nor writes of
  its own registers can disturb.
\<close>

lemma wp_await_freq:
  assumes reads: "\<And>s. I s \<Longrightarrow> case read32 b DDR_PWR_INTR_RAW (hw s) of (v, h) \<Rightarrow> I (s\<lparr>hw := h\<rparr>)"
    and writes: "\<And>s v. I s \<Longrightarrow> I (s\<lparr>hw := write32 b DDR_PWR_INTR_APA7 v (hw s)\<rparr>)"
    and I: "I s"
  shows "wp (await_freq b n) (\<lambda>_. I) s"
  using I
proof (induction n arbitrary: s)
  case 0
  then show ?case by (simp add: wps)
next
  case (Suc n)
  obtain v h where r: "read32 b DDR_PWR_INTR_RAW (hw s) = (v, h)" by fastforce
  with reads [OF Suc.prems] have "I (s\<lparr>hw := h\<rparr>)" by simp
  with Suc.IH [of "s\<lparr>hw := h\<rparr>"] writes [of "s\<lparr>hw := h\<rparr>"] show ?case by (simp add: wps r)
qed

lemma wp_ddr_frequency_adjust:
  assumes reads: "\<And>a s. I s \<Longrightarrow> case read32 b a (hw s) of (v, h) \<Rightarrow> I (s\<lparr>hw := h\<rparr>)"
    and writes: "\<And>a v s. a \<in> ddr_pwr_ports \<Longrightarrow> I s \<Longrightarrow> I (s\<lparr>hw := write32 b a v (hw s)\<rparr>)"
    and I: "I s"
  shows "wp (ddr_frequency_adjust b sel) (\<lambda>_. I) s"
proof -
  obtain v h where r: "read32 b DDR_PWR_AP_DDR_FREQ (hw s) = (v, h)" by fastforce
  obtain v' h' where r': "read32 b DDR_PWR_CP_DDR_FREQ h = (v', h')" by fastforce
  have I1: "I (s\<lparr>hw := h'\<rparr>)"
    using reads [OF I, of DDR_PWR_AP_DDR_FREQ] reads [of "s\<lparr>hw := h\<rparr>" DDR_PWR_CP_DDR_FREQ] r r' by simp
  have W: "I (t\<lparr>hw := write32 b a w (hw t)\<rparr>)"
    if "I t" "a \<in> ddr_pwr_ports" for t a w using writes that by blast
  have await: "wp (await_freq b n) (\<lambda>_. I) t" if "I t" for n t
    by (rule wp_await_freq) (use reads writes that in \<open>auto simp: ddr_pwr_ports_def\<close>)
  have step: "I (s\<lparr>hw := write32 b a w h1\<rparr>)" if "I (s\<lparr>hw := h1\<rparr>)" "a \<in> ddr_pwr_ports" for a w h1
    using W [OF that(1), of a w] that(2) by simp
  have mem: "DDR_PWR_INTR_APA7 \<in> ddr_pwr_ports" "DDR_PWR_CMDFIFOCTL \<in> ddr_pwr_ports"
    "DDR_PWR_AP_DDR_FREQ \<in> ddr_pwr_ports" "DDR_PWR_CP_DDR_FREQ \<in> ddr_pwr_ports"
    by (simp_all add: ddr_pwr_ports_def)
  show ?thesis
    unfolding ddr_frequency_adjust_def wps r r' prod.case machine.select_convs machine.update_convs
    by (simp add: r r' I1 wps await step mem)
qed

end
