(* ===== verification/MemTest.thy ===== *)
theory MemTest
  imports DdrFreq
begin

text \<open>
  board/leadcore/lc186x/comip_memorytest.c: the DRAM test.  Every access through a pointer is an
  access to the bus, so the model says what the tests compute on any memory, a faulty one included.
  The file's variables are the two seeds of \<open>rand\<close>; \<open>rand_calls\<close> counts its calls, so that
  \<open>stale\<close>, a parameter, can give the contents of its two uninitialised locals at each call.
  The messages are not modelled.
\<close>

record 'h tester = "'h machine" +
  seed_x :: u32
  seed_y :: u32
  rand_calls :: nat

definition TPZCTL_BASE :: u32 where "TPZCTL_BASE = 0xA08A7000"
definition AP_PWR_SECPCLK_EN :: u32 where "AP_PWR_SECPCLK_EN = 0xA0899088"

text \<open>Word \<open>i\<close> of the region at \<open>a\<close>: \<open>((ulong *) a) + i\<close>.\<close>

definition slot :: "u32 \<Rightarrow> nat \<Rightarrow> u32" where
  "slot a i = a + 4 * of_nat i"

section \<open>The line tests\<close>

definition testdata :: "u64 list" where
  "testdata = [0xaaaaaaaaaaaaaaaa, 0xcccccccccccccccc, 0xf0f0f0f0f0f0f0f0, 0xff00ff00ff00ff00,
     0xffff0000ffff0000, 0xffffffff00000000, 0x00000000ffffffff, 0x0000ffff0000ffff,
     0x00ff00ff00ff00ff, 0x0f0f0f0f0f0f0f0f, 0x3333333333333333, 0x5555555555555555]"

definition othertestdata :: u64 where
  "othertestdata = 0x0123456789abcdef"

text \<open>\<open>copy64\<close> with the destination, and with the source, in memory.\<close>

definition copy64_to :: "'h bus \<Rightarrow> u64 \<Rightarrow> u32 \<Rightarrow> (('h, 'x) machine_scheme, unit) state" where
  "copy64_to b v a = do { writel b (ucast v) a; writel b (ucast (drop_bit 32 v)) (a + 4) }"

definition copy64_from :: "'h bus \<Rightarrow> u32 \<Rightarrow> (('h, 'x) machine_scheme, u64) state" where
  "copy64_from b a = do {
     lo \<leftarrow> readl b a;
     hi \<leftarrow> readl b (a + 4);
     State_Monad.return (push_bit 32 (ucast hi) OR ucast lo) }"

definition memory_test_dataline :: "'h bus \<Rightarrow> u32 \<Rightarrow> (('h, 'x) machine_scheme, int) state" where
  "memory_test_dataline b pmem = scan (length testdata) (\<lambda>i. do {
     copy64_to b (testdata ! i) pmem;
     copy64_to b othertestdata (pmem + 8);
     temp64 \<leftarrow> copy64_from b pmem;
     State_Monad.return (temp64 \<noteq> testdata ! i) })"

definition memory_test_addrline ::
    "'h bus \<Rightarrow> u32 \<Rightarrow> u32 \<Rightarrow> u32 \<Rightarrow> (('h, 'x) machine_scheme, int) state" where
  "memory_test_addrline b testaddr base sz = scan 30 (\<lambda>k.
     let xor = push_bit (k + 2) 1; target = testaddr XOR xor in
     if base \<le> target \<and> target < base + sz then do {
       t \<leftarrow> readl b target;
       writel b (NOT t) testaddr;
       readback \<leftarrow> readl b target;
       back \<leftarrow> readl b testaddr;
       State_Monad.return (readback = back) }
     else State_Monad.return False)"

definition memory_test_lines ::
    "'h bus \<Rightarrow> u32 \<Rightarrow> u32 \<Rightarrow> (('h, 'x) machine_scheme, int) state" where
  "memory_test_lines b start sz = do {
     r1 \<leftarrow> memory_test_dataline b start;
     r2 \<leftarrow> memory_test_addrline b start start sz;
     r3 \<leftarrow> memory_test_addrline b (start + sz - 8) start sz;
     State_Monad.return (r1 + r2 + r3) }"

section \<open>The pattern tests\<close>

text \<open>The two loops each of them has: \<open>mem[i] = f (i)\<close>, then \<open>mem[i] != f (i)\<close>.\<close>

definition fill :: "'h bus \<Rightarrow> u32 \<Rightarrow> nat \<Rightarrow> (nat \<Rightarrow> u32) \<Rightarrow> (('h, 'x) machine_scheme, unit) state" where
  "fill b a n f = for_upto n (\<lambda>i. writel b (f i) (slot a i))"

definition verify :: "'h bus \<Rightarrow> u32 \<Rightarrow> nat \<Rightarrow> (nat \<Rightarrow> u32) \<Rightarrow> (('h, 'x) machine_scheme, int) state" where
  "verify b a n f = scan n (\<lambda>i. do {
     readback \<leftarrow> readl b (slot a i);
     State_Monad.return (readback \<noteq> f i) })"

definition memory_test_test1 ::
    "'h bus \<Rightarrow> u32 \<Rightarrow> u32 \<Rightarrow> u32 \<Rightarrow> (('h, 'x) machine_scheme, int) state" where
  "memory_test_test1 b start sz val = do {
     fill b start (unat (sz div 4)) (\<lambda>i. val);
     verify b start (unat (sz div 4)) (\<lambda>i. val) }"

definition memory_test_test2 ::
    "'h bus \<Rightarrow> u32 \<Rightarrow> u32 \<Rightarrow> (('h, 'x) machine_scheme, int) state" where
  "memory_test_test2 b start sz = do {
     fill b start (unat (sz div 4)) (\<lambda>i. push_bit (i mod 32) 1);
     verify b start (unat (sz div 4)) (\<lambda>i. push_bit (i mod 32) 1) }"

definition memory_test_test3 ::
    "'h bus \<Rightarrow> u32 \<Rightarrow> u32 \<Rightarrow> (('h, 'x) machine_scheme, int) state" where
  "memory_test_test3 b start sz = do {
     fill b start (unat (sz div 4)) of_nat;
     verify b start (unat (sz div 4)) of_nat }"

definition memory_test_test4 ::
    "'h bus \<Rightarrow> u32 \<Rightarrow> u32 \<Rightarrow> (('h, 'x) machine_scheme, int) state" where
  "memory_test_test4 b start sz = do {
     fill b start (unat (sz div 4)) (\<lambda>i. NOT (of_nat i));
     verify b start (unat (sz div 4)) (\<lambda>i. NOT (of_nat i)) }"

definition memory_test_patterns ::
    "'h bus \<Rightarrow> u32 \<Rightarrow> u32 \<Rightarrow> (('h, 'x) machine_scheme, int) state" where
  "memory_test_patterns b start sz = do {
     r1 \<leftarrow> memory_test_test1 b start sz 0x00000000;
     r2 \<leftarrow> memory_test_test1 b start sz 0xffffffff;
     r3 \<leftarrow> memory_test_test1 b start sz 0x55555555;
     r4 \<leftarrow> memory_test_test1 b start sz 0xaaaaaaaa;
     r5 \<leftarrow> memory_test_test2 b start sz;
     r6 \<leftarrow> memory_test_test3 b start sz;
     r7 \<leftarrow> memory_test_test4 b start sz;
     State_Monad.return (r1 + r2 + r3 + r4 + r5 + r6 + r7) }"

section \<open>Random words\<close>

text \<open>
  \<open>seed |= *(TPZCTL_BASE + 0x50) << (i * 8)\<close> for four rounds, from the value the local happens
  to hold.
\<close>

primrec gather_seed :: "'h bus \<Rightarrow> u32 \<Rightarrow> nat \<Rightarrow> (('h, 'x) machine_scheme, u32) state" where
  "gather_seed b seed 0 = State_Monad.return seed"
| "gather_seed b seed (Suc i) = do {
     acc \<leftarrow> gather_seed b seed i;
     v \<leftarrow> readl b (TPZCTL_BASE + 0x50);
     State_Monad.return (acc OR push_bit (i * 8) v) }"

definition rand :: "'h bus \<Rightarrow> (nat \<Rightarrow> u32 \<times> u32) \<Rightarrow> ('h tester, u32) state" where
  "rand b stale = do {
     k \<leftarrow> gets rand_calls;
     modify (rand_calls_update Suc);
     seed1 \<leftarrow> gather_seed b (fst (stale k)) 4;
     seed2 \<leftarrow> gather_seed b (snd (stale k)) 4;
     (if seed1 \<noteq> 0 then modify (seed_x_update (\<lambda>_. seed1)) else State_Monad.return ());
     (if seed2 \<noteq> 0 then modify (seed_y_update (\<lambda>_. seed2)) else State_Monad.return ());
     modify (seed_x_update (\<lambda>x. 18000 * (x AND 65535) + drop_bit 16 x));
     modify (seed_y_update (\<lambda>y. 30903 * (y AND 65535) + drop_bit 16 y));
     x \<leftarrow> gets seed_x;
     y \<leftarrow> gets seed_y;
     State_Monad.return (push_bit 16 x + (y AND 65535)) }"

definition rand_ul :: "'h bus \<Rightarrow> (nat \<Rightarrow> u32 \<times> u32) \<Rightarrow> ('h tester, u32) state" where
  "rand_ul b stale = do {
     lo \<leftarrow> rand b stale;
     hi \<leftarrow> rand b stale;
     State_Monad.return (lo OR push_bit 16 hi) }"

section \<open>The two-buffer tests\<close>

definition compare_regions ::
    "'h bus \<Rightarrow> u32 \<Rightarrow> u32 \<Rightarrow> nat \<Rightarrow> (('h, 'x) machine_scheme, int) state" where
  "compare_regions b bufa bufb n = scan n (\<lambda>i. do {
     x \<leftarrow> readl b (slot bufa i);
     y \<leftarrow> readl b (slot bufb i);
     State_Monad.return (x \<noteq> y) })"

text \<open>\<open>*p1++ = *p2++ = f (i)\<close> and \<open>*p1++ op= q; *p2++ op= q\<close> over \<open>count\<close> words.\<close>

definition fill_both ::
    "'h bus \<Rightarrow> u32 \<Rightarrow> u32 \<Rightarrow> nat \<Rightarrow> (nat \<Rightarrow> u32) \<Rightarrow> (('h, 'x) machine_scheme, unit) state" where
  "fill_both b bufa bufb n f = for_upto n (\<lambda>i. do {
     writel b (f i) (slot bufb i);
     writel b (f i) (slot bufa i) })"

definition map_both ::
    "'h bus \<Rightarrow> u32 \<Rightarrow> u32 \<Rightarrow> nat \<Rightarrow> (u32 \<Rightarrow> u32) \<Rightarrow> (('h, 'x) machine_scheme, unit) state" where
  "map_both b bufa bufb n g = for_upto n (\<lambda>i. do {
     x \<leftarrow> readl b (slot bufa i);
     writel b (g x) (slot bufa i);
     y \<leftarrow> readl b (slot bufb i);
     writel b (g y) (slot bufb i) })"

definition test_stuck_address :: "'h bus \<Rightarrow> u32 \<Rightarrow> nat \<Rightarrow> (('h, 'x) machine_scheme, int) state" where
  "test_stuck_address b bufa n = try_each [0..<4] (\<lambda>j.
     let pat = (\<lambda>i. if (j + i) mod 2 = 0 then slot bufa i else NOT (slot bufa i)) in do {
       fill b bufa n pat;
       try_each [0..<n] (\<lambda>i. do {
         x \<leftarrow> readl b (slot bufa i);
         State_Monad.return (if x \<noteq> pat i then - 1 else 0) }) })"

definition test_random_value ::
    "'h bus \<Rightarrow> (nat \<Rightarrow> u32 \<times> u32) \<Rightarrow> u32 \<Rightarrow> u32 \<Rightarrow> nat \<Rightarrow> ('h tester, int) state" where
  "test_random_value b stale bufa bufb n = do {
     for_upto n (\<lambda>i. do {
       r \<leftarrow> rand_ul b stale;
       writel b r (slot bufb i);
       writel b r (slot bufa i) });
     compare_regions b bufa bufb n }"

text \<open>
  The arithmetic comparisons differ in the operator only; the division replaces a zero divisor by
  one before the first use.
\<close>

definition op_comparison ::
    "'h bus \<Rightarrow> (nat \<Rightarrow> u32 \<times> u32) \<Rightarrow> (u32 \<Rightarrow> u32 \<Rightarrow> u32) \<Rightarrow> u32 \<Rightarrow> u32 \<Rightarrow> nat \<Rightarrow> ('h tester, int) state" where
  "op_comparison b stale f bufa bufb n = do {
     q \<leftarrow> rand_ul b stale;
     map_both b bufa bufb n (\<lambda>x. f x q);
     compare_regions b bufa bufb n }"

definition test_xor_comparison where "test_xor_comparison b stale = op_comparison b stale (XOR)"
definition test_sub_comparison where "test_sub_comparison b stale = op_comparison b stale (-)"
definition test_mul_comparison where "test_mul_comparison b stale = op_comparison b stale (*)"
definition test_div_comparison where
  "test_div_comparison b stale = op_comparison b stale (\<lambda>x q. x div (if q = 0 then 1 else q))"
definition test_or_comparison where "test_or_comparison b stale = op_comparison b stale (OR)"
definition test_and_comparison where "test_and_comparison b stale = op_comparison b stale (AND)"

definition test_seqinc_comparison ::
    "'h bus \<Rightarrow> (nat \<Rightarrow> u32 \<times> u32) \<Rightarrow> u32 \<Rightarrow> u32 \<Rightarrow> nat \<Rightarrow> ('h tester, int) state" where
  "test_seqinc_comparison b stale bufa bufb n = do {
     q \<leftarrow> rand_ul b stale;
     fill_both b bufa bufb n (\<lambda>i. of_nat i + q);
     compare_regions b bufa bufb n }"

text \<open>The rounds \<open>j\<close> of a pattern test: fill both buffers, leave with -1 at the first difference.\<close>

definition rounds_comparison ::
    "'h bus \<Rightarrow> nat list \<Rightarrow> (nat \<Rightarrow> nat \<Rightarrow> u32) \<Rightarrow> u32 \<Rightarrow> u32 \<Rightarrow> nat \<Rightarrow> (('h, 'x) machine_scheme, int) state" where
  "rounds_comparison b js pat bufa bufb n = try_each js (\<lambda>j. do {
     fill_both b bufa bufb n (pat j);
     r \<leftarrow> compare_regions b bufa bufb n;
     State_Monad.return (if r \<noteq> 0 then - 1 else 0) })"

definition alternate :: "u32 \<Rightarrow> nat \<Rightarrow> u32" where
  "alternate q i = (if i mod 2 = 0 then q else NOT q)"

definition test_solidbits_comparison where
  "test_solidbits_comparison b =
     rounds_comparison b [0..<2] (\<lambda>j. alternate (if j mod 2 = 0 then 0xffffffff else 0))"

definition test_checkerboard_comparison where
  "test_checkerboard_comparison b =
     rounds_comparison b [0..<2] (\<lambda>j. alternate (if j mod 2 = 0 then 0x55555555 else 0xaaaaaaaa))"

definition UL_BYTE :: "u32 \<Rightarrow> u32" where
  "UL_BYTE x = x OR push_bit 8 x OR push_bit 16 x OR push_bit 24 x"

definition test_blockseq_comparison where
  "test_blockseq_comparison b = rounds_comparison b [0..<2] (\<lambda>j i. UL_BYTE (of_nat j))"

definition walk_bit :: "nat \<Rightarrow> u32" where
  "walk_bit j = (if j < 32 then push_bit j 1 else push_bit (32 * 2 - j - 1) 1)"

definition test_walkbits0_comparison where
  "test_walkbits0_comparison b = rounds_comparison b [0..<2] (\<lambda>j i. walk_bit j)"

definition test_walkbits1_comparison where
  "test_walkbits1_comparison b = rounds_comparison b [0..<2] (\<lambda>j i. 0xffffffff XOR walk_bit j)"

definition spread_bits :: "nat \<Rightarrow> u32" where
  "spread_bits j =
     (if j < 32 then push_bit j 1 OR push_bit (j + 2) 1
      else push_bit (32 * 2 - 1 - j) 1 OR push_bit (32 * 2 + 1 - j) 1)"

definition test_bitspread_comparison where
  "test_bitspread_comparison b = rounds_comparison b [0..<2]
     (\<lambda>j i. if i mod 2 = 0 then spread_bits j else 0xffffffff XOR spread_bits j)"

text \<open>
  The 16 rounds of the bit-flip test in order; \<open>q\<close> is complemented before each of the eight
  fillings of a bit, so it is \<open>~(ONE << k)\<close> in the even ones and \<open>ONE << k\<close> in the odd ones.
\<close>

definition test_bitflip_comparison where
  "test_bitflip_comparison b = rounds_comparison b [0..<16]
     (\<lambda>r. alternate (((\<lambda>q. NOT q) ^^ (r mod 8 + 1)) (push_bit (r div 8) 1)))"

text \<open>
  The narrow writes: a word into one buffer and its bytes, or half-words, in the order the little-
  endian union holds them, into the other; the buffers change roles between the two attempts.
\<close>

definition test_8bit_wide_random ::
    "'h bus \<Rightarrow> (nat \<Rightarrow> u32 \<times> u32) \<Rightarrow> u32 \<Rightarrow> u32 \<Rightarrow> nat \<Rightarrow> ('h tester, int) state" where
  "test_8bit_wide_random b stale bufa bufb n = try_each [0..<2] (\<lambda>attempt.
     let (p1, p2) = (if odd attempt then (bufa, bufb) else (bufb, bufa)) in do {
       for_upto n (\<lambda>i. do {
         r \<leftarrow> rand_ul b stale;
         writel b r (slot p2 i);
         for_upto 4 (\<lambda>k. writeb b (ucast (drop_bit (8 * k) r)) (slot p1 i + of_nat k)) });
       r \<leftarrow> compare_regions b bufa bufb n;
       State_Monad.return (if r \<noteq> 0 then - 1 else 0) })"

definition test_16bit_wide_random ::
    "'h bus \<Rightarrow> (nat \<Rightarrow> u32 \<times> u32) \<Rightarrow> u32 \<Rightarrow> u32 \<Rightarrow> nat \<Rightarrow> ('h tester, int) state" where
  "test_16bit_wide_random b stale bufa bufb n = try_each [0..<2] (\<lambda>attempt.
     let (p1, p2) = (if odd attempt then (bufa, bufb) else (bufb, bufa)) in do {
       for_upto n (\<lambda>i. do {
         r \<leftarrow> rand_ul b stale;
         writel b r (slot p2 i);
         for_upto 2 (\<lambda>k. writew b (ucast (drop_bit (16 * k) r)) (slot p1 i + 2 * of_nat k)) });
       r \<leftarrow> compare_regions b bufa bufb n;
       State_Monad.return (if r \<noteq> 0 then - 1 else 0) })"

section \<open>A bank, and all of memory\<close>

text \<open>
  \<open>if (test (...)) goto test_failed;\<close> for a list of tests.  The label prints and spins for ever, so
  the result says whether the function returns.
\<close>

primrec run_tests :: "('s, int) state list \<Rightarrow> ('s, bool) state" where
  "run_tests [] = State_Monad.return True"
| "run_tests (t # ts) = do {
     r \<leftarrow> t;
     if r \<noteq> 0 then State_Monad.return False else run_tests ts }"

text \<open>\<open>extended\<close> is the compile-time switch CONFIG_DDR_MEMTEST_NEW.\<close>

definition memory_test_bank ::
    "'h bus \<Rightarrow> (nat \<Rightarrow> u32 \<times> u32) \<Rightarrow> bool \<Rightarrow> u32 \<Rightarrow> u32 \<Rightarrow> ('h tester, bool) state" where
  "memory_test_bank b stale extended vstart memsize = do {
     (if extended then reg_or b AP_PWR_SECPCLK_EN 0x00100010 else State_Monad.return ());
     let vstart_2 = vstart + memsize div 2;
     let memsize_b = unat (memsize div (2 * 4));
     run_tests
       ((if extended then
          [test_stuck_address b vstart (memsize_b * 2),
           test_random_value b stale vstart vstart_2 memsize_b,
           test_xor_comparison b stale vstart vstart_2 memsize_b,
           test_sub_comparison b stale vstart vstart_2 memsize_b,
           test_mul_comparison b stale vstart vstart_2 memsize_b,
           test_div_comparison b stale vstart vstart_2 memsize_b,
           test_or_comparison b stale vstart vstart_2 memsize_b,
           test_and_comparison b stale vstart vstart_2 memsize_b,
           test_seqinc_comparison b stale vstart vstart_2 memsize_b,
           test_solidbits_comparison b vstart vstart_2 memsize_b,
           test_checkerboard_comparison b vstart vstart_2 memsize_b,
           test_blockseq_comparison b vstart vstart_2 memsize_b,
           test_walkbits0_comparison b vstart vstart_2 memsize_b,
           test_walkbits1_comparison b vstart vstart_2 memsize_b,
           test_bitspread_comparison b vstart vstart_2 memsize_b,
           test_bitflip_comparison b vstart vstart_2 memsize_b,
           test_8bit_wide_random b stale vstart vstart_2 memsize_b,
           test_16bit_wide_random b stale vstart vstart_2 memsize_b]
         else []) @
        [memory_test_lines b vstart memsize, memory_test_patterns b vstart memsize]) }"

text \<open>
  \<open>memory_test\<close>: nine rounds over the banks the global data names, whose 64-bit bases and sizes are
  cut to the 32-bit arguments of \<open>memory_test_bank\<close>, then \<open>pmic_reboot\<close>.  The result says whether the
  reboot is reached.
\<close>

definition test_bank_if ::
    "'h bus \<Rightarrow> (nat \<Rightarrow> u32 \<times> u32) \<Rightarrow> bool \<Rightarrow> (u64 \<times> u64) \<Rightarrow> ('h tester, bool) state" where
  "test_bank_if b stale extended dram =
     (if snd dram > 0 then memory_test_bank b stale extended (ucast (fst dram)) (ucast (snd dram))
      else State_Monad.return True)"

primrec memory_rounds ::
    "'h bus \<Rightarrow> (nat \<Rightarrow> u32 \<times> u32) \<Rightarrow> bool \<Rightarrow> (u64 \<times> u64) \<Rightarrow> (u64 \<times> u64) \<Rightarrow> nat list \<Rightarrow> ('h tester, bool) state" where
  "memory_rounds b stale extended dram dram2 [] = State_Monad.return True"
| "memory_rounds b stale extended dram dram2 (i # is) = do {
     ddr_frequency_adjust b (of_nat (i mod 2));
     ok1 \<leftarrow> test_bank_if b stale extended dram;
     if \<not> ok1 then State_Monad.return False
     else do {
       ok2 \<leftarrow> test_bank_if b stale extended dram2;
       if \<not> ok2 then State_Monad.return False
       else memory_rounds b stale extended dram dram2 is } }"

definition memory_test ::
    "'h bus \<Rightarrow> (nat \<Rightarrow> u32 \<times> u32) \<Rightarrow> bool \<Rightarrow> (u64 \<times> u64) \<Rightarrow> (u64 \<times> u64) \<Rightarrow> ('h tester, bool) state" where
  "memory_test b stale extended dram dram2 = memory_rounds b stale extended dram dram2 [1..<10]"

section \<open>Words and addresses\<close>

lemma slot_0 [simp]: "slot a 0 = a"
  by (simp add: slot_def)

lemma slot_slot: "slot (slot a i) j = slot a (i + j)"
  by (simp add: slot_def algebra_simps)

lemma unat_four_times: "k < 1073741824 \<Longrightarrow> unat (4 * of_nat k :: u32) = 4 * k"
  using unat_of_nat [of "4 * k", where 'a = 32] by simp

lemma slot_inj: "i < 1073741824 \<Longrightarrow> j < 1073741824 \<Longrightarrow> slot a i = slot a j \<longleftrightarrow> i = j"
  unfolding slot_def add_left_cancel
  by (metis unat_four_times mult_cancel1 zero_neq_numeral)

lemma slot_half: "n < 536870912 \<Longrightarrow> a + of_nat (8 * n) div 2 = slot a n"
proof -
  assume n: "n < 536870912"
  have "unat (of_nat (8 * n) :: u32) = 8 * n" using unat_of_nat [of "8 * n", where 'a = 32] n by simp
  then have "unat (of_nat (8 * n) div 2 :: u32) = unat (4 * of_nat n :: u32)"
    using unat_four_times [of n] n by (simp add: unat_div del: of_nat_mult)
  then show ?thesis unfolding slot_def add_left_cancel word_unat_eq_iff [symmetric] .
qed

lemma join_halves: "push_bit 32 (ucast (ucast (drop_bit 32 v) :: u32)) OR ucast (ucast v :: u32) = (v :: u64)"
  by (rule bit_word_eqI) (auto simp: bit_simps)

lemma not_eq_self: "NOT (w :: u32) \<noteq> w"
proof
  assume "NOT w = w"
  then have "bit (NOT w) 0 = bit w 0" by simp
  then show False by (simp add: bit_simps)
qed

text \<open>A word with the \<open>k\<close>-th lane of the width of \<open>v\<close> replaced by \<open>v\<close>.\<close>

definition lane :: "nat \<Rightarrow> 'a::len word \<Rightarrow> u32 \<Rightarrow> u32" where
  "lane k v x = (x AND NOT (push_bit (LENGTH('a) * k) (mask LENGTH('a)))) OR push_bit (LENGTH('a) * k) (ucast v)"

lemma bit_lane: "bit (lane k (v :: 'a::len word) x) i \<longleftrightarrow> i < 32 \<and>
    (if LENGTH('a) * k \<le> i \<and> i < LENGTH('a) * k + LENGTH('a) then bit v (i - LENGTH('a) * k) else bit x i)"
  by (auto simp: lane_def bit_simps dest: bit_imp_le_length)

lemma lanes_8:
  "lane 3 (ucast (drop_bit 24 r) :: u8) (lane 2 (ucast (drop_bit 16 r) :: u8)
     (lane 1 (ucast (drop_bit 8 r) :: u8) (lane 0 (ucast r :: u8) x))) = r"
  by (rule bit_word_eqI) (auto simp: bit_lane bit_simps)

lemma lanes_16: "lane 1 (ucast (drop_bit 16 r) :: u16) (lane 0 (ucast r :: u16) x) = r"
  by (rule bit_word_eqI) (auto simp: bit_lane bit_simps)

section \<open>Faithful memory\<close>

text \<open>
  What working DRAM promises about the word cells of a region: it is a register file, and a narrow
  write changes the lane of the cell that it addresses.
\<close>

locale ram = register_file b cell cells
  for b :: "'h bus" and cell :: "'h \<Rightarrow> u32 \<Rightarrow> u32" and cells :: "u32 set" +
  assumes write8_lane: "a \<in> cells \<Longrightarrow> k < 4 \<Longrightarrow> c \<in> cells \<Longrightarrow>
      cell (write8 b (a + of_nat k) v8 h) c = (if c = a then lane k v8 (cell h a) else cell h c)"
    and write16_lane: "a \<in> cells \<Longrightarrow> k < 2 \<Longrightarrow> c \<in> cells \<Longrightarrow>
      cell (write16 b (a + 2 * of_nat k) v16 h) c = (if c = a then lane k v16 (cell h a) else cell h c)"
begin

lemma wp_wr8: "a \<in> cells \<Longrightarrow> k < 4 \<Longrightarrow> (\<And>t. view t = (view s)(a := lane k v (view s a)) \<Longrightarrow> Q () t) \<Longrightarrow>
    wp (writeb b v (a + of_nat k)) Q s"
  using write8_lane [of a k] by (auto simp: wps view_def fun_eq_iff)

lemma wp_wr16: "a \<in> cells \<Longrightarrow> k < 2 \<Longrightarrow> (\<And>t. view t = (view s)(a := lane k v (view s a)) \<Longrightarrow> Q () t) \<Longrightarrow>
    wp (writew b v (a + 2 * of_nat k)) Q s"
  using write16_lane [of a k] by (auto simp: wps view_def fun_eq_iff)

end

text \<open>A bank of \<open>2 * n\<close> words at \<open>start\<close>, the cells of the region.\<close>

locale bank = ram b cell "slot start ` {..<2 * n}"
  for b :: "'h bus" and cell :: "'h \<Rightarrow> u32 \<Rightarrow> u32" and start :: u32 and n :: nat +
  assumes small: "n < 536870912"
    and aligned: "start AND 3 = 0"
    and fits: "unat start + 8 * n \<le> 4294967296"
begin

lemma mem: "i < 2 * n \<Longrightarrow> slot start i \<in> slot start ` {..<2 * n}"
  by simp

lemma slot_eq: "i < 2 * n \<Longrightarrow> j < 2 * n \<Longrightarrow> slot start i = slot start j \<longleftrightarrow> i = j"
  using small by (intro slot_inj) auto

lemma wp_fill:
  assumes "m \<le> 2 * n" and "\<And>t. \<forall>i<m. view t (slot start i) = f i \<Longrightarrow> Q () t"
  shows "wp (fill b start m f) Q s"
  unfolding fill_def
proof (rule wp_for_upto [where I = "\<lambda>k t. \<forall>i<k. view t (slot start i) = f i"])
  fix i t
  assume "i < m" and I: "\<forall>j<i. view t (slot start j) = f j"
  then have "i < 2 * n" using assms(1) by simp
  then show "wp (writel b (f i) (slot start i)) (\<lambda>_ t. \<forall>j<Suc i. view t (slot start j) = f j) t"
    by (intro wp_wr) (auto simp: mem I less_Suc_eq slot_eq)
qed (use assms in auto)

lemma wp_verify:
  assumes "m \<le> 2 * n" and "\<forall>i<m. view s (slot start i) = f i" and "\<And>t. view t = view s \<Longrightarrow> Q 0 t"
  shows "wp (verify b start m f) Q s"
  unfolding verify_def
proof (rule wp_scan_clean [where I = "\<lambda>t. view t = view s"])
  fix i t
  assume "i < m" and I: "view t = view s"
  then have "i < 2 * n" using assms(1) by simp
  then have "slot start i \<in> slot start ` {..<2 * n}" by (rule mem)
  then show "wp (do { readback \<leftarrow> readl b (slot start i); State_Monad.return (readback \<noteq> f i) })
      (\<lambda>bad t'. \<not> bad \<and> view t' = view s) t"
    unfolding wp_bind wp_return by (rule wp_rd) (use I assms(2) \<open>i < m\<close> in simp)
qed (use assms in auto)

lemma wp_fill_verify:
  assumes "m \<le> 2 * n" and "\<And>t. \<forall>i<m. view t (slot start i) = f i \<Longrightarrow> Q 0 t"
  shows "wp (do { fill b start m f; verify b start m f }) Q s"
  unfolding wps by (rule wp_fill, rule assms, rule wp_verify) (use assms in auto)

lemmas wp_tests = memory_test_test1_def memory_test_test2_def memory_test_test3_def memory_test_test4_def

lemma wp_patterns:
  assumes sz: "unat (sz div 4) = 2 * n" and Q: "\<And>t. \<forall>i<2 * n. view t (slot start i) = NOT (of_nat i) \<Longrightarrow> Q 0 t"
  shows "wp (memory_test_patterns b start sz) Q s"
  unfolding memory_test_patterns_def wp_tests sz wp_bind [of "State_Monad.bind f g" for f g]
  by (rule wp_fill_verify, simp)+ (simp add: wp_bind wp_return Q wp_fill_verify)

text \<open>The line tests on addresses of the bank.\<close>

lemma wp_copy64_to:
  assumes "Suc i < 2 * n"
    and "\<And>t. view t = (view s)(slot start i := ucast v, slot start (Suc i) := ucast (drop_bit 32 v)) \<Longrightarrow> Q () t"
  shows "wp (copy64_to b v (slot start i)) Q s"
proof -
  have a: "slot start i + 4 = slot start (Suc i)" by (simp add: slot_def algebra_simps)
  show ?thesis unfolding copy64_to_def wp_bind a
    by (rule wp_wr, use assms in \<open>simp add: mem\<close>)+ (use assms in simp)
qed

lemma wp_copy64_from:
  assumes "Suc i < 2 * n"
    and "\<And>t. view t = view s \<Longrightarrow>
      Q (push_bit 32 (ucast (view s (slot start (Suc i)))) OR ucast (view s (slot start i))) t"
  shows "wp (copy64_from b (slot start i)) Q s"
proof -
  have a: "slot start i + 4 = slot start (Suc i)" by (simp add: slot_def algebra_simps)
  show ?thesis unfolding copy64_from_def wp_bind a wp_return
    by (rule wp_rd, use assms in \<open>simp add: mem\<close>)+ (use assms in simp)
qed

lemma wp_dataline:
  assumes "2 \<le> n" and Q: "\<And>t. Q 0 t"
  shows "wp (memory_test_dataline b start) Q s"
  unfolding memory_test_dataline_def
proof (rule wp_scan_clean [where I = "\<lambda>_. True"])
  fix i t
  have s0: "start = slot start 0" and s2: "start + 8 = slot start 2" by (simp_all add: slot_def)
  have ne: "slot start 2 \<noteq> slot start 0" "slot start 2 \<noteq> slot start (Suc 0)" "slot start 3 \<noteq> slot start 0"
    "slot start 3 \<noteq> slot start (Suc 0)" "slot start 0 \<noteq> slot start (Suc 0)"
    using assms(1) by (simp_all add: slot_eq del: slot_0)
  show "wp (do { copy64_to b (testdata ! i) start; copy64_to b othertestdata (start + 8);
          temp64 \<leftarrow> copy64_from b start; State_Monad.return (temp64 \<noteq> testdata ! i) })
      (\<lambda>bad t'. \<not> bad \<and> True) t"
    unfolding wp_bind wp_return s2
    apply (subst s0, rule wp_copy64_to)
    using assms(1) apply simp
    apply (rule wp_copy64_to)
    using assms(1) apply simp
    apply (subst s0, rule wp_copy64_from)
    using assms(1) apply simp
    using ne by (simp add: numeral_3_eq_3 numeral_2_eq_2 join_halves del: slot_0)
qed (use Q in auto)

lemma unat_slot: "i < 2 * n \<Longrightarrow> unat (slot start i) = unat start + 4 * i"
proof -
  assume i: "i < 2 * n"
  have "unat (4 * of_nat i :: u32) = 4 * i" using i small by (intro unat_four_times) simp
  moreover have "unat start + 4 * i < 2 ^ LENGTH(32)" using i fits by simp
  ultimately show ?thesis by (simp add: slot_def unat_word_ariths)
qed

lemma in_bank:
  assumes "start \<le> a" and "a < start + of_nat (8 * n)" and "a AND 3 = 0"
  shows "a \<in> slot start ` {..<2 * n}"
proof -
  have sz: "unat (of_nat (8 * n) :: u32) = 8 * n" using small by (simp add: unat_of_nat del: of_nat_mult)
  have up: "unat (start + of_nat (8 * n)) = unat start + 8 * n"
  proof (cases "unat start + 8 * n = 4294967296")
    case True
    then have "unat (start + of_nat (8 * n)) = 0" by (simp add: unat_word_ariths sz del: of_nat_mult)
    with assms(2) show ?thesis by (metis unsigned_0 word_less_nat_alt not_less_zero)
  next
    case False
    with fits show ?thesis by (simp add: unat_word_ariths sz del: of_nat_mult)
  qed
  let ?i = "(unat a - unat start) div 4"
  have le: "unat start \<le> unat a" and lt: "unat a < unat start + 8 * n"
    using assms up by (simp_all add: word_le_nat_alt word_less_nat_alt del: of_nat_mult)
  have four: "(4 :: nat) dvd unat a" "(4 :: nat) dvd unat start"
    using unat_and_mask [of a 2] unat_and_mask [of start 2] assms(3) aligned
    by (auto simp: mask_eq_exp_minus_1 dvd_eq_mod_eq_0)
  then have e: "4 * ?i = unat a - unat start" by simp
  with le lt have i: "?i < 2 * n" by linarith
  then have "unat (slot start ?i) = unat a" using unat_slot [OF i] e le by linarith
  then have "a = slot start ?i" by (simp only: word_unat_eq_iff)
  with i show ?thesis by blast
qed

lemma flip_aligned: "2 \<le> m \<Longrightarrow> (a XOR push_bit m w) AND 3 = (a AND 3 :: u32)"
proof -
  assume "2 \<le> m"
  then have "push_bit m w AND mask 2 = 0"
    by (intro bit_word_eqI) (auto simp: bit_and_iff bit_push_bit_iff bit_mask_iff)
  then have "(a XOR push_bit m w) AND mask 2 = a AND mask 2"
    by (simp add: bit.conj_xor_distrib2 del: mask_numeral)
  then show ?thesis by (simp add: mask_eq_exp_minus_1)
qed

lemma single_bit_nonzero: "m < 32 \<Longrightarrow> push_bit m (1 :: u32) \<noteq> 0"
  by (simp add: push_bit_of_1 exp_eq_zero_iff)

lemma slot_aligned: "i < 2 * n \<Longrightarrow> slot start i AND 3 = 0"
proof -
  assume i: "i < 2 * n"
  have "4 dvd unat start" using unat_and_mask [of start 2] aligned
    by (auto simp: mask_eq_exp_minus_1 dvd_eq_mod_eq_0)
  then have "unat (slot start i) mod 4 = 0" using unat_slot [OF i] by auto
  then have "unat (slot start i AND 3) = 0"
    using unat_and_mask [of "slot start i" 2] by (simp add: mask_eq_exp_minus_1)
  then show ?thesis by (simp only: unat_eq_0)
qed

lemma wp_addrline:
  assumes j: "j < 2 * n" and Q: "\<And>t. Q 0 t"
  shows "wp (memory_test_addrline b (slot start j) start (of_nat (8 * n))) Q s"
  unfolding memory_test_addrline_def
proof (rule wp_scan_clean [where I = "\<lambda>_. True"])
  fix k :: nat and t
  assume k: "k < 30"
  let ?a = "slot start j" and ?t = "slot start j XOR push_bit (k + 2) 1"
  show "wp (let xor = push_bit (k + 2) 1; target = ?a XOR xor in
      if start \<le> target \<and> target < start + of_nat (8 * n)
      then do { t \<leftarrow> readl b target; writel b (NOT t) ?a; readback \<leftarrow> readl b target;
        back \<leftarrow> readl b ?a; State_Monad.return (readback = back) }
      else State_Monad.return False) (\<lambda>bad t'. \<not> bad \<and> True) t"
  proof (cases "start \<le> ?t \<and> ?t < start + of_nat (8 * n)")
    case True
    have "?t AND 3 = 0" using flip_aligned [of "k + 2" ?a 1] slot_aligned [OF j] by simp
    with True have mt: "?t \<in> slot start ` {..<2 * n}" using in_bank by blast
    have ma: "?a \<in> slot start ` {..<2 * n}" using j by (rule mem)
    have ne: "?t \<noteq> ?a"
    proof
      assume "?t = ?a"
      then have "?a XOR ?t = 0" by simp
      then show False using single_bit_nonzero [of "k + 2"] k by (simp flip: xor.assoc)
    qed
    show ?thesis unfolding Let_def if_P [OF True] wp_bind wp_return
      by (rule wp_rd [OF mt], rule wp_wr [OF ma], rule wp_rd [OF mt], rule wp_rd [OF ma])
        (use ne in \<open>auto simp: not_eq_self not_eq_self [symmetric]\<close>)
  next
    case False
    then show ?thesis unfolding Let_def if_not_P [OF False] wp_return by simp
  qed
qed (use Q in auto)

lemma wp_lines:
  assumes "2 \<le> n" and Q: "\<And>t. Q 0 t"
  shows "wp (memory_test_lines b start (of_nat (8 * n))) Q s"
proof -
  have last: "start + of_nat (8 * n) - 8 = slot start (2 * n - 2)"
  proof -
    have "of_nat (8 * n) = 4 * of_nat (2 * n - 2) + (8 :: u32)"
      using assms(1) by (simp add: of_nat_diff algebra_simps)
    then show ?thesis by (simp only: slot_def) simp
  qed
  have first: "memory_test_addrline b start start sz = memory_test_addrline b (slot start 0) start sz" for sz
    by simp
  show ?thesis unfolding memory_test_lines_def last wp_bind wp_return first
    by (rule wp_dataline [OF assms(1)], rule wp_addrline, use assms(1) in simp, rule wp_addrline, use assms(1) in simp)
      (simp add: Q)
qed

end

text \<open>The random generator reads a timer and its own seeds; it leaves the memory alone.\<close>

context ram
begin

lemma wp_gather_seed:
  "(\<And>v t. view t = view s \<Longrightarrow> Q v t) \<Longrightarrow> wp (gather_seed b seed k) Q s"
proof (induction k arbitrary: Q)
  case 0
  then show ?case by (simp add: wp_return)
next
  case (Suc k)
  show ?case unfolding gather_seed.simps wp_bind wp_return
    by (rule Suc.IH, rule wp_rd_any, rule Suc.prems) simp
qed

lemma view_seeds [simp]:
  "view (seed_x_update f s) = view s" "view (seed_y_update f s) = view s"
  "view (rand_calls_update g s) = view s"
  by (simp_all add: view_def cong: if_cong)

lemma wp_rand:
  fixes s :: "'h tester"
  assumes "\<And>v t. view t = view s \<Longrightarrow> Q v t"
  shows "wp (rand b stale) Q s"
  unfolding rand_def wp_bind wp_gets wp_modify
  by (rule wp_gather_seed, rule wp_gather_seed) (auto simp: wp_if wp_modify wp_return assms)

lemma wp_rand_ul:
  fixes s :: "'h tester"
  assumes "\<And>v t. view t = view s \<Longrightarrow> Q v t"
  shows "wp (rand_ul b stale) Q s"
  unfolding rand_ul_def wp_bind wp_return
  by (rule wp_rand, rule wp_rand, rule assms) simp

end

context bank
begin

text \<open>The first \<open>k\<close> words of the two halves agree.\<close>

definition twins :: "nat \<Rightarrow> ('h, 'x) machine_scheme \<Rightarrow> bool" where
  "twins k t = (\<forall>i<k. view t (slot start i) = view t (slot start (n + i)))"

lemma twins_0: "twins 0 t"
  by (simp add: twins_def)

lemma twins_cong: "view t = view s \<Longrightarrow> twins k t = twins k s"
  by (simp add: twins_def)

lemma twins_Suc:
  assumes "k < n" and "twins k s"
    and "view t = (view s)(slot start (n + k) := v, slot start k := v)"
  shows "twins (Suc k) t"
  using assms by (auto simp: twins_def less_Suc_eq slot_eq)

lemma twins_Suc':
  assumes "k < n" and "twins k s"
    and "view t = (view s)(slot start k := v, slot start (n + k) := v)"
  shows "twins (Suc k) t"
  using assms by (auto simp: twins_def less_Suc_eq slot_eq)

lemma wp_compare:
  assumes "twins n s" and "\<And>t. view t = view s \<Longrightarrow> Q 0 t"
  shows "wp (compare_regions b start (slot start n) n) Q s"
  unfolding compare_regions_def slot_slot
proof (rule wp_scan_clean [where I = "\<lambda>t. view t = view s"])
  fix i t
  assume i: "i < n" and I: "view t = view s"
  then have m: "slot start i \<in> slot start ` {..<2 * n}" "slot start (n + i) \<in> slot start ` {..<2 * n}"
    by (simp_all add: mem)
  show "wp (do { x \<leftarrow> readl b (slot start i); y \<leftarrow> readl b (slot start (n + i)); State_Monad.return (x \<noteq> y) })
      (\<lambda>bad t'. \<not> bad \<and> view t' = view s) t"
    unfolding wp_bind wp_return
    by (rule wp_rd [OF m(1)], rule wp_rd [OF m(2)]) (use I i assms(1) in \<open>simp add: twins_def\<close>)
qed (use assms in auto)

lemma wp_fill_both:
  assumes "\<And>t. twins n t \<Longrightarrow> Q () t"
  shows "wp (fill_both b start (slot start n) n f) Q s"
  unfolding fill_both_def slot_slot
proof (rule wp_for_upto [where I = twins])
  fix i t
  assume i: "i < n" and I: "twins i t"
  then have m: "slot start i \<in> slot start ` {..<2 * n}" "slot start (n + i) \<in> slot start ` {..<2 * n}"
    by (simp_all add: mem)
  show "wp (do { writel b (f i) (slot start (n + i)); writel b (f i) (slot start i) }) (\<lambda>_. twins (Suc i)) t"
    unfolding wp_bind
    by (rule wp_wr [OF m(2)], rule wp_wr [OF m(1)], rule twins_Suc [OF i I]) simp
qed (simp_all add: twins_0 assms)

lemma wp_map_both:
  assumes "twins n s" and "\<And>t. twins n t \<Longrightarrow> Q () t"
  shows "wp (map_both b start (slot start n) n g) Q s"
  unfolding map_both_def slot_slot
proof (rule wp_for_upto [where I = "\<lambda>k. twins n"])
  fix i t
  assume i: "i < n" and I: "twins n t"
  then have m: "slot start i \<in> slot start ` {..<2 * n}" "slot start (n + i) \<in> slot start ` {..<2 * n}"
    by (simp_all add: mem)
  show "wp (do { x \<leftarrow> readl b (slot start i); writel b (g x) (slot start i);
        y \<leftarrow> readl b (slot start (n + i)); writel b (g y) (slot start (n + i)) }) (\<lambda>_. twins n) t"
    unfolding wp_bind
    by (rule wp_rd [OF m(1)], rule wp_wr [OF m(1)], rule wp_rd [OF m(2)], rule wp_wr [OF m(2)])
      (use I i in \<open>auto simp: twins_def slot_eq\<close>)
qed (use assms in auto)

lemma wp_stuck_address:
  assumes "\<And>t. Q 0 t"
  shows "wp (test_stuck_address b start (2 * n)) Q s"
  unfolding test_stuck_address_def Let_def
proof (rule wp_try_each [where I = "\<lambda>_. True"])
  fix j t
  let ?pat = "\<lambda>i. if (j + i) mod 2 = 0 then slot start i else NOT (slot start i)"
  show "wp (do { fill b start (2 * n) ?pat; try_each [0..<2 * n] (\<lambda>i. do {
          x \<leftarrow> readl b (slot start i); State_Monad.return (if x \<noteq> ?pat i then - 1 else 0) }) })
      (\<lambda>r t'. r = 0 \<and> True) t"
    unfolding wp_bind
  proof (rule wp_fill [OF le_refl])
    fix u
    assume u: "\<forall>i<2 * n. view u (slot start i) = ?pat i"
    show "wp (try_each [0..<2 * n] (\<lambda>i. do {
          x \<leftarrow> readl b (slot start i); State_Monad.return (if x \<noteq> ?pat i then - 1 else 0) }))
        (\<lambda>r t'. r = 0 \<and> True) u"
    proof (rule wp_try_each [where I = "\<lambda>t. view t = view u"])
      fix i t
      assume i: "i \<in> set [0..<2 * n]" and I: "view t = view u"
      then have m: "slot start i \<in> slot start ` {..<2 * n}" by (simp add: mem)
      show "wp (do { x \<leftarrow> readl b (slot start i); State_Monad.return (if x \<noteq> ?pat i then - 1 else 0) })
          (\<lambda>r t'. r = 0 \<and> view t' = view u) t"
        unfolding wp_bind wp_return by (rule wp_rd [OF m]) (use u i I in simp)
    qed simp_all
  qed
qed (use assms in auto)

lemma wp_op_comparison:
  fixes s :: "'h tester"
  assumes "twins n s" and "\<And>t. twins n t \<Longrightarrow> Q 0 t"
  shows "wp (op_comparison b stale f start (slot start n) n) Q s"
  unfolding op_comparison_def wp_bind
  by (rule wp_rand_ul, rule wp_map_both, use assms(1) twins_cong in blast, rule wp_compare)
    (use assms(2) twins_cong in blast)+

lemma wp_random_value:
  fixes s :: "'h tester"
  assumes "\<And>t. twins n t \<Longrightarrow> Q 0 t"
  shows "wp (test_random_value b stale start (slot start n) n) Q s"
  unfolding test_random_value_def wp_bind [of "for_upto m g" for m g]
proof (rule wp_for_upto [where I = twins])
  fix i and t :: "'h tester"
  assume i: "i < n" and I: "twins i t"
  then have m: "slot start i \<in> slot start ` {..<2 * n}" "slot start (n + i) \<in> slot start ` {..<2 * n}"
    by (simp_all add: mem)
  show "wp (do { r \<leftarrow> rand_ul b stale; writel b r (slot (slot start n) i); writel b r (slot start i) })
      (\<lambda>_. twins (Suc i)) t"
    unfolding wp_bind slot_slot
    by (rule wp_rand_ul, rule wp_wr [OF m(2)], rule wp_wr [OF m(1)], rule twins_Suc [OF i])
      (use I twins_cong in auto)
next
  fix t :: "'h tester"
  assume "twins n t"
  then show "wp (compare_regions b start (slot start n) n) Q t"
    by (rule wp_compare) (use \<open>twins n t\<close> assms twins_cong in blast)
qed (simp add: twins_0)

lemma wp_seqinc:
  fixes s :: "'h tester"
  assumes "\<And>t. Q 0 t"
  shows "wp (test_seqinc_comparison b stale start (slot start n) n) Q s"
  unfolding test_seqinc_comparison_def wp_bind
  by (rule wp_rand_ul, rule wp_fill_both, rule wp_compare) (use assms in auto)

lemma wp_rounds:
  assumes "\<And>t. Q 0 t"
  shows "wp (rounds_comparison b js pat start (slot start n) n) Q s"
  unfolding rounds_comparison_def
proof (rule wp_try_each [where I = "\<lambda>_. True"])
  fix j t
  show "wp (do { fill_both b start (slot start n) n (pat j); r \<leftarrow> compare_regions b start (slot start n) n;
      State_Monad.return (if r \<noteq> 0 then - 1 else 0) }) (\<lambda>r t'. r = 0 \<and> True) t"
    unfolding wp_bind wp_return by (rule wp_fill_both, rule wp_compare) auto
qed (use assms in auto)

lemmas round_tests = test_solidbits_comparison_def test_checkerboard_comparison_def
  test_blockseq_comparison_def test_walkbits0_comparison_def test_walkbits1_comparison_def
  test_bitspread_comparison_def test_bitflip_comparison_def

lemmas op_tests = test_xor_comparison_def test_sub_comparison_def test_mul_comparison_def
  test_div_comparison_def test_or_comparison_def test_and_comparison_def

text \<open>The narrow writes put the word together again.\<close>

lemma wp_bytes:
  assumes a: "a \<in> slot start ` {..<2 * n}" and Q: "\<And>t. view t = (view s)(a := r) \<Longrightarrow> Q () t"
  shows "wp (for_upto 4 (\<lambda>k. writeb b (ucast (drop_bit (8 * k) r)) (a + of_nat k))) Q s"
proof -
  have four: "(4 :: nat) = Suc (Suc (Suc (Suc 0)))" by simp
  show ?thesis unfolding four for_upto.simps wp_bind wp_return
    by (rule wp_wr8 [OF a], simp)+ (rule Q, simp add: lanes_8 [unfolded numeral_3_eq_3 numeral_2_eq_2 One_nat_def])
qed

lemma wp_half_words:
  assumes a: "a \<in> slot start ` {..<2 * n}" and Q: "\<And>t. view t = (view s)(a := r) \<Longrightarrow> Q () t"
  shows "wp (for_upto 2 (\<lambda>k. writew b (ucast (drop_bit (16 * k) r)) (a + 2 * of_nat k))) Q s"
proof -
  have two: "(2 :: nat) = Suc (Suc 0)" by simp
  show ?thesis unfolding two for_upto.simps wp_bind wp_return
    by (rule wp_wr16 [OF a], simp)+ (rule Q, simp add: lanes_16 [unfolded One_nat_def])
qed

lemma wp_narrow:
  fixes s :: "'h tester"
  assumes W: "\<And>a r s Q. a \<in> slot start ` {..<2 * n} \<Longrightarrow> (\<And>t :: 'h tester. view t = (view s)(a := r) \<Longrightarrow> Q () t) \<Longrightarrow> wp (W r a) Q s"
    and Q: "\<And>t. Q 0 t"
  shows "wp (try_each [0..<2] (\<lambda>attempt.
     let (p1, p2) = (if odd attempt then (start, slot start n) else (slot start n, start)) in do {
       for_upto n (\<lambda>i. do { r \<leftarrow> rand_ul b stale; writel b r (slot p2 i); W r (slot p1 i) });
       r \<leftarrow> compare_regions b start (slot start n) n;
       State_Monad.return (if r \<noteq> 0 then - 1 else 0) })) Q s"
proof (rule wp_try_each [where I = "\<lambda>_. True"])
  fix attempt and t :: "'h tester"
  have body: "wp (do { r \<leftarrow> rand_ul b stale; writel b r (slot p2 i); W r (slot p1 i) }) (\<lambda>_. twins (Suc i)) u"
    if "i < n" "twins i u" and p: "(p1, p2) = (if odd attempt then (start, slot start n) else (slot start n, start))"
    for i and u :: "'h tester" and p1 p2
  proof -
    have m: "slot start i \<in> slot start ` {..<2 * n}" "slot start (n + i) \<in> slot start ` {..<2 * n}"
      using that by (simp_all add: mem)
    have tw: "twins i v" if "view v = view u" for v :: "'h tester"
      using that \<open>twins i u\<close> twins_cong by blast
    show ?thesis
    proof (cases "odd attempt")
      case True
      with p show ?thesis unfolding wp_bind
        by (auto simp: slot_slot intro!: wp_rand_ul wp_wr [OF m(2)] W [OF m(1)] intro: twins_Suc [OF that(1) tw])
    next
      case False
      with p show ?thesis unfolding wp_bind
        by (auto simp: slot_slot intro!: wp_rand_ul wp_wr [OF m(1)] W [OF m(2)] intro: twins_Suc' [OF that(1) tw])
    qed
  qed
  have tail: "wp (do { r \<leftarrow> compare_regions b start (slot start n) n;
      State_Monad.return (if r \<noteq> 0 then - 1 else 0) }) (\<lambda>r _. r = (0 :: int) \<and> True) u"
    if "twins n u" for u :: "'h tester"
    unfolding wp_bind wp_return by (rule wp_compare [OF that]) simp
  show "wp (let (p1, p2) = (if odd attempt then (start, slot start n) else (slot start n, start)) in do {
       for_upto n (\<lambda>i. do { r \<leftarrow> rand_ul b stale; writel b r (slot p2 i); W r (slot p1 i) });
       r \<leftarrow> compare_regions b start (slot start n) n;
       State_Monad.return (if r \<noteq> 0 then - 1 else 0) }) (\<lambda>r t'. r = (0 :: int) \<and> True) t"
  proof (cases "(if odd attempt then (start, slot start n) else (slot start n, start))")
    case (Pair p1 p2)
    show ?thesis unfolding Pair Let_def prod.case wp_bind [of "for_upto m g" for m g]
      by (rule wp_for_upto [where I = twins]) (use twins_0 body Pair tail in auto)
  qed
qed (use Q in auto)

lemma wp_8bit:
  fixes s :: "'h tester"
  assumes "\<And>t. Q 0 t"
  shows "wp (test_8bit_wide_random b stale start (slot start n) n) Q s"
  unfolding test_8bit_wide_random_def
  by (rule wp_narrow [where W = "\<lambda>r a. for_upto 4 (\<lambda>k. writeb b (ucast (drop_bit (8 * k) r)) (a + of_nat k))"])
    (use assms in \<open>auto intro: wp_bytes\<close>)

lemma wp_16bit:
  fixes s :: "'h tester"
  assumes "\<And>t. Q 0 t"
  shows "wp (test_16bit_wide_random b stale start (slot start n) n) Q s"
  unfolding test_16bit_wide_random_def
  by (rule wp_narrow [where W = "\<lambda>r a. for_upto 2 (\<lambda>k. writew b (ucast (drop_bit (16 * k) r)) (a + 2 * of_nat k))"])
    (use assms in \<open>auto intro: wp_half_words\<close>)

lemma wp_run_tests_Nil: "Q True s \<Longrightarrow> wp (run_tests []) Q s"
  by (simp add: wp_return)

lemma wp_run_tests_Cons:
  assumes "wp t (\<lambda>r u. r = 0 \<and> wp (run_tests ts) Q u) s"
  shows "wp (run_tests (t # ts)) Q s"
proof -
  have "wp t (\<lambda>r. wp (if r \<noteq> 0 then State_Monad.return False else run_tests ts) Q) s"
    by (rule wp_mono [OF assms]) simp
  then show ?thesis by (simp add: wp_bind)
qed

lemma wp_bank_tests:
  fixes s :: "'h tester"
  assumes "2 \<le> n" and Q: "\<And>t. \<forall>i<2 * n. view t (slot start i) = NOT (of_nat i) \<Longrightarrow> Q True t"
  shows "wp (run_tests [memory_test_lines b start (of_nat (8 * n)), memory_test_patterns b start (of_nat (8 * n))]) Q s"
proof -
  have "unat (of_nat (8 * n) div 4 :: u32) = 2 * n"
    using small by (simp add: unat_div unat_of_nat del: of_nat_mult)
  then show ?thesis
    by (intro wp_run_tests_Cons wp_run_tests_Nil wp_lines wp_patterns conjI refl assms)
qed

theorem bank_passes:
  fixes s :: "'h tester"
  assumes "2 \<le> n" and "AP_PWR_SECPCLK_EN \<notin> slot start ` {..<2 * n}"
  shows "wp (memory_test_bank b stale extended start (of_nat (8 * n)))
    (\<lambda>ok t. ok \<and> (\<forall>i<2 * n. view t (slot start i) = NOT (of_nat i))) s"
proof -
  have half: "start + of_nat (8 * n) div 2 = slot start n" using small by (rule slot_half)
  have words: "unat (of_nat (8 * n) div (2 * 4) :: u32) = n"
    using small by (simp add: unat_div unat_of_nat del: of_nat_mult)
  have al: "AP_PWR_SECPCLK_EN AND 3 = 0" by (simp add: AP_PWR_SECPCLK_EN_def)
  show ?thesis
  proof (cases extended)
    case False
    then show ?thesis unfolding memory_test_bank_def wp_bind Let_def
      by (simp only: if_False wp_return append_Nil) (rule wp_bank_tests [OF assms(1)], simp)
  next
    case True
    then show ?thesis unfolding memory_test_bank_def wp_bind Let_def half words op_tests round_tests reg_or_def
      apply (simp only: if_True append_Cons append_Nil mult.commute [of n 2] wp_bind)
      apply (rule wp_rd_any, rule wp_wr_other [OF assms(2) al])
      apply (rule wp_run_tests_Cons, rule wp_stuck_address, rule conjI [OF refl])
      apply (rule wp_run_tests_Cons, rule wp_random_value, rule conjI [OF refl])
      apply ((rule wp_run_tests_Cons, rule wp_op_comparison, assumption, rule conjI [OF refl])+)
      apply (rule wp_run_tests_Cons, rule wp_seqinc, rule conjI [OF refl])
      apply ((rule wp_run_tests_Cons, rule wp_rounds, rule conjI [OF refl])+)
      apply (rule wp_run_tests_Cons, rule wp_8bit, rule conjI [OF refl])
      apply (rule wp_run_tests_Cons, rule wp_16bit, rule conjI [OF refl])
      apply (rule wp_bank_tests [OF assms(1)], simp)
      done
  qed
qed

end

section \<open>Plain memory\<close>

definition bank_cells :: "u32 \<Rightarrow> u32 \<Rightarrow> u32 set" where
  "bank_cells start sz = slot start ` {..<unat (sz div 4)}"

text \<open>DRAM that works, as an instance: a word at every address, bytes and half-words in its lanes.\<close>

definition plain_ram :: "(u32 \<Rightarrow> u32) bus" where
  "plain_ram = \<lparr>read32 = \<lambda>a h. (h a, h), write32 = \<lambda>a v h. h(a := v),
     write16 = \<lambda>a v h. h(a AND NOT 3 := lane (unat (a AND 3) div 2) v (h (a AND NOT 3))),
     write8 = \<lambda>a v h. h(a AND NOT 3 := lane (unat (a AND 3)) v (h (a AND NOT 3)))\<rparr>"

lemma aligned_parts:
  fixes a :: u32
  assumes "a AND 3 = 0" and "x AND NOT 3 = 0"
  shows "(a + x) AND NOT 3 = a" and "(a + x) AND 3 = x"
proof -
  have three: "(3 :: u32) = mask 2" by (simp add: mask_eq_exp_minus_1)
  have a: "\<not> bit a i" if "i < 2" for i
    using arg_cong [OF assms(1), of "\<lambda>w. bit w i"] that unfolding three by (simp add: bit_and_iff bit_mask_iff)
  have x: "\<not> bit x i" if "2 \<le> i" for i
    using arg_cong [OF assms(2), of "\<lambda>w. bit w i"] that unfolding three
    by (auto simp: bit_and_iff bit_not_iff bit_mask_iff dest: bit_imp_le_length)
  have "a AND x = 0"
    by (rule bit_word_eqI) (use a x in \<open>auto simp: bit_and_iff not_less [symmetric]\<close>)
  then have e: "a + x = a OR x" by (rule disjunctive_add_eq_or)
  show "(a + x) AND NOT 3 = a" unfolding e three
    by (rule bit_word_eqI) (use a x in \<open>auto simp: bit_and_iff bit_or_iff bit_not_iff bit_mask_iff\<close>)
  show "(a + x) AND 3 = x" unfolding e three
    by (rule bit_word_eqI) (use a x in \<open>auto simp: bit_and_iff bit_or_iff bit_mask_iff not_less [symmetric]\<close>)
qed

lemma small_offset: "k < 4 \<Longrightarrow> (of_nat k :: u32) AND NOT 3 = 0"
  by (auto simp: less_Suc_eq numeral_eq_Suc)

interpretation plain: ram plain_ram "\<lambda>h. h" "{a. a AND 3 = 0}"
proof
  fix a c :: u32 and k :: nat and v8 :: u8 and h
  assume "a \<in> {a. a AND 3 = 0}" and "k < 4"
  then show "write8 plain_ram (a + of_nat k) v8 h c = (if c = a then lane k v8 (h a) else h c)"
    using aligned_parts [OF _ small_offset [of k], of a] by (simp add: plain_ram_def unat_of_nat)
next
  fix a c :: u32 and k :: nat and v16 :: u16 and h
  assume "a \<in> {a. a AND 3 = 0}" and k: "k < 2"
  then show "write16 plain_ram (a + 2 * of_nat k) v16 h c = (if c = a then lane k v16 (h a) else h c)"
    using aligned_parts [OF _ small_offset [of "2 * k"], of a]
    by (simp add: plain_ram_def unat_of_nat unat_word_ariths)
qed (simp_all add: plain_ram_def)

text \<open>Memory that is faithful on a region is faithful on a smaller one.\<close>

lemma ram_subset:
  assumes "ram b cell cells" and "part \<subseteq> cells"
  shows "ram b cell part"
proof -
  note rf = ram.axioms(1) [OF assms(1)]
  note laws = register_file.read_cell [OF rf] register_file.read_keeps [OF rf]
    register_file.write_cell [OF rf] register_file.write_other [OF rf]
    ram.write8_lane [OF assms(1)] ram.write16_lane [OF assms(1)]
  note sub = subsetD [OF assms(2)]
  show ?thesis
  proof
    show "cell (write32 b a v h) c = cell h c" if "a \<notin> part" "a AND 3 = 0" "c \<in> part" for a c v h
      using laws(3,4) [of a c] that sub by metis
  qed (simp_all add: laws sub)
qed

lemma four_aligned: "k < 1073741824 \<Longrightarrow> (4 * of_nat k :: u32) AND 3 = 0"
proof -
  assume "k < 1073741824"
  then have "unat (4 * of_nat k :: u32) mod 4 = 0" by (simp add: unat_four_times)
  then have "unat ((4 * of_nat k :: u32) AND 3) = 0"
    using unat_and_mask [of "4 * of_nat k :: u32" 2] by (simp add: mask_eq_exp_minus_1)
  then show ?thesis by (simp only: unat_eq_0)
qed

text \<open>The first gigabyte of the address space, the DRAM of the boards with \<open>PHYS_SDRAM_1_SIZE\<close> 0x40000000.\<close>

interpretation plain_bank: bank plain_ram "\<lambda>h. h" 0 "0x8000000"
proof (rule bank.intro)
  show "ram plain_ram (\<lambda>h. h) (slot 0 ` {..<2 * 0x8000000})"
    by (rule ram_subset [OF plain.ram_axioms]) (auto simp: slot_def four_aligned)
qed (unfold_locales, simp_all)

section \<open>Faults\<close>

lemma wp_run_tests_fail:
  assumes "t \<in> set ts" and "\<And>s. wp t (\<lambda>r _. r \<noteq> 0) s"
  shows "wp (run_tests ts) (\<lambda>ok _. \<not> ok) s"
  using assms(1)
proof (induction ts arbitrary: s)
  case (Cons u us s)
  have "wp u (\<lambda>r. wp (if r \<noteq> 0 then State_Monad.return False else run_tests us) (\<lambda>ok _. \<not> ok)) s"
  proof (cases "u = t")
    case True
    then show ?thesis using wp_mono [OF assms(2)] by (simp add: wp_return)
  next
    case False
    with Cons show ?thesis by (auto intro!: wp_runI simp: wp_if wp_return)
  qed
  then show ?case by (simp add: wp_bind)
qed simp

lemma bank_fails:
  assumes "\<And>s :: 'h tester. wp (memory_test_lines b start sz) (\<lambda>r _. r \<noteq> 0) s"
  shows "wp (memory_test_bank b stale extended start sz) (\<lambda>ok _. \<not> ok) (s :: 'h tester)"
  unfolding memory_test_bank_def wp_bind Let_def
  by (rule wp_runI, rule wp_run_tests_fail [OF _ assms]) simp

lemma wp_lines_fault:
  assumes "(\<forall>s :: ('h, 'x) machine_scheme. wp (memory_test_dataline b start) (\<lambda>r _. r = - 1) s) \<or>
    (\<forall>s :: ('h, 'x) machine_scheme. wp (memory_test_addrline b start start sz) (\<lambda>r _. r = - 1) s)"
  shows "wp (memory_test_lines b start sz) (\<lambda>r _. r \<noteq> 0) (s :: ('h, 'x) machine_scheme)"
proof -
  have np: "wp (scan k f) (\<lambda>r _. r \<le> 0) t" for k f and t :: "('h, 'x) machine_scheme"
    by (rule wp_mono [OF scan_nonpos]) auto
  have le: "wp (memory_test_dataline b start) (\<lambda>r _. r \<le> 0) t" "wp (memory_test_addrline b a start sz) (\<lambda>r _. r \<le> 0) t"
    for a and t :: "('h, 'x) machine_scheme"
    unfolding memory_test_dataline_def memory_test_addrline_def by (rule np)+
  show ?thesis
  proof (cases "\<forall>s :: ('h, 'x) machine_scheme. wp (memory_test_dataline b start) (\<lambda>r _. r = - 1) s")
    case True
    then show ?thesis unfolding memory_test_lines_def wp_bind wp_return
      by (intro wp_mono [OF spec [OF True]] wp_mono [OF le(2)]) simp
  next
    case False
    with assms have A: "\<forall>s :: ('h, 'x) machine_scheme. wp (memory_test_addrline b start start sz) (\<lambda>r _. r = - 1) s"
      by simp
    show ?thesis unfolding memory_test_lines_def wp_bind wp_return
      by (rule wp_mono [OF le(1)], rule wp_mono [OF spec [OF A]], rule wp_mono [OF le(2)]) simp
  qed
qed

text \<open>Every bit of the 64-bit data bus is driven both ways by the first and the last pattern.\<close>

lemma testdata_drives: "j < 64 \<Longrightarrow> bit (testdata ! 0) j = odd j \<and> bit (testdata ! 11) j = even j"
proof -
  have "\<forall>j\<in>set [0..<64]. bit (testdata ! 0) j = odd j \<and> bit (testdata ! 11) j = even j"
    unfolding testdata_def by code_simp
  then show "j < 64 \<Longrightarrow> ?thesis" by simp
qed

lemma join_bit:
  "k < 32 \<Longrightarrow> h < 2 \<Longrightarrow>
    bit (push_bit 32 (ucast (hi :: u32)) OR ucast (lo :: u32) :: u64) (32 * h + k) = (if h = 0 then bit lo k else bit hi k)"
  by (auto simp: bit_or_iff bit_push_bit_iff bit_ucast_iff less_2_cases_iff dest: bit_imp_le_length)

lemma wp_copy64_stuck:
  assumes "k < 32" and "h < 2" and stuck: "\<And>m. bit (fst (read32 b (start + 4 * of_nat h) m)) k = v"
  shows "wp (copy64_from b start) (\<lambda>w _. bit w (32 * h + k) = v) u"
proof -
  obtain lo m1 where r1: "read32 b start (hw u) = (lo, m1)" by fastforce
  obtain hi m2 where r2: "read32 b (start + 4) m1 = (hi, m2)" by fastforce
  have "(if h = 0 then bit lo k else bit hi k) = v"
    using stuck [of "hw u"] stuck [of m1] r1 r2 assms(2) by (auto simp: less_2_cases_iff)
  then show ?thesis by (simp add: copy64_from_def wps r1 r2 join_bit assms(1,2))
qed

lemma wp_dataline_stuck:
  assumes k: "k < 32" and h: "h < 2" and stuck: "\<And>m. bit (fst (read32 b (start + 4 * of_nat h) m)) k = v"
  shows "wp (memory_test_dataline b start) (\<lambda>r _. r = - 1) s"
proof -
  let ?j = "32 * h + k"
  have j: "?j < 64" using k h by linarith
  obtain i where i: "i < 12" "bit (testdata ! i) ?j \<noteq> v"
  proof (cases "odd ?j = v")
    case True
    then show ?thesis using testdata_drives [OF j] by (intro that [of 11]) auto
  next
    case False
    then show ?thesis using testdata_drives [OF j] by (intro that [of 0]) auto
  qed
  show ?thesis unfolding memory_test_dataline_def
  proof (rule wp_scan_fault [where k = i])
    show "i < length testdata" using i by (simp add: testdata_def)
    have ne: "w \<noteq> testdata ! i" if "bit w ?j = v" for w using that i(2) by auto
    show "wp (do { copy64_to b (testdata ! i) start; copy64_to b othertestdata (start + 8);
        temp64 \<leftarrow> copy64_from b start; State_Monad.return (temp64 \<noteq> testdata ! i) }) (\<lambda>bad _. bad) t" for t
      unfolding wp_bind wp_return
      by (rule wp_runI, rule wp_runI, rule wp_mono [OF wp_copy64_stuck [OF assms]], rule ne)
  qed
qed

lemma wp_addrline_dead:
  assumes k: "2 \<le> k" "k < 32" and inside: "start \<le> start XOR push_bit k 1" "start XOR push_bit k 1 < start + sz"
    and dead: "\<And>m. fst (read32 b start (snd (read32 b (start XOR push_bit k 1) m))) = fst (read32 b (start XOR push_bit k 1) m)"
  shows "wp (memory_test_addrline b start start sz) (\<lambda>r _. r = - 1) s"
  unfolding memory_test_addrline_def
proof (rule wp_scan_fault [where k = "k - 2"])
  show "k - 2 < 30" using k by simp
  fix t
  have e: "k - 2 + 2 = k" using k by simp
  have c: "start \<le> start XOR push_bit k 1 \<and> start XOR push_bit k 1 < start + sz" using inside by simp
  show "wp (let xor = push_bit (k - 2 + 2) 1; target = start XOR xor in
      if start \<le> target \<and> target < start + sz
      then do { t \<leftarrow> readl b target; writel b (NOT t) start; readback \<leftarrow> readl b target;
        back \<leftarrow> readl b start; State_Monad.return (readback = back) }
      else State_Monad.return False) (\<lambda>bad _. bad) t"
    unfolding e Let_def if_P [OF c] using dead by (auto simp: wps split: prod.splits) (metis fst_conv snd_conv)
qed

section \<open>Properties\<close>

lemma bank_of_region:
  assumes "ram b cell (bank_cells start sz)" and "start AND 3 = 0" and "sz AND 7 = 0"
    and "unat start + unat sz \<le> 4294967296"
  shows "bank b cell start (unat sz div 8)" and "sz = of_nat (8 * (unat sz div 8))"
    and "bank_cells start sz = slot start ` {..<2 * (unat sz div 8)}"
proof -
  have "unat sz mod 8 = 0" using unat_and_mask [of sz 3] assms(3) by (simp add: mask_eq_exp_minus_1)
  then have e: "8 * (unat sz div 8) = unat sz" by auto
  then show s: "sz = of_nat (8 * (unat sz div 8))" by simp
  have "unat (sz div 4) = 2 * (unat sz div 8)" using e by (simp add: unat_div)
  then show c: "bank_cells start sz = slot start ` {..<2 * (unat sz div 8)}" by (simp add: bank_cells_def)
  show "bank b cell start (unat sz div 8)"
  proof (rule bank.intro)
    show "ram b cell (slot start ` {..<2 * (unat sz div 8)})" using assms(1) c by simp
    show "bank_axioms start (unat sz div 8)"
      using assms unat_u32_less [of sz] e by unfold_locales (auto simp: less_mult_imp_div_less)
  qed
qed

text \<open>
  C18. On working DRAM \<open>memory_test_bank\<close> returns: no test of either selection reports a fault, for any random
  words and whatever memory held before, and the bank is left with the complement of its word index in
  every word.
\<close>

theorem memory_test_bank_passes:
  fixes s :: "'h tester"
  assumes "ram b cell (bank_cells start sz)" and "start AND 3 = 0" and "sz AND 7 = 0" and "16 \<le> unat sz"
    and "unat start + unat sz \<le> 4294967296" and "AP_PWR_SECPCLK_EN \<notin> bank_cells start sz"
  shows "fst (run_state (memory_test_bank b stale extended start sz) s) \<and>
    (\<forall>i<unat sz div 4. cell (hw (snd (run_state (memory_test_bank b stale extended start sz) s))) (slot start i) = NOT (of_nat i))"
proof -
  let ?n = "unat sz div 8"
  note region = bank_of_region [OF assms(1,2,3,5)]
  have ram: "ram b cell (slot start ` {..<2 * ?n})" using assms(1) region(3) by simp
  have W: "wp (memory_test_bank b stale extended start (of_nat (8 * ?n)))
      (\<lambda>ok t. ok \<and> (\<forall>i<2 * ?n. register_file.view cell (slot start ` {..<2 * ?n}) t (slot start i) = NOT (of_nat i))) s"
    by (rule bank.bank_passes [OF region(1)]) (use assms region(3) in auto)
  have "unat sz div 4 = 2 * ?n"
    using region(2) assms(3) unat_and_mask [of sz 3] by (auto simp: mask_eq_exp_minus_1)
  with wp_run [OF W [folded region(2)] prod.collapse [symmetric]] show ?thesis
    by (simp add: register_file.view_def [OF ram.axioms(1) [OF ram]])
qed

lemma memory_test_bank_passes_witness:
  "fst (run_state (memory_test_bank plain_ram (\<lambda>_. (0, 0)) True 0 0x40000000)
    \<lparr>hw = \<lambda>_. 0, seed_x = 521288629, seed_y = 362436069, rand_calls = 0\<rparr>)"
proof -
  have c: "bank_cells 0 0x40000000 = slot 0 ` {..<2 * 0x8000000}" by (simp add: bank_cells_def)
  have r: "ram plain_ram (\<lambda>h. h) (bank_cells 0 0x40000000)" unfolding c by (rule plain_bank.ram_axioms)
  have "AP_PWR_SECPCLK_EN \<notin> bank_cells 0 0x40000000"
  proof
    assume "AP_PWR_SECPCLK_EN \<in> bank_cells 0 0x40000000"
    then obtain i where i: "i < 2 * 0x8000000" "slot 0 i = 0xA0899088" by (auto simp: c AP_PWR_SECPCLK_EN_def)
    then have "unat (slot 0 i) < 0x40000000" using unat_four_times [of i] by (simp add: slot_def)
    with i(2) show False by simp
  qed
  with memory_test_bank_passes [OF r, of "\<lambda>_. (0, 0)" True] show ?thesis by simp
qed

text \<open>
  C16. A data line stuck at either level is caught: if some bit of the first or the second word of a bank reads the
  same whatever was written, \<open>memory_test_bank\<close> does not return, whatever else memory does.
\<close>

theorem memory_test_bank_stuck_bit:
  fixes s :: "'h tester"
  assumes "k < 32" and "h < 2" and "\<And>m. bit (fst (read32 b (start + 4 * of_nat h) m)) k = v"
  shows "\<not> fst (run_state (memory_test_bank b stale extended start sz) s)"
proof -
  have "wp (memory_test_dataline b start) (\<lambda>r _. r = - 1) u" for u :: "'h tester"
    by (rule wp_dataline_stuck) (fact assms)+
  then have "wp (memory_test_lines b start sz) (\<lambda>r _. r \<noteq> 0) u" for u :: "'h tester"
    by (intro wp_lines_fault) simp
  from wp_run [OF bank_fails [OF this] prod.collapse [symmetric]] show ?thesis .
qed

text \<open>The plain memory with bit 7 of every word read as one.\<close>

definition stuck_ram :: "(u32 \<Rightarrow> u32) bus" where
  "stuck_ram = plain_ram\<lparr>read32 := \<lambda>a h. (h a OR 0x80, h)\<rparr>"

lemma memory_test_bank_stuck_bit_witness:
  "\<not> fst (run_state (memory_test_bank stuck_ram (\<lambda>_. (0, 0)) False 0 64)
    \<lparr>hw = \<lambda>_. 0, seed_x = 521288629, seed_y = 362436069, rand_calls = 0\<rparr>)"
proof -
  have "bit (0x80 :: u32) 7" by code_simp
  then have "bit (fst (read32 stuck_ram (0 + 4 * of_nat 0) m)) 7 = True" for m
    by (simp add: stuck_ram_def bit_or_iff)
  from memory_test_bank_stuck_bit [OF _ _ this] show ?thesis by simp
qed

text \<open>
  C17. A dead address line is caught: if an address of the bank that differs from its start in one address bit always
  reads the same as the start does, \<open>memory_test_bank\<close> does not return.
\<close>

theorem memory_test_bank_dead_line:
  fixes s :: "'h tester"
  assumes "2 \<le> k" and "k < 32" and "start \<le> start XOR push_bit k 1" and "start XOR push_bit k 1 < start + sz"
    and "\<And>m. fst (read32 b start (snd (read32 b (start XOR push_bit k 1) m))) = fst (read32 b (start XOR push_bit k 1) m)"
  shows "\<not> fst (run_state (memory_test_bank b stale extended start sz) s)"
proof -
  have "wp (memory_test_addrline b start start sz) (\<lambda>r _. r = - 1) u" for u :: "'h tester"
    by (rule wp_addrline_dead) (fact assms)+
  then have "wp (memory_test_lines b start sz) (\<lambda>r _. r \<noteq> 0) u" for u :: "'h tester"
    by (intro wp_lines_fault) simp
  from wp_run [OF bank_fails [OF this] prod.collapse [symmetric]] show ?thesis .
qed

text \<open>A memory whose address line 4 is not connected.\<close>

definition folded_ram :: "(u32 \<Rightarrow> u32) bus" where
  "folded_ram = plain_ram\<lparr>read32 := \<lambda>a h. (h (a AND NOT 16), h), write32 := \<lambda>a v h. h(a AND NOT 16 := v)\<rparr>"

lemma memory_test_bank_dead_line_witness:
  "\<not> fst (run_state (memory_test_bank folded_ram (\<lambda>_. (0, 0)) False 0 64)
    \<lparr>hw = \<lambda>_. 0, seed_x = 521288629, seed_y = 362436069, rand_calls = 0\<rparr>)"
proof -
  have "fst (read32 folded_ram 0 (snd (read32 folded_ram (0 XOR push_bit 4 1) m))) = fst (read32 folded_ram (0 XOR push_bit 4 1) m)" for m
    by (simp add: folded_ram_def)
  from memory_test_bank_dead_line [OF _ _ _ _ this] show ?thesis by simp
qed

section \<open>All of memory\<close>

definition passes :: "'h bus \<Rightarrow> (nat \<Rightarrow> u32 \<times> u32) \<Rightarrow> bool \<Rightarrow> (u64 \<times> u64) \<Rightarrow> bool" where
  "passes b stale extended dram = (\<forall>s. fst (run_state (test_bank_if b stale extended dram) s))"

lemma memory_test_reboots:
  assumes "passes b stale extended dram" and "passes b stale extended dram2"
  shows "fst (run_state (memory_test b stale extended dram dram2) s)"
proof -
  have pass: "wp (test_bank_if b stale extended d) (\<lambda>ok _. ok) t"
    if "passes b stale extended d" for d t
    using that by (auto intro!: wp_runI simp: passes_def) (metis fst_conv)
  have "wp (memory_rounds b stale extended dram dram2 is) (\<lambda>ok _. ok) s" for "is" s
  proof (induction "is" arbitrary: s)
    case (Cons i "is")
    show ?case unfolding memory_rounds.simps wp_bind wp_if wp_return
      by (rule wp_runI, rule wp_mono [OF pass [OF assms(1)]], simp,
          rule wp_mono [OF pass [OF assms(2)]], simp add: Cons.IH)
  qed (simp add: wp_return)
  from wp_run [OF this prod.collapse [symmetric]] show ?thesis unfolding memory_test_def .
qed

end
