(* ===== verification/EyeSearch.thy ===== *)
theory EyeSearch
  imports Prelude
begin

text \<open>
  The search for a window of working delays that board/leadcore/lc186x runs over the results of
  built-in self tests: \<open>training_record_filter\<close> and \<open>gate_software_training\<close> of dqs\_training.c, and the
  reference voltage selection of ddr\_zq\_select.c.  The loops are the same but for the number \<open>n\<close> of
  settings, the least width \<open>m\<close> and what is kept of the window chosen.  A result is 0 where the memory
  worked and 1 where it failed.  The lemmas say which window the loops choose.
\<close>

section \<open>The loops\<close>

text \<open>
  The variables of the search: the bounds of the window found last, the greatest width so far and
  whether there is one, and the bounds at the last assignment of the result.
\<close>

record search =
  data1 :: nat
  data2 :: nat
  max_len :: nat
  found :: bool
  best :: "(nat \<times> nat) option"

text \<open>How the inner loop ends: at the last setting, at a failing one, or by its own bound.\<close>

datatype window_end = Last nat | Failing nat | Bound nat

function (sequential) inner_loop :: "nat \<Rightarrow> u32 list \<Rightarrow> nat \<Rightarrow> nat \<Rightarrow> nat \<Rightarrow> window_end" where
  "inner_loop n fl d1 i j =
     (if i < n - d1 then
        let j = j + 1 in
        if n \<le> j then Last j
        else if fl ! j = 1 then Failing j
        else inner_loop n fl d1 (i + 1) j
      else Bound j)"
  by pat_completeness auto
termination by (relation "measure (\<lambda>(n, fl, d1, i, j). n - d1 - i)") auto

declare inner_loop.simps [simp del]

fun end_index :: "window_end \<Rightarrow> nat" where
  "end_index (Last j) = j"
| "end_index (Failing j) = j"
| "end_index (Bound j) = j"

fun close_window :: "window_end \<Rightarrow> search \<Rightarrow> search" where
  "close_window (Last j) v = v\<lparr>data2 := j - 1, best := Some (data1 v, j - 1)\<rparr>"
| "close_window (Failing j) v =
     (let v = v\<lparr>data2 := j - 1\<rparr>; l = data2 v - data1 v + 1 in
      if \<not> found v then v\<lparr>max_len := l, best := Some (data1 v, data2 v), found := True\<rparr>
      else if max_len v < l then v\<lparr>max_len := l, best := Some (data1 v, data2 v)\<rparr>
      else v)"
| "close_window (Bound j) v = v"

lemma inner_loop_index: "j \<le> end_index (inner_loop n fl d1 i j)"
  by (induction n fl d1 i j rule: inner_loop.induct) (subst inner_loop.simps, auto simp: Let_def)

definition works_at :: "nat \<Rightarrow> u32 list \<Rightarrow> nat \<Rightarrow> bool" where
  "works_at m fl j = (\<forall>i\<in>set [0..<m]. fl ! (j + i) = 0)"

function (sequential) outer_loop :: "nat \<Rightarrow> nat \<Rightarrow> u32 list \<Rightarrow> nat \<Rightarrow> search \<Rightarrow> search" where
  "outer_loop n m fl j v =
     (if j < n - (m - 1) then
        if works_at m fl j then
          let e = inner_loop n fl j 0 j in
          outer_loop n m fl (end_index e + 1) (close_window e (v\<lparr>data1 := j\<rparr>))
        else outer_loop n m fl (j + 1) v
      else v)"
  by pat_completeness auto
termination
  by (relation "measure (\<lambda>(n, m, fl, j, v). n - j)")
    (auto intro!: diff_less_mono2 le_imp_less_Suc inner_loop_index)

declare outer_loop.simps [simp del]

definition search_windows :: "nat \<Rightarrow> nat \<Rightarrow> u32 list \<Rightarrow> search" where
  "search_windows n m fl =
     outer_loop n m fl 0 \<lparr>data1 = 0, data2 = 0, max_len = 0, found = False, best = None\<rparr>"

section \<open>Eyes\<close>

text \<open>An eye: a maximal run of at least \<open>m\<close> working settings.\<close>

definition eye :: "nat \<Rightarrow> nat \<Rightarrow> u32 list \<Rightarrow> nat \<Rightarrow> nat \<Rightarrow> bool" where
  "eye n m fl s e = (s + m \<le> e + 1 \<and> s \<le> e \<and> e < n \<and> (\<forall>i\<in>{s..e}. fl ! i = 0) \<and>
     (s = 0 \<or> fl ! (s - 1) \<noteq> 0) \<and> (e + 1 = n \<or> fl ! (e + 1) \<noteq> 0))"

text \<open>The eye the loops choose: the one that reaches the last setting, otherwise the first of the widest.\<close>

definition chosen :: "nat \<Rightarrow> nat \<Rightarrow> u32 list \<Rightarrow> nat \<Rightarrow> nat \<Rightarrow> bool" where
  "chosen n m fl s e = (eye n m fl s e \<and> (e + 1 = n \<or>
     (\<forall>s' e'. eye n m fl s' e' \<longrightarrow> e' + 1 < n \<and> e' - s' \<le> e - s \<and> (s' < s \<longrightarrow> e' - s' < e - s))))"

locale results =
  fixes n m :: nat and fl :: "u32 list"
  assumes margin: "2 \<le> m" "m \<le> n"
    and length_fl: "length fl = n"
    and flags: "\<And>i. i < n \<Longrightarrow> fl ! i = 0 \<or> fl ! i = 1"
begin

lemma inner_loop_spec:
  assumes "d1 \<le> j" and "j < n" and "i = j - d1"
  shows "(\<exists>k. j < k \<and> k < n \<and> fl ! k = 1 \<and> (\<forall>l\<in>{j<..<k}. fl ! l = 0) \<and> inner_loop n fl d1 i j = Failing k) \<or>
    (\<forall>l\<in>{j<..<n}. fl ! l = 0) \<and> inner_loop n fl d1 i j = Last n"
  using assms
proof (induction "n - j" arbitrary: i j)
  case (Suc x)
  have lt: "i < n - d1" using Suc.prems by linarith
  have step: "inner_loop n fl d1 i j = (if n \<le> j + 1 then Last (j + 1)
      else if fl ! (j + 1) = 1 then Failing (j + 1) else inner_loop n fl d1 (i + 1) (j + 1))"
    unfolding inner_loop.simps [of n fl d1 i j] Let_def if_P [OF lt] ..
  consider "j + 1 = n" | "j + 1 < n" "fl ! (j + 1) = 1" | "j + 1 < n" "fl ! (j + 1) = 0"
    using Suc.prems flags [of "j + 1"] by linarith
  then show ?case
  proof cases
    case 1
    then show ?thesis using step by auto
  next
    case 2
    then show ?thesis using step by (intro disjI1 exI [of _ "j + 1"]) auto
  next
    case 3
    have IH: "(\<exists>k. j + 1 < k \<and> k < n \<and> fl ! k = 1 \<and> (\<forall>l\<in>{j + 1<..<k}. fl ! l = 0) \<and> inner_loop n fl d1 (i + 1) (j + 1) = Failing k) \<or>
      (\<forall>l\<in>{j + 1<..<n}. fl ! l = 0) \<and> inner_loop n fl d1 (i + 1) (j + 1) = Last n"
      using Suc.hyps(2) Suc.prems 3 by (intro Suc.hyps(1)) auto
    have ext: "(\<forall>l\<in>{j<..<k}. fl ! l = 0)" if "\<forall>l\<in>{j + 1<..<k}. fl ! l = 0" for k
      using that 3(2) by (metis greaterThanLessThan_iff less_iff_Suc_add Suc_eq_plus1 linorder_neqE_nat not_less_eq)
    show ?thesis using IH step 3 ext by (auto intro: Suc_lessD)
  qed
qed simp

text \<open>
  The invariant of the outer loop at \<open>j\<close>: no eye reaches over \<open>j\<close>, and the variables describe the eyes
  before \<open>j\<close>, of which none reaches the last setting unless the loop is over.
\<close>

definition before :: "nat \<Rightarrow> nat \<Rightarrow> nat \<Rightarrow> bool" where
  "before j s e = (eye n m fl s e \<and> e < j)"

definition widest :: "nat \<Rightarrow> nat \<Rightarrow> nat \<Rightarrow> bool" where
  "widest j s e = (before j s e \<and>
     (\<forall>s' e'. before j s' e' \<longrightarrow> e' - s' \<le> e - s \<and> (s' < s \<longrightarrow> e' - s' < e - s)))"

definition search_inv :: "nat \<Rightarrow> search \<Rightarrow> bool" where
  "search_inv j v = ((\<forall>s e. eye n m fl s e \<longrightarrow> e < j \<or> j \<le> s) \<and>
     (\<forall>s e. before j s e \<longrightarrow> e + 1 < n) \<and>
     (if found v then \<exists>s e. best v = Some (s, e) \<and> widest j s e \<and> max_len v = e - s + 1
      else best v = None \<and> (\<forall>s e. \<not> before j s e)) \<and>
     (best v = None \<longrightarrow> data1 v = 0 \<and> data2 v = 0) \<and> (best v \<noteq> None \<longrightarrow> data1 v < data2 v))"

lemma eye_positive: "eye n m fl s e \<Longrightarrow> s < e"
  using margin(1) by (auto simp: eye_def)

lemma eye_unique: "eye n m fl s e \<Longrightarrow> eye n m fl s' e' \<Longrightarrow> s \<le> s' \<Longrightarrow> s' \<le> e \<Longrightarrow> s' = s \<and> e' = e"
proof -
  assume a: "eye n m fl s e" "eye n m fl s' e'" "s \<le> s'" "s' \<le> e"
  have "s' = s"
  proof (rule ccontr)
    assume "s' \<noteq> s"
    with a have "s' - 1 \<in> {s..e}" "s' \<noteq> 0" by auto
    with a show False by (auto simp: eye_def)
  qed
  moreover have "e' = e"
  proof (rule ccontr)
    assume "e' \<noteq> e"
    then have "e + 1 \<in> {s'..e'} \<and> e + 1 < n \<or> e' + 1 \<in> {s..e} \<and> e' + 1 < n"
      using a by (cases "e < e'") (auto simp: eye_def)
    with a show False by (auto simp: eye_def)
  qed
  ultimately show ?thesis ..
qed

lemma works_at_iff: "works_at m fl j \<longleftrightarrow> (\<forall>i\<in>{j..<j + m}. fl ! i = 0)"
  unfolding works_at_def by (auto simp: Ball_def) (metis add_diff_inverse_nat nat_add_left_cancel_less not_less)

lemma no_window_no_eye: "\<not> works_at m fl j \<Longrightarrow> \<not> eye n m fl j e"
  by (auto simp: works_at_iff eye_def)

lemma run_start:
  "fl ! j = 0 \<Longrightarrow> \<exists>s\<le>j. (\<forall>i. s \<le> i \<and> i \<le> j \<longrightarrow> fl ! i = 0) \<and> (s = 0 \<or> fl ! (s - 1) \<noteq> 0)"
proof (induction j)
  case (Suc j)
  show ?case
  proof (cases "fl ! j = 0")
    case True
    then obtain s where "s \<le> j" "\<forall>i. s \<le> i \<and> i \<le> j \<longrightarrow> fl ! i = 0" "s = 0 \<or> fl ! (s - 1) \<noteq> 0"
      using Suc.IH by blast
    with Suc.prems show ?thesis by (intro exI [of _ s]) (auto simp: le_Suc_eq)
  next
    case False
    with Suc.prems show ?thesis by (intro exI [of _ "Suc j"]) (auto dest: le_antisym)
  qed
qed auto

lemma inv_straddle: "search_inv j v \<Longrightarrow> eye n m fl s e \<Longrightarrow> e < j \<or> j \<le> s"
  unfolding search_inv_def by blast

lemma inv_skip:
  assumes "search_inv j v" and "\<not> works_at m fl j"
  shows "search_inv (j + 1) v"
proof -
  have ne: "e \<noteq> j" if "eye n m fl s e" for s e
    using inv_straddle [OF assms(1) that] no_window_no_eye [OF assms(2)] eye_positive [OF that] by auto
  then have b: "before (j + 1) s e \<longleftrightarrow> before j s e" for s e by (auto simp: before_def less_Suc_eq)
  have "e < j + 1 \<or> j + 1 \<le> s" if "eye n m fl s e" for s e
    using inv_straddle [OF assms(1) that] no_window_no_eye [OF assms(2)] that by (cases "s = j") auto
  then show ?thesis using assms(1) unfolding search_inv_def widest_def b by blast
qed

text \<open>A window found at \<open>j\<close> starts an eye there.\<close>

lemma eye_at:
  assumes inv: "search_inv j v" and w: "works_at m fl j" and "j + m \<le> n"
    and k: "j < k" "k \<le> n" "\<forall>l\<in>{j<..<k}. fl ! l = 0" "k = n \<or> fl ! k = 1"
  shows "eye n m fl j (k - 1)"
proof -
  have w: "fl ! i = 0" if "j \<le> i" "i < j + m" for i using w that by (simp add: works_at_iff)
  have km: "j + m \<le> k"
  proof (rule ccontr)
    assume "\<not> j + m \<le> k"
    with w [of k] assms(3) k show False by auto
  qed
  have z: "fl ! i = 0" if "j \<le> i" "i < k" for i using w [of i] k(3) that margin(1) by (cases "i = j") auto
  have left: "j = 0 \<or> fl ! (j - 1) \<noteq> 0"
  proof (rule ccontr)
    assume no: "\<not> ?thesis"
    then obtain s where s: "s \<le> j - 1" "\<forall>i. s \<le> i \<and> i \<le> j - 1 \<longrightarrow> fl ! i = 0" "s = 0 \<or> fl ! (s - 1) \<noteq> 0"
      using run_start [of "j - 1"] by auto
    have all: "fl ! i = 0" if "s \<le> i" "i < k" for i
      using z [of i] s(2) that no by (cases "j \<le> i") auto
    then have "eye n m fl s (k - 1)" using km s k margin(1) no by (auto simp: eye_def)
    from inv_straddle [OF inv this] show False using s(1) no k(1) by auto
  qed
  show ?thesis using km z left k margin(1) by (auto simp: eye_def)
qed

lemma eye_zero: "eye n m fl s e \<Longrightarrow> s \<le> i \<Longrightarrow> i \<le> e \<Longrightarrow> fl ! i = 0"
  by (simp add: eye_def)

lemma before_after_window:
  assumes inv: "search_inv j v" and k: "j < k" "fl ! k = 1" and here: "eye n m fl j (k - 1)"
  shows "before (k + 1) s e \<longleftrightarrow> before j s e \<or> s = j \<and> e = k - 1"
    and "eye n m fl s e \<Longrightarrow> e < k + 1 \<or> k + 1 \<le> s"
proof -
  have out: "k < s \<or> e < k" if "eye n m fl s e" for s e
    using eye_zero [OF that, of k] k(2) by fastforce
  show "before (k + 1) s e \<longleftrightarrow> before j s e \<or> s = j \<and> e = k - 1"
  proof
    assume "before (k + 1) s e"
    then have E: "eye n m fl s e" and "e < k + 1" by (simp_all add: before_def)
    then have "e < k" using out [OF E] eye_positive [OF E] by auto
    show "before j s e \<or> s = j \<and> e = k - 1"
    proof (cases "e < j")
      case True
      with E show ?thesis by (simp add: before_def)
    next
      case False
      then have "j \<le> s" using inv_straddle [OF inv E] by simp
      moreover have "s \<le> k - 1" using eye_positive [OF E] \<open>e < k\<close> by simp
      ultimately show ?thesis using eye_unique [OF here E] by simp
    qed
  next
    assume "before j s e \<or> s = j \<and> e = k - 1"
    then show "before (k + 1) s e" using here k(1) by (auto simp: before_def)
  qed
  show "eye n m fl s e \<Longrightarrow> e < k + 1 \<or> k + 1 \<le> s" using out by fastforce
qed

lemma inv_failing:
  assumes inv: "search_inv j v" and k: "j < k" "k < n" "fl ! k = 1" and here: "eye n m fl j (k - 1)"
  shows "search_inv (k + 1) (close_window (Failing k) (v\<lparr>data1 := j\<rparr>))"
proof -
  note B = before_after_window [OF inv k(1,3) here]
  have early: "s < j" if "before j s e" for s e
    using that eye_positive [of s e] by (auto simp: before_def)
  have bound: "before j s e \<Longrightarrow> e + 1 < n" for s e using inv by (auto simp: search_inv_def)
  have pos: "j < k - 1" using eye_positive [OF here] .
  show ?thesis
  proof (cases "found v")
    case False
    then have none: "\<not> before j s e" for s e using inv by (auto simp: search_inv_def)
    have "widest (k + 1) j (k - 1)" unfolding widest_def B(1) using none by auto
    then show ?thesis using False B(2) k pos none
      by (auto simp: search_inv_def Let_def B(1) [unfolded Suc_eq_plus1 [symmetric]])
  next
    case True
    then obtain s e where best: "best v = Some (s, e)" and w: "widest j s e" and ml: "max_len v = e - s + 1"
      using inv unfolding search_inv_def by auto
    have bse: "before j s e" and se: "s < e" using w eye_positive [of s e] by (auto simp: widest_def before_def)
    have wd: "before j s' e' \<Longrightarrow> e' - s' \<le> e - s \<and> (s' < s \<longrightarrow> e' - s' < e - s)" for s' e'
      using w by (auto simp: widest_def)
    show ?thesis
    proof (cases "max_len v < k - 1 - j + 1")
      case longer: True
      have "widest (k + 1) j (k - 1)" unfolding widest_def B(1)
        using longer ml wd early by (fastforce dest: wd)
      then show ?thesis using True longer B(2) k pos bound
        by (auto simp: search_inv_def Let_def B(1) [unfolded Suc_eq_plus1 [symmetric]])
    next
      case shorter: False
      have "widest (k + 1) s e" unfolding widest_def B(1)
        using shorter ml wd bse early [OF bse] by auto
      then show ?thesis using True shorter B(2) k pos bound best ml
        by (auto simp: search_inv_def Let_def B(1) [unfolded Suc_eq_plus1 [symmetric]])
    qed
  qed
qed

definition outcome :: "search \<Rightarrow> bool" where
  "outcome v = (case best v of
     None \<Rightarrow> data1 v = 0 \<and> data2 v = 0 \<and> (\<forall>s e. \<not> eye n m fl s e)
   | Some (s, e) \<Rightarrow> data1 v < data2 v \<and> chosen n m fl s e)"

lemma outer_loop_outcome: "search_inv j v \<Longrightarrow> outcome (outer_loop n m fl j v)"
proof (induction "n + 1 - j" arbitrary: j v rule: less_induct)
  case less
  show ?case
  proof (cases "j < n - (m - 1)")
    case False
    have all: "before j s e \<longleftrightarrow> eye n m fl s e" for s e
      using inv_straddle [OF less.prems, of s e] False margin by (auto simp: before_def eye_def)
    have bound: "eye n m fl s e \<Longrightarrow> e + 1 < n" for s e using less.prems by (auto simp: search_inv_def all)
    have "outcome v"
    proof (cases "best v")
      case None
      then show ?thesis using less.prems by (auto simp: outcome_def search_inv_def all split: if_splits)
    next
      case (Some p)
      then obtain s e where "p = (s, e)" "widest j s e" "data1 v < data2 v"
        using less.prems by (auto simp: search_inv_def split: if_splits)
      then show ?thesis using Some bound by (auto simp: outcome_def widest_def chosen_def all)
    qed
    then show ?thesis using False by (subst outer_loop.simps) simp
  next
    case True
    show ?thesis
    proof (cases "works_at m fl j")
      case False
      then show ?thesis using True less.hyps [OF _ inv_skip [OF less.prems False]]
        by (subst outer_loop.simps) simp
    next
      case w: True
      have jm: "j + m \<le> n" "j < n" using True margin by auto
      have step: "outer_loop n m fl j v = outer_loop n m fl (end_index (inner_loop n fl j 0 j) + 1)
          (close_window (inner_loop n fl j 0 j) (v\<lparr>data1 := j\<rparr>))"
        using True w by (subst outer_loop.simps) (simp add: Let_def)
      from inner_loop_spec [of j j 0] jm
      consider (fail) k where "j < k" "k < n" "fl ! k = 1" "\<forall>l\<in>{j<..<k}. fl ! l = 0" "inner_loop n fl j 0 j = Failing k"
        | (last) "\<forall>l\<in>{j<..<n}. fl ! l = 0" "inner_loop n fl j 0 j = Last n" by auto
      then show ?thesis
      proof cases
        case fail
        have "eye n m fl j (k - 1)" using fail by (intro eye_at [OF less.prems w jm(1)]) auto
        from less.hyps [OF _ inv_failing [OF less.prems fail(1-3) this]] fail
        show ?thesis unfolding step by simp
      next
        case last
        have E: "eye n m fl j (n - 1)" using last jm by (intro eye_at [OF less.prems w jm(1)]) auto
        have "chosen n m fl j (n - 1)" using E jm by (auto simp: chosen_def)
        moreover have "outer_loop n m fl (n + 1) u = u" for u by (subst outer_loop.simps) simp
        ultimately show ?thesis unfolding step last(2) using eye_positive [OF E] by (simp add: outcome_def)
      qed
    qed
  qed
qed

lemma search_windows_outcome: "outcome (search_windows n m fl)"
  unfolding search_windows_def
  by (rule outer_loop_outcome) (auto simp: search_inv_def before_def)

lemma chosen_unique:
  assumes a: "chosen n m fl s e" and b: "chosen n m fl s' e'"
  shows "s' = s \<and> e' = e"
proof -
  have E: "eye n m fl s e" "eye n m fl s' e'" using a b by (simp_all add: chosen_def)
  have "e < n" using E(1) by (simp add: eye_def)
  then consider "e + 1 = n" | "e + 1 < n" by linarith
  then show ?thesis
  proof cases
    case 1
    then have e': "e' + 1 = n" using b E(1) by (auto simp: chosen_def)
    show ?thesis
    proof (cases "s \<le> s'")
      case True
      then show ?thesis using eye_unique [OF E] eye_positive [OF E(2)] 1 e' by simp
    next
      case False
      then show ?thesis using eye_unique [OF E(2,1)] eye_positive [OF E(1)] 1 e' by simp
    qed
  next
    case 2
    then have w: "e' + 1 < n" "e' - s' \<le> e - s" "s' < s \<longrightarrow> e' - s' < e - s"
      using a E(2) by (auto simp: chosen_def)
    then have "e - s \<le> e' - s'" "s < s' \<longrightarrow> e - s < e' - s'"
      using b E(1) by (auto simp: chosen_def)
    with w have "s' = s" "e' - s' = e - s" by linarith+
    then show ?thesis using eye_positive [OF E(1)] eye_positive [OF E(2)] by simp
  qed
qed

end

end
