(* ===== verification/DqsTraining.thy ===== *)
theory DqsTraining
  imports DdrFreq EyeSearch
begin

text \<open>
  board/leadcore/lc186x/dqs\_training.c: the training of the delays between the DRAM controllers and
  the chips.  For every byte slice the code tries all settings of a delay, records which pass a built-in
  self test, and keeps the middle of a window of passing settings.  The variables of the file are the
  record \<open>trainer\<close>; the tables \<open>memctl0_dqs\<close> and \<open>memctl1_dqs\<close> are lists of register and value, each
  with the memory behind the array, since \<open>memctl_refresh_dqsdatas\<close> walks past its end.  The messages
  are not modelled.
\<close>

section \<open>State\<close>

type_synonym memctl_data = "u32 \<times> u32"

record 'h trainer = "'h machine" +
  write_dqs :: "u32 list"
  write_dq :: "u32 list"
  read_dqs :: "u32 list"
  gate_coarse :: "u32 \<Rightarrow> u32 \<Rightarrow> u32 list"
  gate_fine :: "u32 \<Rightarrow> u32 \<Rightarrow> u32 list"
  dqs_gate :: "u32 \<Rightarrow> memctl_data list"
  dqs_no_gate :: "u32 \<Rightarrow> memctl_data list"
  dqs_is_gate :: bool
  init_datas :: "memctl_data list"
  init_datas_length :: nat
  need_gate_training :: bool
  ram_size :: u32
  m1_cs0_size :: u64
  m1_cs1_size :: u64

definition write_dq_standard_value :: "u32 list" where
  "write_dq_standard_value = [0x39, 0x3c, 0x3c, 0x42, 0x40]"

definition read_dqs_standard_value :: "u32 list" where
  "read_dqs_standard_value = [0x51, 0x4a, 0x4b, 0x4d, 0x40]"

definition DDR0_REG_BASE :: u32 where "DDR0_REG_BASE = 0xE1001000"
definition DDR_CTL_BASE :: "u32 \<Rightarrow> u32" where "DDR_CTL_BASE ddr_id = DDR0_REG_BASE + 0x1000 * ddr_id"
definition DDR_PHY_BASE :: "u32 \<Rightarrow> u32" where "DDR_PHY_BASE ddr_id = DDR0_REG_BASE + 0x400 + 0x1000 * ddr_id"

text \<open>The PHY registers of slice \<open>k\<close>: delays, their neighbour, the coarse gate delay, the enable bit.\<close>

definition phy_delay :: "u32 \<Rightarrow> u32 \<Rightarrow> nat \<Rightarrow> u32" where
  "phy_delay ddr_id freq k = DDR_PHY_BASE ddr_id + 0x14 + freq * 0x1c + 32 * 4 * of_nat k"

definition phy_dll :: "u32 \<Rightarrow> u32 \<Rightarrow> nat \<Rightarrow> u32" where
  "phy_dll ddr_id freq k = DDR_PHY_BASE ddr_id + 0x10 + freq * 0x1c + 32 * 4 * of_nat k"

definition phy_coarse :: "u32 \<Rightarrow> u32 \<Rightarrow> nat \<Rightarrow> u32" where
  "phy_coarse ddr_id freq k = DDR_PHY_BASE ddr_id + 0x8 + freq * 0x1c + 32 * 4 * of_nat k"

definition phy_level :: "u32 \<Rightarrow> u32 \<Rightarrow> nat \<Rightarrow> u32" where
  "phy_level ddr_id freq k = DDR_PHY_BASE ddr_id + 0x4c + freq * 0x04 + 32 * 4 * of_nat k"

section \<open>The tables\<close>

definition memctl_dqs :: "u32 \<Rightarrow> 'h trainer \<Rightarrow> memctl_data list" where
  "memctl_dqs ddr_id s = (if dqs_is_gate s then dqs_gate s else dqs_no_gate s) (if ddr_id \<noteq> 0 then 1 else 0)"

definition set_memctl_dqs :: "u32 \<Rightarrow> memctl_data list \<Rightarrow> 'h trainer \<Rightarrow> 'h trainer" where
  "set_memctl_dqs ddr_id xs s = (let i = (if ddr_id \<noteq> 0 then 1 else 0) in
     if dqs_is_gate s then s\<lparr>dqs_gate := (dqs_gate s)(i := xs)\<rparr>
     else s\<lparr>dqs_no_gate := (dqs_no_gate s)(i := xs)\<rparr>)"

text \<open>\<open>memctl_dqs[i].val = v\<close>\<close>

definition put_dqs :: "u32 \<Rightarrow> nat \<Rightarrow> u32 \<Rightarrow> ('h trainer, unit) state" where
  "put_dqs ddr_id i v = modify (\<lambda>s. let xs = memctl_dqs ddr_id s in
     set_memctl_dqs ddr_id (xs[i := (fst (xs ! i), v)]) s)"

text \<open>The sizes of the arrays in bytes: 42 and 22 entries of two words.\<close>

definition memctl_dqs_length :: "'h trainer \<Rightarrow> nat" where
  "memctl_dqs_length s = (if dqs_is_gate s then 42 * 8 else 22 * 8)"

text \<open>
  \<open>memctl_refresh_dqsdatas\<close> and \<open>memctl_refresh_initdatas\<close> of comip\_memctl\_lc1860.c: every entry with
  the register gets the value.  The number of entries they look at is the size of the array in bytes.
\<close>

definition refresh :: "u32 \<Rightarrow> u32 \<Rightarrow> u32 \<Rightarrow> memctl_data \<Rightarrow> memctl_data" where
  "refresh reg val msk e = (if fst e = reg then (fst e, (snd e AND NOT msk) OR val) else e)"

definition refresh_table :: "nat \<Rightarrow> u32 \<Rightarrow> u32 \<Rightarrow> u32 \<Rightarrow> memctl_data list \<Rightarrow> int \<times> memctl_data list" where
  "refresh_table n reg val msk xs =
     (if \<exists>e\<in>set (take n xs). fst e = reg then 0 else - 1,
      map (refresh reg val msk) (take n xs) @ drop n xs)"

definition memctl_refresh_dqsdatas :: "u32 \<Rightarrow> u32 \<Rightarrow> u32 \<Rightarrow> u32 \<Rightarrow> ('h trainer, int) state" where
  "memctl_refresh_dqsdatas ddr_id reg val msk = do {
     s \<leftarrow> State_Monad.get;
     let (ret, xs) = refresh_table (memctl_dqs_length s) reg val msk (memctl_dqs ddr_id s);
     modify (set_memctl_dqs ddr_id xs);
     State_Monad.return ret }"

definition memctl_refresh_initdatas :: "u32 \<Rightarrow> u32 \<Rightarrow> u32 \<Rightarrow> ('h trainer, int) state" where
  "memctl_refresh_initdatas reg val msk = do {
     s \<leftarrow> State_Monad.get;
     let (ret, xs) = refresh_table (init_datas_length s) reg val msk (init_datas s);
     modify (init_datas_update (\<lambda>_. xs));
     State_Monad.return ret }"

definition memctl_training_refresh_info :: "('h trainer, int) state" where
  "memctl_training_refresh_info = do {
     modify (\<lambda>s. s\<lparr>dqs_is_gate := need_gate_training s\<rparr>);
     State_Monad.return 0 }"

section \<open>The self test\<close>

text \<open>The wait for the interrupt: at most 9999999 reads, and no consequence when it does not come.\<close>

primrec await_bist :: "'h bus \<Rightarrow> u32 \<Rightarrow> nat \<Rightarrow> (('h, 'x) machine_scheme, unit) state" where
  "await_bist b ctl 0 = State_Monad.return ()"
| "await_bist b ctl (Suc n) = do {
     x \<leftarrow> readl b (ctl + 0x16C);
     if drop_bit 6 x AND 1 \<noteq> 0 then reg_or b (ctl + 0x170) (push_bit 6 1)
     else await_bist b ctl n }"

definition bist_test :: "'h bus \<Rightarrow> u32 \<Rightarrow> nat \<Rightarrow> u32 \<Rightarrow> (('h, 'x) machine_scheme, u32) state" where
  "bist_test b ddr_id lane_no offset = do {
     let ctl = DDR_CTL_BASE ddr_id;
     reg_and b (ctl + 0x114) (NOT (push_bit 24 0x3f));
     reg_or b (ctl + 0x114) (push_bit 24 0xc);
     writel b 1 (ctl + 0x118);
     writel b (0x100000 * of_nat lane_no + offset) (ctl + 0x11C);
     writel b (NOT (push_bit (lane_no * 8) 0xff)) (ctl + 0x124);
     writel b (NOT (push_bit (lane_no * 8) 0xff)) (ctl + 0x128);
     reg_or b (ctl + 0x114) (push_bit 8 1);
     await_bist b ctl 9999999;
     data \<leftarrow> readl b (ctl + 0x114);
     reg_and b (ctl + 0x114) (NOT (push_bit 8 1));
     State_Monad.return (if drop_bit 16 data AND 1 \<noteq> 0 then 0 else 1) }"

section \<open>The result of a sweep\<close>

definition training_record_filter :: "u32 list list \<Rightarrow> u32 list \<Rightarrow> u32 list" where
  "training_record_filter training_record training_result =
     fold (\<lambda>k res.
       let v = search_windows 256 5 (training_record ! k);
           res = (case best v of None \<Rightarrow> res | Some (d1, d2) \<Rightarrow> res[k := of_nat ((d2 + d1) div 2)]) in
       if data1 v = 0 \<and> data2 v = 0 then res[k := 0] else res) [0..<4] training_result"

section \<open>Write and read delays\<close>

text \<open>The three delays of a slice in one register, and the update of the chip's copy.\<close>

definition delays :: "u32 \<Rightarrow> u32 \<Rightarrow> u32 \<Rightarrow> u32" where
  "delays clk_wr_dqs clk_wr clk_rd_dqs = push_bit 16 clk_wr_dqs OR push_bit 8 clk_wr OR clk_rd_dqs"

definition set_delays :: "'h bus \<Rightarrow> u32 \<Rightarrow> u32 \<Rightarrow> nat \<Rightarrow> u32 \<Rightarrow> (('h, 'x) machine_scheme, unit) state" where
  "set_delays b ddr_id freq k v = do {
     reg_and b (phy_delay ddr_id freq k) 0xFF000000;
     reg_or b (phy_delay ddr_id freq k) v }"

definition update_phy :: "'h bus \<Rightarrow> u32 \<Rightarrow> (('h, 'x) machine_scheme, unit) state" where
  "update_phy b ddr_id = reg_or b (DDR_CTL_BASE ddr_id + 0x74) (push_bit 8 1)"

text \<open>The settings of a slice, one self test for each.\<close>

definition sweep_slice ::
    "'h bus \<Rightarrow> u32 \<Rightarrow> u32 \<Rightarrow> (u32 \<Rightarrow> u32) \<Rightarrow> nat \<Rightarrow> (('h, 'x) machine_scheme, u32 list) state" where
  "sweep_slice b ddr_id freq f k = traverse_list (\<lambda>j. do {
     set_delays b ddr_id freq k (f (of_nat j));
     update_phy b ddr_id;
     bist_test b ddr_id k (of_nat j * 0x1000) }) [0..<256]"

definition write_dq_training :: "'h bus \<Rightarrow> u32 \<Rightarrow> u32 \<Rightarrow> ('h trainer, unit) state" where
  "write_dq_training b ddr_id freq = do {
     data_record \<leftarrow> traverse_list (\<lambda>k. do {
       dqs \<leftarrow> gets write_dqs;
       sweep_slice b ddr_id freq (\<lambda>j. delays (dqs ! k) j 0x40) k }) [0..<4];
     modify (write_dq_update (training_record_filter data_record));
     for_upto 4 (\<lambda>k. do {
       modify (\<lambda>s. if write_dq s ! k < 0x30 \<or> write_dq s ! k > 0x60
         then s\<lparr>write_dq := (write_dq s)[k := write_dq_standard_value ! k]\<rparr> else s);
       s \<leftarrow> State_Monad.get;
       set_delays b ddr_id freq k (delays (write_dqs s ! k) (write_dq s ! k) (read_dqs s ! k));
       update_phy b ddr_id }) }"

definition read_dqs_training :: "'h bus \<Rightarrow> u32 \<Rightarrow> u32 \<Rightarrow> ('h trainer, unit) state" where
  "read_dqs_training b ddr_id freq = do {
     data_record \<leftarrow> traverse_list (\<lambda>k. do {
       dqs \<leftarrow> gets write_dqs;
       dq \<leftarrow> gets write_dq;
       sweep_slice b ddr_id freq (\<lambda>j. delays (dqs ! k) (dq ! k) j) k }) [0..<4];
     modify (read_dqs_update (training_record_filter data_record));
     for_upto 4 (\<lambda>k. do {
       modify (\<lambda>s. if read_dqs s ! k < 0x30 \<or> read_dqs s ! k > 0x60
         then s\<lparr>read_dqs := (read_dqs s)[k := read_dqs_standard_value ! k]\<rparr> else s);
       s \<leftarrow> State_Monad.get;
       set_delays b ddr_id freq k (delays (write_dqs s ! k) (write_dq s ! k) (read_dqs s ! k));
       update_phy b ddr_id }) }"

section \<open>Gate delay\<close>

definition set_coarse :: "'h bus \<Rightarrow> u32 \<Rightarrow> u32 \<Rightarrow> nat \<Rightarrow> u32 \<Rightarrow> (('h, 'x) machine_scheme, unit) state" where
  "set_coarse b ddr_id freq k c = do {
     reg_and b (phy_coarse ddr_id freq k) (NOT (push_bit 29 1 OR 7));
     reg_or b (phy_coarse ddr_id freq k) (push_bit 29 (c AND 1) OR drop_bit 1 c) }"

definition set_fine :: "'h bus \<Rightarrow> u32 \<Rightarrow> u32 \<Rightarrow> nat \<Rightarrow> u32 \<Rightarrow> (('h, 'x) machine_scheme, unit) state" where
  "set_fine b ddr_id freq k f = do {
     reg_and b (phy_delay ddr_id freq k) 0x00FFFFFF;
     reg_or b (phy_delay ddr_id freq k) (push_bit 24 f);
     update_phy b ddr_id;
     update_phy b ddr_id }"

definition sweep_gate :: "'h bus \<Rightarrow> u32 \<Rightarrow> u32 \<Rightarrow> nat \<Rightarrow> (('h, 'x) machine_scheme, u32 list) state" where
  "sweep_gate b ddr_id freq i = do {
     reg_or b (phy_level ddr_id freq i) (push_bit 12 1);
     rows \<leftarrow> traverse_list (\<lambda>j. do {
       set_coarse b ddr_id freq i (of_nat j);
       traverse_list (\<lambda>k. do {
         set_fine b ddr_id freq i (0x10 * of_nat k);
         bist_test b ddr_id i (of_nat k * 0x1000) }) [0..<16] }) [0..<6];
     State_Monad.return (concat rows) }"

text \<open>
  The last working setting as coarse and fine delay; \<open>stale\<close> is what the two locals hold when no
  window is found.  Then three quarters of a clock are taken off.
\<close>

definition last_working :: "u32 list \<Rightarrow> u32 \<times> u32 \<Rightarrow> u32 \<times> u32" where
  "last_working rec stale = (case best (search_windows 96 5 rec) of
     None \<Rightarrow> stale
   | Some (d1, d2) \<Rightarrow> (of_nat (d2 div 16), of_nat (d2 mod 16) * 0x10))"

definition back_three_quarters :: "u32 \<times> u32 \<Rightarrow> u32 \<times> u32" where
  "back_three_quarters = (\<lambda>(c, f). if f \<ge> 0x40 then (c - 1, f - 0x40) else (c - 2, f + 0x40))"

definition set_gate :: "'h bus \<Rightarrow> u32 \<Rightarrow> u32 \<Rightarrow> nat \<Rightarrow> u32 \<times> u32 \<Rightarrow> (('h, 'x) machine_scheme, unit) state" where
  "set_gate b ddr_id freq k d = do {
     reg_or b (phy_level ddr_id freq k) (push_bit 12 1);
     set_coarse b ddr_id freq k (fst d);
     set_fine b ddr_id freq k (snd d) }"

definition gate_software_training ::
    "'h bus \<Rightarrow> (nat \<Rightarrow> u32 \<times> u32) \<Rightarrow> u32 \<Rightarrow> u32 \<Rightarrow> ('h trainer, u32) state" where
  "gate_software_training b stale ddr_id freq = do {
     data_record \<leftarrow> traverse_list (sweep_gate b ddr_id freq) [0..<4];
     let gate = map (\<lambda>k. back_three_quarters (last_working (data_record ! k) (stale k))) [0..<4];
     for_upto 4 (\<lambda>k. set_gate b ddr_id freq k (gate ! k));
     modify (\<lambda>s. if freq \<le> 1 \<and> ddr_id \<le> 1 then
       s\<lparr>gate_coarse := (gate_coarse s)(freq := (gate_coarse s freq)(ddr_id :=
            map fst gate @ drop 4 (gate_coarse s freq ddr_id))),
         gate_fine := (gate_fine s)(freq := (gate_fine s freq)(ddr_id :=
            map snd gate @ drop 4 (gate_fine s freq ddr_id)))\<rparr> else s);
     State_Monad.return 0 }"

definition gate_training_write_back :: "'h bus \<Rightarrow> u32 \<Rightarrow> u32 \<Rightarrow> ('h trainer, int) state" where
  "gate_training_write_back b freq ddr_id = do {
     c \<leftarrow> gets (\<lambda>s. gate_coarse s freq ddr_id);
     f \<leftarrow> gets (\<lambda>s. gate_fine s freq ddr_id);
     for_upto 4 (\<lambda>k. set_gate b ddr_id freq k (c ! k, f ! k));
     State_Monad.return 0 }"

section \<open>Saving the results\<close>

definition write_back_gate_training :: "'h bus \<Rightarrow> u32 \<Rightarrow> nat \<Rightarrow> ('h trainer, unit) state" where
  "write_back_gate_training b ddr_id freq = do {
     for_upto 5 (\<lambda>k. do {
       t \<leftarrow> gets (memctl_dqs ddr_id);
       v \<leftarrow> readl b (fst (t ! (k * 4 + 20 * freq)));
       put_dqs ddr_id (k * 4 + 20 * freq) (push_bit 12 1 OR v);
       v \<leftarrow> readl b (fst (t ! (k * 4 + 1 + 20 * freq)));
       put_dqs ddr_id (k * 4 + 1 + 20 * freq) v;
       v \<leftarrow> readl b (fst (t ! (k * 4 + 2 + 20 * freq)));
       put_dqs ddr_id (k * 4 + 2 + 20 * freq) v;
       v \<leftarrow> readl b (fst (t ! (k * 4 + 3 + 20 * freq)));
       put_dqs ddr_id (k * 4 + 3 + 20 * freq) v });
     t \<leftarrow> gets (memctl_dqs ddr_id);
     v \<leftarrow> readl b (fst (t ! 40));
     put_dqs ddr_id 40 (v OR push_bit 8 1) }"

definition write_back_no_gate_training :: "'h bus \<Rightarrow> u32 \<Rightarrow> nat \<Rightarrow> ('h trainer, unit) state" where
  "write_back_no_gate_training b ddr_id freq = do {
     for_upto 5 (\<lambda>k. do {
       s \<leftarrow> State_Monad.get;
       let d = delays (write_dqs s ! k) (write_dq s ! k) (read_dqs s ! k);
       set_delays b ddr_id (of_nat freq) k d;
       v \<leftarrow> readl b (phy_dll ddr_id (of_nat freq) k);
       put_dqs ddr_id (k * 2 + 10 * freq) v;
       v \<leftarrow> readl b (phy_delay ddr_id (of_nat freq) k);
       put_dqs ddr_id (k * 2 + 1 + 10 * freq) (v OR d) });
     update_phy b ddr_id;
     v \<leftarrow> readl b (DDR_CTL_BASE ddr_id + 0x74);
     put_dqs ddr_id 20 (v OR push_bit 8 1) }"

definition memctl_update_training_date :: "'h bus \<Rightarrow> memctl_data list \<Rightarrow> nat \<Rightarrow> (('h, 'x) machine_scheme, int) state" where
  "memctl_update_training_date b data len = do {
     for_upto len (\<lambda>i. writel b (snd (data ! i)) (fst (data ! i)));
     State_Monad.return 0 }"

section \<open>Training\<close>

definition dqs_training :: "'h bus \<Rightarrow> (nat \<Rightarrow> u32 \<times> u32) \<Rightarrow> u32 \<Rightarrow> nat \<Rightarrow> ('h trainer, int) state" where
  "dqs_training b stale ddr_id freq = do {
     write_dq_training b ddr_id (of_nat freq);
     gate \<leftarrow> gets need_gate_training;
     (if gate then do { _ \<leftarrow> gate_software_training b stale ddr_id (of_nat freq); State_Monad.return () }
      else State_Monad.return ());
     read_dqs_training b ddr_id (of_nat freq);
     (if gate then write_back_gate_training b ddr_id freq else write_back_no_gate_training b ddr_id freq);
     State_Monad.return 0 }"

text \<open>\<open>memctl_refresh_dll_lock_value\<close> of comip\_memctl\_lc1860.c.  \<open>val\<close> keeps its value from slice to slice.\<close>

primrec refresh_dll :: "'h bus \<Rightarrow> u32 \<Rightarrow> nat \<Rightarrow> ('h trainer, u32 \<times> int) state" where
  "refresh_dll b freq 0 = State_Monad.return (0, 0)"
| "refresh_dll b freq (Suc k) = do {
     (val, ret) \<leftarrow> refresh_dll b freq k;
     ram \<leftarrow> gets ram_size;
     one \<leftarrow> gets (\<lambda>s. m1_cs0_size s \<noteq> 0 \<or> m1_cs1_size s \<noteq> 0);
     val \<leftarrow> (if ram > 0 then readl b (DDR_PHY_BASE 0 + 0x3c + 32 * 4 * of_nat k) else State_Monad.return val);
     let val = drop_bit 8 val AND 0xff;
     val \<leftarrow> (if ram > 0 then do { x \<leftarrow> readl b (phy_dll 0 freq k); State_Monad.return (val OR (NOT 0xff AND x)) }
            else State_Monad.return val);
     (if ram > 0 then writel b val (phy_dll 0 freq k) else State_Monad.return ());
     (if one then writel b val (phy_dll 1 freq k) else State_Monad.return ());
     r \<leftarrow> memctl_refresh_initdatas (0x400 + 0x10 + 32 * 4 * of_nat k + 0x1c * freq) val 0xff;
     State_Monad.return (val, if r \<noteq> 0 then ret - 1 else ret) }"

definition memctl_refresh_dll_lock_value :: "'h bus \<Rightarrow> u32 \<Rightarrow> ('h trainer, int) state" where
  "memctl_refresh_dll_lock_value b freq = do {
     (val, ret) \<leftarrow> refresh_dll b freq 5;
     State_Monad.return ret }"

definition train_pair :: "'h bus \<Rightarrow> (nat \<Rightarrow> u32 \<times> u32) \<Rightarrow> u32 \<Rightarrow> u32 \<Rightarrow> nat \<Rightarrow> ('h trainer, unit) state" where
  "train_pair b stale use0 use1 freq = do {
     (if use0 \<noteq> 0 then do { _ \<leftarrow> dqs_training b stale 0 freq; State_Monad.return () } else State_Monad.return ());
     (if use1 \<noteq> 0 then do { _ \<leftarrow> dqs_training b stale 1 freq; State_Monad.return () } else State_Monad.return ()) }"

definition ddr_training :: "'h bus \<Rightarrow> (nat \<Rightarrow> u32 \<times> u32) \<Rightarrow> u32 \<Rightarrow> u32 \<Rightarrow> ('h trainer, int) state" where
  "ddr_training b stale use0 use1 = do {
     ddr_frequency_adjust b 0;
     memctl_refresh_dll_lock_value b 0;
     train_pair b stale use0 use1 0;
     ddr_frequency_adjust b 1;
     memctl_refresh_dll_lock_value b 1;
     train_pair b stale use0 use1 1;
     ddr_frequency_adjust b 0;
     State_Monad.return 0 }"

section \<open>What the hardware promises\<close>

lemma hw_only_await_bist [hw_rules]: "hw_only (await_bist b ctl n)"
  by (induction n) (auto intro!: hw_rules)

lemma hw_only_bist_test [hw_rules]: "hw_only (bist_test b ddr_id k off)"
  unfolding bist_test_def Let_def by (intro hw_rules)

lemma hw_only_set_delays [hw_rules]: "hw_only (set_delays b ddr_id freq k v)"
  unfolding set_delays_def by (intro hw_rules)

lemma hw_only_update_phy [hw_rules]: "hw_only (update_phy b ddr_id)"
  unfolding update_phy_def by (intro hw_rules)

lemma hw_only_sweep_slice [hw_rules]: "hw_only (sweep_slice b ddr_id freq f k)"
  unfolding sweep_slice_def by (intro hw_rules)

context register_file
begin

lemma wp_await_bist_at:
  assumes "ctl + 0x170 \<notin> cells" and "(ctl + 0x170) AND 3 = 0" and "\<And>t. view t = view s \<Longrightarrow> Q () t"
  shows "wp (await_bist b ctl n) Q s"
  using assms(3)
proof (induction n arbitrary: s)
  case 0
  then show ?case by (simp add: wp_return)
next
  case (Suc n)
  show ?case unfolding await_bist.simps wp_bind wp_if
    by (rule wp_rd_any) (auto intro!: wp_reg_or_other [OF assms(1,2)] Suc.IH Suc.prems)
qed

end

definition lane_mask :: "nat \<Rightarrow> u32" where
  "lane_mask k = NOT (push_bit (k * 8) 0xff)"

definition phy_cells :: "u32 \<Rightarrow> u32 \<Rightarrow> u32 set" where
  "phy_cells ddr_id freq = insert (DDR_CTL_BASE ddr_id + 0x124) (phy_delay ddr_id freq ` {..<5})"

text \<open>
  The delay registers of one controller at one frequency and the data mask of its self test are a
  register file, and the self test of a single slice passes if the slice's delays are good.
\<close>

locale ddr_phy = register_file b reg "phy_cells ddr_id freq"
  for b :: "'h bus" and reg :: "'h \<Rightarrow> u32 \<Rightarrow> u32" and ddr_id freq :: u32 +
  fixes good :: "nat \<Rightarrow> u32 \<Rightarrow> bool"
  assumes id: "ddr_id \<le> 1" and freq: "freq \<le> 1"
    and bist: "k < 4 \<Longrightarrow> reg h (DDR_CTL_BASE ddr_id + 0x124) = lane_mask k \<Longrightarrow>
      bit (fst (read32 b (DDR_CTL_BASE ddr_id + 0x114) h)) 16 = good k (reg h (phy_delay ddr_id freq k))"
begin

lemma cases_id: obtains "ddr_id = 0" | "ddr_id = 1"
proof -
  have "unat ddr_id = 0 \<or> unat ddr_id = 1" using id by (simp add: word_le_nat_alt) linarith
  then show ?thesis using that by (metis unat_0 unat_1 word_unat_eq_iff unsigned_1 unsigned_0)
qed

lemma cases_freq: obtains "freq = 0" | "freq = 1"
proof -
  have "unat freq = 0 \<or> unat freq = 1" using freq by (simp add: word_le_nat_alt) linarith
  then show ?thesis using that by (metis unat_0 unat_1 word_unat_eq_iff unsigned_1 unsigned_0)
qed

lemmas addresses = DDR_CTL_BASE_def DDR_PHY_BASE_def DDR0_REG_BASE_def phy_delay_def

lemma less_5_cases: "k < 5 \<longleftrightarrow> k = 0 \<or> k = 1 \<or> k = 2 \<or> k = 3 \<or> k = (4 :: nat)"
  by auto

lemma phy_delay_in: "k < 5 \<Longrightarrow> phy_delay ddr_id freq k \<in> phy_cells ddr_id freq"
  by (auto simp: phy_cells_def)

lemma mask_in: "DDR_CTL_BASE ddr_id + 0x124 \<in> phy_cells ddr_id freq"
  by (simp add: phy_cells_def)

lemma phy_delay_inj: "j < 5 \<Longrightarrow> k < 5 \<Longrightarrow> phy_delay ddr_id freq j = phy_delay ddr_id freq k \<longleftrightarrow> j = k"
  unfolding less_5_cases by (auto simp: addresses)

lemma mask_not_delay: "k < 5 \<Longrightarrow> DDR_CTL_BASE ddr_id + 0x124 \<noteq> phy_delay ddr_id freq k"
  unfolding less_5_cases by (rule cases_id; rule cases_freq) (auto simp: addresses)

lemma lessThan_5: "{..<5} = {0, 1, 2, 3, 4 :: nat}"
  by auto

lemma ctl_other:
  assumes "off \<in> {0x74, 0x114, 0x118, 0x11C, 0x128, 0x170}"
  shows "DDR_CTL_BASE ddr_id + off \<notin> phy_cells ddr_id freq" and "(DDR_CTL_BASE ddr_id + off) AND 3 = 0"
proof -
  have "off \<in> {0x74, 0x114, 0x118, 0x11C, 0x128, 0x170} \<Longrightarrow> DDR_CTL_BASE ddr_id + off \<notin> phy_cells ddr_id freq"
    unfolding phy_cells_def lessThan_5 by (rule cases_id; rule cases_freq) (auto simp: addresses)
  with assms show "DDR_CTL_BASE ddr_id + off \<notin> phy_cells ddr_id freq" by simp
  have "off \<in> {0x74, 0x114, 0x118, 0x11C, 0x128, 0x170} \<Longrightarrow> (DDR_CTL_BASE ddr_id + off) AND 3 = 0"
    by (rule cases_id) (auto simp: addresses)
  with assms show "(DDR_CTL_BASE ddr_id + off) AND 3 = 0" by simp
qed

lemmas wp_ctl_wr = wp_wr_other [OF ctl_other]
lemmas wp_ctl_or = wp_reg_or_other [OF ctl_other]
lemmas wp_ctl_and = wp_reg_and_other [OF ctl_other]

lemma wp_await_bist: "(\<And>t. view t = view s \<Longrightarrow> Q () t) \<Longrightarrow> wp (await_bist b (DDR_CTL_BASE ddr_id) n) Q s"
  by (rule wp_await_bist_at [OF ctl_other]) auto

lemma wp_bist_test:
  assumes k: "k < 4"
    and Q: "\<And>t. view t = (view s)(DDR_CTL_BASE ddr_id + 0x124 := lane_mask k) \<Longrightarrow>
      Q (if good k (view s (phy_delay ddr_id freq k)) then 0 else 1) t"
  shows "wp (bist_test b ddr_id k off) Q s"
proof -
  let ?ctl = "DDR_CTL_BASE ddr_id" and ?m = "DDR_CTL_BASE ddr_id + 0x124"
  have final: "wp (readl b (?ctl + 0x114)) (\<lambda>data. wp (reg_and b (?ctl + 0x114) (NOT (push_bit 8 1)))
      (\<lambda>_. Q (if drop_bit 16 data AND 1 \<noteq> 0 then 0 else 1))) t"
    if t: "view t = (view s)(?m := lane_mask k)" for t
  proof -
    obtain v h where r: "read32 b (?ctl + 0x114) (hw t) = (v, h)" by fastforce
    have m: "reg (hw t) ?m = lane_mask k" using t view_cell [OF mask_in, of t] by simp
    have d: "reg (hw t) (phy_delay ddr_id freq k) = view s (phy_delay ddr_id freq k)"
      using t view_cell [OF phy_delay_in, of k t] mask_not_delay [of k] k by simp
    have "drop_bit 16 v AND 1 \<noteq> 0 \<longleftrightarrow> bit v 16"
      by (simp add: and_one_eq mod_2_eq_odd bit_iff_odd_drop_bit)
    then have v: "drop_bit 16 v AND 1 \<noteq> 0 \<longleftrightarrow> good k (view s (phy_delay ddr_id freq k))"
      using bist [OF k m] r d by simp
    have "view (t\<lparr>hw := h\<rparr>) = view t"
      using read_keeps [of _ "?ctl + 0x114" "hw t"] r by (auto simp: view_def fun_eq_iff)
    then show ?thesis unfolding wp_readl r prod.case v using Q by (intro wp_ctl_and) (auto simp: t)
  qed
  show ?thesis unfolding bist_test_def Let_def wp_bind wp_return
    apply (rule wp_ctl_and, simp, simp)
    apply (rule wp_ctl_or, simp, simp)
    apply (rule wp_ctl_wr, simp, simp)
    apply (rule wp_ctl_wr, simp, simp)
    apply (rule wp_wr [OF mask_in])
    apply (rule wp_ctl_wr, simp, simp)
    apply (rule wp_ctl_or, simp, simp)
    apply (rule wp_await_bist)
    apply (rule final)
    apply (simp add: lane_mask_def)
    done
qed

lemma wp_set_delays:
  assumes "k < 5" and "\<And>t. view t = (view s)(phy_delay ddr_id freq k :=
      (view s (phy_delay ddr_id freq k) AND 0xFF000000) OR v) \<Longrightarrow> Q () t"
  shows "wp (set_delays b ddr_id freq k v) Q s"
  unfolding set_delays_def wp_bind
  by (rule wp_reg_and [OF phy_delay_in [OF assms(1)]], rule wp_reg_or [OF phy_delay_in [OF assms(1)]])
    (simp add: assms(2))

lemma wp_update_phy: "(\<And>t. view t = view s \<Longrightarrow> Q () t) \<Longrightarrow> wp (update_phy b ddr_id) Q s"
  unfolding update_phy_def by (rule wp_ctl_or) auto

text \<open>The record of a sweep, and the registers it leaves.\<close>

definition top_byte :: "('h, 'x) machine_scheme \<Rightarrow> nat \<Rightarrow> u32" where
  "top_byte s k = view s (phy_delay ddr_id freq k) AND 0xFF000000"

definition record_of :: "nat \<Rightarrow> (u32 \<Rightarrow> u32) \<Rightarrow> u32 \<Rightarrow> u32 list" where
  "record_of k f hi = map (\<lambda>j. if good k (hi OR f (of_nat j)) then 0 else 1) [0..<256]"

lemma wp_sweep_slice:
  fixes s :: "('h, 'x) machine_scheme"
  assumes k: "k < 4" and low: "\<And>j. j < 256 \<Longrightarrow> f j AND 0xFF000000 = 0"
    and Q: "\<And>t. view t = (view s)(DDR_CTL_BASE ddr_id + 0x124 := lane_mask k,
      phy_delay ddr_id freq k := top_byte s k OR f 255) \<Longrightarrow> Q (record_of k f (top_byte s k)) t"
  shows "wp (sweep_slice b ddr_id freq f k) Q s"
  unfolding sweep_slice_def
proof (rule wp_traverse_upto [where I = "\<lambda>i rs t. top_byte t k = top_byte s k \<and>
    rs = map (\<lambda>j. if good k (top_byte s k OR f (of_nat j)) then 0 else 1) [0..<i] \<and>
    (0 < i \<longrightarrow> view t = (view s)(DDR_CTL_BASE ddr_id + 0x124 := lane_mask k,
      phy_delay ddr_id freq k := top_byte s k OR f (of_nat (i - 1)))) \<and> (i = 0 \<longrightarrow> view t = view s)"])
  fix i and rs :: "u32 list" and t :: "('h, 'x) machine_scheme"
  assume i: "i < 256" and I: "top_byte t k = top_byte s k \<and>
    rs = map (\<lambda>j. if good k (top_byte s k OR f (of_nat j)) then 0 else 1) [0..<i] \<and>
    (0 < i \<longrightarrow> view t = (view s)(DDR_CTL_BASE ddr_id + 0x124 := lane_mask k,
      phy_delay ddr_id freq k := top_byte s k OR f (of_nat (i - 1)))) \<and> (i = 0 \<longrightarrow> view t = view s)"
  have k5: "k < 5" using k by simp
  have hi: "(top_byte s k OR f j) AND 0xFF000000 = top_byte s k" if "j < 256" for j
  proof -
    have "top_byte s k AND 0xFF000000 = top_byte s k" by (simp add: top_byte_def and.assoc)
    then show ?thesis by (simp add: bit.conj_disj_distrib2 low that)
  qed
  have small: "(of_nat l :: u32) < 256" if "l < 256" for l
    using that by (simp add: word_less_nat_alt unat_of_nat)
  have tb: "view t (phy_delay ddr_id freq k) AND 0xFF000000 = top_byte s k" using I by (simp add: top_byte_def)
  show "wp (do { set_delays b ddr_id freq k (f (of_nat i)); update_phy b ddr_id;
      bist_test b ddr_id k (of_nat i * 0x1000) })
    (\<lambda>r u. top_byte u k = top_byte s k \<and>
      rs @ [r] = map (\<lambda>j. if good k (top_byte s k OR f (of_nat j)) then 0 else 1) [0..<Suc i] \<and>
      (0 < Suc i \<longrightarrow> view u = (view s)(DDR_CTL_BASE ddr_id + 0x124 := lane_mask k,
        phy_delay ddr_id freq k := top_byte s k OR f (of_nat (Suc i - 1)))) \<and> (Suc i = 0 \<longrightarrow> view u = view s)) t"
    unfolding wp_bind
    apply (rule wp_set_delays [OF k5], rule wp_update_phy, rule wp_bist_test [OF k])
    using I tb mask_not_delay [OF k5] hi [OF small [OF i]]
    by (cases "i = 0") (auto simp: top_byte_def fun_upd_twist)
next
  fix rs :: "u32 list" and t :: "('h, 'x) machine_scheme"
  assume "top_byte t k = top_byte s k \<and>
    rs = map (\<lambda>j. if good k (top_byte s k OR f (of_nat j)) then 0 else 1) [0..<256] \<and>
    (0 < (256 :: nat) \<longrightarrow> view t = (view s)(DDR_CTL_BASE ddr_id + 0x124 := lane_mask k,
      phy_delay ddr_id freq k := top_byte s k OR f (of_nat (256 - 1)))) \<and> ((256 :: nat) = 0 \<longrightarrow> view t = view s)"
  then show "Q rs t" using Q [of t] by (simp add: record_of_def)
qed (simp add: top_byte_def)

text \<open>All four slices.\<close>

lemma wp_sweeps:
  fixes s :: "('h, 'x) machine_scheme"
  assumes c: "\<And>k t Q. k < 4 \<Longrightarrow> machine.more t = machine.more s \<Longrightarrow>
      wp (sweep_slice b ddr_id freq (f k) k) Q t \<Longrightarrow> wp (c k) Q t"
    and low: "\<And>k j. k < 4 \<Longrightarrow> j < 256 \<Longrightarrow> f k j AND 0xFF000000 = 0"
    and Q: "\<And>t. machine.more t = machine.more s \<Longrightarrow> \<forall>k<4. top_byte t k = top_byte s k \<Longrightarrow>
      Q (map (\<lambda>k. record_of k (f k) (top_byte s k)) [0..<4]) t"
  shows "wp (traverse_list c [0..<4]) Q s"
proof (rule wp_traverse_upto [where I = "\<lambda>i rs t. machine.more t = machine.more s \<and>
    (\<forall>k<4. top_byte t k = top_byte s k) \<and> rs = map (\<lambda>k. record_of k (f k) (top_byte s k)) [0..<i]"])
  fix i and rs :: "u32 list list" and t :: "('h, 'x) machine_scheme"
  assume i: "i < 4" and I: "machine.more t = machine.more s \<and>
    (\<forall>k<4. top_byte t k = top_byte s k) \<and> rs = map (\<lambda>k. record_of k (f k) (top_byte s k)) [0..<i]"
  have "wp (sweep_slice b ddr_id freq (f i) i)
      (\<lambda>r u. machine.more u = machine.more t \<and> ((\<forall>k<4. top_byte u k = top_byte s k) \<and> r = record_of i (f i) (top_byte s i))) t"
  proof (rule wp_conj [OF hw_only_wp [OF hw_only_sweep_slice]], rule wp_sweep_slice [OF i low [OF i]])
    fix u :: "('h, 'x) machine_scheme"
    assume u: "view u = (view t)(DDR_CTL_BASE ddr_id + 0x124 := lane_mask i,
      phy_delay ddr_id freq i := top_byte t i OR f i 255)"
    have hi: "(top_byte t i OR f i 255) AND 0xFF000000 = top_byte t i"
      using low [OF i, of 255] by (simp add: top_byte_def bit.conj_disj_distrib2 and.assoc)
    have "top_byte u k = top_byte t k" if "k < 4" for k
      using that i hi mask_not_delay [of k] phy_delay_inj [of k i] u by (auto simp: top_byte_def)
    then show "(\<forall>k<4. top_byte u k = top_byte s k) \<and> record_of i (f i) (top_byte t i) = record_of i (f i) (top_byte s i)"
      using I i by simp
  qed
  then show "wp (c i) (\<lambda>r u. machine.more u = machine.more s \<and> (\<forall>k<4. top_byte u k = top_byte s k) \<and>
      rs @ [r] = map (\<lambda>k. record_of k (f k) (top_byte s k)) [0..<Suc i]) t"
    using I by (intro c [OF i]) (auto elim: wp_mono)
qed (use Q in auto)

end

section \<open>The middle of the window\<close>

text \<open>The middle of the window the loops choose, 0 if there is none.\<close>

definition centre :: "u32 list \<Rightarrow> nat" where
  "centre rec = (case best (search_windows 256 5 rec) of None \<Rightarrow> 0 | Some (d1, d2) \<Rightarrow> (d2 + d1) div 2)"

lemma results_map: "2 \<le> m \<Longrightarrow> m \<le> n \<Longrightarrow> results n m (map (\<lambda>j. if P j then 0 else 1) [0..<n])"
  by unfold_locales auto

lemma record_results: "results 256 5 (map (\<lambda>j. if P j then 0 else 1) [0..<256])"
  by (rule results_map) simp_all

lemma centre_chosen:
  assumes "results 256 5 rec"
  shows "(\<exists>s e. chosen 256 5 rec s e \<and> centre rec = (e + s) div 2) \<or> (\<forall>s e. \<not> eye 256 5 rec s e) \<and> centre rec = 0"
  using results.search_windows_outcome [OF assms]
  by (auto simp: results.outcome_def [OF assms] centre_def split: option.splits)

lemma centre_less: "results 256 5 rec \<Longrightarrow> centre rec < 256"
  using centre_chosen [of rec] by (auto simp: chosen_def eye_def)

lemma filter_step:
  assumes "results 256 5 rec"
  shows "(let v = search_windows 256 5 rec;
      res = (case best v of None \<Rightarrow> res | Some (d1, d2) \<Rightarrow> res[k := of_nat ((d2 + d1) div 2)]) in
      if data1 v = 0 \<and> data2 v = 0 then res[k := 0] else res) = res[k := of_nat (centre rec)]"
  using results.search_windows_outcome [OF assms]
  by (auto simp: results.outcome_def [OF assms] centre_def Let_def split: option.splits)

lemma fold_updates:
  "fold (\<lambda>k res. res[k := g k]) [0..<n] xs = map (\<lambda>i. if i < n then g i else xs ! i) [0..<length xs]"
proof (induction n)
  case 0
  then show ?case by (simp add: map_nth)
next
  case (Suc n)
  have "fold (\<lambda>k res. res[k := g k]) [0..<Suc n] xs = (map (\<lambda>i. if i < n then g i else xs ! i) [0..<length xs])[n := g n]"
    using Suc.IH by simp
  also have "\<dots> = map (\<lambda>i. if i < Suc n then g i else xs ! i) [0..<length xs]"
    by (rule nth_equalityI) (auto simp: nth_list_update less_Suc_eq)
  finally show ?case .
qed

lemma training_record_filter_eq:
  assumes "\<And>k. k < 4 \<Longrightarrow> results 256 5 (recs ! k)"
  shows "training_record_filter recs res = map (\<lambda>i. if i < 4 then of_nat (centre (recs ! i)) else res ! i) [0..<length res]"
proof -
  have "training_record_filter recs res = fold (\<lambda>k res. res[k := of_nat (centre (recs ! k))]) [0..<4] res"
    unfolding training_record_filter_def
    by (rule fold_cong [OF refl refl]) (simp only: set_upt atLeastLessThan_iff filter_step [OF assms])
  then show ?thesis by (simp only: fold_updates)
qed

lemma more_fields:
  fixes s t :: "'h trainer"
  assumes "machine.more t = machine.more s"
  shows "write_dqs t = write_dqs s" and "write_dq t = write_dq s" and "read_dqs t = read_dqs s"
  using assms by (cases s; cases t; simp)+

text \<open>A delay register: three delays of eight bits below the gate delay.\<close>

lemma low_delays:
  assumes "x \<le> 0xff" and "y \<le> 0xff" and "z \<le> 0xff"
  shows "delays x y z AND 0xFF000000 = 0"
proof -
  have z: "\<not> bit w i" if "w \<le> 0xff" "8 \<le> i" for w :: u32 and i
  proof -
    have "take_bit 8 w = w"
      using that(1) by (simp add: word_unat_eq_iff unsigned_take_bit_eq take_bit_nat_eq_self_iff word_le_nat_alt)
    then have "bit w i = bit (take_bit 8 w) i" by simp
    then show ?thesis using that(2) by (simp add: bit_take_bit_iff)
  qed
  have c: "(0xFF000000 :: u32) = push_bit 24 (mask 8)" by (simp add: mask_eq_exp_minus_1)
  show ?thesis unfolding c delays_def
    by (rule bit_word_eqI) (auto simp: bit_and_iff bit_or_iff bit_push_bit_iff bit_mask_iff z assms)
qed

end
