(* ===== verification/DqsEye.thy ===== *)
theory DqsEye
  imports DqsTraining
begin

text \<open>
  What the delay training of dqs\_training.c achieves on a PHY that keeps its contract: every delay ends in
  the range the code accepts, in the middle of the window that the search chooses where that lies in the
  range, and in the register.
\<close>

section \<open>The two phases\<close>

text \<open>A delay outside the accepted range is replaced by the standard value of its slice.\<close>

definition settled :: "u32 list \<Rightarrow> nat \<Rightarrow> u32 \<Rightarrow> u32" where
  "settled standard k v = (if v < 0x30 \<or> v > 0x60 then standard ! k else v)"

context ddr_phy
begin

lemma wp_store_loop:
  fixes s :: "('h, 'x) machine_scheme"
  assumes c: "\<And>i t Q. i < 4 \<Longrightarrow> P i (machine.more t) \<Longrightarrow>
      (\<And>u. view u = view t \<Longrightarrow> P (Suc i) (machine.more u) \<Longrightarrow>
        wp (do { set_delays b ddr_id freq i (val i); update_phy b ddr_id }) Q u) \<Longrightarrow> wp (c i) Q t"
    and low: "\<And>i. i < 4 \<Longrightarrow> val i AND 0xFF000000 = 0"
    and P: "P 0 (machine.more s)"
  shows "wp (for_upto 4 c) (\<lambda>_ t. P 4 (machine.more t) \<and>
    (\<forall>k<4. view t (phy_delay ddr_id freq k) = top_byte s k OR val k)) s"
proof (rule wp_for_upto [where I = "\<lambda>i t. P i (machine.more t) \<and> (\<forall>k<4. top_byte t k = top_byte s k) \<and>
    (\<forall>k<i. view t (phy_delay ddr_id freq k) = top_byte s k OR val k)"])
  fix i and t :: "('h, 'x) machine_scheme"
  assume i: "i < 4" and I: "P i (machine.more t) \<and> (\<forall>k<4. top_byte t k = top_byte s k) \<and>
    (\<forall>k<i. view t (phy_delay ddr_id freq k) = top_byte s k OR val k)"
  have step: "wp (do { set_delays b ddr_id freq i (val i); update_phy b ddr_id })
      (\<lambda>_ v. P (Suc i) (machine.more v) \<and> (\<forall>k<4. top_byte v k = top_byte s k) \<and>
        (\<forall>k<Suc i. view v (phy_delay ddr_id freq k) = top_byte s k OR val k)) u"
    if u: "view u = view t" "P (Suc i) (machine.more u)" for u :: "('h, 'x) machine_scheme"
  proof -
    have hw: "hw_only (do { set_delays b ddr_id freq i (val i); update_phy b ddr_id })"
      by (intro hw_rules)
    have "wp (do { set_delays b ddr_id freq i (val i); update_phy b ddr_id })
      (\<lambda>_ v. view v = (view t)(phy_delay ddr_id freq i := top_byte t i OR val i)) u"
      unfolding wp_bind
      by (rule wp_set_delays, use i in simp, rule wp_update_phy) (use u in \<open>simp add: top_byte_def\<close>)
    from wp_conj [OF hw_only_wp [OF hw] this] show ?thesis
    proof (rule wp_mono)
      fix r and v :: "('h, 'x) machine_scheme"
      assume v: "machine.more v = machine.more u \<and>
        view v = (view t)(phy_delay ddr_id freq i := top_byte t i OR val i)"
      have "(top_byte t i OR val i) AND 0xFF000000 = top_byte t i"
        using low [OF i] by (simp add: top_byte_def bit.conj_disj_distrib2 and.assoc)
      then have "top_byte v k = top_byte t k" if "k < 4" for k
        using v that i phy_delay_inj [of k i] by (auto simp: top_byte_def)
      moreover have "view v (phy_delay ddr_id freq k) = top_byte s k OR val k" if "k < Suc i" for k
        using v that i I phy_delay_inj [of k i] by (cases "k = i") auto
      ultimately show "P (Suc i) (machine.more v) \<and> (\<forall>k<4. top_byte v k = top_byte s k) \<and>
          (\<forall>k<Suc i. view v (phy_delay ddr_id freq k) = top_byte s k OR val k)"
        using v u(2) I by auto
    qed
  qed
  show "wp (c i) (\<lambda>_ v. P (Suc i) (machine.more v) \<and> (\<forall>k<4. top_byte v k = top_byte s k) \<and>
      (\<forall>k<Suc i. view v (phy_delay ddr_id freq k) = top_byte s k OR val k)) t"
    by (rule c [OF i conjunct1 [OF I]]) (rule step)
qed (use P in auto)

lemma results_record: "results 256 5 (record_of k f hi)"
  unfolding record_of_def by (rule record_results)

definition write_record :: "'h trainer \<Rightarrow> nat \<Rightarrow> u32 list" where
  "write_record s k = record_of k (\<lambda>j. delays (write_dqs s ! k) j 0x40) (top_byte s k)"

definition read_record :: "'h trainer \<Rightarrow> nat \<Rightarrow> u32 list" where
  "read_record s k = record_of k (\<lambda>j. delays (write_dqs s ! k) (write_dq s ! k) j) (top_byte s k)"

end

lemma settled_range:
  assumes "\<forall>k<4. 0x30 \<le> standard ! k \<and> standard ! k \<le> 0x60" and "k < 4"
  shows "0x30 \<le> settled standard k v \<and> settled standard k v \<le> 0x60"
  using assms by (auto simp: settled_def not_less)

lemma less_4_cases: "(\<forall>k<4. P k) \<longleftrightarrow> P 0 \<and> P 1 \<and> P 2 \<and> P (3 :: nat)"
  by (auto simp: numeral_eq_Suc less_Suc_eq)

lemma standards: "\<forall>k<4. 0x30 \<le> write_dq_standard_value ! k \<and> write_dq_standard_value ! k \<le> 0x60"
  "\<forall>k<4. 0x30 \<le> read_dqs_standard_value ! k \<and> read_dqs_standard_value ! k \<le> 0x60"
  unfolding less_4_cases write_dq_standard_value_def read_dqs_standard_value_def by simp_all

lemma settled_byte:
  "k < 4 \<Longrightarrow> settled write_dq_standard_value k v \<le> 0xff" "k < 4 \<Longrightarrow> settled read_dqs_standard_value k v \<le> 0xff"
  using settled_range [OF standards(1), of k v] settled_range [OF standards(2), of k v]
  by (auto simp: word_le_nat_alt)

lemma byte_word: "(j :: u32) < 256 \<Longrightarrow> j \<le> 0xff"
  by (simp add: word_less_nat_alt word_le_nat_alt)

lemma trainer_sel_hw [simp]:
  fixes s :: "'h trainer"
  shows "write_dqs (s\<lparr>hw := h\<rparr>) = write_dqs s" "write_dq (s\<lparr>hw := h\<rparr>) = write_dq s" "read_dqs (s\<lparr>hw := h\<rparr>) = read_dqs s"
  by simp_all

context ddr_phy
begin

lemma view_fields [simp]:
  fixes s :: "'h trainer"
  shows "view (write_dq_update f s) = view s" "view (read_dqs_update f s) = view s"
  by (simp_all add: view_def cong: if_cong)

text \<open>
  One phase of the training: the sweeps, the filter, and the loop that settles and stores.  \<open>get\<close> and
  \<open>upd\<close> are the array being trained, \<open>arg\<close> the register value for a setting of it.
\<close>

lemma wp_phase:
  fixes s :: "'h trainer" and arr :: "'h trainer \<Rightarrow> u32 list"
  assumes arr_upd: "\<And>f s. arr (upd f s) = f (arr s)" and view_upd: "\<And>f s. view (upd f s) = view s"
    and arg_upd: "\<And>f s. arg (upd f s) = arg s"
    and more: "\<And>s t. machine.more t = machine.more s \<Longrightarrow> arr t = arr s \<and> arg t = arg s"
    and c: "\<And>k t Q. k < 4 \<Longrightarrow> machine.more t = machine.more s \<Longrightarrow>
      wp (sweep_slice b ddr_id freq (f k) k) Q t \<Longrightarrow> wp (c k) Q t"
    and low: "\<And>k j. k < 4 \<Longrightarrow> j < 256 \<Longrightarrow> f k j AND 0xFF000000 = 0"
    and low_arg: "\<And>k. k < 4 \<Longrightarrow> arg s k (settled std k (of_nat (centre (record_of k (f k) (top_byte s k))))) AND 0xFF000000 = 0"
    and len: "length (arr s) = 5"
  defines "fin k \<equiv> settled std k (of_nat (centre (record_of k (f k) (top_byte s k))))"
  shows "wp (do {
      data_record \<leftarrow> traverse_list c [0..<4];
      modify (upd (training_record_filter data_record));
      for_upto 4 (\<lambda>k. do {
        modify (\<lambda>s. if arr s ! k < 0x30 \<or> arr s ! k > 0x60 then upd (\<lambda>_. (arr s)[k := std ! k]) s else s);
        s \<leftarrow> State_Monad.get;
        set_delays b ddr_id freq k (arg s k (arr s ! k));
        update_phy b ddr_id }) })
    (\<lambda>_ t. arg t = arg s \<and> length (arr t) = 5 \<and> (\<forall>k<4. arr t ! k = fin k) \<and>
      (\<forall>k<4. view t (phy_delay ddr_id freq k) = top_byte s k OR arg s k (fin k))) s"
  unfolding wp_bind [of "traverse_list c xs" for c xs]
proof (rule wp_sweeps [where f = f])
  show "\<And>k t Q. k < 4 \<Longrightarrow> machine.more t = machine.more s \<Longrightarrow>
      wp (sweep_slice b ddr_id freq (f k) k) Q t \<Longrightarrow> wp (c k) Q t" by (rule c)
  show "\<And>k j. k < 4 \<Longrightarrow> j < 256 \<Longrightarrow> f k j AND 0xFF000000 = 0" by (rule low)
next
  fix t :: "'h trainer"
  assume m: "machine.more t = machine.more s" and top: "\<forall>k<4. top_byte t k = top_byte s k"
  let ?recs = "map (\<lambda>k. record_of k (f k) (top_byte s k)) [0..<4]"
  let ?filt = "\<lambda>k. of_nat (centre (record_of k (f k) (top_byte s k)))"
  have rec: "?recs ! k = record_of k (f k) (top_byte s k)" if "k < 4" for k
    using that by (simp only: nth_map length_upt nth_upt diff_zero add_0)
  have res: "results 256 5 (?recs ! k)" if "k < 4" for k
    unfolding rec [OF that] by (rule results_record)
  have filt: "training_record_filter ?recs (arr s) = map (\<lambda>i. if i < 4 then ?filt i else arr s ! i) [0..<5]"
    by (subst training_record_filter_eq, erule res, unfold len, rule map_cong [OF refl])
      (simp only: rec cong: if_cong)
  define t1 where "t1 = upd (training_record_filter ?recs) t"
  note mt = more [OF m]
  define P where "P i e = (\<exists>u :: 'h trainer. machine.more u = e \<and> arg u = arg s \<and>
      length (arr u) = 5 \<and> (\<forall>k<4. arr u ! k = (if k < i then fin k else ?filt k)))" for i e
  have P_D: "arg u = arg s \<and> length (arr u) = 5 \<and>
      (\<forall>k<4. arr u ! k = (if k < i then fin k else ?filt k))" if "P i (machine.more u)" for i and u :: "'h trainer"
    using that unfolding P_def by (metis more)
  have top1: "top_byte t1 k = top_byte s k" if "k < 4" for k
    using top that by (simp add: top_byte_def t1_def view_upd)
  have W: "wp (for_upto 4 (\<lambda>k. do {
       modify (\<lambda>s. if arr s ! k < 0x30 \<or> arr s ! k > 0x60 then upd (\<lambda>_. (arr s)[k := std ! k]) s else s);
       s \<leftarrow> State_Monad.get;
       set_delays b ddr_id freq k (arg s k (arr s ! k));
       update_phy b ddr_id })) (\<lambda>_ u. P 4 (machine.more u) \<and>
       (\<forall>k<4. view u (phy_delay ddr_id freq k) = top_byte t1 k OR arg s k (fin k))) t1"
  proof (rule wp_store_loop)
    fix i and u :: "'h trainer" and Q
    assume i: "i < 4" and u: "P i (machine.more u)"
      and step: "\<And>v. view v = view u \<Longrightarrow> P (Suc i) (machine.more v) \<Longrightarrow>
        wp (do { set_delays b ddr_id freq i (arg s i (fin i)); update_phy b ddr_id }) Q v"
    define v where "v = (if arr u ! i < 0x30 \<or> arr u ! i > 0x60 then upd (\<lambda>_. (arr u)[i := std ! i]) u else u)"
    note D = P_D [OF u]
    have vi: "arr v ! i = fin i" using D i by (auto simp: v_def fin_def settled_def arr_upd)
    have vo: "arr v ! k = arr u ! k" if "k \<noteq> i" for k using that by (simp add: v_def arr_upd)
    have vf: "arg v = arg s" "length (arr v) = 5" "view v = view u"
      using D by (auto simp: v_def arg_upd arr_upd view_upd)
    have "P (Suc i) (machine.more v)" unfolding P_def
      using D vi vo vf(1-2) by (intro exI [of _ v]) (auto simp: less_Suc_eq)
    from step [OF vf(3) this]
    show "wp (do { modify (\<lambda>s. if arr s ! i < 0x30 \<or> arr s ! i > 0x60 then upd (\<lambda>_. (arr s)[i := std ! i]) s else s);
       s \<leftarrow> State_Monad.get;
       set_delays b ddr_id freq i (arg s i (arr s ! i));
       update_phy b ddr_id }) Q u"
      unfolding wp_bind wp_modify wp_get v_def [symmetric] by (simp only: vi vf wp_bind)
  next
    show "arg s i (fin i) AND 0xFF000000 = 0" if "i < 4" for i
      using low_arg [OF that] by (simp only: fin_def)
    have "arr t1 = map (\<lambda>i. if i < 4 then ?filt i else arr s ! i) [0..<5]"
      by (simp only: t1_def arr_upd mt filt)
    then show "P 0 (machine.more t1)" unfolding P_def
      by (intro exI [of _ t1]) (simp add: t1_def arg_upd mt)
  qed
  show "wp (do { modify (upd (training_record_filter ?recs)); for_upto 4 (\<lambda>k. do {
       modify (\<lambda>s. if arr s ! k < 0x30 \<or> arr s ! k > 0x60 then upd (\<lambda>_. (arr s)[k := std ! k]) s else s);
       s \<leftarrow> State_Monad.get;
       set_delays b ddr_id freq k (arg s k (arr s ! k));
       update_phy b ddr_id }) }) (\<lambda>_ t. arg t = arg s \<and> length (arr t) = 5 \<and> (\<forall>k<4. arr t ! k = fin k) \<and>
      (\<forall>k<4. view t (phy_delay ddr_id freq k) = top_byte s k OR arg s k (fin k))) t"
    unfolding wp_bind [of "modify g" for g] wp_modify t1_def [symmetric]
    by (rule wp_mono [OF W], use top1 in \<open>auto dest!: P_D\<close>)
qed

lemma wp_write_dq_training:
  fixes s :: "'h trainer"
  assumes len: "length (write_dq s) = 5" and wd: "\<forall>k<4. write_dqs s ! k \<le> 0xff" and rd: "\<forall>k<4. read_dqs s ! k \<le> 0xff"
  defines "fin k \<equiv> settled write_dq_standard_value k (of_nat (centre (write_record s k)))"
  shows "wp (write_dq_training b ddr_id freq) (\<lambda>_ t. (\<lambda>k v. delays (write_dqs t ! k) v (read_dqs t ! k)) =
      (\<lambda>k v. delays (write_dqs s ! k) v (read_dqs s ! k)) \<and>
    length (write_dq t) = 5 \<and> (\<forall>k<4. write_dq t ! k = fin k) \<and>
    (\<forall>k<4. view t (phy_delay ddr_id freq k) = top_byte s k OR delays (write_dqs s ! k) (fin k) (read_dqs s ! k))) s"
  unfolding write_dq_training_def fin_def write_record_def
proof (rule wp_phase [where arr = write_dq and upd = write_dq_update and
    arg = "\<lambda>s k v. delays (write_dqs s ! k) v (read_dqs s ! k)"])
  fix k and t :: "'h trainer" and Q
  assume m: "machine.more t = machine.more s"
    and "wp (sweep_slice b ddr_id freq (\<lambda>j. delays (write_dqs s ! k) j 0x40) k) Q t"
  then show "wp (do { dqs \<leftarrow> gets write_dqs; sweep_slice b ddr_id freq (\<lambda>j. delays (dqs ! k) j 0x40) k }) Q t"
    by (simp add: wp_bind wp_gets more_fields [OF m])
next
  show "delays (write_dqs s ! k) j 0x40 AND 0xFF000000 = 0" if "k < 4" "j < 256" for k j
    using wd that byte_word by (intro low_delays) (auto simp: word_le_nat_alt)
  show "write_dq t = write_dq s \<and> (\<lambda>k v. delays (write_dqs t ! k) v (read_dqs t ! k)) = (\<lambda>k v. delays (write_dqs s ! k) v (read_dqs s ! k))"
    if "machine.more t = machine.more s" for s t :: "'h trainer" by (simp add: more_fields [OF that])
qed (use wd rd len in \<open>auto intro!: low_delays settled_byte\<close>)

lemma wp_read_dqs_training:
  fixes s :: "'h trainer"
  assumes len: "length (read_dqs s) = 5" and wd: "\<forall>k<4. write_dqs s ! k \<le> 0xff" and dq: "\<forall>k<4. write_dq s ! k \<le> 0xff"
  defines "fin k \<equiv> settled read_dqs_standard_value k (of_nat (centre (read_record s k)))"
  shows "wp (read_dqs_training b ddr_id freq) (\<lambda>_ t. (\<lambda>k v. delays (write_dqs t ! k) (write_dq t ! k) v) =
      (\<lambda>k v. delays (write_dqs s ! k) (write_dq s ! k) v) \<and>
    length (read_dqs t) = 5 \<and> (\<forall>k<4. read_dqs t ! k = fin k) \<and>
    (\<forall>k<4. view t (phy_delay ddr_id freq k) = top_byte s k OR delays (write_dqs s ! k) (write_dq s ! k) (fin k))) s"
  unfolding read_dqs_training_def fin_def read_record_def
proof (rule wp_phase [where arr = read_dqs and upd = read_dqs_update and
    arg = "\<lambda>s k v. delays (write_dqs s ! k) (write_dq s ! k) v"])
  fix k and t :: "'h trainer" and Q
  assume m: "machine.more t = machine.more s"
    and "wp (sweep_slice b ddr_id freq (\<lambda>j. delays (write_dqs s ! k) (write_dq s ! k) j) k) Q t"
  then show "wp (do { dqs \<leftarrow> gets write_dqs; dq \<leftarrow> gets write_dq;
      sweep_slice b ddr_id freq (\<lambda>j. delays (dqs ! k) (dq ! k) j) k }) Q t"
    by (simp add: wp_bind wp_gets more_fields [OF m])
next
  show "delays (write_dqs s ! k) (write_dq s ! k) j AND 0xFF000000 = 0" if "k < 4" "j < 256" for k j
    using wd dq that byte_word by (intro low_delays) auto
  show "read_dqs t = read_dqs s \<and> (\<lambda>k v. delays (write_dqs t ! k) (write_dq t ! k) v) = (\<lambda>k v. delays (write_dqs s ! k) (write_dq s ! k) v)"
    if "machine.more t = machine.more s" for s t :: "'h trainer" by (simp add: more_fields [OF that])
qed (use wd dq len in \<open>auto intro!: low_delays settled_byte\<close>)

end

section \<open>A PHY\<close>

text \<open>
  A controller as an instance of the contract: registers that hold what is written, and a status that
  says whether the delays of the slice under test are good.
\<close>

definition phy_sim :: "(nat \<Rightarrow> u32 \<Rightarrow> bool) \<Rightarrow> (u32 \<Rightarrow> u32) bus" where
  "phy_sim good = \<lparr>
     read32 = \<lambda>a h. (if a = DDR_CTL_BASE 0 + 0x114 \<and>
         list_ex (\<lambda>k. h (DDR_CTL_BASE 0 + 0x124) = lane_mask k \<and> good k (h (phy_delay 0 0 k))) [0..<4]
       then 0x10000 else if a = DDR_CTL_BASE 0 + 0x114 then 0 else h a, h),
     write32 = \<lambda>a v h. h(a := v),
     write16 = \<lambda>a v h. h, write8 = \<lambda>a v h. h\<rparr>"

lemma less_4_disj: "k < 4 \<longleftrightarrow> k = 0 \<or> k = 1 \<or> k = 2 \<or> k = (3 :: nat)"
  by auto

lemma lane_mask_inj: "j < 4 \<Longrightarrow> k < 4 \<Longrightarrow> lane_mask j = lane_mask k \<longleftrightarrow> j = k"
  unfolding less_4_disj by (auto simp: lane_mask_def)

lemma up_to_5: "{..<5} = {0, 1, 2, 3, 4 :: nat}"
  by auto

interpretation sim: ddr_phy "phy_sim good" "\<lambda>h. h" 0 0 good for good
proof
  fix a and h :: "u32 \<Rightarrow> u32"
  assume "a \<in> phy_cells 0 0"
  moreover have "DDR_CTL_BASE 0 + 0x114 \<notin> phy_cells 0 0"
    by (auto simp: phy_cells_def up_to_5 DDR_CTL_BASE_def DDR_PHY_BASE_def DDR0_REG_BASE_def phy_delay_def)
  ultimately have "a \<noteq> DDR_CTL_BASE 0 + 0x114" by auto
  then show "fst (read32 (phy_sim good) a h) = h a" by (simp add: phy_sim_def)
next
  fix k and h :: "u32 \<Rightarrow> u32"
  assume k: "k < 4" and m: "h (DDR_CTL_BASE 0 + 0x124) = lane_mask k"
  have "list_ex (\<lambda>j. h (DDR_CTL_BASE 0 + 0x124) = lane_mask j \<and> good j (h (phy_delay 0 0 j))) [0..<4] =
      good k (h (phy_delay 0 0 k))"
    using k m lane_mask_inj [OF k] by (auto simp: list_ex_iff simp del: upt_rec_numeral)
  moreover have "bit (0x10000 :: u32) 16" by code_simp
  ultimately show "bit (fst (read32 (phy_sim good) (DDR_CTL_BASE 0 + 0x114) h)) 16 = good k (h (phy_delay 0 0 k))"
    by (simp add: phy_sim_def del: upt_rec_numeral)
qed (auto simp: phy_sim_def)

section \<open>Properties\<close>

lemma centre_in_window:
  assumes r: "results 256 5 rec" and c: "chosen 256 5 rec a e"
  shows "centre rec = (a + e) div 2" and "rec ! centre rec = 0"
proof -
  have "eye 256 5 rec a e" using c by (simp add: chosen_def)
  then obtain a' e' where "chosen 256 5 rec a' e'" "centre rec = (e' + a') div 2"
    using centre_chosen [OF r] by auto
  then show m: "centre rec = (a + e) div 2" using results.chosen_unique [OF r c] by (auto simp: add.commute)
  have "a \<le> (a + e) div 2" "(a + e) div 2 \<le> e" using \<open>eye 256 5 rec a e\<close> by (auto simp: eye_def)
  then show "rec ! centre rec = 0" using \<open>eye 256 5 rec a e\<close> unfolding m by (simp add: eye_def)
qed

text \<open>What the range check makes of the middle of a sweep.\<close>

lemma settled_centre:
  fixes good :: "nat \<Rightarrow> u32 \<Rightarrow> bool" and f :: "u32 \<Rightarrow> u32" and k :: nat and std :: "u32 list"
  defines "rec \<equiv> map (\<lambda>j. if good k (f (of_nat j)) then 0 else (1 :: u32)) [0..<256]"
    and "w \<equiv> settled std k (of_nat (centre (map (\<lambda>j. if good k (f (of_nat j)) then 0 else (1 :: u32)) [0..<256])))"
  shows "\<forall>a e. chosen 256 5 rec a e \<and> 0x30 \<le> (a + e) div 2 \<and> (a + e) div 2 \<le> 0x60 \<longrightarrow>
      unat w = (a + e) div 2 \<and> good k (f w)"
    and "(\<forall>a e. chosen 256 5 rec a e \<longrightarrow> \<not> (0x30 \<le> (a + e) div 2 \<and> (a + e) div 2 \<le> 0x60)) \<longrightarrow> w = std ! k"
proof -
  have r: "results 256 5 rec" unfolding rec_def by (rule record_results)
  have l: "centre rec < 256" by (rule centre_less [OF r])
  have u: "unat (of_nat (centre rec) :: u32) = centre rec" using l by (simp add: unat_of_nat)
  have w: "w = (if centre rec < 0x30 \<or> centre rec > 0x60 then std ! k else of_nat (centre rec))"
    unfolding w_def settled_def rec_def [symmetric] by (simp add: word_less_nat_alt u)
  have good: "rec ! i = 0 \<Longrightarrow> i < 256 \<Longrightarrow> good k (f (of_nat i))" for i
    unfolding rec_def by (simp add: nth_map_upt del: upt_rec_numeral split: if_splits)
  show "\<forall>a e. chosen 256 5 rec a e \<and> 0x30 \<le> (a + e) div 2 \<and> (a + e) div 2 \<le> 0x60 \<longrightarrow>
      unat w = (a + e) div 2 \<and> good k (f w)"
  proof (intro allI impI)
    fix a e
    assume c: "chosen 256 5 rec a e \<and> 0x30 \<le> (a + e) div 2 \<and> (a + e) div 2 \<le> 0x60"
    note C = centre_in_window [OF r conjunct1 [OF c]]
    have "w = of_nat (centre rec)" using c C(1) by (simp add: w)
    then show "unat w = (a + e) div 2 \<and> good k (f w)" using u C l good by simp
  qed
  show "(\<forall>a e. chosen 256 5 rec a e \<longrightarrow> \<not> (0x30 \<le> (a + e) div 2 \<and> (a + e) div 2 \<le> 0x60)) \<longrightarrow> w = std ! k"
  proof
    assume "\<forall>a e. chosen 256 5 rec a e \<longrightarrow> \<not> (0x30 \<le> (a + e) div 2 \<and> (a + e) div 2 \<le> 0x60)"
    then have "centre rec < 0x30 \<or> centre rec > 0x60"
      using centre_chosen [OF r] by (metis add.commute not_le zero_less_numeral)
    then show "w = std ! k" by (simp add: w)
  qed
qed

text \<open>
  C19. \<open>write_dq_training\<close> on a PHY that keeps its contract: for each of the four slices the write delay ends
  between 0x30 and 0x60; it is the middle of the window of the sweep that reaches the last setting or
  else is the first of the widest, where that middle lies in the range, and the self test passes there;
  otherwise it is the standard value; and the delay register holds it next to the other two delays
  under the unchanged gate delay.
\<close>

theorem write_dq_training_centres:
  fixes s :: "'h trainer"
  assumes phy: "ddr_phy b reg ddr_id freq good"
    and "length (write_dq s) = 5" and "\<forall>k<4. write_dqs s ! k \<le> 0xff" and "\<forall>k<4. read_dqs s ! k \<le> 0xff"
    and k: "k < 4"
  shows "let t = snd (run_state (write_dq_training b ddr_id freq) s);
      hi = reg (hw s) (phy_delay ddr_id freq k) AND 0xFF000000;
      rec = map (\<lambda>j. if good k (hi OR delays (write_dqs s ! k) (of_nat j) 0x40) then 0 else 1) [0..<256];
      w = write_dq t ! k in
    0x30 \<le> w \<and> w \<le> 0x60 \<and>
    (\<forall>a e. chosen 256 5 rec a e \<and> 0x30 \<le> (a + e) div 2 \<and> (a + e) div 2 \<le> 0x60 \<longrightarrow>
      unat w = (a + e) div 2 \<and> good k (hi OR delays (write_dqs s ! k) w 0x40)) \<and>
    ((\<forall>a e. chosen 256 5 rec a e \<longrightarrow> \<not> (0x30 \<le> (a + e) div 2 \<and> (a + e) div 2 \<le> 0x60)) \<longrightarrow>
      w = write_dq_standard_value ! k) \<and>
    reg (hw t) (phy_delay ddr_id freq k) = hi OR delays (write_dqs s ! k) w (read_dqs s ! k)"
proof -
  define t where "t = snd (run_state (write_dq_training b ddr_id freq) s)"
  define hi where "hi = reg (hw s) (phy_delay ddr_id freq k) AND 0xFF000000"
  have rf: "register_file b reg (phy_cells ddr_id freq)" using phy by (rule ddr_phy.axioms)
  have cell: "register_file.view reg (phy_cells ddr_id freq) u (phy_delay ddr_id freq k) = reg (hw u) (phy_delay ddr_id freq k)"
    for u :: "'h trainer"
    using ddr_phy.phy_delay_in [OF phy, of k] k register_file.view_def [OF rf, of u] by simp
  have top: "ddr_phy.top_byte reg ddr_id freq s k = hi"
    by (simp add: ddr_phy.top_byte_def [OF phy] cell hi_def)
  have rec: "ddr_phy.write_record reg ddr_id freq good s k =
      map (\<lambda>j. if good k (hi OR delays (write_dqs s ! k) (of_nat j) 0x40) then 0 else 1) [0..<256]"
    unfolding ddr_phy.write_record_def [OF phy] ddr_phy.record_of_def [OF phy] top ..
  note W = wp_run [OF ddr_phy.wp_write_dq_training [OF phy assms(2-4)] prod.collapse [symmetric], folded t_def]
  let ?rec = "map (\<lambda>j. if good k (hi OR delays (write_dqs s ! k) (of_nat j) 0x40) then 0 else (1 :: u32)) [0..<256]"
  have w: "write_dq t ! k = settled write_dq_standard_value k (of_nat (centre ?rec))"
    using W k unfolding rec [symmetric] by blast
  have "register_file.view reg (phy_cells ddr_id freq) t (phy_delay ddr_id freq k) =
      ddr_phy.top_byte reg ddr_id freq s k OR delays (write_dqs s ! k)
        (settled write_dq_standard_value k (of_nat (centre (ddr_phy.write_record reg ddr_id freq good s k)))) (read_dqs s ! k)"
    using W k by blast
  then have r: "reg (hw t) (phy_delay ddr_id freq k) = hi OR delays (write_dqs s ! k) (write_dq t ! k) (read_dqs s ! k)"
    unfolding cell top rec w .
  show ?thesis unfolding t_def [symmetric] hi_def [symmetric] Let_def
    using settled_range [OF standards(1) k, of "of_nat (centre ?rec)"] r
      settled_centre [of good k "\<lambda>j. hi OR delays (write_dqs s ! k) j 0x40" write_dq_standard_value]
    unfolding w [symmetric] by blast
qed

text \<open>A trainer as the file initialises it, over registers that are 0.\<close>

definition new_trainer :: "(u32 \<Rightarrow> u32) trainer" where
  "new_trainer = \<lparr>hw = \<lambda>_. 0, write_dqs = [0, 0, 0, 0, 0, 1], write_dq = replicate 5 0x40, read_dqs = replicate 5 0x40,
     gate_coarse = \<lambda>_ _. replicate 5 0, gate_fine = \<lambda>_ _. replicate 5 0, dqs_gate = \<lambda>_. [], dqs_no_gate = \<lambda>_. [],
     dqs_is_gate = False, init_datas = [], init_datas_length = 0, need_gate_training = False,
     ram_size = 0x40000000, m1_cs0_size = 0, m1_cs1_size = 0\<rparr>"

lemma new_trainer_fields:
  "length (write_dq new_trainer) = 5" "length (read_dqs new_trainer) = 5"
  "\<forall>k<4. write_dqs new_trainer ! k \<le> 0xff" "\<forall>k<4. read_dqs new_trainer ! k \<le> 0xff"
  "\<forall>k<4. write_dq new_trainer ! k \<le> 0xff"
  unfolding less_4_cases by (simp_all add: new_trainer_def)

lemma write_dq_training_centres_witness:
  "write_dq (snd (run_state (write_dq_training (phy_sim (\<lambda>k v. False)) 0 0) new_trainer)) ! 2 = 0x3c"
proof -
  have none: "\<not> chosen 256 5 (map (\<lambda>j. 1) [0..<256]) a e" for a e
    by (auto simp: chosen_def eye_def simp del: upt_rec_numeral)
  have "(2 :: nat) < 4" by simp
  from write_dq_training_centres [OF sim.ddr_phy_axioms new_trainer_fields(1,3,4) this, of "\<lambda>k v. False"]
  show ?thesis unfolding Let_def if_False by (simp add: none write_dq_standard_value_def del: upt_rec_numeral)
qed

text \<open>
  C39. \<open>read_dqs_training\<close> on a PHY that keeps its contract: the same for the read delay, with the write delays at
  the values they have.
\<close>

theorem read_dqs_training_centres:
  fixes s :: "'h trainer"
  assumes phy: "ddr_phy b reg ddr_id freq good"
    and "length (read_dqs s) = 5" and "\<forall>k<4. write_dqs s ! k \<le> 0xff" and "\<forall>k<4. write_dq s ! k \<le> 0xff"
    and k: "k < 4"
  shows "let t = snd (run_state (read_dqs_training b ddr_id freq) s);
      hi = reg (hw s) (phy_delay ddr_id freq k) AND 0xFF000000;
      rec = map (\<lambda>j. if good k (hi OR delays (write_dqs s ! k) (write_dq s ! k) (of_nat j)) then 0 else 1) [0..<256];
      w = read_dqs t ! k in
    0x30 \<le> w \<and> w \<le> 0x60 \<and>
    (\<forall>a e. chosen 256 5 rec a e \<and> 0x30 \<le> (a + e) div 2 \<and> (a + e) div 2 \<le> 0x60 \<longrightarrow>
      unat w = (a + e) div 2 \<and> good k (hi OR delays (write_dqs s ! k) (write_dq s ! k) w)) \<and>
    ((\<forall>a e. chosen 256 5 rec a e \<longrightarrow> \<not> (0x30 \<le> (a + e) div 2 \<and> (a + e) div 2 \<le> 0x60)) \<longrightarrow>
      w = read_dqs_standard_value ! k) \<and>
    reg (hw t) (phy_delay ddr_id freq k) = hi OR delays (write_dqs s ! k) (write_dq s ! k) w"
proof -
  define t where "t = snd (run_state (read_dqs_training b ddr_id freq) s)"
  define hi where "hi = reg (hw s) (phy_delay ddr_id freq k) AND 0xFF000000"
  have rf: "register_file b reg (phy_cells ddr_id freq)" using phy by (rule ddr_phy.axioms)
  have cell: "register_file.view reg (phy_cells ddr_id freq) u (phy_delay ddr_id freq k) = reg (hw u) (phy_delay ddr_id freq k)"
    for u :: "'h trainer"
    using ddr_phy.phy_delay_in [OF phy, of k] k register_file.view_def [OF rf, of u] by simp
  have top: "ddr_phy.top_byte reg ddr_id freq s k = hi"
    by (simp add: ddr_phy.top_byte_def [OF phy] cell hi_def)
  have rec: "ddr_phy.read_record reg ddr_id freq good s k =
      map (\<lambda>j. if good k (hi OR delays (write_dqs s ! k) (write_dq s ! k) (of_nat j)) then 0 else 1) [0..<256]"
    unfolding ddr_phy.read_record_def [OF phy] ddr_phy.record_of_def [OF phy] top ..
  note W = wp_run [OF ddr_phy.wp_read_dqs_training [OF phy assms(2-4)] prod.collapse [symmetric], folded t_def]
  let ?rec = "map (\<lambda>j. if good k (hi OR delays (write_dqs s ! k) (write_dq s ! k) (of_nat j)) then 0 else (1 :: u32)) [0..<256]"
  have w: "read_dqs t ! k = settled read_dqs_standard_value k (of_nat (centre ?rec))"
    using W k unfolding rec [symmetric] by blast
  have "register_file.view reg (phy_cells ddr_id freq) t (phy_delay ddr_id freq k) =
      ddr_phy.top_byte reg ddr_id freq s k OR delays (write_dqs s ! k) (write_dq s ! k)
        (settled read_dqs_standard_value k (of_nat (centre (ddr_phy.read_record reg ddr_id freq good s k))))"
    using W k by blast
  then have r: "reg (hw t) (phy_delay ddr_id freq k) = hi OR delays (write_dqs s ! k) (write_dq s ! k) (read_dqs t ! k)"
    unfolding cell top rec w .
  show ?thesis unfolding t_def [symmetric] hi_def [symmetric] Let_def
    using settled_range [OF standards(2) k, of "of_nat (centre ?rec)"] r
      settled_centre [of good k "\<lambda>j. hi OR delays (write_dqs s ! k) (write_dq s ! k) j" read_dqs_standard_value]
    unfolding w [symmetric] by blast
qed

lemma read_dqs_training_centres_witness:
  "read_dqs (snd (run_state (read_dqs_training (phy_sim (\<lambda>k v. False)) 0 0) new_trainer)) ! 2 = 0x4b"
proof -
  have none: "\<not> chosen 256 5 (map (\<lambda>j. 1) [0..<256]) a e" for a e
    by (auto simp: chosen_def eye_def simp del: upt_rec_numeral)
  have "(2 :: nat) < 4" by simp
  from read_dqs_training_centres [OF sim.ddr_phy_axioms new_trainer_fields(2,3,5) this, of "\<lambda>k v. False"]
  show ?thesis unfolding Let_def if_False by (simp add: none read_dqs_standard_value_def del: upt_rec_numeral)
qed

end
