(* ===== verification/ZqSelect.thy ===== *)
theory ZqSelect
  imports DqsEye
begin

text \<open>
  board/leadcore/lc186x/ddr\_zq\_select.c: the choice of the drive strengths and of the reference voltage of
  the DRAM interface.  Every candidate is put into its register and judged by a built-in self test.  The messages
  are not modelled.
\<close>

section \<open>Self tests\<close>

text \<open>
  The two tests differ in the address space, the kind, and the status bits: the data test needs bit 0 of
  the status, the address test bit 1.
\<close>

definition ddr_data_bist_test :: "'h bus \<Rightarrow> u32 \<Rightarrow> u32 \<Rightarrow> (('h, 'x) machine_scheme, u32) state" where
  "ddr_data_bist_test b ddr_id offset = do {
     let ctl = DDR_CTL_BASE ddr_id;
     reg_and b (ctl + 0x114) (NOT (push_bit 24 0x3f));
     reg_or b (ctl + 0x114) (push_bit 24 0xc);
     writel b 0x001 (ctl + 0x118);
     writel b (0x100000 + offset) (ctl + 0x11C);
     writel b 0 (ctl + 0x124);
     writel b 0 (ctl + 0x128);
     reg_or b (ctl + 0x114) (push_bit 8 1);
     await_bist b ctl 9999999;
     data \<leftarrow> readl b (ctl + 0x114);
     reg_and b (ctl + 0x114) (NOT (push_bit 8 1));
     State_Monad.return (if drop_bit 16 data AND 1 \<noteq> 0 then 0 else 1) }"

definition ddr_address_bist_test :: "'h bus \<Rightarrow> u32 \<Rightarrow> u32 \<Rightarrow> (('h, 'x) machine_scheme, u32) state" where
  "ddr_address_bist_test b ddr_id offset = do {
     let ctl = DDR_CTL_BASE ddr_id;
     reg_and b (ctl + 0x114) (NOT (push_bit 24 0x3f));
     reg_or b (ctl + 0x114) (push_bit 24 0x16);
     writel b 0x100 (ctl + 0x118);
     writel b (0x100000 + offset) (ctl + 0x11C);
     writel b 0 (ctl + 0x124);
     writel b 0 (ctl + 0x128);
     reg_or b (ctl + 0x114) (push_bit 8 1);
     await_bist b ctl 9999999;
     data \<leftarrow> readl b (ctl + 0x114);
     reg_and b (ctl + 0x114) (NOT (push_bit 8 1));
     State_Monad.return (if drop_bit 16 data AND 2 = 2 then 0 else 1) }"

section \<open>Mode register 3\<close>

text \<open>
  The wait for the end of a mode register write.  The condition is \<open>!(data && (1<<22)) && --timeout\<close>, which
  any bit of the status satisfies.  A counter that starts from 0 wraps.
\<close>

primrec await_mrw :: "'h bus \<Rightarrow> u32 \<Rightarrow> nat \<Rightarrow> u32 \<Rightarrow> (('h, 'x) machine_scheme, nat) state" where
  "await_mrw b ctl 0 data = State_Monad.return 0"
| "await_mrw b ctl (Suc t) data =
     (if data \<noteq> 0 then State_Monad.return (Suc t)
      else if t = 0 then State_Monad.return 0
      else do { data \<leftarrow> readl b (ctl + 0x16c); await_mrw b ctl t data })"

definition ticks :: "nat \<Rightarrow> nat" where
  "ticks t = (if t = 0 then 2 ^ 32 else t)"

text \<open>\<open>retry\<close> rounds at most, over one timeout for all of them.\<close>

primrec write_mr3_loop :: "'h bus \<Rightarrow> u32 \<Rightarrow> u32 \<Rightarrow> nat \<Rightarrow> nat \<Rightarrow> (('h, 'x) machine_scheme, unit) state" where
  "write_mr3_loop b ctl write_data timeout 0 = State_Monad.return ()"
| "write_mr3_loop b ctl write_data timeout (Suc retry) = do {
     data \<leftarrow> readl b (ctl + 0xF4);
     writel b ((data AND 0xffff0000) OR write_data) (ctl + 0xF4);
     data \<leftarrow> readl b (ctl + 0x108);
     writel b ((data AND 0x0000ffff) OR push_bit 16 write_data) (ctl + 0x108);
     data \<leftarrow> readl b (ctl + 0xD4);
     writel b (push_bit 23 0x7 OR 0x3) (ctl + 0xD4);
     data \<leftarrow> readl b (ctl + 0x16c);
     timeout \<leftarrow> await_mrw b ctl (ticks timeout) data;
     (if timeout mod 2 ^ 32 = 0 then do { _ \<leftarrow> readl b (ctl + 0x16c); State_Monad.return () }
      else State_Monad.return ());
     writel b (push_bit 22 1) (ctl + 0x170);
     data \<leftarrow> readl b (ctl + 0xD8);
     (if data AND 0xff \<noteq> 0 then write_mr3_loop b ctl write_data (timeout mod 2 ^ 32) retry
      else State_Monad.return ()) }"

definition write_mr3_reg :: "'h bus \<Rightarrow> u32 \<Rightarrow> u32 \<Rightarrow> (('h, 'x) machine_scheme, unit) state" where
  "write_mr3_reg b write_data ddr_id = do {
     let ctl = DDR_CTL_BASE ddr_id;
     writel b (push_bit 22 1) (ctl + 0x170);
     write_mr3_loop b ctl write_data 1000000 100 }"

section \<open>The first window\<close>

definition zq_value :: "u32 list" where
  "zq_value = [0, 1, 8, 9, 0xc, 0xd, 0xe, 0xf]"

text \<open>
  \<open>run_end\<close> is the inner loop, from setting \<open>i\<close> with \<open>k\<close> rounds left: the last setting of a run of working
  ones; 0 would be left if the rounds ran out.  \<open>first_window\<close> is the pair \<open>data1\<close> and \<open>data2\<close>, both 0 without a window.
\<close>

primrec run_end :: "u32 list \<Rightarrow> nat \<Rightarrow> nat \<Rightarrow> nat" where
  "run_end fl 0 i = 0"
| "run_end fl (Suc k) i =
     (if fl ! i \<noteq> 0 then i - 1
      else if i + 1 = 8 then 7
      else run_end fl k (i + 1))"

definition first_window :: "u32 list \<Rightarrow> nat \<times> nat" where
  "first_window fl = (case find (\<lambda>i. fl ! i = 0 \<and> fl ! (i + 1) = 0) [0..<7] of
     None \<Rightarrow> (0, 0)
   | Some i \<Rightarrow> (i, run_end fl (8 - i) i))"

text \<open>The setting below the middle of the window if it works, else the middle.\<close>

definition pick :: "u32 list \<Rightarrow> nat \<times> nat \<Rightarrow> nat" where
  "pick fl w = (let i = (snd w + fst w) div 2 in
     if i = 0 then i else if fl ! (i - 1) = 0 then i - 1 else i)"

section \<open>Drive strengths\<close>

definition clk_zq :: "u32 \<Rightarrow> u32" where
  "clk_zq data = push_bit 20 data OR push_bit 16 data OR push_bit 4 data OR data"

definition dq_zq :: "u32 \<Rightarrow> u32" where
  "dq_zq v = (let data = push_bit 1 v in
     push_bit 25 data OR push_bit 20 data OR push_bit 15 data OR push_bit 10 data OR push_bit 5 data OR data)"

text \<open>The sweep over the candidates of a register, and the store of the choice in register and table.\<close>

definition sweep_zq ::
  "'h bus \<Rightarrow> u32 \<Rightarrow> (u32 \<Rightarrow> u32) \<Rightarrow> (u32 \<Rightarrow> (('h, 'x) machine_scheme, u32) state) \<Rightarrow> (('h, 'x) machine_scheme, u32 list) state" where
  "sweep_zq b r code test = traverse_list (\<lambda>i. do {
     writel b (code (zq_value ! i)) r;
     test (0x00100000 * of_nat i) }) [0..<8]"

definition store_choice :: "'h bus \<Rightarrow> u32 \<Rightarrow> u32 \<Rightarrow> u32 \<Rightarrow> ('h trainer, unit) state" where
  "store_choice b ddr_id r v = do {
     writel b v r;
     _ \<leftarrow> memctl_refresh_dqsdatas ddr_id r v 0xffffffff;
     State_Monad.return () }"

definition select_zq ::
  "'h bus \<Rightarrow> u32 \<Rightarrow> u32 \<Rightarrow> (u32 \<Rightarrow> ('h trainer, u32) state) \<Rightarrow> ('h trainer, unit) state" where
  "select_zq b ddr_id r test = do {
     flag \<leftarrow> sweep_zq b r clk_zq test;
     let w = first_window flag;
     (if w = (0, 0) then State_Monad.return ()
      else store_choice b ddr_id r (clk_zq (zq_value ! pick flag w))) }"

definition instruction_clk_zq_select :: "'h bus \<Rightarrow> u32 \<Rightarrow> ('h trainer, unit) state" where
  "instruction_clk_zq_select b ddr_id =
     select_zq b ddr_id (DDR_PHY_BASE ddr_id + 0x2B0) (ddr_address_bist_test b ddr_id)"

definition feedback_zq_select :: "'h bus \<Rightarrow> u32 \<Rightarrow> ('h trainer, unit) state" where
  "feedback_zq_select b ddr_id =
     select_zq b ddr_id (DDR_PHY_BASE ddr_id + 0x2B4) (ddr_data_bist_test b ddr_id)"

text \<open>
  The strengths of data, strobe and mask are tried under three values of mode register 3.  \<open>k\<close> and \<open>i\<close>
  are the variables after the loop over the three rows: the last row with a window, and one more than the
  last row without.
\<close>

definition mr3_value :: "u32 list" where
  "mr3_value = [1, 2, 3]"

definition choose_row :: "(nat \<times> nat) list \<Rightarrow> nat option" where
  "choose_row ws =
     (let (i, k, errors) = fold (\<lambda>j (i, k, errors).
            if ws ! j = (0, 0) then (j + 1, k, errors + 1) else (i, j, errors)) [0..<3] (0, 0, 0 :: nat)
      in if errors = 3 then None else Some ((k + i) div 2))"

definition dq_dqs_dm_zq_select :: "'h bus \<Rightarrow> u32 \<Rightarrow> ('h trainer, unit) state" where
  "dq_dqs_dm_zq_select b ddr_id = do {
     let r = DDR_PHY_BASE ddr_id + 0x2A8;
     flag \<leftarrow> traverse_list (\<lambda>j. do {
       write_mr3_reg b (mr3_value ! j) ddr_id;
       sweep_zq b r dq_zq (ddr_data_bist_test b ddr_id) }) [0..<3];
     let ws = map first_window flag;
     (case choose_row ws of
        None \<Rightarrow> State_Monad.return ()
      | Some k \<Rightarrow> do {
          let wb_value = (if k \<ge> 2 then mr3_value ! k
            else if ws ! (k + 1) \<noteq> (0, 0) then mr3_value ! (k + 1) else mr3_value ! k);
          write_mr3_reg b wb_value ddr_id;
          store_choice b ddr_id r (dq_zq (zq_value ! pick (flag ! k) (ws ! k))) }) }"

section \<open>Reference voltage\<close>

text \<open>The settings below 0x20 are of the first range, the others of the third from its ninth step on.\<close>

definition vref_code :: "nat \<Rightarrow> u32" where
  "vref_code i = (if i < 0x20 then push_bit 8 1 OR of_nat i else push_bit 8 3 OR (of_nat i - 0x20 + 9))"

definition select_vref :: "nat \<Rightarrow> 'h bus \<Rightarrow> u32 \<Rightarrow> ('h trainer, int) state" where
  "select_vref n b ddr_id = do {
     let r = DDR_PHY_BASE ddr_id + 0x2C4;
     flag \<leftarrow> traverse_list (\<lambda>i. do {
       writel b (vref_code i) r;
       ddr_data_bist_test b ddr_id (0x00100000 * of_nat i) }) [0..<n];
     let v = search_windows n 3 flag;
     (if data1 v = 0 \<and> data2 v = 0 then do { writel b 0x10f r; State_Monad.return 1 }
      else do {
        store_choice b ddr_id r (vref_code (case best v of Some (d1, d2) \<Rightarrow> (d2 + d1) div 2 | None \<Rightarrow> n - 1));
        State_Monad.return 0 }) }"

definition ddr_vref_select_gate_training :: "'h bus \<Rightarrow> u32 \<Rightarrow> ('h trainer, int) state" where
  "ddr_vref_select_gate_training = select_vref 0x20"

definition ddr_vref_select :: "'h bus \<Rightarrow> u32 \<Rightarrow> ('h trainer, int) state" where
  "ddr_vref_select = select_vref (0x40 - 9)"

definition ddr_zq_select :: "'h bus \<Rightarrow> u32 \<Rightarrow> ('h trainer, unit) state" where
  "ddr_zq_select b ddr_id = do {
     gate \<leftarrow> gets need_gate_training;
     _ \<leftarrow> (if gate then ddr_vref_select_gate_training b ddr_id else ddr_vref_select b ddr_id);
     State_Monad.return () }"

section \<open>What the hardware promises\<close>

lemma hw_only_data_bist [hw_rules]: "hw_only (ddr_data_bist_test b d o')"
  unfolding ddr_data_bist_test_def Let_def by (intro hw_rules)

lemma hw_only_address_bist [hw_rules]: "hw_only (ddr_address_bist_test b d o')"
  unfolding ddr_address_bist_test_def Let_def by (intro hw_rules)

text \<open>
  The register under selection holds what is written, and status bit \<open>n\<close> of the self test says whether its
  setting works.
\<close>

locale setting_test = register_file b reg "{r}"
  for b :: "'h bus" and reg :: "'h \<Rightarrow> u32 \<Rightarrow> u32" and r :: u32 +
  fixes ddr_id off :: u32 and ok :: "u32 \<Rightarrow> bool" and n :: nat
  assumes id: "ddr_id \<le> 1" and place: "r = DDR_PHY_BASE ddr_id + off" "off \<in> {0x2A8, 0x2B0, 0x2B4, 0x2C4}"
    and bist: "bit (fst (read32 b (DDR_CTL_BASE ddr_id + 0x114) h)) n = ok (reg h r)"
begin

lemma cases_id: "ddr_id = 0 \<or> ddr_id = 1"
proof -
  have "unat ddr_id = 0 \<or> unat ddr_id = 1" using id by (simp add: word_le_nat_alt) linarith
  then show ?thesis by (metis unat_0 unat_1 word_unat_eq_iff)
qed

lemma ctl_other:
  assumes "o' \<in> {0x114, 0x118, 0x11C, 0x124, 0x128, 0x170}"
  shows "DDR_CTL_BASE ddr_id + o' \<notin> {r}" and "(DDR_CTL_BASE ddr_id + o') AND 3 = 0"
  using assms cases_id place unfolding DDR_CTL_BASE_def DDR_PHY_BASE_def DDR0_REG_BASE_def by auto

lemmas wp_ctl_wr = wp_wr_other [OF ctl_other]
lemmas wp_ctl_or = wp_reg_or_other [OF ctl_other]
lemmas wp_ctl_and = wp_reg_and_other [OF ctl_other]

text \<open>The status of a test, and what is left to do.\<close>

lemma wp_status:
  assumes t: "view t = view s" and g: "\<And>v. P v \<longleftrightarrow> bit v n"
    and Q: "\<And>u. view u = view s \<Longrightarrow> Q (if ok (view s r) then 0 else 1) u"
  shows "wp (readl b (DDR_CTL_BASE ddr_id + 0x114)) (\<lambda>data. wp (reg_and b (DDR_CTL_BASE ddr_id + 0x114) m)
      (\<lambda>_. Q (if P data then 0 else 1))) t"
proof -
  let ?a = "DDR_CTL_BASE ddr_id + 0x114"
  obtain v h where v: "read32 b ?a (hw t) = (v, h)" by fastforce
  have "P v = ok (view s r)" using bist [of "hw t"] v view_cell [of r t] t by (simp add: g)
  moreover have "view (t\<lparr>hw := h\<rparr>) = view t"
    using read_keeps [of _ ?a "hw t"] v by (auto simp: view_def fun_eq_iff)
  ultimately show ?thesis unfolding wp_readl v prod.case using Q t by (intro wp_ctl_and) auto
qed

lemma wp_data_bist:
  assumes "n = 16" and "\<And>t. view t = view s \<Longrightarrow> Q (if ok (view s r) then 0 else 1) t"
  shows "wp (ddr_data_bist_test b ddr_id off') Q s"
  unfolding ddr_data_bist_test_def Let_def wp_bind wp_return
  apply (rule wp_ctl_and, simp, simp)+
  apply (rule wp_ctl_or, simp, simp)
  apply (rule wp_ctl_wr, simp, simp)+
  apply (rule wp_ctl_or, simp, simp)
  apply (rule wp_await_bist_at [OF ctl_other], simp, simp)
  apply (rule wp_status [where s = s])
    apply (simp_all add: assms and_one_eq mod_2_eq_odd bit_iff_odd_drop_bit)
  done

lemma wp_address_bist:
  assumes "n = 17" and "\<And>t. view t = view s \<Longrightarrow> Q (if ok (view s r) then 0 else 1) t"
  shows "wp (ddr_address_bist_test b ddr_id off') Q s"
proof -
  have bit_17: "drop_bit 16 v AND 2 = 2 \<longleftrightarrow> bit v 17" for v :: u32
  proof
    assume "drop_bit 16 v AND 2 = 2"
    then have "bit (drop_bit 16 v AND 2) 1 = bit (2 :: u32) 1" by simp
    then show "bit v 17" by (simp add: bit_simps)
  next
    assume "bit v 17"
    then show "drop_bit 16 v AND 2 = 2" by (auto intro!: bit_word_eqI simp: bit_simps)
  qed
  show ?thesis
    unfolding ddr_address_bist_test_def Let_def wp_bind wp_return
    apply (rule wp_ctl_and, simp, simp)+
    apply (rule wp_ctl_or, simp, simp)
    apply (rule wp_ctl_wr, simp, simp)+
    apply (rule wp_ctl_or, simp, simp)
    apply (rule wp_await_bist_at [OF ctl_other], simp, simp)
    apply (rule wp_status [where s = s])
      apply (simp_all add: assms bit_17)
    done
qed

text \<open>Trying the settings \<open>f 0\<close> to \<open>f (m - 1)\<close>.\<close>

lemma wp_sweep:
  fixes s :: "('h, 'x) machine_scheme" and test :: "u32 \<Rightarrow> (('h, 'x) machine_scheme, u32) state"
  assumes test: "\<And>off' t Q. (\<And>u. view u = view t \<Longrightarrow> Q (if ok (view t r) then 0 else 1) u) \<Longrightarrow> wp (test off') Q t"
    and hw: "\<And>off'. hw_only (test off')"
    and Q: "\<And>t. machine.more t = machine.more s \<Longrightarrow> view t = (view s)(r := f m) \<Longrightarrow>
      Q (map (\<lambda>i. if ok (f i) then 0 else 1) [0..<Suc m]) t"
  shows "wp (traverse_list (\<lambda>i. do { writel b (f i) r; test (g i) }) [0..<Suc m]) Q s"
proof (rule wp_traverse_upto [where I = "\<lambda>i fl t. machine.more t = machine.more s \<and>
    fl = map (\<lambda>i. if ok (f i) then 0 else 1) [0..<i] \<and> view t = (if i = 0 then view s else (view s)(r := f (i - 1)))"])
  fix i and fl :: "u32 list" and t :: "('h, 'x) machine_scheme"
  assume I: "machine.more t = machine.more s \<and> fl = map (\<lambda>i. if ok (f i) then 0 else 1) [0..<i] \<and>
    view t = (if i = 0 then view s else (view s)(r := f (i - 1)))"
  have "hw_only (do { writel b (f i) r; test (g i) })" by (intro hw_rules hw)
  moreover have "wp (do { writel b (f i) r; test (g i) })
      (\<lambda>x u. x = (if ok (f i) then 0 else 1) \<and> view u = (view s)(r := f i)) t"
    unfolding wp_bind by (rule wp_wr, simp, rule test) (use I in auto)
  ultimately have "wp (do { writel b (f i) r; test (g i) }) (\<lambda>x u. machine.more u = machine.more t \<and>
      (x = (if ok (f i) then 0 else 1) \<and> view u = (view s)(r := f i))) t"
    by (intro wp_conj [OF hw_only_wp])
  then show "wp (do { writel b (f i) r; test (g i) }) (\<lambda>x u. machine.more u = machine.more s \<and>
      fl @ [x] = map (\<lambda>i. if ok (f i) then 0 else 1) [0..<Suc i] \<and>
      view u = (if Suc i = 0 then view s else (view s)(r := f (Suc i - 1)))) t"
    by (rule wp_mono) (use I in auto)
qed (use Q in auto)

text \<open>The store of a choice.\<close>

lemma view_set_memctl_dqs [simp]:
  fixes s :: "'h trainer"
  shows "view (set_memctl_dqs i xs s) = view s"
  by (simp add: view_def set_memctl_dqs_def Let_def cong: if_cong)

lemma wp_store_choice:
  fixes s :: "'h trainer"
  assumes "\<And>t. view t = (view s)(r := v) \<Longrightarrow>
      memctl_dqs ddr_id t = snd (refresh_table (memctl_dqs_length s) r v 0xffffffff (memctl_dqs ddr_id s)) \<Longrightarrow> Q () t"
  shows "wp (store_choice b ddr_id r v) Q s"
proof -
  define s' where "s' = s\<lparr>hw := write32 b r v (hw s)\<rparr>"
  have s': "view s' = (view s)(r := v)" "memctl_dqs ddr_id s' = memctl_dqs ddr_id s" "memctl_dqs_length s' = memctl_dqs_length s"
    using write_cell [of r r v "hw s"] by (auto simp: s'_def view_def memctl_dqs_def memctl_dqs_length_def)
  have get_set: "memctl_dqs ddr_id (set_memctl_dqs ddr_id xs s') = xs" for xs
    by (simp add: memctl_dqs_def set_memctl_dqs_def Let_def)
  obtain ret xs where r: "refresh_table (memctl_dqs_length s) r v 0xffffffff (memctl_dqs ddr_id s) = (ret, xs)"
    by fastforce
  show ?thesis
    unfolding store_choice_def memctl_refresh_dqsdatas_def wp_bind wp_writel s'_def [symmetric] wp_get
    by (simp add: s' r wps) (rule assms, simp_all add: s' get_set r)
qed

text \<open>The reference voltage.\<close>

definition record_of :: "(nat \<Rightarrow> u32) \<Rightarrow> nat \<Rightarrow> u32 list" where
  "record_of f m = map (\<lambda>i. if ok (f i) then 0 else 1) [0..<m]"

definition refreshed :: "'h trainer \<Rightarrow> u32 \<Rightarrow> memctl_data list" where
  "refreshed s v = snd (refresh_table (memctl_dqs_length s) r v 0xffffffff (memctl_dqs ddr_id s))"

lemma more_tables:
  fixes s t :: "'h trainer"
  assumes "machine.more t = machine.more s"
  shows "memctl_dqs i t = memctl_dqs i s" and "memctl_dqs_length t = memctl_dqs_length s"
  using assms by (cases s; cases t; simp add: memctl_dqs_def memctl_dqs_length_def)+

lemma wp_select_vref:
  fixes s :: "'h trainer"
  assumes m: "m = Suc k" "3 \<le> m" and n: "n = 16" and off: "off = 0x2C4"
  shows "wp (select_vref m b ddr_id) (\<lambda>ret t.
    (\<forall>a e. chosen m 3 (record_of vref_code m) a e \<longrightarrow> ret = 0 \<and> view t r = vref_code ((e + a) div 2) \<and>
      memctl_dqs ddr_id t = refreshed s (vref_code ((e + a) div 2))) \<and>
    ((\<forall>a e. \<not> eye m 3 (record_of vref_code m) a e) \<longrightarrow> ret = 1 \<and> view t r = 0x10f \<and>
      memctl_dqs ddr_id t = memctl_dqs ddr_id s)) s"
proof -
  let ?rec = "record_of vref_code m"
  have res: "results m 3 ?rec" unfolding record_of_def by (rule results_map) (use m in simp_all)
  note out = results.search_windows_outcome [OF res, unfolded results.outcome_def [OF res]]
  note uni = results.chosen_unique [OF res]
  have r: "r = DDR_PHY_BASE ddr_id + 0x2C4" using place(1) off by simp
  have rest: "wp (let v = search_windows m 3 ?rec in
        if data1 v = 0 \<and> data2 v = 0 then do { writel b 0x10f r; State_Monad.return 1 }
        else do { store_choice b ddr_id r (vref_code (case best v of Some (d1, d2) \<Rightarrow> (d2 + d1) div 2 | None \<Rightarrow> m - 1));
          State_Monad.return 0 }) (\<lambda>ret t.
    (\<forall>a e. chosen m 3 ?rec a e \<longrightarrow> ret = 0 \<and> view t r = vref_code ((e + a) div 2) \<and>
      memctl_dqs ddr_id t = refreshed s (vref_code ((e + a) div 2))) \<and>
    ((\<forall>a e. \<not> eye m 3 ?rec a e) \<longrightarrow> ret = 1 \<and> view t r = 0x10f \<and> memctl_dqs ddr_id t = memctl_dqs ddr_id s)) t"
    if t: "machine.more t = machine.more s" for t :: "'h trainer"
  proof (cases "best (search_windows m 3 ?rec)")
    case None
    then have no: "data1 (search_windows m 3 ?rec) = 0" "data2 (search_windows m 3 ?rec) = 0" "\<And>a e. \<not> eye m 3 ?rec a e"
      using out by auto
    have "wp (writel b 0x10f r) (\<lambda>_ u. view u r = 0x10f \<and> memctl_dqs ddr_id u = memctl_dqs ddr_id t) t"
      using write_cell [of r r "0x10f" "hw t"] by (simp add: wps view_def memctl_dqs_def)
    then show ?thesis unfolding Let_def
      by (simp add: no chosen_def wp_bind wp_return) (rule wp_mono, assumption, simp add: more_tables [OF t])
  next
    case (Some p)
    obtain d1 d2 where p: "p = (d1, d2)" by fastforce
    have c: "data1 (search_windows m 3 ?rec) < data2 (search_windows m 3 ?rec)" "chosen m 3 ?rec d1 d2"
      using out unfolding Some p by simp_all
    have e: "eye m 3 ?rec d1 d2" using c(2) by (simp add: chosen_def)
    have "wp (store_choice b ddr_id r (vref_code ((d2 + d1) div 2))) (\<lambda>_ u. view u r = vref_code ((d2 + d1) div 2) \<and>
        memctl_dqs ddr_id u = refreshed s (vref_code ((d2 + d1) div 2))) t"
      by (rule wp_store_choice) (simp add: more_tables [OF t] refreshed_def)
    then show ?thesis unfolding Let_def using c(1) e
      by (simp add: Some p wp_bind wp_return) (rule wp_mono, assumption, use uni [OF c(2)] in blast)
  qed
  show ?thesis
    unfolding select_vref_def r [symmetric] m(1)
    unfolding Let_def [of r] wp_bind [of "traverse_list f xs" for f xs]
    apply (rule wp_sweep [OF _ hw_only_data_bist])
     apply (rule wp_data_bist [OF n], simp)
    apply (fold m(1) record_of_def)
    apply (rule rest, assumption)
    done
qed

text \<open>The drive strengths.\<close>

lemma wp_select_zq:
  fixes s :: "'h trainer"
  assumes test: "\<And>off' t Q. (\<And>u. view u = view t \<Longrightarrow> Q (if ok (view t r) then 0 else 1) u) \<Longrightarrow> wp (test off') Q t"
    and hw: "\<And>off'. hw_only (test off')"
  defines "rec \<equiv> record_of (\<lambda>i. clk_zq (zq_value ! i)) 8"
  shows "wp (select_zq b ddr_id r test) (\<lambda>_ t. let w = first_window rec; v = clk_zq (zq_value ! pick rec w) in
    if w = (0, 0) then view t r = clk_zq 0xf \<and> memctl_dqs ddr_id t = memctl_dqs ddr_id s
    else view t r = v \<and> memctl_dqs ddr_id t = refreshed s v) s"
proof -
  have l: "zq_value ! 7 = 0xf" by (simp add: zq_value_def)
  have r8: "[0..<8] = [0..<Suc 7]" by simp
  show ?thesis
    unfolding select_zq_def sweep_zq_def r8 wp_bind [of "traverse_list f xs" for f xs]
  proof (rule wp_sweep [where f = "\<lambda>i. clk_zq (zq_value ! i)", OF test hw])
    show "\<And>off' t Q. (\<And>u. view u = view t \<Longrightarrow> Q (if ok (view t r) then 0 else 1) u) \<Longrightarrow>
      (\<And>u. view u = view t \<Longrightarrow> Q (if ok (view t r) then 0 else 1) u)" .
  next
    fix t :: "'h trainer"
    assume t: "machine.more t = machine.more s" "view t = (view s)(r := clk_zq (zq_value ! 7))"
    show "wp (let w = first_window (map (\<lambda>i. if ok (clk_zq (zq_value ! i)) then 0 else 1) [0..<Suc 7]) in
        if w = (0, 0) then State_Monad.return ()
        else store_choice b ddr_id r (clk_zq (zq_value ! pick (map (\<lambda>i. if ok (clk_zq (zq_value ! i)) then 0 else 1) [0..<Suc 7]) w)))
      (\<lambda>_ t. let w = first_window rec; v = clk_zq (zq_value ! pick rec w) in
        if w = (0, 0) then view t r = clk_zq 0xf \<and> memctl_dqs ddr_id t = memctl_dqs ddr_id s
        else view t r = v \<and> memctl_dqs ddr_id t = refreshed s v) t"
      unfolding r8 [symmetric] record_of_def [symmetric] rec_def [symmetric] Let_def wp_if wp_return
      using t by (auto intro!: wp_store_choice simp: more_tables [OF t(1)] l refreshed_def)
  qed
qed

end

section \<open>The choice works\<close>

lemma run_end_zeros:
  "k + i = 8 \<Longrightarrow> i < 8 \<Longrightarrow> fl ! i = 0 \<Longrightarrow>
    i \<le> run_end fl k i \<and> run_end fl k i \<le> 7 \<and> (\<forall>l. i \<le> l \<longrightarrow> l \<le> run_end fl k i \<longrightarrow> fl ! l = 0)
    \<and> (run_end fl k i < 7 \<longrightarrow> fl ! (run_end fl k i + 1) \<noteq> 0)"
proof (induction k arbitrary: i)
  case (Suc k)
  consider "i + 1 = 8" | "i + 1 < 8" "fl ! (i + 1) = 0" | "i + 1 < 8" "fl ! (i + 1) \<noteq> 0"
    using Suc.prems by linarith
  then show ?case
  proof cases
    case 1
    then have "l = 7" if "i \<le> l" "l \<le> 7" for l using that by simp
    moreover have "run_end fl (Suc k) i = 7" "i = 7" using Suc.prems(3) 1 by simp_all
    ultimately show ?thesis using Suc.prems(3) by auto
  next
    case 2
    have "run_end fl (Suc k) i = run_end fl k (i + 1)" using Suc.prems(3) 2 by simp
    moreover have IH: "i + 1 \<le> run_end fl k (i + 1) \<and> run_end fl k (i + 1) \<le> 7 \<and>
        (\<forall>l. i + 1 \<le> l \<longrightarrow> l \<le> run_end fl k (i + 1) \<longrightarrow> fl ! l = 0)
        \<and> (run_end fl k (i + 1) < 7 \<longrightarrow> fl ! (run_end fl k (i + 1) + 1) \<noteq> 0)"
      using Suc.prems 2 by (intro Suc.IH) auto
    moreover have "fl ! l = 0" if "i \<le> l" "l \<le> run_end fl k (i + 1)" for l
      using IH that Suc.prems(3) by (cases "l = i") auto
    ultimately show ?thesis by auto
  next
    case 3
    then obtain k' where "k = Suc k'" using Suc.prems by (cases k) auto
    then have "run_end fl (Suc k) i = i" using Suc.prems(3) 3 by simp
    then show ?thesis using Suc.prems 3 by (auto dest: le_antisym)
  qed
qed simp

text \<open>
  The first run of two or more neighbouring settings that work, as long as it is, and what the code takes from
  it: the lower one of two, and the one below the middle of a longer run.
\<close>

definition first_run :: "(nat \<Rightarrow> bool) \<Rightarrow> nat \<Rightarrow> nat \<Rightarrow> bool" where
  "first_run works a e \<longleftrightarrow> a < e \<and> e < 8 \<and> (\<forall>l\<in>{a..e}. works l) \<and> (e < 7 \<longrightarrow> \<not> works (e + 1))
     \<and> (\<forall>l<a. \<not> (works l \<and> works (l + 1)))"

definition run_choice :: "nat \<Rightarrow> nat \<Rightarrow> nat" where
  "run_choice a e = (if e = a + 1 then a else (a + e) div 2 - 1)"

lemma run_choice_inside: "first_run works a e \<Longrightarrow> run_choice a e < 8 \<and> works (run_choice a e)"
proof -
  assume r: "first_run works a e"
  then have "a \<le> run_choice a e" "run_choice a e \<le> e" by (auto simp: first_run_def run_choice_def)
  then show ?thesis using r by (simp add: first_run_def)
qed

lemma first_window_run:
  assumes "i < 7" and "fl ! i = 0" and "fl ! (i + 1) = 0"
  shows "\<exists>a e. first_run (\<lambda>l. fl ! l = 0) a e \<and> first_window fl \<noteq> (0, 0) \<and> pick fl (first_window fl) = run_choice a e"
proof -
  let ?P = "\<lambda>i. fl ! i = 0 \<and> fl ! (i + 1) = 0"
  have "find ?P [0..<7] \<noteq> None" using assms by (auto simp: find_None_iff)
  then obtain a where f: "find ?P [0..<7] = Some a" by blast
  then obtain k where "k < length [0..<7]" "?P ([0..<7] ! k)" "a = [0..<7] ! k" "\<forall>l<k. \<not> ?P ([0..<7] ! l)"
    unfolding find_Some_iff by blast
  then have a: "a < 7" "?P a" "\<forall>l<a. \<not> ?P l" by (simp_all del: upt_Suc upt_rec_numeral)
  define e where "e = run_end fl (8 - a) a"
  have w: "first_window fl = (a, e)" unfolding first_window_def f e_def by simp
  have z: "a \<le> e" "e \<le> 7" "\<And>l. a \<le> l \<Longrightarrow> l \<le> e \<Longrightarrow> fl ! l = 0" "e < 7 \<longrightarrow> fl ! (e + 1) \<noteq> 0"
    using run_end_zeros [of "8 - a" a fl] a by (auto simp: e_def)
  have "a \<noteq> e"
  proof
    assume "a = e"
    then show False using z(4) a by simp
  qed
  then have ae: "a < e" using z(1) by simp
  have r: "first_run (\<lambda>l. fl ! l = 0) a e" using ae z a by (simp add: first_run_def)
  have low: "fl ! (a - 1) \<noteq> 0" if "0 < a" using a(2,3) that by (metis Suc_eq_plus1 Suc_pred' lessI)
  have "pick fl (first_window fl) = run_choice a e"
  proof (cases "e = a + 1")
    case True
    then have "(e + a) div 2 = a" by simp
    then show ?thesis using low True by (auto simp: w pick_def run_choice_def Let_def)
  next
    case False
    then have "a < (e + a) div 2" "(e + a) div 2 - 1 \<le> e" "a \<le> (e + a) div 2 - 1" using ae by auto
    then show ?thesis using z(3) [of "(e + a) div 2 - 1"] False by (simp add: w pick_def run_choice_def Let_def add.commute)
  qed
  then show ?thesis using r ae w by (intro exI [of _ a] exI [of _ e]) simp
qed

lemma no_first_window: "\<forall>i<7. \<not> (fl ! i = 0 \<and> fl ! (i + 1) = 0) \<Longrightarrow> first_window fl = (0, 0)"
proof -
  assume "\<forall>i<7. \<not> (fl ! i = 0 \<and> fl ! (i + 1) = 0)"
  then have "find (\<lambda>i. fl ! i = 0 \<and> fl ! (i + 1) = 0) [0..<7] = None" by (auto simp: find_None_iff)
  then show ?thesis by (simp add: first_window_def)
qed

lemma upt_3: "[0..<3] = [0, 1, 2 :: nat]"
  by (simp add: upt_rec)

text \<open>With a window in the first row only, the row chosen is one in which every setting failed.\<close>

lemma choose_row_without_window: "w \<noteq> (0, 0) \<Longrightarrow> choose_row [w, (0, 0), (0, 0)] = Some 1"
  by (simp add: choose_row_def Let_def upt_3)

text \<open>With a window in every row, mode register 3 gets the value of another row than the strength.\<close>

lemma choose_row_all: "w0 \<noteq> (0, 0) \<Longrightarrow> w1 \<noteq> (0, 0) \<Longrightarrow> w2 \<noteq> (0, 0) \<Longrightarrow> choose_row [w0, w1, w2] = Some 1"
  by (simp add: choose_row_def Let_def upt_3)

section \<open>Properties\<close>

text \<open>A controller that keeps the contract: the status says whether the setting in the register works.\<close>

definition zq_sim :: "u32 \<Rightarrow> nat \<Rightarrow> (u32 \<Rightarrow> bool) \<Rightarrow> (u32 \<Rightarrow> u32) bus" where
  "zq_sim r n ok = \<lparr>read32 = \<lambda>a h. (if a = DDR_CTL_BASE 0 + 0x114 then if ok (h r) then push_bit n 1 else 0 else h a, h),
     write32 = \<lambda>a v h. h(a := v), write16 = \<lambda>a v h. h, write8 = \<lambda>a v h. h\<rparr>"

interpretation vref_sim: setting_test "zq_sim (DDR_PHY_BASE 0 + 0x2C4) 16 ok" "\<lambda>h. h" "DDR_PHY_BASE 0 + 0x2C4" 0 "0x2C4" ok 16
  for ok
  by unfold_locales
    (auto simp: zq_sim_def DDR_CTL_BASE_def DDR_PHY_BASE_def DDR0_REG_BASE_def bit_push_bit_iff)

interpretation clk_sim: setting_test "zq_sim (DDR_PHY_BASE 0 + 0x2B0) 17 ok" "\<lambda>h. h" "DDR_PHY_BASE 0 + 0x2B0" 0 "0x2B0" ok 17
  for ok
  by unfold_locales
    (auto simp: zq_sim_def DDR_CTL_BASE_def DDR_PHY_BASE_def DDR0_REG_BASE_def bit_push_bit_iff)

text \<open>
  C26. \<open>ddr_vref_select\<close> where the self test passes exactly for the reference voltages that work: the register and
  the training table get the middle of the window of working settings that the search chooses, a setting that
  works; with no window of three settings the register gets 0x10f, the table keeps its entry and the result is 1.
\<close>

theorem ddr_vref_select_centres:
  fixes s :: "'h trainer"
  assumes hw: "setting_test b reg (DDR_PHY_BASE ddr_id + 0x2C4) ddr_id 0x2C4 ok 16"
  shows "case run_state (ddr_vref_select b ddr_id) s of (ret, t) \<Rightarrow>
    let rec = map (\<lambda>i. if ok (vref_code i) then 0 else 1) [0..<55]; v = reg (hw t) (DDR_PHY_BASE ddr_id + 0x2C4) in
    (\<forall>a e. chosen 55 3 rec a e \<longrightarrow> ret = 0 \<and> v = vref_code ((a + e) div 2) \<and> ok v \<and>
      memctl_dqs ddr_id t = snd (refresh_table (memctl_dqs_length s) (DDR_PHY_BASE ddr_id + 0x2C4) v 0xffffffff (memctl_dqs ddr_id s))) \<and>
    ((\<forall>a e. \<not> eye 55 3 rec a e) \<longrightarrow> ret = 1 \<and> v = 0x10f \<and> memctl_dqs ddr_id t = memctl_dqs ddr_id s)"
proof -
  obtain ret t where rt: "run_state (ddr_vref_select b ddr_id) s = (ret, t)" by fastforce
  let ?rec = "map (\<lambda>i. if ok (vref_code i) then 0 else (1 :: u32)) [0..<55]"
  have rf: "register_file b reg {DDR_PHY_BASE ddr_id + 0x2C4}" using hw by (rule setting_test.axioms)
  have v: "register_file.view reg {DDR_PHY_BASE ddr_id + 0x2C4} t (DDR_PHY_BASE ddr_id + 0x2C4) = reg (hw t) (DDR_PHY_BASE ddr_id + 0x2C4)"
    by (simp add: register_file.view_def [OF rf])
  have run: "run_state (select_vref 55 b ddr_id) s = (ret, t)" using rt by (simp add: ddr_vref_select_def)
  have k: "(55 :: nat) = Suc 54" "(3 :: nat) \<le> 55" by simp_all
  note W = wp_run [OF setting_test.wp_select_vref [OF hw k refl refl] run, unfolded v setting_test.record_of_def [OF hw]
      setting_test.refreshed_def [OF hw]]
  have "ok (vref_code ((a + e) div 2))" if c: "chosen 55 3 ?rec a e" for a e
  proof -
    have e: "eye 55 3 ?rec a e" using c by (simp add: chosen_def)
    then have m: "a \<le> (a + e) div 2" "(a + e) div 2 \<le> e" "e < 55" by (auto simp: eye_def)
    then have "?rec ! ((a + e) div 2) = 0" using e by (simp add: eye_def)
    then show ?thesis using m by (simp add: nth_map_upt del: upt_rec_numeral split: if_splits)
  qed
  moreover have "ret = 0 \<and> reg (hw t) (DDR_PHY_BASE ddr_id + 0x2C4) = vref_code ((a + e) div 2) \<and>
      memctl_dqs ddr_id t = snd (refresh_table (memctl_dqs_length s) (DDR_PHY_BASE ddr_id + 0x2C4)
        (vref_code ((a + e) div 2)) 0xffffffff (memctl_dqs ddr_id s))" if "chosen 55 3 ?rec a e" for a e
    using conjunct1 [OF W] that by (simp only: add.commute)
  ultimately show ?thesis using conjunct2 [OF W] unfolding rt prod.case Let_def by simp
qed

lemma ddr_vref_select_centres_witness:
  "case run_state (ddr_vref_select (zq_sim (DDR_PHY_BASE 0 + 0x2C4) 16 (\<lambda>v. True)) 0) new_trainer of (ret, t) \<Rightarrow>
    ret = 0 \<and> hw t (DDR_PHY_BASE 0 + 0x2C4) = 0x11b"
proof -
  have "(map (\<lambda>i. 0) [0..<55] :: u32 list) ! i = 0" if "i < 55" for i
    using that by (simp add: nth_map_upt del: upt_rec_numeral)
  then have "chosen 55 3 (map (\<lambda>i. 0) [0..<55]) 0 54" unfolding chosen_def eye_def by simp
  then show ?thesis
    using ddr_vref_select_centres [OF vref_sim.setting_test_axioms, of "\<lambda>v. True" new_trainer]
    by (auto simp: Let_def vref_code_def simp del: upt_rec_numeral split: prod.splits)
qed

text \<open>The values of the register with the eight strengths, each strength in its four fields.\<close>

definition strength :: "nat \<Rightarrow> u32" where
  "strength i = [0, 1, 8, 9, 12, 13, 14, 15] ! i * 0x00110011"

lemma clk_zq_strength: "i < 8 \<Longrightarrow> clk_zq (zq_value ! i) = strength i"
proof -
  assume "i < 8"
  then have "i \<in> {0, 1, 2, 3, 4, 5, 6, 7}" by auto
  then show ?thesis by (auto simp: clk_zq_def zq_value_def strength_def)
qed



end
