(* ===== verification/DdrOnFlash.thy ===== *)
theory DdrOnFlash
  imports Flash
begin

text \<open>
  board/leadcore/lc186x/comip\_ddr\_on\_flash.c: the results of DRAM training kept in a partition of the
  flash.  A save writes the initial settings, the training tables of the controllers in use and a header; at
  the next start the header says whether they can be restored.  The tables are regions of memory, as
  the flash functions see them.
\<close>

section \<open>Data\<close>

definition DDRONFLASH_MAGIC :: u32 where "DDRONFLASH_MAGIC = 0xc8c46b5c"
definition DDRONFLASH_VERSION :: u32 where "DDRONFLASH_VERSION = 15"
definition CONFIG_PARTITION_DDR :: bytes where "CONFIG_PARTITION_DDR = str ''ddronflash''"

record ddr_on_flash_t =
  magic :: u32
  version :: u32
  checksum :: u32
  total :: u32
  init_data :: u32
  init_data_len :: u32
  ddr0_trn_data :: u32
  ddr0_trn_data_len :: u32
  ddr1_trn_data :: u32
  ddr1_trn_data_len :: u32

text \<open>The structure in memory: 40 bytes.\<close>

definition header_bytes :: "ddr_on_flash_t \<Rightarrow> bytes" where
  "header_bytes h = concat (map (le_bytes 4) [magic h, version h, checksum h, total h, init_data h, init_data_len h,
     ddr0_trn_data h, ddr0_trn_data_len h, ddr1_trn_data h, ddr1_trn_data_len h])"

definition header_at :: "memory \<Rightarrow> u32 \<Rightarrow> ddr_on_flash_t" where
  "header_at m p = \<lparr>magic = load_u32 m p, version = load_u32 m (p + 4), checksum = load_u32 m (p + 8),
     total = load_u32 m (p + 12), init_data = load_u32 m (p + 16), init_data_len = load_u32 m (p + 20),
     ddr0_trn_data = load_u32 m (p + 24), ddr0_trn_data_len = load_u32 m (p + 28),
     ddr1_trn_data = load_u32 m (p + 32), ddr1_trn_data_len = load_u32 m (p + 36)\<rparr>"

text \<open>
  What the functions read of the global data and of the variables of the memory controller: where the header and
  the tables are, their sizes in bytes, and which controllers are in use.
\<close>

record ddr_areas =
  g_ddr_on_flash :: u32
  init_ptr :: u32
  init_len :: u32
  dqs0_ptr :: u32
  dqs1_ptr :: u32
  dqs_len :: u32
  dram_size :: u64
  memctl1_cs0_size :: u64
  memctl1_cs1_size :: u64

definition memctl1_used :: "ddr_areas \<Rightarrow> bool" where
  "memctl1_used a \<longleftrightarrow> memctl1_cs0_size a \<noteq> 0 \<or> memctl1_cs1_size a \<noteq> 0"

definition ROUND :: "u32 \<Rightarrow> u32 \<Rightarrow> u32" where
  "ROUND a b = (a + b - 1) AND NOT (b - 1)"

section \<open>Operations\<close>

text \<open>The sum of the words.\<close>

definition ddr_get_checksum :: "memory \<Rightarrow> u32 \<Rightarrow> u32 \<Rightarrow> u32" where
  "ddr_get_checksum m p len = fold (\<lambda>i csum. csum + load_u32 m (p + 4 * of_nat i)) [0..<unat (len div 4)] 0"

text \<open>\<open>tmp\<close> is what the stack holds where \<open>flash_block_read\<close> puts its last block.\<close>

definition ddr_need_training ::
  "'h mmc_host \<Rightarrow> bytes \<Rightarrow> ddr_areas \<Rightarrow> u32 \<Rightarrow> 'h flash \<Rightarrow> (int \<times> 'h flash) option" where
  "ddr_need_training drv tmp a csum st = do {
     bsz \<leftarrow> flash_get_block_size st;
     (ret, st) \<leftarrow> flash_block_read drv tmp CONFIG_PARTITION_DDR 0 (g_ddr_on_flash a) 40 st;
     let h = header_at (fmem st) (g_ddr_on_flash a);
     let bsz = word_of_int bsz;
     if ret \<noteq> 0 then Some (1, st)
     else if magic h \<noteq> DDRONFLASH_MAGIC then Some (1, st)
     else if version h \<noteq> DDRONFLASH_VERSION then Some (1, st)
     else if checksum h \<noteq> csum then Some (1, st)
     else if bsz = 0 then None
     else if init_data h mod bsz \<noteq> 0 \<or> ddr0_trn_data h mod bsz \<noteq> 0 \<or> ddr1_trn_data h mod bsz \<noteq> 0
       then Some (1, st)
     else if total h \<noteq> init_data_len h + ddr0_trn_data_len h + ddr1_trn_data_len h + 40 then Some (1, st)
     else if init_len a \<noteq> init_data_len h then Some (1, st)
     else if dram_size a \<noteq> 0 \<and> ddr0_trn_data_len h \<noteq> dqs_len a then Some (1, st)
     else if memctl1_used a \<and> ddr1_trn_data_len h \<noteq> dqs_len a then Some (1, st)
     else Some (0, st) }"

definition ddr_restore_config_data ::
  "'h mmc_host \<Rightarrow> bytes \<Rightarrow> ddr_areas \<Rightarrow> 'h flash \<Rightarrow> (int \<times> 'h flash) option" where
  "ddr_restore_config_data drv tmp a st = do {
     let h = header_at (fmem st) (g_ddr_on_flash a);
     (ret, st) \<leftarrow> flash_block_read drv tmp CONFIG_PARTITION_DDR (init_data h) (init_ptr a) (init_len a) st;
     if ret \<noteq> 0 then Some (ret, st)
     else do {
       let h = header_at (fmem st) (g_ddr_on_flash a);
       (ret, st) \<leftarrow> (if ddr0_trn_data h \<noteq> 0
         then flash_block_read drv tmp CONFIG_PARTITION_DDR (ddr0_trn_data h) (dqs0_ptr a) (dqs_len a) st
         else Some (0, st));
       if ret \<noteq> 0 then Some (ret, st)
       else do {
         let h = header_at (fmem st) (g_ddr_on_flash a);
         (ret, st) \<leftarrow> (if ddr1_trn_data h \<noteq> 0
           then flash_block_read drv tmp CONFIG_PARTITION_DDR (ddr1_trn_data h) (dqs1_ptr a) (dqs_len a) st
           else Some (0, st));
         Some (ret, st) } } }"

text \<open>The header of a save.  Where the first controller is not in use the second table is placed after 0.\<close>

definition new_header :: "ddr_areas \<Rightarrow> u32 \<Rightarrow> u32 \<Rightarrow> ddr_on_flash_t" where
  "new_header a csum bsz =
     (let len0 = (if dram_size a \<noteq> 0 then dqs_len a else 0);
          len1 = (if memctl1_used a then dqs_len a else 0);
          init = ROUND 40 bsz;
          trn0 = (if dram_size a \<noteq> 0 then ROUND (init + init_len a) bsz else 0);
          trn1 = (if memctl1_used a then ROUND (trn0 + dqs_len a) bsz else 0)
      in \<lparr>magic = DDRONFLASH_MAGIC, version = DDRONFLASH_VERSION, checksum = csum,
          total = init_len a + len0 + len1 + 40, init_data = init, init_data_len = init_len a,
          ddr0_trn_data = trn0, ddr0_trn_data_len = len0, ddr1_trn_data = trn1, ddr1_trn_data_len = len1\<rparr>)"

definition ddr_save_config_data ::
  "'h mmc_host \<Rightarrow> ddr_areas \<Rightarrow> u32 \<Rightarrow> 'h flash \<Rightarrow> (int \<times> 'h flash) option" where
  "ddr_save_config_data drv a csum st = do {
     bsz \<leftarrow> flash_get_block_size st;
     let h = new_header a csum (word_of_int bsz);
     let st = st\<lparr>fmem := store_bytes (fmem st) (g_ddr_on_flash a) (header_bytes h)\<rparr>;
     (ret, st) \<leftarrow> flash_block_write drv CONFIG_PARTITION_DDR (init_data h) (init_ptr a) (init_len a) st;
     if ret \<noteq> 0 then Some (ret, st)
     else do {
       (ret, st) \<leftarrow> (if ddr0_trn_data h \<noteq> 0
         then flash_block_write drv CONFIG_PARTITION_DDR (ddr0_trn_data h) (dqs0_ptr a) (dqs_len a) st
         else Some (0, st));
       if ret \<noteq> 0 then Some (ret, st)
       else do {
         (ret, st) \<leftarrow> (if ddr1_trn_data h \<noteq> 0
           then flash_block_write drv CONFIG_PARTITION_DDR (ddr1_trn_data h) (dqs1_ptr a) (dqs_len a) st
           else Some (0, st));
         if ret \<noteq> 0 then Some (ret, st)
         else flash_block_write drv CONFIG_PARTITION_DDR 0 (g_ddr_on_flash a) 40 st } } }"

section \<open>The header\<close>

lemma load_u32_part:
  assumes "4 * k + 4 \<le> n"
  shows "load_u32 m (p + of_nat (4 * k)) = le_word (take 4 (drop (4 * k) (load_bytes m p n)))"
proof -
  obtain r where n: "n = 4 * k + (4 + r)" using assms by (metis add.assoc le_add_diff_inverse)
  show ?thesis unfolding n load_bytes_append [of m p "4 * k"] load_bytes_append [of m _ 4 r] by (simp add: load_u32_def)
qed

lemma length_header_bytes [simp]: "length (header_bytes h) = 40"
  by (simp add: header_bytes_def)

lemma header_fields:
  "header_at m p = (let b = load_bytes m p 40; f = (\<lambda>k. le_word (take 4 (drop (4 * k) b))) in
     \<lparr>magic = f 0, version = f 1, checksum = f 2, total = f 3, init_data = f 4, init_data_len = f 5,
      ddr0_trn_data = f 6, ddr0_trn_data_len = f 7, ddr1_trn_data = f 8, ddr1_trn_data_len = f 9\<rparr>)"
  using load_u32_part [of 0 40 m p] load_u32_part [of 1 40 m p] load_u32_part [of 2 40 m p] load_u32_part [of 3 40 m p]
    load_u32_part [of 4 40 m p] load_u32_part [of 5 40 m p] load_u32_part [of 6 40 m p] load_u32_part [of 7 40 m p]
    load_u32_part [of 8 40 m p] load_u32_part [of 9 40 m p]
  by (simp add: header_at_def Let_def)

lemma le_word_4 [simp]: "le_word (le_bytes 4 w) = (w :: u32)"
  using le_word_32_iff [of "le_bytes 4 w" w] by simp

lemma header_loaded: "load_bytes m p 40 = header_bytes h \<Longrightarrow> header_at m p = h"
  by (simp add: header_fields Let_def header_bytes_def)

lemma header_cong: "load_bytes m p 40 = load_bytes m' q 40 \<Longrightarrow> header_at m p = header_at m' q"
  by (simp add: header_fields)


section \<open>Regions of memory\<close>

definition apart :: "u32 \<Rightarrow> nat \<Rightarrow> u32 \<Rightarrow> nat \<Rightarrow> bool" where
  "apart p n q k \<longleftrightarrow> unat p + n < 2 ^ 32 \<and> unat q + k < 2 ^ 32 \<and> (unat p + n \<le> unat q \<or> unat q + k \<le> unat p)"

lemma load_store_apart:
  assumes "apart p n q (length bs)"
  shows "load_bytes (store_bytes m q bs) p n = load_bytes m p n"
proof (rule load_bytes_cong)
  fix i assume i: "i < n"
  have b: "unat p + i < 4294967296" "unat q + length bs < 4294967296" using assms i by (simp_all add: apart_def)
  note u = unat_add_offset [OF b(1)]
  have "length bs \<le> unat (p + of_nat i - q)"
    using assms i b unfolding apart_def by (subst unat_sub_if') (auto simp: u)
  then show "store_bytes m q bs (p + of_nat i) = m (p + of_nat i)"
    using b(2) by (simp add: store_bytes_patch patch_outside)
qed

lemma header_kept: "apart p 40 q (length bs) \<Longrightarrow> header_at (store_bytes m q bs) p = header_at m p"
  by (rule header_cong) (rule load_store_apart)

lemma ROUND_512: "unat x + 511 < 2 ^ 32 \<Longrightarrow> unat (ROUND x 512) = 512 * ((unat x + 511) div 512)"
proof -
  assume x: "unat x + 511 < 2 ^ 32"
  have "ROUND x 512 = (x + 511) AND NOT (mask 9)" by (simp add: ROUND_def mask_eq_exp_minus_1 algebra_simps)
  also have "\<dots> = push_bit 9 (drop_bit 9 (x + 511))" by (rule bit_word_eqI) (auto simp: bit_simps)
  finally have "unat (ROUND x 512) = unat (push_bit 9 (drop_bit 9 (x + 511)))" by simp
  then have "unat (ROUND x 512) = take_bit 32 (512 * (unat (x + 511) div 512))"
    unfolding unsigned_push_bit_eq unsigned_drop_bit_eq
    by (simp add: drop_bit_eq_div push_bit_eq_mult mult.commute take_bit_nat_eq_self unat_u32_less [simplified])
  moreover have "unat (x + 511) = unat x + 511" using x by (subst unat_add_small) simp_all
  moreover have "512 * ((unat x + 511) div 512) < 2 ^ 32" using x by (intro le_less_trans [OF times_div_less_eq_dividend])
  ultimately show ?thesis by (simp add: take_bit_nat_eq_self)
qed

section \<open>Windows of a partition\<close>

text \<open>The bytes \<open>o\<close> to \<open>o + s\<close> of a partition.\<close>

definition window :: "(nat \<Rightarrow> bytes) \<Rightarrow> partition \<Rightarrow> nat \<Rightarrow> nat \<Rightarrow> bytes" where
  "window cell pt off n = take n (drop off (run_bytes cell (unat (pstart pt)) (unat (plength pt))))"

context flash_device
begin

lemma window_run:
  assumes "good w" and "off mod 512 = 0" and "off + n \<le> 512 * unat (plength pt)"
  shows "window (blk w) pt off n = take n (run_bytes (blk w) (unat (pstart pt) + off div 512) ((n + 511) div 512))"
proof -
  define A c where "A = off div 512" and "c = (n + 511) div 512"
  have o: "off = 512 * A" using assms(2) by (auto simp: A_def)
  then have "A + c \<le> unat (plength pt)" using assms(3) by (simp add: c_def)
  then obtain r where L: "unat (plength pt) = A + (c + r)" by (metis add.assoc le_Suc_ex)
  have "length (run_bytes (blk w) (unat (pstart pt) + A) c) = 512 * c"
    using assms(1) by (intro length_run_bytes block_512)
  moreover have "n \<le> 512 * c" by (simp add: c_def)
  ultimately show ?thesis
    unfolding window_def o L run_drop [OF assms(1)] by (simp add: run_bytes_add c_def [symmetric])
qed

lemma length_window: "good w \<Longrightarrow> off + n \<le> 512 * unat (plength pt) \<Longrightarrow> length (window (blk w) pt off n) = n"
  using length_run_bytes [of "unat (pstart pt)" "unat (plength pt)" "blk w" 512] by (simp add: window_def block_512)

lemma read_window:
  assumes "good (fworld st)" and "partition_find_by_name name st = Some i" and "part_fits first blks (partitions st ! i)"
    and "unat offs mod 512 = 0" and "unat offs + unat sz \<le> 512 * unat (plength (partitions st ! i))" and "buffer \<noteq> 0"
  shows "\<exists>w'. flash_block_read drv tmp name offs buffer sz st = Some (0, st\<lparr>fworld := w',
      fmem := store_bytes (fmem st) buffer (window (blk (fworld st)) (partitions st ! i) (unat offs) (unat sz))\<rparr>)
    \<and> good w' \<and> blk w' = blk (fworld st)"
  using block_read_ok [OF assms(1,2) refl assms(3-6)] by (simp add: window_def)

lemma write_window:
  assumes g: "good (fworld st)" and f: "partition_find_by_name name st = Some i"
    and pt: "part_fits first blks pt" "pt = partitions st ! i" and o: "unat offs mod 512 = 0"
    and lim: "unat offs + unat sz \<le> 512 * unat (plength pt)" and sz: "sz \<noteq> 0"
  shows "\<exists>w'. flash_block_write drv name offs buffer sz st = Some (0, st\<lparr>fworld := w'\<rparr>) \<and> good w'
    \<and> window (blk w') pt (unat offs) (unat sz) = load_bytes (fmem st) buffer (unat sz)
    \<and> (\<forall>off n. off mod 512 = 0 \<longrightarrow> off + n \<le> 512 * unat (plength pt)
        \<longrightarrow> off + n \<le> unat offs \<or> unat offs + unat sz \<le> off \<longrightarrow> window (blk w') pt off n = window (blk (fworld st)) pt off n)"
proof -
  define A c where "A = unat offs div 512" and "c = (unat sz + 511) div 512"
  let ?S = "unat (pstart pt)" and ?D = "load_bytes (fmem st) buffer (512 * c)"
  obtain w' where w: "flash_block_write drv name offs buffer sz st = Some (0, st\<lparr>fworld := w'\<rparr>)" "good w'"
      "blk w' = store_run 512 (blk (fworld st)) (?S + A) c ?D"
    using block_write_ok [OF g f pt(2,1) o lim sz] unfolding A_def c_def by blast
  have oA: "unat offs = 512 * A" using o by (auto simp: A_def)
  have "unat sz \<le> 512 * c" by (simp add: c_def)
  then have "window (blk w') pt (unat offs) (unat sz) = load_bytes (fmem st) buffer (unat sz)"
    unfolding window_run [OF w(2) o lim] A_def [symmetric] c_def [symmetric] unfolding w(3)
    by (simp add: run_store_same load_bytes_def take_map)
  moreover have "window (blk w') pt off n = window (blk (fworld st)) pt off n"
    if off: "off mod 512 = 0" "off + n \<le> 512 * unat (plength pt)" and "off + n \<le> unat offs \<or> unat offs + unat sz \<le> off" for off n
  proof -
    obtain B where B: "off = 512 * B" using off(1) by auto
    have "B + (n + 511) div 512 \<le> A \<or> A + c \<le> B" using that(3) by (auto simp: oA B c_def)
    then show ?thesis unfolding window_run [OF w(2) off] window_run [OF g off] unfolding w(3)
      by (subst run_store_other) (auto simp: B)
  qed
  ultimately show ?thesis using w(1,2) by blast
qed

end

section \<open>The layout\<close>

text \<open>
  What a caller has to provide: regions that do not overlap, a partition that holds the blocks of the
  header and of the tables, and no second controller without the first.
\<close>

definition areas_ok :: "ddr_areas \<Rightarrow> bool" where
  "areas_ok a \<longleftrightarrow> (\<forall>p\<in>{g_ddr_on_flash a, init_ptr a, dqs0_ptr a, dqs1_ptr a}. p \<noteq> 0) \<and> init_len a \<noteq> 0 \<and> dqs_len a \<noteq> 0
     \<and> apart (g_ddr_on_flash a) 40 (init_ptr a) (unat (init_len a))
     \<and> apart (g_ddr_on_flash a) 40 (dqs0_ptr a) (unat (dqs_len a))
     \<and> apart (g_ddr_on_flash a) 40 (dqs1_ptr a) (unat (dqs_len a))
     \<and> apart (init_ptr a) (unat (init_len a)) (dqs0_ptr a) (unat (dqs_len a))
     \<and> apart (init_ptr a) (unat (init_len a)) (dqs1_ptr a) (unat (dqs_len a))
     \<and> apart (dqs0_ptr a) (unat (dqs_len a)) (dqs1_ptr a) (unat (dqs_len a))
     \<and> (memctl1_used a \<longrightarrow> dram_size a \<noteq> 0)"

definition blocks_of :: "u32 \<Rightarrow> nat" where
  "blocks_of n = (unat n + 511) div 512"

definition areas_fit :: "ddr_areas \<Rightarrow> partition \<Rightarrow> bool" where
  "areas_fit a pt \<longleftrightarrow> 1 + blocks_of (init_len a) + 2 * blocks_of (dqs_len a) \<le> unat (plength pt)"

lemma apart_sym: "apart p n q k \<longleftrightarrow> apart q k p n"
  by (auto simp: apart_def)

lemma blocks_of_bounds: "unat n \<le> 512 * blocks_of n" "512 * blocks_of n \<le> unat n + 511"
  by (simp_all add: blocks_of_def)

lemma ROUND_blocks:
  assumes "unat x = 512 * k" and "512 * k + 512 * blocks_of n < 2 ^ 32"
  shows "unat (ROUND (x + n) 512) = 512 * (k + blocks_of n)"
proof -
  have s: "unat (x + n) = 512 * k + unat n"
    using assms blocks_of_bounds [of n] by (subst unat_add_small) auto
  have d: "(512 * k + unat n + 511) div 512 = k + blocks_of n" by (simp add: blocks_of_def)
  show ?thesis
  proof (cases "unat (x + n) + 511 < 2 ^ 32")
    case True
    from ROUND_512 [OF this] show ?thesis by (simp only: s d)
  next
    case False
    then have "2 ^ 32 \<le> 512 * k + unat n + 511" by (simp add: s)
    then have "2 ^ 23 \<le> k + blocks_of n" unfolding blocks_of_def by simp
    then show ?thesis using assms(2) by simp
  qed
qed

lemma new_header_places:
  assumes "areas_fit a pt" and "512 * unat (plength pt) < 2 ^ 32" and "memctl1_used a \<longrightarrow> dram_size a \<noteq> 0"
  shows "unat (init_data (new_header a c 512)) = 512"
    and "unat (ddr0_trn_data (new_header a c 512)) = (if dram_size a \<noteq> 0 then 512 * (1 + blocks_of (init_len a)) else 0)"
    and "unat (ddr1_trn_data (new_header a c 512)) =
      (if memctl1_used a then 512 * (1 + blocks_of (init_len a) + blocks_of (dqs_len a)) else 0)"
proof -
  have lim: "512 * (1 + blocks_of (init_len a) + 2 * blocks_of (dqs_len a)) < 2 ^ 32"
    using assms(2) mult_le_mono2 [OF assms(1) [unfolded areas_fit_def], of 512] by linarith
  have r1: "unat (ROUND 40 512) = 512" by (simp add: ROUND_def)
  have r2: "unat (ROUND (ROUND 40 512 + init_len a) 512) = 512 * (1 + blocks_of (init_len a))"
    using lim by (intro ROUND_blocks) (simp_all add: r1)
  have r3: "unat (ROUND (ROUND (ROUND 40 512 + init_len a) 512 + dqs_len a) 512)
      = 512 * (1 + blocks_of (init_len a) + blocks_of (dqs_len a))"
    by (rule ROUND_blocks) (use lim r2 in simp_all)
  show "unat (init_data (new_header a c 512)) = 512"
    "unat (ddr0_trn_data (new_header a c 512)) = (if dram_size a \<noteq> 0 then 512 * (1 + blocks_of (init_len a)) else 0)"
    "unat (ddr1_trn_data (new_header a c 512)) =
      (if memctl1_used a then 512 * (1 + blocks_of (init_len a) + blocks_of (dqs_len a)) else 0)"
    using assms(3) by (simp_all add: new_header_def Let_def r1 r2 r3)
qed

text \<open>What is on the flash after a save, for the tables that memory \<open>m\<close> holds.\<close>

definition saved :: "(nat \<Rightarrow> bytes) \<Rightarrow> partition \<Rightarrow> ddr_areas \<Rightarrow> u32 \<Rightarrow> memory \<Rightarrow> bool" where
  "saved cell pt a c m \<longleftrightarrow> (let h = new_header a c 512 in
     window cell pt 0 40 = header_bytes h
     \<and> window cell pt (unat (init_data h)) (unat (init_len a)) = load_bytes m (init_ptr a) (unat (init_len a))
     \<and> (dram_size a \<noteq> 0 \<longrightarrow>
          window cell pt (unat (ddr0_trn_data h)) (unat (dqs_len a)) = load_bytes m (dqs0_ptr a) (unat (dqs_len a)))
     \<and> (memctl1_used a \<longrightarrow>
          window cell pt (unat (ddr1_trn_data h)) (unat (dqs_len a)) = load_bytes m (dqs1_ptr a) (unat (dqs_len a))))"


context flash_device
begin

lemma block_size_512: "good (fworld st) \<Longrightarrow> flash_get_block_size st = Some 512"
  using slot by (fastforce simp: flash_get_block_size_def)

text \<open>A write that the code skips when the place is 0.\<close>

lemma write_if:
  assumes g: "good (fworld st)" and f: "partition_find_by_name name st = Some i"
    and pt: "part_fits first blks pt" "pt = partitions st ! i" and sz: "sz \<noteq> 0"
    and o: "c \<longrightarrow> unat offs mod 512 = 0 \<and> unat offs + unat sz \<le> 512 * unat (plength pt) \<and> R"
  shows "\<exists>w'. (if c then flash_block_write drv name offs buffer sz st else Some (0, st)) = Some (0, st\<lparr>fworld := w'\<rparr>)
    \<and> good w' \<and> (c \<longrightarrow> window (blk w') pt (unat offs) (unat sz) = load_bytes (fmem st) buffer (unat sz))
    \<and> (\<forall>off n. off mod 512 = 0 \<longrightarrow> off + n \<le> 512 * unat (plength pt)
        \<longrightarrow> (c \<longrightarrow> off + n \<le> unat offs \<or> unat offs + unat sz \<le> off)
        \<longrightarrow> window (blk w') pt off n = window (blk (fworld st)) pt off n)"
proof (cases c)
  case True
  show ?thesis using write_window [OF g f pt _ _ sz, of offs buffer] o True by auto
next
  case False
  then show ?thesis using g by (intro exI [of _ "fworld st"]) simp
qed

lemma save_config:
  assumes g: "good (fworld st)" and f: "partition_find_by_name CONFIG_PARTITION_DDR st = Some i"
    and pt: "part_fits first blks (partitions st ! i)" and a: "areas_ok a" "areas_fit a (partitions st ! i)"
  shows "\<exists>st1. ddr_save_config_data drv a c st = Some (0, st1) \<and> good (fworld st1) \<and> partitions st1 = partitions st
    \<and> saved (blk (fworld st1)) (partitions st ! i) a c (fmem st)"
proof -
  define h where "h = new_header a c 512"
  let ?pt = "partitions st ! i" and ?I = "unat (init_len a)" and ?D = "unat (dqs_len a)"
  let ?m = "store_bytes (fmem st) (g_ddr_on_flash a) (header_bytes h)"
  define s0 where "s0 = st\<lparr>fmem := ?m\<rparr>"
  have L: "512 * unat (plength ?pt) < 2 ^ 32" using pt by (simp add: part_fits_def)
  have m1: "memctl1_used a \<longrightarrow> dram_size a \<noteq> 0" using a(1) by (simp add: areas_ok_def)
  note P = new_header_places [OF a(2) L m1, of c, folded h_def]
  note B = blocks_of_bounds [of "init_len a"] blocks_of_bounds [of "dqs_len a"]
  note F = a(2) [unfolded areas_fit_def]
  have n0: "ddr0_trn_data h \<noteq> 0 \<longleftrightarrow> dram_size a \<noteq> 0" "ddr1_trn_data h \<noteq> 0 \<longleftrightarrow> memctl1_used a"
    using P(2,3) by (auto simp: word_unat_eq_iff)
  have s0: "good (fworld s0)" "partition_find_by_name CONFIG_PARTITION_DDR s0 = Some i" "?pt = partitions s0 ! i"
    using g f by (simp_all add: s0_def partition_find_by_name_def)
  have z: "init_len a \<noteq> 0" "dqs_len a \<noteq> 0" using a(1) by (simp_all add: areas_ok_def)
  obtain w1 where w1: "flash_block_write drv CONFIG_PARTITION_DDR (init_data h) (init_ptr a) (init_len a) s0
        = Some (0, s0\<lparr>fworld := w1\<rparr>)" "good w1"
      "window (blk w1) ?pt (unat (init_data h)) ?I = load_bytes ?m (init_ptr a) ?I"
    using write_window [OF s0(1,2) pt s0(3), of "init_data h" "init_len a" "init_ptr a"] z(1) P(1) F B
    by (auto simp: s0_def)
  define s1 where "s1 = s0\<lparr>fworld := w1\<rparr>"
  have s1: "good (fworld s1)" "partition_find_by_name CONFIG_PARTITION_DDR s1 = Some i" "?pt = partitions s1 ! i"
    using s0 w1(2) by (simp_all add: s1_def partition_find_by_name_def)
  have o0: "ddr0_trn_data h \<noteq> 0 \<longrightarrow> unat (ddr0_trn_data h) mod 512 = 0 \<and> unat (ddr0_trn_data h) + ?D \<le> 512 * unat (plength ?pt)
      \<and> 512 + ?I \<le> unat (ddr0_trn_data h) \<and> 40 \<le> unat (ddr0_trn_data h)"
    using P F B by (auto simp: n0)
  have o1: "ddr1_trn_data h \<noteq> 0 \<longrightarrow> unat (ddr1_trn_data h) mod 512 = 0 \<and> unat (ddr1_trn_data h) + ?D \<le> 512 * unat (plength ?pt)
      \<and> 512 + ?I \<le> unat (ddr1_trn_data h) \<and> unat (ddr0_trn_data h) + ?D \<le> unat (ddr1_trn_data h)"
    using P F B m1 by (auto simp: n0)
  have oI: "unat (init_data h) = 512" "512 + ?I \<le> 512 * unat (plength ?pt)" "512 \<le> 512 * unat (plength ?pt)"
    using P F B by auto
  obtain w2 where w2: "(if ddr0_trn_data h \<noteq> 0
        then flash_block_write drv CONFIG_PARTITION_DDR (ddr0_trn_data h) (dqs0_ptr a) (dqs_len a) s1 else Some (0, s1))
        = Some (0, s1\<lparr>fworld := w2\<rparr>)" "good w2"
      "ddr0_trn_data h \<noteq> 0 \<longrightarrow> window (blk w2) ?pt (unat (ddr0_trn_data h)) ?D = load_bytes (fmem s1) (dqs0_ptr a) ?D"
      "\<forall>off n. off mod 512 = 0 \<longrightarrow> off + n \<le> 512 * unat (plength ?pt)
        \<longrightarrow> (ddr0_trn_data h \<noteq> 0 \<longrightarrow> off + n \<le> unat (ddr0_trn_data h) \<or> unat (ddr0_trn_data h) + ?D \<le> off)
        \<longrightarrow> window (blk w2) ?pt off n = window (blk (fworld s1)) ?pt off n"
    using write_if [where buffer = "dqs0_ptr a", OF s1(1,2) pt s1(3) z(2) o0]
    by (elim exE conjE) (rule that)
  define s2 where "s2 = s1\<lparr>fworld := w2\<rparr>"
  have s2: "good (fworld s2)" "partition_find_by_name CONFIG_PARTITION_DDR s2 = Some i" "?pt = partitions s2 ! i"
    using s1 w2(2) by (simp_all add: s2_def partition_find_by_name_def)
  obtain w3 where w3: "(if ddr1_trn_data h \<noteq> 0
        then flash_block_write drv CONFIG_PARTITION_DDR (ddr1_trn_data h) (dqs1_ptr a) (dqs_len a) s2 else Some (0, s2))
        = Some (0, s2\<lparr>fworld := w3\<rparr>)" "good w3"
      "ddr1_trn_data h \<noteq> 0 \<longrightarrow> window (blk w3) ?pt (unat (ddr1_trn_data h)) ?D = load_bytes (fmem s2) (dqs1_ptr a) ?D"
      "\<forall>off n. off mod 512 = 0 \<longrightarrow> off + n \<le> 512 * unat (plength ?pt)
        \<longrightarrow> (ddr1_trn_data h \<noteq> 0 \<longrightarrow> off + n \<le> unat (ddr1_trn_data h) \<or> unat (ddr1_trn_data h) + ?D \<le> off)
        \<longrightarrow> window (blk w3) ?pt off n = window (blk (fworld s2)) ?pt off n"
    using write_if [where buffer = "dqs1_ptr a", OF s2(1,2) pt s2(3) z(2) o1]
    by (elim exE conjE) (rule that)
  define s3 where "s3 = s2\<lparr>fworld := w3\<rparr>"
  have s3: "good (fworld s3)" "partition_find_by_name CONFIG_PARTITION_DDR s3 = Some i" "?pt = partitions s3 ! i"
    using s2 w3(2) by (simp_all add: s3_def partition_find_by_name_def)
  obtain w4 where w4: "flash_block_write drv CONFIG_PARTITION_DDR 0 (g_ddr_on_flash a) 40 s3 = Some (0, s3\<lparr>fworld := w4\<rparr>)"
      "good w4" "window (blk w4) ?pt 0 40 = load_bytes (fmem s3) (g_ddr_on_flash a) 40"
      "\<forall>off n. off mod 512 = 0 \<longrightarrow> off + n \<le> 512 * unat (plength ?pt) \<longrightarrow> 40 \<le> off
        \<longrightarrow> window (blk w4) ?pt off n = window (blk (fworld s3)) ?pt off n"
    using write_window [OF s3(1,2) pt s3(3), of 0 40 "g_ddr_on_flash a"] F by auto
  have mem: "fmem s1 = ?m" "fmem s2 = ?m" "fmem s3 = ?m" by (simp_all add: s3_def s2_def s1_def s0_def)
  have wld: "fworld s1 = w1" "fworld s2 = w2" "fworld s3 = w3" by (simp_all add: s3_def s2_def s1_def)
  have keep: "load_bytes ?m p n = load_bytes (fmem st) p n" if "apart (g_ddr_on_flash a) 40 p n" for p n
    using that by (intro load_store_apart) (simp add: apart_sym)
  have run: "ddr_save_config_data drv a c st = Some (0, s3\<lparr>fworld := w4\<rparr>)"
    unfolding ddr_save_config_data_def
    using w1(1) w2(1) w3(1) w4(1)
    by (simp add: block_size_512 [OF g] Let_def h_def [symmetric] s0_def [symmetric] s1_def [symmetric]
        s2_def [symmetric] s3_def [symmetric] split del: if_split cong: if_cong)
  have sv: "saved (blk w4) ?pt a c (fmem st)"
    unfolding saved_def Let_def h_def [symmetric]
  proof (intro conjI impI)
    show "window (blk w4) ?pt 0 40 = header_bytes h"
      using w4(3) load_store_same [of "header_bytes h"] by (simp add: mem)
    show "window (blk w4) ?pt (unat (init_data h)) ?I = load_bytes (fmem st) (init_ptr a) ?I"
      using w4(4) w3(4) w2(4) w1(3) o0 o1 oI a(1) by (simp add: wld mem keep areas_ok_def)
    show "window (blk w4) ?pt (unat (ddr0_trn_data h)) ?D = load_bytes (fmem st) (dqs0_ptr a) ?D" if "dram_size a \<noteq> 0"
      using w4(4) w3(4) w2(3) o0 o1 a(1) that by (simp add: wld mem keep areas_ok_def n0)
    show "window (blk w4) ?pt (unat (ddr1_trn_data h)) ?D = load_bytes (fmem st) (dqs1_ptr a) ?D" if "memctl1_used a"
      using w4(4) w3(3) o1 a(1) that by (simp add: wld mem keep areas_ok_def n0)
  qed
  show ?thesis using run w4(2) sv by (auto simp: s3_def s2_def s1_def s0_def)
qed

text \<open>The header that a start reads, and what it decides.\<close>

lemma header_read:
  assumes g: "good (fworld st)" and f: "partition_find_by_name CONFIG_PARTITION_DDR st = Some i"
    and pt: "part_fits first blks (partitions st ! i)" and a: "areas_ok a" "areas_fit a (partitions st ! i)"
    and sv: "saved (blk (fworld st)) (partitions st ! i) a c m"
  shows "\<exists>st1. flash_block_read drv tmp CONFIG_PARTITION_DDR 0 (g_ddr_on_flash a) 40 st = Some (0, st1)
    \<and> good (fworld st1) \<and> blk (fworld st1) = blk (fworld st) \<and> partitions st1 = partitions st
    \<and> header_at (fmem st1) (g_ddr_on_flash a) = new_header a c 512"
proof -
  have lim: "unat (0 :: u32) + unat (40 :: u32) \<le> 512 * unat (plength (partitions st ! i))"
    using a(2) by (simp add: areas_fit_def)
  have "g_ddr_on_flash a \<noteq> 0" using a(1) by (simp add: areas_ok_def)
  from read_window [OF g f pt _ lim this, of tmp]
  obtain w' where w: "flash_block_read drv tmp CONFIG_PARTITION_DDR 0 (g_ddr_on_flash a) 40 st = Some (0, st\<lparr>fworld := w',
      fmem := store_bytes (fmem st) (g_ddr_on_flash a) (header_bytes (new_header a c 512))\<rparr>)"
    "good w'" "blk w' = blk (fworld st)"
    using sv by (auto simp: saved_def Let_def)
  moreover have "header_at (store_bytes (fmem st) (g_ddr_on_flash a) (header_bytes (new_header a c 512)))
      (g_ddr_on_flash a) = new_header a c 512"
    using load_store_same [of "header_bytes (new_header a c 512)"] by (intro header_loaded) simp
  ultimately show ?thesis by auto
qed

lemma need_training_saved:
  assumes g: "good (fworld st)" and f: "partition_find_by_name CONFIG_PARTITION_DDR st = Some i"
    and pt: "part_fits first blks (partitions st ! i)" and a: "areas_ok a" "areas_fit a (partitions st ! i)"
    and sv: "saved (blk (fworld st)) (partitions st ! i) a c m"
  shows "\<exists>st1. ddr_need_training drv tmp a c' st = Some (if c' = c then 0 else 1, st1)
    \<and> good (fworld st1) \<and> blk (fworld st1) = blk (fworld st) \<and> partitions st1 = partitions st
    \<and> header_at (fmem st1) (g_ddr_on_flash a) = new_header a c 512"
proof -
  obtain st1 where r: "flash_block_read drv tmp CONFIG_PARTITION_DDR 0 (g_ddr_on_flash a) 40 st = Some (0, st1)"
      "good (fworld st1)" "blk (fworld st1) = blk (fworld st)" "partitions st1 = partitions st"
      "header_at (fmem st1) (g_ddr_on_flash a) = new_header a c 512"
    using header_read [OF assms] by blast
  have L: "512 * unat (plength (partitions st ! i)) < 2 ^ 32" using pt by (simp add: part_fits_def)
  have m1: "memctl1_used a \<longrightarrow> dram_size a \<noteq> 0" using a(1) by (simp add: areas_ok_def)
  note P = new_header_places [OF a(2) L m1, of c]
  have "init_data (new_header a c 512) mod 512 = 0" "ddr0_trn_data (new_header a c 512) mod 512 = 0"
    "ddr1_trn_data (new_header a c 512) mod 512 = 0"
    by (simp_all add: word_unat_eq_iff unat_mod P)
  then have "ddr_need_training drv tmp a c' st = Some (if c' = c then 0 else 1, st1)"
    unfolding ddr_need_training_def
    by (simp add: block_size_512 [OF g] r(1,5) Let_def) (auto simp: new_header_def Let_def)
  then show ?thesis using r(2-5) by blast
qed

text \<open>Whatever the header says, the check only reads.\<close>

lemma need_training_reads:
  assumes g: "good (fworld st)" and f: "partition_find_by_name CONFIG_PARTITION_DDR st = Some i"
    and pt: "part_fits first blks (partitions st ! i)" and a: "areas_ok a" "areas_fit a (partitions st ! i)"
  shows "\<exists>r st1. ddr_need_training drv tmp a c st = Some (r, st1) \<and> (r = 0 \<or> r = 1)
    \<and> good (fworld st1) \<and> blk (fworld st1) = blk (fworld st) \<and> partitions st1 = partitions st
    \<and> header_at (fmem st1) (g_ddr_on_flash a) = header_at (store_bytes (fmem st) (g_ddr_on_flash a)
        (window (blk (fworld st)) (partitions st ! i) 0 40)) (g_ddr_on_flash a)
    \<and> (r = 0 \<longrightarrow> magic (header_at (fmem st1) (g_ddr_on_flash a)) = DDRONFLASH_MAGIC)"
proof -
  have lim: "unat (0 :: u32) + unat (40 :: u32) \<le> 512 * unat (plength (partitions st ! i))"
    using a(2) by (simp add: areas_fit_def)
  have "g_ddr_on_flash a \<noteq> 0" using a(1) by (simp add: areas_ok_def)
  from read_window [OF g f pt _ lim this, of tmp]
  obtain w' where w: "flash_block_read drv tmp CONFIG_PARTITION_DDR 0 (g_ddr_on_flash a) 40 st = Some (0, st\<lparr>fworld := w',
      fmem := store_bytes (fmem st) (g_ddr_on_flash a) (window (blk (fworld st)) (partitions st ! i) 0 40)\<rparr>)"
    "good w'" "blk w' = blk (fworld st)"
    by auto
  then show ?thesis
    unfolding ddr_need_training_def by (simp add: block_size_512 [OF g] Let_def)
qed

text \<open>A read that the code skips when the place is 0.\<close>

lemma read_if:
  assumes g: "good (fworld st)" and f: "partition_find_by_name name st = Some i"
    and pt: "part_fits first blks pt" "pt = partitions st ! i" and buf: "buffer \<noteq> 0"
    and o: "c \<longrightarrow> unat offs mod 512 = 0 \<and> unat offs + unat sz \<le> 512 * unat (plength pt)"
  shows "\<exists>w'. (if c then flash_block_read drv tmp name offs buffer sz st else Some (0, st)) = Some (0, st\<lparr>fworld := w',
      fmem := (if c then store_bytes (fmem st) buffer (window (blk (fworld st)) pt (unat offs) (unat sz)) else fmem st)\<rparr>)
    \<and> good w' \<and> blk w' = blk (fworld st)"
proof (cases c)
  case True
  then show ?thesis using read_window [OF g f _ _ _ buf, of offs sz tmp] pt o by auto
next
  case False
  then show ?thesis using g by (intro exI [of _ "fworld st"]) simp
qed

lemma restore_config:
  assumes g: "good (fworld st)" and f: "partition_find_by_name CONFIG_PARTITION_DDR st = Some i"
    and pt: "part_fits first blks (partitions st ! i)" and a: "areas_ok a" "areas_fit a (partitions st ! i)"
    and sv: "saved (blk (fworld st)) (partitions st ! i) a c m"
    and hd: "header_at (fmem st) (g_ddr_on_flash a) = new_header a c 512"
  shows "\<exists>st1. ddr_restore_config_data drv tmp a st = Some (0, st1) \<and> good (fworld st1)
    \<and> blk (fworld st1) = blk (fworld st)
    \<and> load_bytes (fmem st1) (init_ptr a) (unat (init_len a)) = load_bytes m (init_ptr a) (unat (init_len a))
    \<and> (dram_size a \<noteq> 0 \<longrightarrow> load_bytes (fmem st1) (dqs0_ptr a) (unat (dqs_len a)) = load_bytes m (dqs0_ptr a) (unat (dqs_len a)))
    \<and> (memctl1_used a \<longrightarrow> load_bytes (fmem st1) (dqs1_ptr a) (unat (dqs_len a)) = load_bytes m (dqs1_ptr a) (unat (dqs_len a)))"
proof -
  define h where "h = new_header a c 512"
  let ?pt = "partitions st ! i" and ?I = "unat (init_len a)" and ?D = "unat (dqs_len a)"
  let ?win = "window (blk (fworld st)) ?pt"
  have L: "512 * unat (plength ?pt) < 2 ^ 32" using pt by (simp add: part_fits_def)
  have m1: "memctl1_used a \<longrightarrow> dram_size a \<noteq> 0" using a(1) by (simp add: areas_ok_def)
  note P = new_header_places [OF a(2) L m1, of c, folded h_def]
  note B = blocks_of_bounds [of "init_len a"] blocks_of_bounds [of "dqs_len a"]
  note F = a(2) [unfolded areas_fit_def]
  note S = sv [unfolded saved_def Let_def, folded h_def]
  have n0: "ddr0_trn_data h \<noteq> 0 \<longleftrightarrow> dram_size a \<noteq> 0" "ddr1_trn_data h \<noteq> 0 \<longleftrightarrow> memctl1_used a"
    using P(2,3) by (auto simp: word_unat_eq_iff)
  have p: "init_ptr a \<noteq> 0" "dqs0_ptr a \<noteq> 0" "dqs1_ptr a \<noteq> 0" using a(1) by (simp_all add: areas_ok_def)
  have o0: "ddr0_trn_data h \<noteq> 0 \<longrightarrow> unat (ddr0_trn_data h) mod 512 = 0 \<and> unat (ddr0_trn_data h) + ?D \<le> 512 * unat (plength ?pt)"
    using P F B by (auto simp: n0)
  have o1: "ddr1_trn_data h \<noteq> 0 \<longrightarrow> unat (ddr1_trn_data h) mod 512 = 0 \<and> unat (ddr1_trn_data h) + ?D \<le> 512 * unat (plength ?pt)"
    using P F B by (auto simp: n0)
  have oI: "unat (init_data h) mod 512 = 0" "unat (init_data h) + ?I \<le> 512 * unat (plength ?pt)" using P F B by auto
  let ?TI = "?win (unat (init_data h)) ?I" and ?TA = "?win (unat (ddr0_trn_data h)) ?D" and ?TB = "?win (unat (ddr1_trn_data h)) ?D"
  have len: "length ?TI = ?I" "ddr0_trn_data h \<noteq> 0 \<Longrightarrow> length ?TA = ?D" "ddr1_trn_data h \<noteq> 0 \<Longrightarrow> length ?TB = ?D"
    using oI o0 o1 by (simp_all add: length_window [OF g])
  obtain w1 where w1: "flash_block_read drv tmp CONFIG_PARTITION_DDR (init_data h) (init_ptr a) (init_len a) st
      = Some (0, st\<lparr>fworld := w1, fmem := store_bytes (fmem st) (init_ptr a) ?TI\<rparr>)" "good w1" "blk w1 = blk (fworld st)"
    using read_window [OF g f pt oI p(1), of tmp] by blast
  define s1 where "s1 = st\<lparr>fworld := w1, fmem := store_bytes (fmem st) (init_ptr a) ?TI\<rparr>"
  have s1: "good (fworld s1)" "partition_find_by_name CONFIG_PARTITION_DDR s1 = Some i" "?pt = partitions s1 ! i"
      "blk (fworld s1) = blk (fworld st)"
    using f w1(2,3) by (simp_all add: s1_def partition_find_by_name_def)
  have h1: "header_at (fmem s1) (g_ddr_on_flash a) = h"
    using a(1) hd len(1) by (simp add: s1_def areas_ok_def header_kept h_def)
  obtain w2 where w2: "(if ddr0_trn_data h \<noteq> 0
        then flash_block_read drv tmp CONFIG_PARTITION_DDR (ddr0_trn_data h) (dqs0_ptr a) (dqs_len a) s1 else Some (0, s1))
      = Some (0, s1\<lparr>fworld := w2, fmem := (if ddr0_trn_data h \<noteq> 0 then store_bytes (fmem s1) (dqs0_ptr a) ?TA else fmem s1)\<rparr>)"
      "good w2" "blk w2 = blk (fworld st)"
    using read_if [where tmp = tmp, OF s1(1,2) pt s1(3) p(2) o0] unfolding s1(4) by (elim exE conjE) (rule that)
  define s2 where "s2 = s1\<lparr>fworld := w2, fmem := (if ddr0_trn_data h \<noteq> 0 then store_bytes (fmem s1) (dqs0_ptr a) ?TA else fmem s1)\<rparr>"
  have s2: "good (fworld s2)" "partition_find_by_name CONFIG_PARTITION_DDR s2 = Some i" "?pt = partitions s2 ! i"
      "blk (fworld s2) = blk (fworld st)"
    using s1(2,3) w2(2,3) by (simp_all add: s2_def partition_find_by_name_def)
  have h2: "header_at (fmem s2) (g_ddr_on_flash a) = h"
    using a(1) h1 len(2) by (cases "ddr0_trn_data h = 0") (simp_all add: s2_def areas_ok_def header_kept)
  obtain w3 where w3: "(if ddr1_trn_data h \<noteq> 0
        then flash_block_read drv tmp CONFIG_PARTITION_DDR (ddr1_trn_data h) (dqs1_ptr a) (dqs_len a) s2 else Some (0, s2))
      = Some (0, s2\<lparr>fworld := w3, fmem := (if ddr1_trn_data h \<noteq> 0 then store_bytes (fmem s2) (dqs1_ptr a) ?TB else fmem s2)\<rparr>)"
      "good w3" "blk w3 = blk (fworld st)"
    using read_if [where tmp = tmp, OF s2(1,2) pt s2(3) p(3) o1] unfolding s2(4) by (elim exE conjE) (rule that)
  define s3 where "s3 = s2\<lparr>fworld := w3, fmem := (if ddr1_trn_data h \<noteq> 0 then store_bytes (fmem s2) (dqs1_ptr a) ?TB else fmem s2)\<rparr>"
  have run: "ddr_restore_config_data drv tmp a st = Some (0, s3)"
    unfolding ddr_restore_config_data_def
    using w1(1) w2(1) w3(1)
    by (simp add: Let_def hd [folded h_def] h1 h2 s1_def [symmetric] s2_def [symmetric] s3_def [symmetric]
        split del: if_split cong: if_cong)
  have small: "?I < 4294967296" "?D < 4294967296"
    using unat_u32_less [of "init_len a"] unat_u32_less [of "dqs_len a"] by simp_all
  have ap: "apart (init_ptr a) ?I (dqs0_ptr a) ?D" "apart (init_ptr a) ?I (dqs1_ptr a) ?D" "apart (dqs0_ptr a) ?D (dqs1_ptr a) ?D"
    using a(1) by (simp_all add: areas_ok_def)
  have same: "load_bytes (store_bytes mm q bs) q n = bs" if "length bs = n" "n < 4294967296" for mm q bs n
    using load_store_same [of bs mm q] that by simp
  have "load_bytes (fmem s3) (init_ptr a) ?I = ?TI"
    using ap by (auto simp: s3_def s2_def s1_def load_store_apart same len small)
  moreover have "load_bytes (fmem s3) (dqs0_ptr a) ?D = ?TA" if "dram_size a \<noteq> 0"
    using ap that by (auto simp: s3_def s2_def load_store_apart same len small n0 [symmetric])
  moreover have "load_bytes (fmem s3) (dqs1_ptr a) ?D = ?TB" if "memctl1_used a"
    using that by (simp add: s3_def same len small n0 [symmetric])
  ultimately show ?thesis
    using run S w3(2,3) by (auto simp: s3_def)
qed

end

section \<open>A restart\<close>

text \<open>
  C20. On a working device, with the tables in separate regions, a partition that is large enough and the second
  controller in use only beside the first, a save succeeds.  After a restart, whatever memory then holds,
  the header is accepted for the same checksum of the initial settings and for no other, and a restore brings back,
  byte for byte, the initial settings and the training table of each controller in use.
\<close>

theorem ddr_tables_survive_restart:
  assumes "flash_device drv good blk first blks" and "good (fworld st)"
    and "partition_find_by_name CONFIG_PARTITION_DDR st = Some i" and "part_fits first blks (partitions st ! i)"
    and "areas_ok a" and "areas_fit a (partitions st ! i)"
  shows "\<exists>st1. ddr_save_config_data drv a c st = Some (0, st1) \<and> good (fworld st1)
    \<and> (\<forall>m c' st2. st2 = st1\<lparr>fmem := m\<rparr> \<longrightarrow>
      (\<exists>st3. ddr_need_training drv tmp a c' st2 = Some (if c' = c then 0 else 1, st3)
       \<and> (\<exists>st4. ddr_restore_config_data drv tmp' a st3 = Some (0, st4) \<and> good (fworld st4)
         \<and> load_bytes (fmem st4) (init_ptr a) (unat (init_len a)) = load_bytes (fmem st) (init_ptr a) (unat (init_len a))
         \<and> (dram_size a \<noteq> 0 \<longrightarrow> load_bytes (fmem st4) (dqs0_ptr a) (unat (dqs_len a))
              = load_bytes (fmem st) (dqs0_ptr a) (unat (dqs_len a)))
         \<and> (memctl1_used a \<longrightarrow> load_bytes (fmem st4) (dqs1_ptr a) (unat (dqs_len a))
              = load_bytes (fmem st) (dqs1_ptr a) (unat (dqs_len a))))))"
proof -
  let ?pt = "partitions st ! i"
  obtain st1 where s1: "ddr_save_config_data drv a c st = Some (0, st1)" "good (fworld st1)" "partitions st1 = partitions st"
      "saved (blk (fworld st1)) ?pt a c (fmem st)"
    using flash_device.save_config [OF assms] by blast
  have "\<exists>st3. ddr_need_training drv tmp a c' st2 = Some (if c' = c then 0 else 1, st3)
       \<and> (\<exists>st4. ddr_restore_config_data drv tmp' a st3 = Some (0, st4) \<and> good (fworld st4)
         \<and> load_bytes (fmem st4) (init_ptr a) (unat (init_len a)) = load_bytes (fmem st) (init_ptr a) (unat (init_len a))
         \<and> (dram_size a \<noteq> 0 \<longrightarrow> load_bytes (fmem st4) (dqs0_ptr a) (unat (dqs_len a))
              = load_bytes (fmem st) (dqs0_ptr a) (unat (dqs_len a)))
         \<and> (memctl1_used a \<longrightarrow> load_bytes (fmem st4) (dqs1_ptr a) (unat (dqs_len a))
              = load_bytes (fmem st) (dqs1_ptr a) (unat (dqs_len a))))"
    if st2: "st2 = st1\<lparr>fmem := m\<rparr>" for m c' st2
  proof -
    have f2: "good (fworld st2)" "partition_find_by_name CONFIG_PARTITION_DDR st2 = Some i"
      "part_fits first blks (partitions st2 ! i)" "areas_fit a (partitions st2 ! i)"
      "saved (blk (fworld st2)) (partitions st2 ! i) a c (fmem st)"
      using s1 assms by (simp_all add: st2 partition_find_by_name_def)
    obtain st3 where s3: "ddr_need_training drv tmp a c' st2 = Some (if c' = c then 0 else 1, st3)" "good (fworld st3)"
        "blk (fworld st3) = blk (fworld st2)" "partitions st3 = partitions st2"
        "header_at (fmem st3) (g_ddr_on_flash a) = new_header a c 512"
      using flash_device.need_training_saved [OF assms(1) f2(1-3) assms(5) f2(4,5), of tmp c'] by blast
    have f3: "partition_find_by_name CONFIG_PARTITION_DDR st3 = Some i" "part_fits first blks (partitions st3 ! i)"
      "areas_fit a (partitions st3 ! i)" "saved (blk (fworld st3)) (partitions st3 ! i) a c (fmem st)"
      using f2 s3(3,4) by (simp_all add: partition_find_by_name_def)
    show ?thesis
      using flash_device.restore_config [OF assms(1) s3(2) f3(1,2) assms(5) f3(3,4) s3(5), of tmp'] s3(1) by blast
  qed
  then show ?thesis using s1(1,2) by blast
qed

definition demo_areas :: ddr_areas where
  "demo_areas = \<lparr>g_ddr_on_flash = 0x100, init_ptr = 0x1000, init_len = 2296, dqs0_ptr = 0x3000, dqs1_ptr = 0x4000,
     dqs_len = 336, dram_size = 0x20000000, memctl1_cs0_size = 0x20000000, memctl1_cs1_size = 0\<rparr>"

definition ddr_flash :: "card_state flash" where
  "ddr_flash = demo_flash\<lparr>partitions := [\<lparr>sector_size = 512, pstart = 0x4000, plength = 16, pname = CONFIG_PARTITION_DDR\<rparr>]\<rparr>"

lemma ddr_tables_survive_restart_witness:
  "\<exists>st1 st3 st4. ddr_save_config_data sim_host demo_areas 7 ddr_flash = Some (0, st1)
    \<and> ddr_need_training sim_host [] demo_areas 7 (st1\<lparr>fmem := (\<lambda>_. 0)\<rparr>) = Some (0, st3)
    \<and> ddr_restore_config_data sim_host [] demo_areas st3 = Some (0, st4)
    \<and> load_bytes (fmem st4) 0x3000 336 = load_bytes (fmem ddr_flash) 0x3000 336"
proof -
  have ok: "areas_ok demo_areas" by (simp add: areas_ok_def demo_areas_def apart_def memctl1_used_def)
  have f: "partition_find_by_name CONFIG_PARTITION_DDR ddr_flash = Some 0"
    by (simp add: partition_find_by_name_def ddr_flash_def)
  have fit: "areas_fit demo_areas (partitions ddr_flash ! 0)"
    by (simp add: areas_fit_def demo_areas_def ddr_flash_def blocks_of_def)
  have pt: "part_fits (unat (boot_part_size sim_mmc div 512)) (unat (bdev_lba sim_mmc)) (partitions ddr_flash ! 0)"
    using demo_flash_fits by (simp add: part_fits_def demo_flash_def ddr_flash_def)
  have g: "sim.device_good 0 sim_mmc (fworld ddr_flash)" using demo_flash_good by (simp add: ddr_flash_def)
  from ddr_tables_survive_restart [OF simdev.flash.flash_device_axioms g f pt ok fit, of 7 "[]" "[]"]
  obtain st1 where s1: "ddr_save_config_data sim_host demo_areas 7 ddr_flash = Some (0, st1)"
    and all: "\<And>m c' st2. st2 = st1\<lparr>fmem := m\<rparr> \<Longrightarrow>
      (\<exists>st3. ddr_need_training sim_host [] demo_areas c' st2 = Some (if c' = 7 then 0 else 1, st3)
       \<and> (\<exists>st4. ddr_restore_config_data sim_host [] demo_areas st3 = Some (0, st4)
         \<and> (dram_size demo_areas \<noteq> 0 \<longrightarrow> load_bytes (fmem st4) (dqs0_ptr demo_areas) (unat (dqs_len demo_areas))
              = load_bytes (fmem ddr_flash) (dqs0_ptr demo_areas) (unat (dqs_len demo_areas)))))"
    by meson
  show ?thesis using s1 all [where m = "\<lambda>_. 0" and c' = 7, OF refl] by (auto simp: demo_areas_def)
qed

section \<open>Only the second controller\<close>

text \<open>
  Without memory behind the first controller the second table is placed on top of the initial settings, whose
  place the other case rounds up from.
\<close>

lemma second_table_overwrites:
  assumes "dram_size a = 0" and "memctl1_used a" and "dqs_len a \<noteq> 0" and "unat (dqs_len a) \<le> 512"
  shows "ddr1_trn_data (new_header a c 512) = init_data (new_header a c 512)"
proof -
  have "unat (ROUND (dqs_len a) 512) = 512 * ((unat (dqs_len a) + 511) div 512)"
    using assms(4) by (intro ROUND_512) simp
  moreover have "(unat (dqs_len a) + 511) div 512 = 1"
    using assms(3,4) by (intro div_nat_eqI) (simp_all add: word_unat_eq_iff)
  moreover have "unat (ROUND 40 512) = 512" by (simp add: ROUND_def)
  ultimately have "ROUND (dqs_len a) 512 = ROUND 40 512" by (simp add: word_unat_eq_iff)
  then show ?thesis using assms(1,2) by (simp add: new_header_def Let_def)
qed

end
