(* ===== verification/MemctlInit.thy ===== *)
theory MemctlInit
  imports ZqSelect DdrOnFlash
begin

text \<open>
  board/leadcore/lc186x/comip\_memctl\_lc1860.c and memctl\_multi\_ddr.c: the start of the DRAM controllers in the
  build of include/configs/comip\_lc1860\_evb2.h (several memory chips, gate training, training results on flash).
  The global data the file sets is part of the record \<open>memctl\<close>, next to the state of the training and of the
  flash.  A start that hangs has no result.  The messages are not modelled.
\<close>

section \<open>Registers\<close>

definition DENALI_CTL_00 :: u32 where "DENALI_CTL_00 = 0x00"
definition DENALI_CTL_44 :: u32 where "DENALI_CTL_44 = 0xB0"
definition DENALI_CTL_45 :: u32 where "DENALI_CTL_45 = 0xB4"
definition DENALI_CTL_87 :: u32 where "DENALI_CTL_87 = 0x15C"
definition DENALI_CTL_91 :: u32 where "DENALI_CTL_91 = 0x16C"
definition DENALI_CTL_92 :: u32 where "DENALI_CTL_92 = 0x170"
definition DENALI_PHY_162 :: u32 where "DENALI_PHY_162 = 0x688"
definition DENALI_PHY_164 :: u32 where "DENALI_PHY_164 = 0x690"
definition DENALI_PHY_165 :: u32 where "DENALI_PHY_165 = 0x694"
definition DDR_PWR_CLKEN0 :: u32 where "DDR_PWR_CLKEN0 = DDR_PWR_BASE + 0x40"
definition DDR_PWR_MEMCTL0_PD_CTL :: u32 where "DDR_PWR_MEMCTL0_PD_CTL = DDR_PWR_BASE + 0xb4"
definition DDR_PWR_MEMCTL1_PD_CTL :: u32 where "DDR_PWR_MEMCTL1_PD_CTL = DDR_PWR_BASE + 0xb8"
definition DDR_PWR_MEMCTL_PD_CNT1 :: u32 where "DDR_PWR_MEMCTL_PD_CNT1 = DDR_PWR_BASE + 0xbc"
definition DDR_PWR_MEMCTL_PD_CNT2 :: u32 where "DDR_PWR_MEMCTL_PD_CNT2 = DDR_PWR_BASE + 0xc0"
definition DDR_PWR_MEMCTL_PD_CNT3 :: u32 where "DDR_PWR_MEMCTL_PD_CNT3 = DDR_PWR_BASE + 0xc4"
definition DDR_PWR_DDRBUSLPCTL :: u32 where "DDR_PWR_DDRBUSLPCTL = DDR_PWR_BASE + 0x190"
definition DDR_PWR_MEMCTLLPCTL :: u32 where "DDR_PWR_MEMCTLLPCTL = DDR_PWR_BASE + 0x1a8"
definition DDR_PWR_DDR_INITIALIZED :: u32 where "DDR_PWR_DDR_INITIALIZED = DDR_PWR_BASE + 0x1d0"
definition DDR_PWR_MEMCTL0EN :: u32 where "DDR_PWR_MEMCTL0EN = DDR_PWR_BASE + 0x1e0"
definition DDR_PWR_MEMCTL1EN :: u32 where "DDR_PWR_MEMCTL1EN = DDR_PWR_BASE + 0x1e4"

section \<open>State\<close>

record ('h, 'c) memctl =
  tr :: "'h trainer"
  fl :: "'c flash"
  places :: ddr_areas
  bb_id :: u32
  m0_cs0_size :: u64
  m0_cs1_size :: u64
  gd_dram_base :: u64
  gd_dram_size :: u64
  gd_dram2_base :: u64
  gd_dram2_size :: u64
  gd_nr_dram_banks :: u8
  gd_ddr_2cs_signal :: u8
  gd_on2_fix :: u8
  gd_on2_size :: u64
  gd_on2_base :: u64
  gd_fb_fix :: u8
  gd_fb_size :: u64
  gd_fb_base :: u64
  gd_fb_num :: u8

text \<open>A command of the training in this state.\<close>

definition in_tr :: "('h trainer, 'a) state \<Rightarrow> ('h, 'c) memctl \<Rightarrow> 'a \<times> ('h, 'c) memctl" where
  "in_tr f s = (case run_state f (tr s) of (x, t) \<Rightarrow> (x, s\<lparr>tr := t\<rparr>))"

section \<open>Power\<close>

definition memctl_lp_datas :: "u32 \<Rightarrow> memctl_data list" where
  "memctl_lp_datas i = [(DDR_CTL_BASE i + DENALI_CTL_44, 0x00040400), (DDR_CTL_BASE i + DENALI_CTL_45, 0x2000000)]"

definition write_datas :: "'h bus \<Rightarrow> u32 \<Rightarrow> memctl_data list \<Rightarrow> (('h, 'x) machine_scheme, unit) state" where
  "write_datas b base xs = for_upto (length xs) (\<lambda>i. writel b (snd (xs ! i)) (base + fst (xs ! i)))"

definition memctl_low_power_enable :: "'h bus \<Rightarrow> ('h trainer, unit) state" where
  "memctl_low_power_enable b = do {
     s \<leftarrow> State_Monad.get;
     (if ram_size s \<noteq> 0 then write_datas b 0 (memctl_lp_datas 0) else State_Monad.return ());
     (if m1_cs0_size s \<noteq> 0 \<or> m1_cs1_size s \<noteq> 0 then write_datas b 0 (memctl_lp_datas 1) else State_Monad.return ());
     val \<leftarrow> readl b DDR_PWR_DDRBUSLPCTL;
     writel b (val OR 3) DDR_PWR_DDRBUSLPCTL;
     writel b 0x707 DDR_PWR_MEMCTLLPCTL }"

definition memctl_power_down_mask :: "'h bus \<Rightarrow> u32 \<Rightarrow> (('h, 'x) machine_scheme, unit) state" where
  "memctl_power_down_mask b msk = (if msk \<noteq> 0
     then do { writel b 0x100010 DDR_PWR_MEMCTL0_PD_CTL; writel b 0x100010 DDR_PWR_MEMCTL1_PD_CTL }
     else do { writel b 0x100000 DDR_PWR_MEMCTL0_PD_CTL; writel b 0x100000 DDR_PWR_MEMCTL1_PD_CTL })"

text \<open>The waits: \<open>n\<close> reads at most; the result says whether the condition came.\<close>

primrec await_work2 :: "'h bus \<Rightarrow> u32 \<Rightarrow> nat \<Rightarrow> (('h, 'x) machine_scheme, bool) state" where
  "await_work2 b r 0 = State_Monad.return False"
| "await_work2 b r (Suc n) = do {
     val \<leftarrow> readl b r;
     if drop_bit 12 val AND 0x7 = 0 then State_Monad.return True else await_work2 b r n }"

primrec await_complete :: "'h bus \<Rightarrow> u32 \<Rightarrow> nat \<Rightarrow> (('h, 'x) machine_scheme, bool) state" where
  "await_complete b base 0 = State_Monad.return False"
| "await_complete b base (Suc n) = do {
     val \<leftarrow> readl b (base + DENALI_CTL_91);
     if drop_bit 4 val AND 0x1 \<noteq> 0 then do { writel b val (base + DENALI_CTL_92); State_Monad.return True }
     else await_complete b base n }"

primrec await_power_down :: "'h bus \<Rightarrow> u32 \<Rightarrow> nat \<Rightarrow> (('h, 'x) machine_scheme, bool) state" where
  "await_power_down b ref 0 = State_Monad.return False"
| "await_power_down b ref (Suc n) = do {
     val \<leftarrow> readl b DDR_PWR_INTR_RAW;
     if val AND ref = ref then State_Monad.return True else await_power_down b ref n }"

text \<open>\<open>__memctl_init\<close>\<close>

definition start_memctl :: "'h bus \<Rightarrow> u32 \<Rightarrow> memctl_data list \<Rightarrow> (('h, 'x) machine_scheme, int) state" where
  "start_memctl b i data = do {
     let base = DDR_CTL_BASE (if i \<noteq> 0 then 1 else 0);
     let pd_ctl_reg = (if i \<noteq> 0 then DDR_PWR_MEMCTL1_PD_CTL else DDR_PWR_MEMCTL0_PD_CTL);
     if data = [] then State_Monad.return (- 1)
     else do {
       writel b 0x20002 pd_ctl_reg;
       ready \<leftarrow> await_work2 b pd_ctl_reg 10000000;
       if \<not> ready then State_Monad.return (- 1)
       else do {
         write_datas b base data;
         val \<leftarrow> readl b (base + DENALI_CTL_00);
         writel b (val OR 0x1) (base + DENALI_CTL_00);
         State_Monad.return 0 } } }"

definition memctl_init_complete :: "'h bus \<Rightarrow> u32 \<Rightarrow> (('h, 'x) machine_scheme, int) state" where
  "memctl_init_complete b i = do {
     finished \<leftarrow> await_complete b (DDR_CTL_BASE (if i \<noteq> 0 then 1 else 0)) 10000000;
     State_Monad.return (if finished then 0 else - 1) }"

definition memctl_wait_power_down :: "'h bus \<Rightarrow> u32 \<Rightarrow> u32 \<Rightarrow> (('h, 'x) machine_scheme, int) state" where
  "memctl_wait_power_down b use0 use1 = do {
     (if use0 = 0 then writel b 0 DDR_PWR_MEMCTL0EN else State_Monad.return ());
     (if use1 = 0 then writel b 0 DDR_PWR_MEMCTL1EN else State_Monad.return ());
     let ref = (if use0 = 0 then push_bit 14 1 else 0) OR (if use1 = 0 then push_bit 15 1 else 0);
     down \<leftarrow> await_power_down b ref 100000;
     writel b (push_bit 14 3) DDR_PWR_INTR_APA7;
     State_Monad.return (if down then 0 else 1) }"

definition memctl_disable_clock :: "'h bus \<Rightarrow> u32 \<Rightarrow> u32 \<Rightarrow> (('h, 'x) machine_scheme, int) state" where
  "memctl_disable_clock b use0 use1 = do {
     writel b ((if use0 = 0 then push_bit 16 1 else 0) OR (if use1 = 0 then push_bit 17 1 else 0)) DDR_PWR_CLKEN0;
     State_Monad.return 0 }"

definition cpu_is_lc1860_eco2 :: "('h, 'c) memctl \<Rightarrow> bool" where
  "cpu_is_lc1860_eco2 s \<longleftrightarrow> bb_id s AND push_bit 8 0x3 = push_bit 8 0x2"

definition memctl_disable_pll_bypass :: "bool \<Rightarrow> ('h trainer, int) state" where
  "memctl_disable_pll_bypass eco2 =
     (if \<not> eco2 then State_Monad.return 0
      else do {
        r1 \<leftarrow> memctl_refresh_initdatas DENALI_PHY_162 2 (push_bit 1 1);
        r2 \<leftarrow> memctl_refresh_initdatas DENALI_PHY_164 2 (push_bit 1 1);
        r3 \<leftarrow> memctl_refresh_initdatas DENALI_PHY_165 0 (push_bit 0 1);
        State_Monad.return (r1 + r2 + r3) })"

section \<open>The memory chip\<close>

record memctl_multi_ddr_struct =
  mid :: u32
  did :: u32
  mdata :: "memctl_data list"
  mlength :: u32
  cs00 :: u64
  cs01 :: u64
  cs10 :: u64
  cs11 :: u64

text \<open>The entry of the chip, if there is one; a table of another length hangs the machine.\<close>

definition memctl_multi_ddr_get_data ::
  "memctl_multi_ddr_struct list \<Rightarrow> nat \<Rightarrow> 'c flash \<Rightarrow> memctl_multi_ddr_struct option option" where
  "memctl_multi_ddr_get_data multi len f =
     (case flash_get_devinfo f of
        (ret, info) \<Rightarrow>
          if ret < 0 then Some None
          else case info of
            None \<Rightarrow> Some None
          | Some (m, d) \<Rightarrow> (case find (\<lambda>e. m = mid e \<and> d = did e) multi of
              None \<Rightarrow> Some None
            | Some e \<Rightarrow> if of_nat len \<noteq> mlength e then None else Some (Some e)))"

definition CONFIG_MEMCTL0_CS0_SIZE :: u64 where "CONFIG_MEMCTL0_CS0_SIZE = 0x20000000"
definition CONFIG_MEMCTL0_CS1_SIZE :: u64 where "CONFIG_MEMCTL0_CS1_SIZE = 0x20000000"
definition CONFIG_MEMCTL1_CS0_SIZE :: u64 where "CONFIG_MEMCTL1_CS0_SIZE = 0"
definition CONFIG_MEMCTL1_CS1_SIZE :: u64 where "CONFIG_MEMCTL1_CS1_SIZE = 0"
definition CONFIG_FB_MEMORY_SIZE :: u64 where "CONFIG_FB_MEMORY_SIZE = 0x00400000"
definition CONFIG_FB_MEMORY_NUM :: nat where "CONFIG_FB_MEMORY_NUM = 3"
definition PHYS_SDRAM_1 :: u64 where "PHYS_SDRAM_1 = 0"
definition COMIP_MEMCTL0_CS1_BASE :: u64 where "COMIP_MEMCTL0_CS1_BASE = 0x100000000"
definition COMIP_MEMCTL1_CS0_BASE :: u64 where "COMIP_MEMCTL1_CS0_BASE = 0x40000000"

definition set_chip :: "memctl_multi_ddr_struct option \<Rightarrow> ('h, 'c) memctl \<Rightarrow> ('h, 'c) memctl" where
  "set_chip ddr s = (case ddr of
     Some e \<Rightarrow> s\<lparr>m0_cs0_size := cs00 e, m0_cs1_size := cs01 e,
        tr := (tr s)\<lparr>m1_cs0_size := cs10 e, m1_cs1_size := cs11 e, init_datas := mdata e\<rparr>\<rparr>
   | None \<Rightarrow> s\<lparr>m0_cs0_size := CONFIG_MEMCTL0_CS0_SIZE, m0_cs1_size := CONFIG_MEMCTL0_CS1_SIZE,
        tr := (tr s)\<lparr>m1_cs0_size := CONFIG_MEMCTL1_CS0_SIZE, m1_cs1_size := CONFIG_MEMCTL1_CS1_SIZE\<rparr>\<rparr>)"

text \<open>
  The banks of memory that the rest of the loader sees.  With at most 1 GB behind the first controller the
  banks are the controllers, otherwise the chip selects.
\<close>

definition set_banks :: "('h, 'c) memctl \<Rightarrow> ('h, 'c) memctl" where
  "set_banks s =
     (let m00 = m0_cs0_size s; m01 = m0_cs1_size s; m10 = m1_cs0_size (tr s); m11 = m1_cs1_size (tr s);
          s = (if m00 + m01 \<le> 1024 * 1024 * 1024 then s\<lparr>gd_dram_base := 0, gd_dram_size := m00 + m01\<rparr>
               else s\<lparr>gd_dram_base := 0, gd_dram_size := m00 + m10\<rparr>);
          s = s\<lparr>tr := (tr s)\<lparr>ram_size := ucast (gd_dram_size s)\<rparr>\<rparr>;
          s = (if m00 + m01 \<le> 1024 * 1024 * 1024
               then s\<lparr>gd_dram2_size := m10 + m11, gd_dram2_base := (if m10 + m11 > 0 then COMIP_MEMCTL1_CS0_BASE else 0)\<rparr>
               else s\<lparr>gd_dram2_size := m01 + m11, gd_dram2_base := COMIP_MEMCTL0_CS1_BASE\<rparr>);
          s = s\<lparr>gd_nr_dram_banks := (if gd_dram2_size s \<noteq> 0 then 2 else 1)\<rparr>;
          s = (if m01 \<noteq> 0 \<or> m11 \<noteq> 0 then s\<lparr>gd_ddr_2cs_signal := 1\<rparr> else s);
          s = s\<lparr>gd_on2_fix := 0, gd_on2_size := 0, gd_on2_base := PHYS_SDRAM_1 + ucast (ram_size (tr s))\<rparr>
      in s\<lparr>gd_fb_fix := 1, gd_fb_size := CONFIG_FB_MEMORY_SIZE,
           gd_fb_base := gd_on2_base s - of_nat CONFIG_FB_MEMORY_NUM * CONFIG_FB_MEMORY_SIZE,
           gd_fb_num := of_nat CONFIG_FB_MEMORY_NUM\<rparr>)"

text \<open>The first entry of register 87 gets the signal of the second chip select.\<close>

fun put_first :: "u32 \<Rightarrow> u32 \<Rightarrow> memctl_data list \<Rightarrow> memctl_data list" where
  "put_first r v [] = []"
| "put_first r v (e # xs) = (if fst e = r then (r, v) # xs else e # put_first r v xs)"

definition init_entries :: "'h trainer \<Rightarrow> nat" where
  "init_entries t = init_datas_length t div 8"

definition set_2cs_signal :: "('h, 'c) memctl \<Rightarrow> ('h, 'c) memctl" where
  "set_2cs_signal s = (let t = tr s; n = init_entries t; v = (if gd_ddr_2cs_signal s = 1 then 0xc03 else 0xc01) in
     s\<lparr>tr := t\<lparr>init_datas := put_first DENALI_CTL_87 v (take n (init_datas t)) @ drop n (init_datas t)\<rparr>\<rparr>)"

section \<open>Tables in memory\<close>

text \<open>
  The flash functions see the tables as bytes in memory, the training sees them as lists: both are the same
  arrays.  \<open>put_tables\<close> and \<open>get_tables\<close> pass from one view to the other.
\<close>

definition table_bytes :: "memctl_data list \<Rightarrow> bytes" where
  "table_bytes xs = concat (map (\<lambda>e. le_bytes 4 (fst e) @ le_bytes 4 (snd e)) xs)"

definition table_at :: "memory \<Rightarrow> u32 \<Rightarrow> nat \<Rightarrow> memctl_data list" where
  "table_at m p n = map (\<lambda>i. (load_u32 m (p + 8 * of_nat i), load_u32 m (p + 8 * of_nat i + 4))) [0..<n]"

definition areas_of :: "('h, 'c) memctl \<Rightarrow> ddr_areas" where
  "areas_of s = (places s)\<lparr>init_len := of_nat (init_datas_length (tr s)), dqs_len := of_nat (memctl_dqs_length (tr s)),
     dram_size := gd_dram_size s, memctl1_cs0_size := m1_cs0_size (tr s), memctl1_cs1_size := m1_cs1_size (tr s)\<rparr>"

definition dqs_entries :: "'h trainer \<Rightarrow> nat" where
  "dqs_entries t = memctl_dqs_length t div 8"

definition put_tables :: "('h, 'c) memctl \<Rightarrow> ('h, 'c) memctl" where
  "put_tables s = (let a = areas_of s; t = tr s; m = fmem (fl s);
     m = store_bytes m (init_ptr a) (table_bytes (take (init_entries t) (init_datas t)));
     m = store_bytes m (dqs0_ptr a) (table_bytes (take (dqs_entries t) (memctl_dqs 0 t)));
     m = store_bytes m (dqs1_ptr a) (table_bytes (take (dqs_entries t) (memctl_dqs 1 t)))
     in s\<lparr>fl := (fl s)\<lparr>fmem := m\<rparr>\<rparr>)"

definition get_tables :: "('h, 'c) memctl \<Rightarrow> ('h, 'c) memctl" where
  "get_tables s = (let a = areas_of s; t = tr s; m = fmem (fl s); n = init_entries t; k = dqs_entries t;
     t = t\<lparr>init_datas := table_at m (init_ptr a) n @ drop n (init_datas t)\<rparr>;
     t = set_memctl_dqs 0 (table_at m (dqs0_ptr a) k @ drop k (memctl_dqs 0 t)) t;
     t = set_memctl_dqs 1 (table_at m (dqs1_ptr a) k @ drop k (memctl_dqs 1 t)) t
     in s\<lparr>tr := t\<rparr>)"

section \<open>The start\<close>

text \<open>Up to the decision about training: the chip, the banks, the settings, then the flash.\<close>

definition prepare ::
  "memctl_multi_ddr_struct list \<Rightarrow> ('h, 'c) memctl \<Rightarrow> ('h, 'c) memctl option" where
  "prepare multi s = do {
     ddr \<leftarrow> memctl_multi_ddr_get_data multi (init_datas_length (tr s)) (fl s);
     let s = set_2cs_signal (set_banks (set_chip ddr s));
     let s = s\<lparr>tr := (tr s)\<lparr>need_gate_training := True\<rparr>\<rparr>;
     let (r, s) = in_tr (memctl_disable_pll_bypass (cpu_is_lc1860_eco2 s)) s;
     if r \<noteq> 0 then None
     else Some (snd (in_tr memctl_training_refresh_info s)) }"

definition init_checksum :: "('h, 'c) memctl \<Rightarrow> u32" where
  "init_checksum s = ddr_get_checksum (fmem (fl s)) (init_ptr (areas_of s)) (init_len (areas_of s))"

text \<open>\<open>tmp\<close> and \<open>tmp'\<close>: what the stack holds at the reads.\<close>

definition restore_or_train ::
  "'c mmc_host \<Rightarrow> bytes \<Rightarrow> bytes \<Rightarrow> ('h, 'c) memctl \<Rightarrow> (bool \<times> ('h, 'c) memctl) option" where
  "restore_or_train drv tmp tmp' s = do {
     let s = put_tables s;
     (need, f) \<leftarrow> ddr_need_training drv tmp (areas_of s) (init_checksum s) (fl s);
     (need, f) \<leftarrow> (if need = 0 then do {
         (r, f) \<leftarrow> ddr_restore_config_data drv tmp' (areas_of s) f;
         Some (if r \<noteq> 0 then 1 else need, f) }
       else Some (need, f));
     Some (need \<noteq> 0, get_tables (s\<lparr>fl := f\<rparr>)) }"

definition uses :: "('h, 'c) memctl \<Rightarrow> u32 \<times> u32" where
  "uses s = (if gd_dram_size s \<noteq> 0 then 1 else 0,
     if m1_cs0_size (tr s) \<noteq> 0 \<or> m1_cs1_size (tr s) \<noteq> 0 then 1 else 0)"

definition start_both :: "'h bus \<Rightarrow> u32 \<times> u32 \<Rightarrow> ('h trainer, int) state" where
  "start_both b use = do {
     t \<leftarrow> State_Monad.get;
     let data = take (init_entries t) (init_datas t);
     r \<leftarrow> (if fst use \<noteq> 0 then start_memctl b 0 data
          else do { writel b 0 DDR_PWR_MEMCTL0EN; State_Monad.return 0 });
     if r \<noteq> 0 then State_Monad.return (- 1)
     else do {
       r \<leftarrow> (if snd use \<noteq> 0 then start_memctl b 1 data
            else do { writel b 0 DDR_PWR_MEMCTL1EN; State_Monad.return 0 });
       if r \<noteq> 0 then State_Monad.return (- 1)
       else do {
         r \<leftarrow> (if fst use \<noteq> 0 then memctl_init_complete b 0 else State_Monad.return 0);
         if r \<noteq> 0 then State_Monad.return (- 1)
         else do {
           r \<leftarrow> (if snd use \<noteq> 0 then memctl_init_complete b 1 else State_Monad.return 0);
           State_Monad.return (if r \<noteq> 0 then - 1 else 0) } } } }"

definition train_all :: "'h bus \<Rightarrow> (nat \<Rightarrow> u32 \<times> u32) \<Rightarrow> u32 \<times> u32 \<Rightarrow> ('h trainer, unit) state" where
  "train_all b junk use = do {
     (if fst use = 0 \<or> snd use = 0 then do { _ \<leftarrow> memctl_wait_power_down b (fst use) (snd use); State_Monad.return () }
      else State_Monad.return ());
     (if fst use \<noteq> 0 then ddr_zq_select b 0 else State_Monad.return ());
     (if snd use \<noteq> 0 then ddr_zq_select b 1 else State_Monad.return ());
     _ \<leftarrow> ddr_training b junk (fst use) (snd use);
     State_Monad.return () }"

definition load_all :: "'h bus \<Rightarrow> u32 \<times> u32 \<Rightarrow> ('h trainer, unit) state" where
  "load_all b use = do {
     t \<leftarrow> State_Monad.get;
     (if fst use \<noteq> 0 then do { _ \<leftarrow> memctl_update_training_date b (memctl_dqs 0 t) (dqs_entries t); State_Monad.return () }
      else State_Monad.return ());
     (if snd use \<noteq> 0 then do { _ \<leftarrow> memctl_update_training_date b (memctl_dqs 1 t) (dqs_entries t); State_Monad.return () }
      else State_Monad.return ()) }"

definition release :: "'h bus \<Rightarrow> ('h trainer, unit) state" where
  "release b = do {
     writel b 0x80000 DDR_PWR_MEMCTL0_PD_CTL;
     writel b 0x80000 DDR_PWR_MEMCTL1_PD_CTL;
     writel b 0x1000100 DDR_PWR_MEMCTL_PD_CNT1;
     writel b 0x200400 DDR_PWR_MEMCTL_PD_CNT2;
     writel b 0x100 DDR_PWR_MEMCTL_PD_CNT3;
     writel b 0x1 DDR_PWR_DDR_INITIALIZED }"

definition memctl_init ::
  "'c mmc_host \<Rightarrow> bytes \<Rightarrow> bytes \<Rightarrow> 'h bus \<Rightarrow> (nat \<Rightarrow> u32 \<times> u32) \<Rightarrow> memctl_multi_ddr_struct list
     \<Rightarrow> ('h, 'c) memctl \<Rightarrow> (int \<times> ('h, 'c) memctl) option" where
  "memctl_init drv tmp tmp' b junk multi s = do {
     s \<leftarrow> prepare multi s;
     let csum = init_checksum (put_tables s);
     (need, s) \<leftarrow> restore_or_train drv tmp tmp' s;
     let (r, s) = in_tr (start_both b (uses s)) s;
     if r \<noteq> 0 then Some (- 1, s)
     else do {
       let (_, s) = in_tr (memctl_disable_clock b (fst (uses s)) (snd (uses s))) s;
       s \<leftarrow> (if need then do {
           let (_, s) = in_tr (train_all b junk (uses s)) s;
           let s = put_tables s;
           (_, f) \<leftarrow> ddr_save_config_data drv (areas_of s) csum (fl s);
           Some (s\<lparr>fl := f\<rparr>) }
         else Some (snd (in_tr (load_all b (uses s)) s)));
       let (_, s) = in_tr (release b) s;
       Some (0, s) } }"

section \<open>What training keeps\<close>

text \<open>What the commands leave alone: the sizes, which tables are in use and how long the tables are.\<close>

definition config :: "'h trainer \<Rightarrow> nat \<times> bool \<times> u64 \<times> u64 \<times> nat \<times> nat \<times> nat" where
  "config t = (init_datas_length t, dqs_is_gate t, m1_cs0_size t, m1_cs1_size t, length (init_datas t),
     length (memctl_dqs 0 t), length (memctl_dqs 1 t))"

lemma config_more: "machine.more t = machine.more s \<Longrightarrow> config t = config (s :: 'h trainer)"
  by (cases s; cases t; simp add: config_def memctl_dqs_def)

lemma hw_config: "hw_only f \<Longrightarrow> keeps config f"
  by (rule hw_only_keeps) (auto intro: config_more)

lemma config_set [simp]:
  "length xs = length (memctl_dqs i s) \<Longrightarrow> config (set_memctl_dqs i xs s) = config s"
  by (auto simp: config_def set_memctl_dqs_def memctl_dqs_def Let_def)

lemma keeps_put_dqs [keeps_rules]: "keeps config (put_dqs i j v)"
  unfolding put_dqs_def by (rule keeps_modify) (simp add: Let_def)

lemma length_refresh_table: "length (snd (refresh_table n r v m xs)) = length xs"
  by (simp add: refresh_table_def)

lemma keeps_refresh_dqs [keeps_rules]: "keeps config (memctl_refresh_dqsdatas i r v m)"
  unfolding keeps_def memctl_refresh_dqsdatas_def
proof
  fix s :: "'h trainer"
  obtain ret xs where r: "refresh_table (memctl_dqs_length s) r v m (memctl_dqs i s) = (ret, xs)" by fastforce
  then have "length xs = length (memctl_dqs i s)" by (metis length_refresh_table snd_conv)
  then show "wp (do { s \<leftarrow> State_Monad.get;
      let (ret, xs) = refresh_table (memctl_dqs_length s) r v m (memctl_dqs i s);
      modify (set_memctl_dqs i xs); State_Monad.return ret }) (\<lambda>_ t. config t = config s) s"
    by (simp add: wps r)
qed

lemma keeps_refresh_init [keeps_rules]: "keeps config (memctl_refresh_initdatas r v m)"
  unfolding keeps_def memctl_refresh_initdatas_def
proof
  fix s :: "'h trainer"
  obtain ret xs where r: "refresh_table (init_datas_length s) r v m (init_datas s) = (ret, xs)" by fastforce
  then have "length xs = length (init_datas s)" by (metis length_refresh_table snd_conv)
  then show "wp (do { s \<leftarrow> State_Monad.get;
      let (ret, xs) = refresh_table (init_datas_length s) r v m (init_datas s);
      modify (init_datas_update (\<lambda>_. xs)); State_Monad.return ret }) (\<lambda>_ t. config t = config s) s"
    by (simp add: wps r config_def memctl_dqs_def)
qed

lemma hw_only_await_freq [hw_rules]: "hw_only (await_freq b n)"
  by (induction n) (auto intro!: hw_rules)

lemma hw_only_frequency [hw_rules]: "hw_only (ddr_frequency_adjust b v)"
  unfolding ddr_frequency_adjust_def by (intro hw_rules)

lemma hw_only_mr3_wait [hw_rules]: "hw_only (await_mrw b ctl n d)"
  by (induction n arbitrary: d) (auto intro!: hw_rules)

lemma hw_only_write_datas [hw_rules]: "hw_only (write_datas b base xs)"
  unfolding write_datas_def by (intro hw_rules)

lemma hw_only_waits [hw_rules]:
  "hw_only (await_work2 b r n)" "hw_only (await_complete b r n)" "hw_only (await_power_down b r n)"
  by (induction n) (auto intro!: hw_rules)

lemma hw_only_starts [hw_rules]:
  "hw_only (start_memctl b i xs)" "hw_only (memctl_init_complete b i)" "hw_only (memctl_wait_power_down b u v)"
  "hw_only (memctl_disable_clock b u v)" "hw_only (release b)" "hw_only (memctl_update_training_date b xs n)"
  unfolding start_memctl_def memctl_init_complete_def memctl_wait_power_down_def memctl_disable_clock_def release_def
    memctl_update_training_date_def Let_def
  by (intro hw_rules)+

lemma hw_only_gates [hw_rules]:
  "hw_only (set_coarse b i f k v)" "hw_only (set_fine b i f k v)" "hw_only (set_gate b i f k d)"
  unfolding set_gate_def set_coarse_def set_fine_def by (intro hw_rules)+

lemma hw_only_sweep_gate [hw_rules]: "hw_only (sweep_gate b i f k)"
  unfolding sweep_gate_def by (intro hw_rules)

lemmas keeps_hw [keeps_rules] = hw_config [OF hw_only_readl] hw_config [OF hw_only_writel] hw_config [OF hw_only_set_delays]
  hw_config [OF hw_only_update_phy] hw_config [OF hw_only_sweep_slice] hw_config [OF hw_only_gates(3)]
  hw_config [OF hw_only_sweep_gate] hw_config [OF hw_only_frequency] hw_config [OF hw_only_starts(1)]
  hw_config [OF hw_only_starts(2)] hw_config [OF hw_only_starts(3)] hw_config [OF hw_only_starts(4)]
  hw_config [OF hw_only_starts(5)] hw_config [OF hw_only_starts(6)]

text \<open>Changes of the training's own arrays.\<close>

lemma config_arrays [simp]:
  "config (write_dq_update f s) = config s" "config (read_dqs_update f s) = config s"
  "config (gate_coarse_update g s) = config s" "config (gate_fine_update g s) = config s"
  by (simp_all add: config_def memctl_dqs_def)

lemma keeps_phases [keeps_rules]:
  "keeps config (write_dq_training b i f)" "keeps config (read_dqs_training b i f)"
  "keeps config (gate_software_training b junk i f)" "keeps config (write_back_gate_training b i n)"
  "keeps config (write_back_no_gate_training b i n)"
  unfolding write_dq_training_def read_dqs_training_def gate_software_training_def write_back_gate_training_def
    write_back_no_gate_training_def Let_def
  by (intro keeps_rules; simp)+

lemma keeps_dqs_training [keeps_rules]: "keeps config (dqs_training b junk i n)"
  unfolding dqs_training_def by (intro keeps_rules)

lemma keeps_refresh_dll [keeps_rules]: "keeps config (refresh_dll b f n)"
  by (induction n) (auto intro!: keeps_rules simp: Let_def)

lemma keeps_ddr_training [keeps_rules]: "keeps config (ddr_training b junk u v)"
  unfolding ddr_training_def memctl_refresh_dll_lock_value_def train_pair_def by (intro keeps_rules)

lemma keeps_zq [keeps_rules]: "keeps config (ddr_zq_select b i)"
proof -
  have "keeps config (select_vref n b i)" for n
    unfolding select_vref_def store_choice_def Let_def
    by (intro keeps_rules hw_config [OF hw_only_data_bist])
  then show ?thesis
    unfolding ddr_zq_select_def ddr_vref_select_gate_training_def ddr_vref_select_def by (intro keeps_rules)
qed

lemma keeps_train_all: "keeps config (train_all b junk use)"
  unfolding train_all_def by (intro keeps_rules)

lemma hw_only_start_both: "hw_only (start_both b use)"
  unfolding start_both_def Let_def by (intro hw_rules)

lemma hw_only_load_all: "hw_only (load_all b use)"
  unfolding load_all_def by (intro hw_rules)

lemmas keeps_start_both = hw_config [OF hw_only_start_both]

section \<open>Tables as bytes\<close>

definition init_table :: "'h trainer \<Rightarrow> memctl_data list" where
  "init_table t = take (init_entries t) (init_datas t)"

definition dqs_table :: "u32 \<Rightarrow> 'h trainer \<Rightarrow> memctl_data list" where
  "dqs_table i t = take (dqs_entries t) (memctl_dqs i t)"

text \<open>The arrays are as long as their sizes say.\<close>

definition tables_ok :: "'h trainer \<Rightarrow> bool" where
  "tables_ok t \<longleftrightarrow> init_datas_length t = 8 * init_entries t \<and> init_datas_length t < 2 ^ 32
     \<and> init_entries t \<le> length (init_datas t)
     \<and> dqs_entries t \<le> length (memctl_dqs 0 t) \<and> dqs_entries t \<le> length (memctl_dqs 1 t)"

lemma length_table_bytes [simp]: "length (table_bytes xs) = 8 * length xs"
  by (induction xs) (simp_all add: table_bytes_def)

lemma table_bytes_Cons: "table_bytes (x # xs) = le_bytes 4 (fst x) @ le_bytes 4 (snd x) @ table_bytes xs"
  by (simp add: table_bytes_def)

lemma drop_table_bytes: "i \<le> length xs \<Longrightarrow> drop (8 * i) (table_bytes xs) = table_bytes (drop i xs)"
proof (induction i arbitrary: xs)
  case (Suc i)
  then obtain x ys where xs: "xs = x # ys" by (cases xs) auto
  have "drop (8 * Suc i) (table_bytes xs) = drop (8 * i) (drop 8 (table_bytes xs))" by (simp add: add.commute)
  also have "drop 8 (table_bytes xs) = table_bytes ys" by (simp add: xs table_bytes_Cons)
  finally show ?case using Suc by (simp add: xs)
qed simp

lemma table_bytes_part:
  assumes "i < length xs"
  shows "take 4 (drop (8 * i) (table_bytes xs)) = le_bytes 4 (fst (xs ! i))"
    and "take 4 (drop (4 + 8 * i) (table_bytes xs)) = le_bytes 4 (snd (xs ! i))"
proof -
  have d: "drop (8 * i) (table_bytes xs) = le_bytes 4 (fst (xs ! i)) @ le_bytes 4 (snd (xs ! i)) @ table_bytes (drop (Suc i) xs)"
    using assms by (simp add: drop_table_bytes table_bytes_Cons [symmetric] Cons_nth_drop_Suc)
  show "take 4 (drop (8 * i) (table_bytes xs)) = le_bytes 4 (fst (xs ! i))" by (simp add: d)
  have "drop (4 + 8 * i) (table_bytes xs) = drop 4 (drop (8 * i) (table_bytes xs))" by simp
  then show "take 4 (drop (4 + 8 * i) (table_bytes xs)) = le_bytes 4 (snd (xs ! i))" by (simp only: d) simp
qed

lemma table_at_loaded:
  assumes "load_bytes m p (8 * length xs) = table_bytes xs"
  shows "table_at m p (length xs) = xs"
proof (rule nth_equalityI)
  fix i
  assume "i < length (table_at m p (length xs))"
  then have i: "i < length xs" by (simp add: table_at_def)
  have "load_u32 m (p + of_nat (4 * (2 * i))) = fst (xs ! i)"
    using load_u32_part [of "2 * i" "8 * length xs" m p] table_bytes_part(1) [OF i] i assms by simp
  moreover have "load_u32 m (p + of_nat (4 * (2 * i + 1))) = snd (xs ! i)"
    using load_u32_part [of "2 * i + 1" "8 * length xs" m p] table_bytes_part(2) [OF i] i assms by simp
  ultimately show "table_at m p (length xs) ! i = xs ! i"
    using i by (simp add: table_at_def prod_eq_iff algebra_simps)
qed (simp add: table_at_def)

lemma checksum_cong:
  assumes "load_bytes m p (unat len) = load_bytes m' p (unat len)"
  shows "ddr_get_checksum m p len = ddr_get_checksum m' p len"
  unfolding ddr_get_checksum_def
proof (rule fold_cong [OF refl refl])
  fix i
  assume "i \<in> set [0..<unat (len div 4)]"
  then have "4 * i + 4 \<le> unat len" by (simp add: unat_div)
  then show "(\<lambda>csum. csum + load_u32 m (p + 4 * of_nat i)) = (\<lambda>csum. csum + load_u32 m' (p + 4 * of_nat i))"
    using load_u32_part [of i "unat len" m p] load_u32_part [of i "unat len" m' p] assms by simp
qed

lemma config_entries:
  assumes "config t = config s"
  shows "init_entries t = init_entries s" "dqs_entries t = dqs_entries s" "tables_ok t \<longleftrightarrow> tables_ok s"
    "init_datas_length t = init_datas_length s" "memctl_dqs_length t = memctl_dqs_length s"
    "m1_cs0_size t = m1_cs0_size s" "m1_cs1_size t = m1_cs1_size s"
  using assms by (simp_all add: config_def init_entries_def dqs_entries_def memctl_dqs_length_def tables_ok_def)

lemma dqs_length_entries: "memctl_dqs_length t = 8 * dqs_entries t" "8 * dqs_entries t < 2 ^ 32"
  by (simp_all add: dqs_entries_def memctl_dqs_length_def)

lemma areas_of_lens:
  "tables_ok (tr s) \<Longrightarrow> unat (init_len (areas_of s)) = 8 * init_entries (tr s)"
  "unat (dqs_len (areas_of s)) = 8 * dqs_entries (tr s)"
  using dqs_length_entries [of "tr s"] unat_of_nat_u32 [of "init_datas_length (tr s)"]
    unat_of_nat_u32 [of "memctl_dqs_length (tr s)"]
  by (simp_all add: areas_of_def tables_ok_def)

lemma areas_cong:
  assumes "config (tr t) = config (tr s)" and "gd_dram_size t = gd_dram_size s" and "places t = places s"
  shows "areas_of t = areas_of s"
  using assms config_entries [OF assms(1)] by (simp add: areas_of_def)

lemma put_tables_same [simp]:
  "tr (put_tables s) = tr s" "areas_of (put_tables s) = areas_of s" "places (put_tables s) = places s"
  "fworld (fl (put_tables s)) = fworld (fl s)" "partitions (fl (put_tables s)) = partitions (fl s)"
  "gd_dram_size (put_tables s) = gd_dram_size s"
  by (simp_all add: put_tables_def Let_def areas_of_def)

lemma put_tables_bytes:
  assumes ok: "areas_ok (areas_of s)" "tables_ok (tr s)"
  shows "load_bytes (fmem (fl (put_tables s))) (init_ptr (areas_of s)) (8 * init_entries (tr s)) = table_bytes (init_table (tr s))"
    and "load_bytes (fmem (fl (put_tables s))) (dqs0_ptr (areas_of s)) (8 * dqs_entries (tr s)) = table_bytes (dqs_table 0 (tr s))"
    and "load_bytes (fmem (fl (put_tables s))) (dqs1_ptr (areas_of s)) (8 * dqs_entries (tr s)) = table_bytes (dqs_table 1 (tr s))"
proof -
  note L = areas_of_lens(1) [OF ok(2)] areas_of_lens(2) [of s]
  have len: "length (init_table (tr s)) = init_entries (tr s)" "length (dqs_table 0 (tr s)) = dqs_entries (tr s)"
    "length (dqs_table 1 (tr s)) = dqs_entries (tr s)"
    using ok(2) by (simp_all add: tables_ok_def init_table_def dqs_table_def)
  have small: "8 * init_entries (tr s) < 4294967296" "8 * dqs_entries (tr s) < 4294967296"
    using ok(2) dqs_length_entries(2) [of "tr s"] by (simp_all add: tables_ok_def)
  have ap: "apart (init_ptr (areas_of s)) (8 * init_entries (tr s)) (dqs0_ptr (areas_of s)) (8 * dqs_entries (tr s))"
    "apart (init_ptr (areas_of s)) (8 * init_entries (tr s)) (dqs1_ptr (areas_of s)) (8 * dqs_entries (tr s))"
    "apart (dqs0_ptr (areas_of s)) (8 * dqs_entries (tr s)) (dqs1_ptr (areas_of s)) (8 * dqs_entries (tr s))"
    using ok(1) by (simp_all add: areas_ok_def L)
  have same: "load_bytes (store_bytes m q bs) q n = bs" if "length bs = n" "n < 4294967296" for m q bs n
    using load_store_same [of bs m q] that by simp
  have mem: "fmem (fl (put_tables s)) = store_bytes (store_bytes (store_bytes (fmem (fl s)) (init_ptr (areas_of s))
      (table_bytes (init_table (tr s)))) (dqs0_ptr (areas_of s)) (table_bytes (dqs_table 0 (tr s))))
      (dqs1_ptr (areas_of s)) (table_bytes (dqs_table 1 (tr s)))"
    by (simp add: put_tables_def Let_def init_table_def dqs_table_def)
  show "load_bytes (fmem (fl (put_tables s))) (init_ptr (areas_of s)) (8 * init_entries (tr s)) = table_bytes (init_table (tr s))"
    "load_bytes (fmem (fl (put_tables s))) (dqs0_ptr (areas_of s)) (8 * dqs_entries (tr s)) = table_bytes (dqs_table 0 (tr s))"
    "load_bytes (fmem (fl (put_tables s))) (dqs1_ptr (areas_of s)) (8 * dqs_entries (tr s)) = table_bytes (dqs_table 1 (tr s))"
    using ap small unfolding mem by (simp_all add: load_store_apart same len)
qed

lemma config_get_tables:
  assumes "tables_ok (tr s)"
  shows "config (tr (get_tables s)) = config (tr s)" "gd_dram_size (get_tables s) = gd_dram_size s"
    "places (get_tables s) = places s" "fl (get_tables s) = fl s"
  using assms
  by (auto simp: get_tables_def Let_def tables_ok_def table_at_def config_def set_memctl_dqs_def memctl_dqs_def)

lemma get_tables_loaded:
  assumes ok: "tables_ok (tr s)"
  shows "load_bytes (fmem (fl s)) (init_ptr (areas_of s)) (8 * init_entries (tr s)) = table_bytes xs \<Longrightarrow>
      length xs = init_entries (tr s) \<Longrightarrow> init_table (tr (get_tables s)) = xs"
    and "load_bytes (fmem (fl s)) (dqs0_ptr (areas_of s)) (8 * dqs_entries (tr s)) = table_bytes xs \<Longrightarrow>
      length xs = dqs_entries (tr s) \<Longrightarrow> dqs_table 0 (tr (get_tables s)) = xs"
    and "load_bytes (fmem (fl s)) (dqs1_ptr (areas_of s)) (8 * dqs_entries (tr s)) = table_bytes xs \<Longrightarrow>
      length xs = dqs_entries (tr s) \<Longrightarrow> dqs_table 1 (tr (get_tables s)) = xs"
proof -
  have e: "init_entries (tr (get_tables s)) = init_entries (tr s)" "dqs_entries (tr (get_tables s)) = dqs_entries (tr s)"
    using config_entries [OF config_get_tables(1) [OF ok]] by simp_all
  let ?m = "fmem (fl s)" and ?a = "areas_of s" and ?n = "init_entries (tr s)" and ?k = "dqs_entries (tr s)"
  have "init_table (tr (get_tables s)) = table_at ?m (init_ptr ?a) ?n"
    "dqs_table 0 (tr (get_tables s)) = table_at ?m (dqs0_ptr ?a) ?k"
    "dqs_table 1 (tr (get_tables s)) = table_at ?m (dqs1_ptr ?a) ?k"
    unfolding init_table_def dqs_table_def e
    by (auto simp: get_tables_def Let_def table_at_def set_memctl_dqs_def memctl_dqs_def)
  then show "load_bytes ?m (init_ptr ?a) (8 * ?n) = table_bytes xs \<Longrightarrow> length xs = ?n \<Longrightarrow> init_table (tr (get_tables s)) = xs"
    "load_bytes ?m (dqs0_ptr ?a) (8 * ?k) = table_bytes xs \<Longrightarrow> length xs = ?k \<Longrightarrow> dqs_table 0 (tr (get_tables s)) = xs"
    "load_bytes ?m (dqs1_ptr ?a) (8 * ?k) = table_bytes xs \<Longrightarrow> length xs = ?k \<Longrightarrow> dqs_table 1 (tr (get_tables s)) = xs"
    using table_at_loaded [of ?m _ xs] by auto
qed

section \<open>Two starts\<close>

lemma in_tr_frame:
  assumes "keeps config f" and "in_tr f s = (x, t)"
  shows "config (tr t) = config (tr s)" "fl t = fl s" "places t = places s" "gd_dram_size t = gd_dram_size s"
  using assms keeps_run [OF assms(1), of "tr s"] by (auto simp: in_tr_def split: prod.splits)

lemma in_tr_hw:
  assumes "hw_only f" and "in_tr f s = (x, t)"
  shows "machine.more (tr t) = machine.more (tr s)" "fl t = fl s"
  using assms(2) wp_run [OF hw_only_wp [OF assms(1)], of "tr s"] by (auto simp: in_tr_def split: prod.splits)

lemma more_table:
  fixes s t :: "'h trainer"
  assumes "machine.more t = machine.more s"
  shows "init_table t = init_table s" "dqs_table i t = dqs_table i s"
proof -
  have f: "init_datas t = init_datas s" "init_datas_length t = init_datas_length s" "dqs_gate t = dqs_gate s"
    "dqs_no_gate t = dqs_no_gate s" "dqs_is_gate t = dqs_is_gate s"
    by (subst more_eq [OF assms], simp)+
  show "init_table t = init_table s" by (simp add: init_table_def init_entries_def f)
  show "dqs_table i t = dqs_table i s"
    by (simp add: dqs_table_def dqs_entries_def memctl_dqs_def memctl_dqs_length_def f)
qed

lemma tables_lengths:
  assumes "tables_ok t"
  shows "length (init_table t) = init_entries t" "length (dqs_table 0 t) = dqs_entries t" "length (dqs_table 1 t) = dqs_entries t"
  using assms by (simp_all add: tables_ok_def init_table_def dqs_table_def)

lemma init_checksum_eq:
  assumes "areas_ok (areas_of s)" "tables_ok (tr s)" and "areas_ok (areas_of s2)" "tables_ok (tr s2)"
    and "areas_of s2 = areas_of s" and "init_table (tr s2) = init_table (tr s)"
  shows "init_checksum (put_tables s2) = init_checksum (put_tables s)"
proof -
  let ?a = "areas_of s"
  have l: "unat (init_len ?a) = 8 * init_entries (tr s)" by (rule areas_of_lens(1) [OF assms(2)])
  have "unat (init_len ?a) = 8 * init_entries (tr s2)" using areas_of_lens(1) [OF assms(4)] unfolding assms(5) .
  then have n: "init_entries (tr s2) = init_entries (tr s)" using l by linarith
  have "load_bytes (fmem (fl (put_tables s2))) (init_ptr ?a) (8 * init_entries (tr s)) = table_bytes (init_table (tr s))"
    using put_tables_bytes(1) [OF assms(3,4)] unfolding assms(5,6) n .
  then have "load_bytes (fmem (fl (put_tables s2))) (init_ptr ?a) (unat (init_len ?a)) =
      load_bytes (fmem (fl (put_tables s))) (init_ptr ?a) (unat (init_len ?a))"
    unfolding l put_tables_bytes(1) [OF assms(1,2)] .
  from checksum_cong [OF this] show ?thesis unfolding init_checksum_def put_tables_same assms(5) .
qed

text \<open>A start that trains: what it leaves on the flash.\<close>

lemma first_start:
  assumes dev: "flash_device drv good blk first blks" and g: "good (fworld (fl s))"
    and p: "prepare multi s = Some p" "fl p = fl s" and a: "areas_ok (areas_of p)" "tables_ok (tr p)"
    and part: "partition_find_by_name CONFIG_PARTITION_DDR (fl s) = Some i" "part_fits first blks (partitions (fl s) ! i)"
      "areas_fit (areas_of p) (partitions (fl s) ! i)"
    and need: "ddr_need_training drv tmp (areas_of p) (init_checksum (put_tables p)) (fl (put_tables p)) = Some (1, f1)"
  shows "\<exists>q r u t m. restore_or_train drv tmp tmp' p = Some (True, q) \<and> in_tr (start_both b (uses q)) q = (r, u)
    \<and> config (tr q) = config (tr p)
    \<and> memctl_init drv tmp tmp' b junk multi s = (if r \<noteq> 0 then Some (- 1, u) else Some (0, t))
    \<and> saved (blk (fworld (fl t))) (partitions (fl s) ! i) (areas_of p) (init_checksum (put_tables p)) m
    \<and> good (fworld (fl t)) \<and> partitions (fl t) = partitions (fl s)
    \<and> load_bytes m (init_ptr (areas_of p)) (unat (init_len (areas_of p))) = table_bytes (init_table (tr t))
    \<and> load_bytes m (dqs0_ptr (areas_of p)) (unat (dqs_len (areas_of p))) = table_bytes (dqs_table 0 (tr t))
    \<and> load_bytes m (dqs1_ptr (areas_of p)) (unat (dqs_len (areas_of p))) = table_bytes (dqs_table 1 (tr t))"
proof -
  define c where "c = init_checksum (put_tables p)"
  define a' where "a' = areas_of p"
  have fp: "good (fworld (fl (put_tables p)))" "partition_find_by_name CONFIG_PARTITION_DDR (fl (put_tables p)) = Some i"
    "partitions (fl (put_tables p)) = partitions (fl s)"
    using g part(1) p(2) by (simp_all add: partition_find_by_name_def)
  have f1: "good (fworld f1)" "partitions f1 = partitions (fl s)"
    using flash_device.need_training_reads [OF dev fp(1,2) part(2) [folded fp(3)] a(1) part(3) [folded fp(3)], of tmp c]
      need fp(3) by (auto simp: c_def)
  define q where "q = get_tables ((put_tables p)\<lparr>fl := f1\<rparr>)"
  have q: "config (tr q) = config (tr p)" "gd_dram_size q = gd_dram_size p" "places q = places p" "fl q = f1"
    using config_get_tables [of "(put_tables p)\<lparr>fl := f1\<rparr>"] a(2) by (simp_all add: q_def)
  have rq: "restore_or_train drv tmp tmp' p = Some (True, q)"
    using need by (simp add: restore_or_train_def Let_def q_def)
  obtain r u1 where u1: "in_tr (start_both b (uses q)) q = (r, u1)" by fastforce
  obtain r2 u2 where u2: "in_tr (memctl_disable_clock b (fst (uses u1)) (snd (uses u1))) u1 = (r2, u2)" by fastforce
  obtain r3 u3 where u3: "in_tr (train_all b junk (uses u2)) u2 = (r3, u3)" by (metis prod.exhaust)
  note k1 = in_tr_frame [OF keeps_start_both u1] and k2 = in_tr_frame [OF hw_config [OF hw_only_starts(4)] u2]
    and k3 = in_tr_frame [OF keeps_train_all u3]
  have u3c: "config (tr u3) = config (tr p)" "gd_dram_size u3 = gd_dram_size p" "places u3 = places p" "fl u3 = f1"
    using k1 k2 k3 q by simp_all
  have au: "areas_of u3 = a'" "tables_ok (tr u3)"
    using areas_cong [OF u3c(1-3)] config_entries(3) [OF u3c(1)] a(2) by (simp_all add: a'_def)
  have fu: "good (fworld (fl (put_tables u3)))" "partition_find_by_name CONFIG_PARTITION_DDR (fl (put_tables u3)) = Some i"
    "partitions (fl (put_tables u3)) = partitions (fl s)"
    using f1 part(1) u3c(4) by (simp_all add: partition_find_by_name_def)
  obtain st1 where sv: "ddr_save_config_data drv a' c (fl (put_tables u3)) = Some (0, st1)" "good (fworld st1)"
      "partitions st1 = partitions (fl s)" "saved (blk (fworld st1)) (partitions (fl s) ! i) a' c (fmem (fl (put_tables u3)))"
    using flash_device.save_config [OF dev fu(1,2) part(2) [folded fu(3)] a(1) part(3) [folded fu(3)], of c] fu(3)
    unfolding a'_def by auto
  obtain r4 u4 where u4: "in_tr (release b) ((put_tables u3)\<lparr>fl := st1\<rparr>) = (r4, u4)" by (metis prod.exhaust)
  note h4 = in_tr_hw [OF hw_only_starts(5) u4]
  have run: "memctl_init drv tmp tmp' b junk multi s = (if r \<noteq> 0 then Some (- 1, u1) else Some (0, u4))"
    unfolding memctl_init_def
    by (simp add: p(1) rq c_def [symmetric] u1 u2 u3 u4 au(1) sv(1) Let_def)
  have tab: "init_table (tr u4) = init_table (tr u3)" "dqs_table i (tr u4) = dqs_table i (tr u3)" for i
    using more_table [OF h4(1)] by simp_all
  note B = put_tables_bytes [of u3, unfolded au(1), OF a(1) [folded a'_def] au(2)]
  note L = areas_of_lens(1) [OF au(2)] areas_of_lens(2) [of u3]
  show ?thesis
    using sv h4(2) B L tab rq u1 run q(1) unfolding c_def [symmetric] a'_def [symmetric] au(1)
    by (intro exI [of _ q] exI [of _ r] exI [of _ u1] exI [of _ u4] exI [of _ "fmem (fl (put_tables u3))"]) simp
qed

text \<open>A start on a flash that holds the tables.\<close>

lemma second_start:
  assumes dev: "flash_device drv good blk first blks" and g: "good (fworld (fl s))"
    and p: "prepare multi s = Some p" "fl p = fl s" and a: "areas_ok (areas_of p)" "tables_ok (tr p)"
    and part: "partition_find_by_name CONFIG_PARTITION_DDR (fl s) = Some i" "part_fits first blks (partitions (fl s) ! i)"
      "areas_fit (areas_of p) (partitions (fl s) ! i)"
    and sv: "saved (blk (fworld (fl s))) (partitions (fl s) ! i) (areas_of p) (init_checksum (put_tables p)) m"
    and tab: "load_bytes m (init_ptr (areas_of p)) (unat (init_len (areas_of p))) = table_bytes xs"
      "load_bytes m (dqs0_ptr (areas_of p)) (unat (dqs_len (areas_of p))) = table_bytes ys"
      "load_bytes m (dqs1_ptr (areas_of p)) (unat (dqs_len (areas_of p))) = table_bytes zs"
  shows "\<exists>r t. memctl_init drv tmp tmp' b junk multi s = Some (r, t) \<and> blk (fworld (fl t)) = blk (fworld (fl s))
    \<and> init_table (tr t) = xs \<and> (gd_dram_size p \<noteq> 0 \<longrightarrow> dqs_table 0 (tr t) = ys)
    \<and> (memctl1_used (areas_of p) \<longrightarrow> dqs_table 1 (tr t) = zs)"
proof -
  define c where "c = init_checksum (put_tables p)"
  define a' where "a' = areas_of p"
  note L = areas_of_lens(1) [OF a(2)] areas_of_lens(2) [of p]
  have len: "length xs = init_entries (tr p)" "length ys = dqs_entries (tr p)" "length zs = dqs_entries (tr p)"
    using arg_cong [OF tab(1), of length] arg_cong [OF tab(2), of length] arg_cong [OF tab(3), of length] L by simp_all
  have fp: "good (fworld (fl (put_tables p)))" "partition_find_by_name CONFIG_PARTITION_DDR (fl (put_tables p)) = Some i"
    "partitions (fl (put_tables p)) = partitions (fl s)" "fworld (fl (put_tables p)) = fworld (fl s)"
    using g part(1) p(2) by (simp_all add: partition_find_by_name_def)
  obtain f1 where f1: "ddr_need_training drv tmp a' c (fl (put_tables p)) = Some (0, f1)" "good (fworld f1)"
      "blk (fworld f1) = blk (fworld (fl s))" "partitions f1 = partitions (fl s)"
      "header_at (fmem f1) (g_ddr_on_flash a') = new_header a' c 512"
    using flash_device.need_training_saved [OF dev fp(1,2) part(2) [folded fp(3)] a(1) part(3) [folded fp(3)], of c m tmp c]
      sv fp(3,4) unfolding a'_def c_def by auto
  have f1p: "partition_find_by_name CONFIG_PARTITION_DDR f1 = Some i"
    using part(1) f1(4) by (simp add: partition_find_by_name_def)
  obtain f2 where f2: "ddr_restore_config_data drv tmp' a' f1 = Some (0, f2)" "blk (fworld f2) = blk (fworld (fl s))"
      "load_bytes (fmem f2) (init_ptr a') (8 * init_entries (tr p)) = table_bytes xs"
      "gd_dram_size p \<noteq> 0 \<Longrightarrow> load_bytes (fmem f2) (dqs0_ptr a') (8 * dqs_entries (tr p)) = table_bytes ys"
      "memctl1_used a' \<Longrightarrow> load_bytes (fmem f2) (dqs1_ptr a') (8 * dqs_entries (tr p)) = table_bytes zs"
    using flash_device.restore_config [OF dev f1(2) f1p part(2) [folded f1(4)] a(1) part(3) [folded f1(4)], of c m tmp']
      sv f1(3-5) tab L unfolding a'_def c_def by (auto simp: areas_of_def)
  define q0 where "q0 = (put_tables p)\<lparr>fl := f2\<rparr>"
  define q where "q = get_tables q0"
  have q0: "tr q0 = tr p" "fl q0 = f2" "areas_of q0 = a'"
    by (simp_all add: q0_def a'_def areas_of_def)
  have q: "fl q = f2" "init_table (tr q) = xs" "gd_dram_size p \<noteq> 0 \<Longrightarrow> dqs_table 0 (tr q) = ys"
      "memctl1_used a' \<Longrightarrow> dqs_table 1 (tr q) = zs"
    using config_get_tables(4) [of q0] get_tables_loaded [of q0] a(2) f2(3-5) len unfolding q_def q0 by simp_all
  have rq: "restore_or_train drv tmp tmp' p = Some (False, q)"
    using f1(1) f2(1) by (simp add: restore_or_train_def Let_def a'_def c_def q_def q0_def)
  obtain r u1 where u1: "in_tr (start_both b (uses q)) q = (r, u1)" by fastforce
  obtain r2 u2 where u2: "in_tr (memctl_disable_clock b (fst (uses u1)) (snd (uses u1))) u1 = (r2, u2)" by fastforce
  obtain r3 u3 where u3: "in_tr (load_all b (uses u2)) u2 = (r3, u3)" by (metis prod.exhaust)
  obtain r4 u4 where u4: "in_tr (release b) u3 = (r4, u4)" by (metis prod.exhaust)
  have run: "memctl_init drv tmp tmp' b junk multi s = Some (if r \<noteq> 0 then (- 1, u1) else (0, u4))"
    unfolding memctl_init_def by (simp add: p(1) rq u1 u2 u3 u4 Let_def)
  note h = in_tr_hw [OF hw_only_start_both u1] in_tr_hw [OF hw_only_starts(4) u2] in_tr_hw [OF hw_only_load_all u3] in_tr_hw [OF hw_only_starts(5) u4]
  have "fl u1 = f2" "fl u4 = f2" using h q(1) by simp_all
  moreover have "machine.more (tr u4) = machine.more (tr q)" "machine.more (tr u1) = machine.more (tr q)" using h by simp_all
  note more_table [OF this(1)] more_table [OF this(2)]
  ultimately show ?thesis using run f2(2) q(2-4) unfolding a'_def by (cases "r = 0") auto
qed

lemma prepare_fl: "prepare multi s = Some p \<Longrightarrow> fl p = fl s"
proof -
  assume p: "prepare multi s = Some p"
  have k: "fl (set_chip e s) = fl s" "fl (set_banks s) = fl s" "fl (set_2cs_signal s) = fl s" "fl (snd (in_tr f s)) = fl s"
    for e and s :: "('a, 'b) memctl" and f :: "('a trainer, int) state"
    by (simp_all add: set_chip_def set_banks_def set_2cs_signal_def in_tr_def Let_def split: option.split prod.split)
  obtain e where e: "memctl_multi_ddr_get_data multi (init_datas_length (tr s)) (fl s) = Some e"
    using p by (auto simp: prepare_def bind_eq_Some_conv)
  define s1 where "s1 = set_2cs_signal (set_banks (set_chip e s))"
  define s2 where "s2 = s1\<lparr>tr := (tr s1)\<lparr>need_gate_training := True\<rparr>\<rparr>"
  obtain r s3 where s3: "in_tr (memctl_disable_pll_bypass (cpu_is_lc1860_eco2 s2)) s2 = (r, s3)" by fastforce
  have "p = snd (in_tr memctl_training_refresh_info s3)"
    using p e s3 by (simp add: prepare_def Let_def s1_def [symmetric] s2_def [symmetric] split: if_splits)
  moreover have "fl s3 = fl s2" using k(4) [of "memctl_disable_pll_bypass (cpu_is_lc1860_eco2 s2)" s2] s3 by simp
  ultimately show ?thesis by (simp add: k s1_def s2_def)
qed

text \<open>
  C4. A start of the controllers that trains and succeeds, then a restart of the same board: the header that the
  first start leaves on the flash is accepted, so the second start does not train, whatever its bus, and it ends with
  the initial settings and the training tables that the first one ended with; the flash stays as it is.
\<close>

theorem restart_uses_training:
  assumes dev: "flash_device drv good blk first blks" and g: "good (fworld (fl s))"
    and p: "prepare multi s = Some p" and a: "areas_ok (areas_of p)" "tables_ok (tr p)"
    and part: "partition_find_by_name CONFIG_PARTITION_DDR (fl s) = Some i" "part_fits first blks (partitions (fl s) ! i)"
      "areas_fit (areas_of p) (partitions (fl s) ! i)"
    and need: "ddr_need_training drv tmp (areas_of p) (init_checksum (put_tables p)) (fl (put_tables p)) = Some (1, f1)"
    and start: "memctl_init drv tmp tmp' b junk multi s = Some (0, t)"
    and p2: "prepare multi2 s2 = Some p2" "areas_of p2 = areas_of p" "tables_ok (tr p2)" "init_table (tr p2) = init_table (tr p)"
    and fl2: "good (fworld (fl s2))" "blk (fworld (fl s2)) = blk (fworld (fl t))" "partitions (fl s2) = partitions (fl s)"
  shows "\<exists>r t2. memctl_init drv tmp2 tmp3 b2 junk2 multi2 s2 = Some (r, t2) \<and> blk (fworld (fl t2)) = blk (fworld (fl t))
    \<and> init_table (tr t2) = init_table (tr t) \<and> (gd_dram_size p \<noteq> 0 \<longrightarrow> dqs_table 0 (tr t2) = dqs_table 0 (tr t))
    \<and> (memctl1_used (areas_of p) \<longrightarrow> dqs_table 1 (tr t2) = dqs_table 1 (tr t))"
proof -
  obtain r :: int and u t' m where f: "memctl_init drv tmp tmp' b junk multi s = (if r \<noteq> 0 then Some (- 1, u) else Some (0, t'))"
      "saved (blk (fworld (fl t'))) (partitions (fl s) ! i) (areas_of p) (init_checksum (put_tables p)) m"
      "load_bytes m (init_ptr (areas_of p)) (unat (init_len (areas_of p))) = table_bytes (init_table (tr t'))"
      "load_bytes m (dqs0_ptr (areas_of p)) (unat (dqs_len (areas_of p))) = table_bytes (dqs_table 0 (tr t'))"
      "load_bytes m (dqs1_ptr (areas_of p)) (unat (dqs_len (areas_of p))) = table_bytes (dqs_table 1 (tr t'))"
    using first_start [OF dev g p prepare_fl [OF p] a part need, of tmp' b junk]
    by blast
  have t: "t' = t" using f(1) start by (simp split: if_splits)
  have part2: "partition_find_by_name CONFIG_PARTITION_DDR (fl s2) = Some i"
    using part(1) fl2(3) by (simp add: partition_find_by_name_def)
  have c: "init_checksum (put_tables p2) = init_checksum (put_tables p)"
    by (rule init_checksum_eq [OF a _ p2(3,2,4)]) (simp add: p2(2) a(1))
  have d: "gd_dram_size p2 = gd_dram_size p" using arg_cong [OF p2(2), of dram_size] by (simp add: areas_of_def)
  have a2: "areas_ok (areas_of p2)" "areas_fit (areas_of p2) (partitions (fl s2) ! i)"
    using a(1) part(3) p2(2) fl2(3) by simp_all
  show ?thesis
    using second_start [OF dev fl2(1) p2(1) prepare_fl [OF p2(1)] a2(1) p2(3) part2 part(2) [folded fl2(3)] a2(2), of m
        "init_table (tr t)" "dqs_table 0 (tr t)" "dqs_table 1 (tr t)" tmp2 tmp3 b2 junk2]
      f(2-5) unfolding c d p2(2) fl2(2,3) t by blast
qed

text \<open>A bus on which every wait ends at once, and a board whose flash holds no tables yet.\<close>

definition still :: "unit bus" where
  "still = \<lparr>read32 = (\<lambda>a h. (0x10, h)), write32 = (\<lambda>a v h. h), write16 = (\<lambda>a v h. h), write8 = (\<lambda>a v h. h)\<rparr>"

definition demo_start :: "card_state flash \<Rightarrow> (unit, card_state) memctl" where
  "demo_start f = \<lparr>tr = \<lparr>hw = (), write_dqs = replicate 6 0, write_dq = replicate 5 0, read_dqs = replicate 5 0,
       gate_coarse = \<lambda>_ _. replicate 5 0, gate_fine = \<lambda>_ _. replicate 5 0,
       dqs_gate = \<lambda>_. replicate 42 (0, 0), dqs_no_gate = \<lambda>_. replicate 22 (0, 0), dqs_is_gate = False,
       init_datas = [(DENALI_CTL_87, 0), (4, 1)], init_datas_length = 16, need_gate_training = False,
       ram_size = 0, m1_cs0_size = 0, m1_cs1_size = 0\<rparr>,
     fl = f, places = demo_areas, bb_id = 0, m0_cs0_size = 0, m0_cs1_size = 0, gd_dram_base = 0, gd_dram_size = 0,
     gd_dram2_base = 0, gd_dram2_size = 0, gd_nr_dram_banks = 0, gd_ddr_2cs_signal = 0, gd_on2_fix = 0, gd_on2_size = 0,
     gd_on2_base = 0, gd_fb_fix = 0, gd_fb_size = 0, gd_fb_base = 0, gd_fb_num = 0\<rparr>"

lemma no_chips: "memctl_multi_ddr_get_data [] n f = Some None"
  by (simp add: memctl_multi_ddr_get_data_def split: prod.split option.split)

lemma demo_chip:
  "m0_cs0_size (set_chip None s) = 0x20000000" "m0_cs1_size (set_chip None s) = 0x20000000"
  "m1_cs0_size (tr (set_chip None s)) = 0" "m1_cs1_size (tr (set_chip None s)) = 0"
  by (simp_all add: set_chip_def CONFIG_MEMCTL0_CS0_SIZE_def CONFIG_MEMCTL0_CS1_SIZE_def CONFIG_MEMCTL1_CS0_SIZE_def
      CONFIG_MEMCTL1_CS1_SIZE_def)

lemma set_banks_same:
  "tr (set_banks s) = (tr s)\<lparr>ram_size := ram_size (tr (set_banks s))\<rparr>" "fl (set_banks s) = fl s"
  "places (set_banks s) = places s" "bb_id (set_banks s) = bb_id s"
  by (simp_all add: set_banks_def Let_def)

lemma demo_banks:
  "gd_dram_size (set_banks (set_chip None s)) = 0x40000000" "gd_ddr_2cs_signal (set_banks (set_chip None s)) = 1"
  by (simp_all add: set_banks_def Let_def demo_chip)

lemma demo_prepare:
  "\<exists>p. prepare [] (demo_start f) = Some p \<and> fl p = f \<and> places p = demo_areas \<and> gd_dram_size p = 0x40000000
     \<and> config (tr p) = (16, True, 0, 0, 2, 42, 42) \<and> init_table (tr p) = [(DENALI_CTL_87, 0xc03), (4, 1)]"
proof -
  define s1 where "s1 = set_banks (set_chip None (demo_start f))"
  have c: "init_datas_length (tr (demo_start f)) = 16" "init_datas (tr (set_chip None (demo_start f))) = [(DENALI_CTL_87, 0), (4, 1)]"
    "init_datas_length (tr (set_chip None (demo_start f))) = 16" "dqs_gate (tr (set_chip None (demo_start f))) i = replicate 42 (0, 0)"
    "fl (set_chip None (demo_start f)) = f" "places (set_chip None (demo_start f)) = demo_areas"
    "bb_id (set_chip None (demo_start f)) = 0" for i
    by (simp_all add: demo_start_def set_chip_def)
  have t: "tr s1 = (tr (set_chip None (demo_start f)))\<lparr>ram_size := ram_size (tr s1)\<rparr>" unfolding s1_def by (rule set_banks_same)
  have s1: "fl s1 = f" "places s1 = demo_areas" "bb_id s1 = 0" "gd_dram_size s1 = 0x40000000" "gd_ddr_2cs_signal s1 = 1"
    using c by (simp_all add: s1_def set_banks_same demo_banks)
  have t1: "init_datas (tr s1) = [(DENALI_CTL_87, 0), (4, 1)]" "init_datas_length (tr s1) = 16" "m1_cs0_size (tr s1) = 0"
    "m1_cs1_size (tr s1) = 0" "dqs_gate (tr s1) i = replicate 42 (0, 0)" for i
    by (subst t, simp add: c demo_chip)+
  show ?thesis
    unfolding prepare_def c(1) no_chips Option.bind.simps Let_def s1_def [symmetric]
    by (simp add: set_2cs_signal_def Let_def in_tr_def cpu_is_lc1860_eco2_def memctl_disable_pll_bypass_def
        memctl_training_refresh_info_def modify_def config_def memctl_dqs_def init_table_def init_entries_def s1 t1)
qed

lemma demo_prepared:
  assumes "places p = demo_areas" "gd_dram_size p = 0x40000000" "config (tr p) = (16, True, 0, 0, 2, 42, 42)"
  shows "areas_of p = demo_areas\<lparr>init_len := 16, dram_size := 0x40000000, memctl1_cs0_size := 0\<rparr>"
    "areas_ok (areas_of p)" "tables_ok (tr p)"
proof -
  show a: "areas_of p = demo_areas\<lparr>init_len := 16, dram_size := 0x40000000, memctl1_cs0_size := 0\<rparr>"
    using assms by (simp add: areas_of_def demo_areas_def config_def memctl_dqs_length_def)
  show "areas_ok (areas_of p)" by (simp add: a areas_ok_def demo_areas_def apart_def memctl1_used_def)
  show "tables_ok (tr p)" using assms(3) by (simp add: config_def tables_ok_def init_entries_def dqs_entries_def memctl_dqs_length_def)
qed

lemma still_same: "hw_only f \<Longrightarrow> wp f Q s = Q (fst (run_state f s)) (s :: (unit, 'x) machine_scheme)"
proof -
  assume "hw_only f"
  from hw_only_wp [OF this, of s] have m: "machine.more (snd (run_state f s)) = machine.more s"
    by (simp add: wp_def case_prod_beta)
  have "snd (run_state f s) = s" by (subst more_eq [OF m]) (cases s, simp)
  then show ?thesis by (simp add: wp_def case_prod_beta)
qed

lemma wp_await_still:
  fixes s :: "(unit, 'x) machine_scheme"
  assumes "0 < n"
  shows "wp (await_work2 still r n) Q s = Q True s" "wp (await_complete still base n) Q s = Q True s"
proof -
  have [simp]: "s\<lparr>hw := ()\<rparr> = s" by (cases s) simp
  show "wp (await_work2 still r n) Q s = Q True s" "wp (await_complete still base n) Q s = Q True s"
    using assms by (cases n; simp add: wps still_def)+
qed

lemma start_memctl_still: "data \<noteq> [] \<Longrightarrow> wp (start_memctl still i data) (\<lambda>r t. r = 0) (s :: (unit, 'x) machine_scheme)"
  by (simp add: start_memctl_def Let_def wps wp_await_still still_same [OF hw_only_write_datas] split: prod.split)

lemma init_complete_still: "wp (memctl_init_complete still i) (\<lambda>r t. r = 0) (s :: (unit, 'x) machine_scheme)"
  by (simp add: memctl_init_complete_def wps wp_await_still)

lemma start_both_still:
  fixes s :: "unit trainer"
  assumes "init_table s \<noteq> []"
  shows "fst (run_state (start_both still use) s) = 0"
proof -
  have r: "fst (run_state (start_memctl still i (init_table s)) t) = 0" for i and t :: "unit trainer"
    using start_memctl_still [OF assms, of i t] by (simp add: wp_def case_prod_beta)
  have c: "fst (run_state (memctl_init_complete still i) t) = 0" for i and t :: "unit trainer"
    using init_complete_still [of i t] by (simp add: wp_def case_prod_beta)
  have "wp (start_both still use) (\<lambda>r t. r = 0) s"
    unfolding start_both_def Let_def init_table_def [symmetric]
    by (simp add: wps still_same [OF hw_only_starts(1)] still_same [OF hw_only_starts(2)] r c init_table_def [symmetric])
  then show ?thesis by (simp add: wp_def case_prod_beta)
qed

text \<open>The first start of the board trains: the flash holds zeros.\<close>

lemma demo_flash_facts:
  "partition_find_by_name CONFIG_PARTITION_DDR ddr_flash = Some 0"
  "part_fits (unat (boot_part_size sim_mmc div 512)) (unat (bdev_lba sim_mmc)) (partitions ddr_flash ! 0)"
  "sim.device_good 0 sim_mmc (fworld ddr_flash)"
  "areas_fit (demo_areas\<lparr>init_len := 16, dram_size := 0x40000000, memctl1_cs0_size := 0\<rparr>) (partitions ddr_flash ! 0)"
  using demo_flash_fits demo_flash_good
  by (simp_all add: partition_find_by_name_def ddr_flash_def part_fits_def demo_flash_def areas_fit_def demo_areas_def blocks_of_def)

lemma demo_need:
  assumes a: "areas_of p = demo_areas\<lparr>init_len := 16, dram_size := 0x40000000, memctl1_cs0_size := 0\<rparr>" "areas_ok (areas_of p)"
    and f: "fl p = ddr_flash"
  shows "\<exists>f1. ddr_need_training sim_host [] (areas_of p) c (fl (put_tables p)) = Some (1, f1)"
proof -
  let ?st = "fl (put_tables p)" and ?pt = "partitions ddr_flash ! 0"
  have g: "sim.device_good 0 sim_mmc (fworld ?st)" "partition_find_by_name CONFIG_PARTITION_DDR ?st = Some 0"
    "partitions ?st = partitions ddr_flash"
    using demo_flash_facts(1,3) f by (simp_all add: partition_find_by_name_def)
  note N = flash_device.need_training_reads [OF simdev.flash.flash_device_axioms g(1,2) demo_flash_facts(2) [folded g(3)] a(2)
      demo_flash_facts(4) [folded a(1) g(3)], of "[]" c]
  have "run_bytes (sim_cells (host (fworld ?st)) 0) 0x4000 (1 + 15)
      = sim_cells (host (fworld ?st)) 0 0x4000 @ run_bytes (sim_cells (host (fworld ?st)) 0) 0x4001 15"
    unfolding run_bytes_add by (simp add: run_bytes_1)
  moreover have "sim_cells (host (fworld ?st)) 0 0x4000 = replicate 40 0 @ replicate 472 0"
    by (simp add: f ddr_flash_def demo_flash_def sim_world_def sim_cells_def replicate_add [symmetric])
  ultimately have "window (sim_cells (host (fworld ?st)) 0) ?pt 0 40 = replicate 40 0"
    by (simp add: window_def ddr_flash_def)
  then have w: "window (sim_cells (host (fworld ?st)) 0) (partitions ?st ! 0) 0 40
      = header_bytes \<lparr>magic = 0, version = 0, checksum = 0, total = 0, init_data = 0, init_data_len = 0,
          ddr0_trn_data = 0, ddr0_trn_data_len = 0, ddr1_trn_data = 0, ddr1_trn_data_len = 0\<rparr>"
    by (simp add: f header_bytes_def eval_nat_numeral)
  have "magic (header_at (store_bytes m q (window (sim_cells (host (fworld ?st)) 0) (partitions ?st ! 0) 0 40)) q) = 0" for m q
    unfolding w by (subst header_loaded [OF load_store_same [of "header_bytes _", simplified]]) simp_all
  then show ?thesis using N by (auto simp: DDRONFLASH_MAGIC_def)
qed

lemma restart_uses_training_witness:
  "\<exists>t r t2. memctl_init sim_host [] [] still (\<lambda>_. (0, 0)) [] (demo_start ddr_flash) = Some (0, t)
    \<and> memctl_init sim_host [] [] still (\<lambda>_. (1, 1)) [] (demo_start (fl t)) = Some (r, t2)
    \<and> init_table (tr t2) = init_table (tr t) \<and> dqs_table 0 (tr t2) = dqs_table 0 (tr t)"
proof -
  note dev = simdev.flash.flash_device_axioms
  have fd: "fl (demo_start f) = f" for f by (simp add: demo_start_def)
  obtain p where p: "prepare [] (demo_start ddr_flash) = Some p" "fl p = ddr_flash" "places p = demo_areas"
      "gd_dram_size p = 0x40000000" "config (tr p) = (16, True, 0, 0, 2, 42, 42)"
      "init_table (tr p) = [(DENALI_CTL_87, 0xc03), (4, 1)]"
    using demo_prepare [of ddr_flash] by blast
  note A = demo_prepared [OF p(3-5)]
  have fit: "areas_fit (areas_of p) (partitions ddr_flash ! 0)" unfolding A(1) by (rule demo_flash_facts(4))
  obtain f1 where need: "ddr_need_training sim_host [] (areas_of p) (init_checksum (put_tables p)) (fl (put_tables p)) = Some (1, f1)"
    using demo_need [OF A(1,2) p(2)] by blast
  obtain q and r :: int and u t where st: "restore_or_train sim_host [] [] p = Some (True, q)" "in_tr (start_both still (uses q)) q = (r, u)"
      "config (tr q) = config (tr p)"
      "memctl_init sim_host [] [] still (\<lambda>_. (0, 0)) [] (demo_start ddr_flash) = (if r \<noteq> 0 then Some (- 1, u) else Some (0, t))"
      "sim.device_good 0 sim_mmc (fworld (fl t))" "partitions (fl t) = partitions ddr_flash"
    using first_start [OF dev, where s = "demo_start ddr_flash", unfolded fd, OF demo_flash_facts(3) p(1,2) A(2,3)
        demo_flash_facts(1,2) fit need, of "[]" still "\<lambda>_. (0, 0)"] by blast
  have "init_table (tr q) \<noteq> []"
    using config_entries(1) [OF st(3)] p(5) st(3) by (auto simp: init_table_def init_entries_def config_def)
  then have "r = 0" using start_both_still [of "tr q" "uses q"] st(2) by (auto simp: in_tr_def split: prod.splits)
  then have run: "memctl_init sim_host [] [] still (\<lambda>_. (0, 0)) [] (demo_start ddr_flash) = Some (0, t)" using st(4) by simp
  obtain p2 where p2: "prepare [] (demo_start (fl t)) = Some p2" "fl p2 = fl t" "places p2 = demo_areas"
      "gd_dram_size p2 = 0x40000000" "config (tr p2) = (16, True, 0, 0, 2, 42, 42)"
      "init_table (tr p2) = [(DENALI_CTL_87, 0xc03), (4, 1)]"
    using demo_prepare [of "fl t"] by blast
  note B = demo_prepared [OF p2(3-5)]
  have same: "areas_of p2 = areas_of p" "init_table (tr p2) = init_table (tr p)" using A(1) B(1) p(6) p2(6) by simp_all
  from restart_uses_training [OF dev, where s = "demo_start ddr_flash" and ?s2.0 = "demo_start (fl t)", unfolded fd, OF demo_flash_facts(3) p(1) A(2,3)
      demo_flash_facts(1,2) fit need run p2(1) same(1) B(3) same(2) st(5) refl st(6), of "[]" "[]" still "\<lambda>_. (1, 1)"]
  show ?thesis using run p(4) by auto
qed

section \<open>The banks\<close>

text \<open>
  Where the memory answers: the chip selects as start and size.  The first controller answers from 0 on and the second
  from 1 GB on.  As long as the first one fits below the second, the second chip select of a controller follows the
  first; otherwise it answers 4 GB higher than the controller, the places the constants at the head of the file name.
\<close>

definition chip_selects :: "('h, 'c) memctl \<Rightarrow> (nat \<times> nat) list" where
  "chip_selects s =
     (let m00 = unat (m0_cs0_size s); m01 = unat (m0_cs1_size s); m10 = unat (m1_cs0_size (tr s)); m11 = unat (m1_cs1_size (tr s))
      in if m00 + m01 \<le> 2 ^ 30 then [(0, m00), (m00, m01), (2 ^ 30, m10), (2 ^ 30 + m10, m11)]
         else [(0, m00), (2 ^ 32, m01), (2 ^ 30, m10), (2 ^ 32 + 2 ^ 30, m11)])"

definition covered :: "(nat \<times> nat) list \<Rightarrow> nat set" where
  "covered rs = (\<Union>(start, n)\<in>set rs. {start..<start + n})"

definition banks :: "('h, 'c) memctl \<Rightarrow> (nat \<times> nat) list" where
  "banks s = (unat (gd_dram_base s), unat (gd_dram_size s)) #
     (if gd_nr_dram_banks s = 2 then [(unat (gd_dram2_base s), unat (gd_dram2_size s))] else [])"

text \<open>
  In the second layout a chip select of the second controller continues one of the first controller: that one has to
  be full, that is 1 GB.
\<close>

definition no_holes :: "('h, 'c) memctl \<Rightarrow> bool" where
  "no_holes s \<longleftrightarrow> (unat (m0_cs0_size s) + unat (m0_cs1_size s) \<le> 2 ^ 30
     \<or> (m1_cs0_size (tr s) = 0 \<or> m0_cs0_size s = 2 ^ 30) \<and> (m1_cs1_size (tr s) = 0 \<or> m0_cs1_size s = 2 ^ 30))"

text \<open>
  C27. \<open>memctl_init\<close> with chip selects of at most 1 GB each, the largest the configuration allows, where a chip select that
  another one continues is full: the banks it announces, as many as it says, cover exactly the addresses at which the
  four chip selects answer, the first from 0 on, and do not overlap; the size kept in 32 bits is that of the first
  bank; and when that bank has at least 12 MB the frame buffers are its last 12 MB.
\<close>

theorem set_banks_partition:
  assumes "m0_cs0_size s \<le> 0x40000000" and "m0_cs1_size s \<le> 0x40000000"
    and "m1_cs0_size (tr s) \<le> 0x40000000" and "m1_cs1_size (tr s) \<le> 0x40000000" and holes: "no_holes s"
  shows "let t = set_banks s in
    covered (banks t) = covered (chip_selects s) \<and> gd_dram_base t = 0 \<and>
    {0..<unat (gd_dram_size t)} \<inter> {unat (gd_dram2_base t)..<unat (gd_dram2_base t) + unat (gd_dram2_size t)} = {} \<and>
    gd_nr_dram_banks t = (if gd_dram2_size t = 0 then 1 else 2) \<and>
    unat (ram_size (tr t)) = unat (gd_dram_size t) \<and>
    (0xC00000 \<le> unat (gd_dram_size t) \<longrightarrow>
      unat (gd_fb_base t) + unat (gd_fb_num t) * unat (gd_fb_size t) = unat (gd_dram_size t))"
proof -
  define A B C D where "A = unat (m0_cs0_size s)" and "B = unat (m0_cs1_size s)"
    and "C = unat (m1_cs0_size (tr s))" and "D = unat (m1_cs1_size (tr s))"
  have lim: "A \<le> 0x40000000" "B \<le> 0x40000000" "C \<le> 0x40000000" "D \<le> 0x40000000"
    using assms by (simp_all add: A_def B_def C_def D_def word_le_nat_alt)
  have add: "unat (m0_cs0_size s + m0_cs1_size s) = A + B" "unat (m0_cs0_size s + m1_cs0_size (tr s)) = A + C"
    "unat (m1_cs0_size (tr s) + m1_cs1_size (tr s)) = C + D" "unat (m0_cs1_size s + m1_cs1_size (tr s)) = B + D"
    using lim by (simp_all add: A_def B_def C_def D_def unat_add_small)
  have le: "m0_cs0_size s + m0_cs1_size s \<le> 0x40000000 \<longleftrightarrow> A + B \<le> 0x40000000"
    by (simp add: word_le_nat_alt add)
  define t where "t = set_banks s"
  have "gd_dram_size t = (if m0_cs0_size s + m0_cs1_size s \<le> 0x40000000 then m0_cs0_size s + m0_cs1_size s
      else m0_cs0_size s + m1_cs0_size (tr s))"
    by (simp add: t_def set_banks_def Let_def)
  then have d1: "unat (gd_dram_size t) = (if A + B \<le> 0x40000000 then A + B else A + C)" by (simp only: le add split: if_split) simp
  have "gd_dram2_size t = (if m0_cs0_size s + m0_cs1_size s \<le> 0x40000000 then m1_cs0_size (tr s) + m1_cs1_size (tr s)
      else m0_cs1_size s + m1_cs1_size (tr s))"
    by (simp add: t_def set_banks_def Let_def)
  then have d2: "unat (gd_dram2_size t) = (if A + B \<le> 0x40000000 then C + D else B + D)" by (simp only: le add split: if_split) simp
  have "gd_dram2_size t \<noteq> 0 \<longrightarrow> gd_dram2_base t = (if m0_cs0_size s + m0_cs1_size s \<le> 0x40000000 then 0x40000000 else 0x100000000)"
    by (simp add: t_def set_banks_def Let_def COMIP_MEMCTL1_CS0_BASE_def COMIP_MEMCTL0_CS1_BASE_def word_gt_0)
  then have b2: "gd_dram2_size t \<noteq> 0 \<Longrightarrow> unat (gd_dram2_base t) = (if A + B \<le> 0x40000000 then 0x40000000 else 0x100000000)"
    by (simp only: le split: if_split) simp
  have ram: "unat (ram_size (tr t)) = unat (gd_dram_size t)"
  proof -
    have "ram_size (tr t) = ucast (gd_dram_size t)" by (simp add: t_def set_banks_def Let_def)
    moreover have "unat (gd_dram_size t) < 2 ^ 32" using d1 lim by simp
    ultimately show ?thesis by (simp add: unat_ucast_u64_u32)
  qed
  have base: "gd_dram_base t = 0" "gd_nr_dram_banks t = (if gd_dram2_size t = 0 then 1 else 2)"
    by (simp_all add: t_def set_banks_def Let_def)
  have fb: "gd_fb_base t = ucast (ram_size (tr t)) - 0xC00000" "unat (gd_fb_num t) * unat (gd_fb_size t) = 0xC00000"
    by (simp_all add: t_def set_banks_def Let_def PHYS_SDRAM_1_def CONFIG_FB_MEMORY_NUM_def CONFIG_FB_MEMORY_SIZE_def)
  have fbb: "unat (gd_fb_base t) + 0xC00000 = unat (gd_dram_size t)" if "0xC00000 \<le> unat (gd_dram_size t)"
  proof -
    have "unat (ucast (ram_size (tr t)) :: u64) = unat (gd_dram_size t)" by (simp add: unat_ucast_u32_u64 ram)
    then show ?thesis using that by (simp add: fb(1) unat_sub_if')
  qed
  have two: "covered [(0, x), (y, z)] = {0..<x} \<union> {y..<y + z}" for x y z by (simp add: covered_def)
  have four: "covered [(0, w), (x, k), (y, l), (z, n)] = {0..<w} \<union> {x..<x + k} \<union> {y..<y + l} \<union> {z..<z + n}" for w x k y l z n
    by (auto simp: covered_def)
  have z2: "gd_dram2_size t = 0 \<longleftrightarrow> unat (gd_dram2_size t) = 0" by (simp add: word_unat_eq_iff)
  have one: "covered (banks t) = {0..<unat (gd_dram_size t)} \<union> {unat (gd_dram2_base t)..<unat (gd_dram2_base t) + unat (gd_dram2_size t)}"
    using base z2 by (auto simp: banks_def covered_def)
  have h: "A + B \<le> 2 ^ 30 \<or> (C = 0 \<or> A = 2 ^ 30) \<and> (D = 0 \<or> B = 2 ^ 30)"
    using holes by (auto simp: no_holes_def A_def B_def C_def D_def word_unat_eq_iff)
  have run: "{0..<x + y} = {0..<x} \<union> {x..<x + y}" "{z..<z + (x + y)} = {z..<z + x} \<union> {z + x..<z + x + y}" for x y z :: nat
    by auto
  have z: "unat (gd_dram2_size t) = 0 \<or> unat (gd_dram2_base t) = (if A + B \<le> 0x40000000 then 0x40000000 else 0x100000000)"
    using b2 z2 by blast
  have chips: "chip_selects s = (if A + B \<le> 0x40000000 then [(0, A), (A, B), (0x40000000, C), (0x40000000 + C, D)]
      else [(0, A), (0x100000000, B), (0x40000000, C), (0x140000000, D)])"
    by (simp add: chip_selects_def A_def B_def C_def D_def Let_def)
  have "covered (banks t) = covered (chip_selects s) \<and>
    {0..<unat (gd_dram_size t)} \<inter> {unat (gd_dram2_base t)..<unat (gd_dram2_base t) + unat (gd_dram2_size t)} = {}"
  proof (cases "A + B \<le> 0x40000000")
    case True
    then have "unat (gd_dram_size t) = A + B" "unat (gd_dram2_size t) = C + D" "C + D = 0 \<or> unat (gd_dram2_base t) = 0x40000000"
      using d1 d2 z by simp_all
    moreover have "{x..<x + (C + D)} = {0x40000000..<0x40000000 + C} \<union> {0x40000000 + C..<0x40000000 + C + D}"
      if "C + D = 0 \<or> x = 0x40000000" for x
      using that
    proof
      assume "x = 0x40000000"
      then show ?thesis by (simp only: run(2))
    qed simp
    moreover have "{0..<A + B} \<inter> {x..<x + (C + D)} = {}" if "C + D = 0 \<or> x = 0x40000000" for x
      using that True by auto
    ultimately show ?thesis unfolding one chips if_P [OF True] four by (simp only: run(1) [of A B] Un_assoc simp_thms)
  next
    case False
    then have u: "unat (gd_dram_size t) = A + C" "unat (gd_dram2_size t) = B + D" using d1 d2 by simp_all
    have "0 < B" using False lim by simp
    then have base2: "unat (gd_dram2_base t) = 0x100000000" using z u(2) False by auto
    have full: "C = 0 \<or> A = 0x40000000" "D = 0 \<or> B = 0x40000000" using h False by auto
    have "{0..<A + C} = {0..<A} \<union> {0x40000000..<0x40000000 + C}" using full(1) run(1) [of A C] by auto
    moreover have "{0x100000000..<0x100000000 + (B + D)} = {0x100000000..<0x100000000 + B} \<union> {0x140000000..<0x140000000 + D}"
      using full(2)
    proof
      assume "B = 0x40000000"
      then show ?thesis using run(2) [of "0x100000000" B D] by simp
    qed simp
    ultimately show ?thesis unfolding one chips if_not_P [OF False] four u base2 using lim by auto
  qed
  then have cover: "covered (banks t) = covered (chip_selects s)"
    and disj: "{0..<unat (gd_dram_size t)} \<inter> {unat (gd_dram2_base t)..<unat (gd_dram2_base t) + unat (gd_dram2_size t)} = {}"
    by blast+
  show ?thesis
    unfolding Let_def t_def [symmetric] using cover base disj ram fbb fb(2) by simp
qed

lemma set_banks_partition_witness:
  "let t = set_banks (set_chip None (demo_start ddr_flash)) in
    covered (banks t) = {0..<0x40000000} \<and> gd_nr_dram_banks t = 1"
proof -
  let ?s = "set_chip None (demo_start ddr_flash)"
  have "no_holes ?s" by (simp add: no_holes_def demo_chip)
  moreover have "covered (chip_selects ?s) = {0..<0x40000000}" by (auto simp: covered_def chip_selects_def demo_chip)
  moreover have "gd_dram2_size (set_banks ?s) = 0" by (simp add: set_banks_def Let_def demo_chip)
  ultimately show ?thesis using set_banks_partition [of ?s] by (simp add: demo_chip Let_def)
qed

text \<open>
  Without that: with less than 1 GB behind the first chip select, more than 1 GB behind its controller and memory behind
  the second one, the first bank has an address at which no chip select answers.
\<close>

lemma bank_with_hole:
  assumes "unat (m0_cs0_size s) < 2 ^ 30" and "2 ^ 30 < unat (m0_cs0_size s) + unat (m0_cs1_size s)"
    and "unat (m0_cs1_size s) \<le> 2 ^ 30" and "0 < unat (m1_cs0_size (tr s))" and "unat (m1_cs0_size (tr s)) \<le> 2 ^ 30"
  shows "unat (m0_cs0_size s) \<in> covered (banks (set_banks s)) - covered (chip_selects s)"
proof -
  have sum: "unat (m0_cs0_size s + m0_cs1_size s) = unat (m0_cs0_size s) + unat (m0_cs1_size s)"
    "unat (m0_cs0_size s + m1_cs0_size (tr s)) = unat (m0_cs0_size s) + unat (m1_cs0_size (tr s))"
    using assms by (simp_all add: unat_add_small)
  have big: "\<not> m0_cs0_size s + m0_cs1_size s \<le> 0x40000000" using assms(2) by (simp add: word_le_nat_alt sum)
  have "gd_dram_size (set_banks s) = (if m0_cs0_size s + m0_cs1_size s \<le> 0x40000000 then m0_cs0_size s + m0_cs1_size s
      else m0_cs0_size s + m1_cs0_size (tr s))" "gd_dram_base (set_banks s) = 0"
    by (simp_all add: set_banks_def Let_def)
  with big have "gd_dram_size (set_banks s) = m0_cs0_size s + m1_cs0_size (tr s)" "gd_dram_base (set_banks s) = 0"
    by (simp_all only: if_False)
  then have "unat (m0_cs0_size s) \<in> covered (banks (set_banks s))"
    using assms(4) sum(2) by (simp add: covered_def banks_def)
  moreover have "unat (m0_cs0_size s) \<notin> covered (chip_selects s)"
    using assms by (auto simp: covered_def chip_selects_def Let_def)
  ultimately show ?thesis by simp
qed

end
