(* ===== verification/Spec2Isabelle.thy ===== *)
theory Spec2Isabelle
  imports SecureVerify Session Part MemTest MemctlInit
begin

text \<open>
  A verification development of the Leadcore U-Boot loader: a 32-bit little-endian ARM boot loader that
  brings up DRAM, finds partitions on eMMC, checks the signature of the images it starts, and writes
  images that a host sends over USB.

  \<^bold>\<open>The parts and how they interact.\<close>  The fastboot session (drivers/usb/gadget/fastboot.c) receives
  commands and images over the packet calls of f\_abi.c and hands an image to the flash layer.  The
  flash layer (drivers/misc/comip\_flash.c, with the sparse writer of sparse\_file.c) looks a partition
  up by name and writes through the block descriptor of include/part.h.  Behind the descriptor is the
  MMC block layer (drivers/mmc/mmc.c), which splits transfers and talks to a host controller.  The
  partition code (disk/) reads tables through the same descriptor.  Before the kernel is started the
  boot gate (secure\_verify/) checks the public key against fuses and the image against its signature,
  with RSA over multi-word Montgomery arithmetic and a SHA-256 engine.  lib/ holds the C library the
  rest uses.  Before any of this the board code starts the DRAM controllers
  (comip\_memctl\_lc1860.c), chooses their drive strengths and reference voltage (ddr\_zq\_select.c), trains
  their delays (dqs\_training.c), keeps the results on the flash for the next start
  (comip\_ddr\_on\_flash.c), and can test the memory (comip\_memorytest.c).

  \<^bold>\<open>Which theory models what.\<close>
  \<^item> Prelude: words, byte orders, multi-word numbers; Memory: the byte memory of the machine, with
    wrapping addresses and C strings.
  \<^item> CString (lib/string.c), Div64 (lib/div64.c), Ctype (lib/ctype.c), Vsprintf (lib/vsprintf.c),
    LibMisc (lib/display\_options.c, malloc.c, time.c), Crc32 (lib/crc32.c).
  \<^item> Montgomery and Rsa (secure\_verify/rsa.c), Sha256 (sha256.c), SecureVerify (decode.c and
    secure\_verify.c).  \<open>modpow\<close> is the pair of exponentiation chains of the code; \<open>RSA_verify\<close> and
    \<open>image_rsa_verify\<close> have the names they have there.
  \<^item> BlockDev (include/part.h), Mmc (the block operations of mmc.c), MmcInit (its identification and
    start-up of a card).
  \<^item> DiskDesc (what disk/ shares), PartEfi, PartDos, PartMac, PartIso, PartAmiga (one table format
    each, from the file of that name) and Part (disk/part.c, which probes and dispatches).
  \<^item> Flash (comip\_flash.c), Sparse (sparse\_file.c), Fastboot (fastboot.c over f\_abi.c) and Session
    (what a session guarantees from its first command on).
  \<^item> Mmio (the bus, the commands of the state monad, their weakest preconditions and the locale
    \<open>register_file\<close>), MemTest (comip\_memorytest.c), DdrFreq, EyeSearch, DqsTraining (dqs\_training.c,
    with the two refresh functions of comip\_memctl\_lc1860.c) and DqsEye (what the training chooses).
  \<^item> ZqSelect (ddr\_zq\_select.c), DdrOnFlash (comip\_ddr\_on\_flash.c) and MemctlInit
    (comip\_memctl\_lc1860.c with the choice of the chip of memctl\_multi\_ddr.c, in the build of
    include/configs/comip\_lc1860\_evb2.h).  \<open>memctl_init\<close> is cut into the steps its comments and
    conditional parts name; the record \<open>memctl\<close> holds the global data it sets.

  \<^bold>\<open>State and errors.\<close>  A C structure is a record with the fields of the source; the variables of a
  file are a record that its functions pass on and return updated.  Integers keep their width.  A function
  that returns an error code returns it; one that can hang, dereference a null pointer, divide by
  zero or leave an array returns an option, and \<open>None\<close> is that event.  Buffers are byte
  lists or regions of Memory where aliasing matters.

  \<^bold>\<open>What is a parameter.\<close>  The MMC host controller (\<open>drv\<close>), the bulk endpoints of the USB controller
  (\<open>link\<close>), the SHA-256 compression in hardware (\<open>hw\<close>), the bus (\<open>b\<close>), the environment, the timing
  tables of the chips (\<open>multi\<close>), what the stack holds where code reads it uninitialised (\<open>tmp\<close>, \<open>junk\<close>) and the
  allocator's refusals are arguments of the definitions.  What the code expects of them is stated in locales:
  \<open>block_store\<close>, \<open>readable_device\<close> and their kin for devices, \<open>bulk_link\<close> and \<open>live_link\<close> for the USB
  side, and so on; each is interpreted on the model that provides it.

  \<^bold>\<open>What the lemmas show.\<close>  For the secure boot: an image passes only if the fuses match the key's digest
  and the signature is the correct RSA signature of the digest of the image.  For the C library: each routine agrees
  with a specification on lists or numbers, for every alignment and overlap the code allows.  For storage:
  what is written is read back and nothing else changes, transfers end, capacities are those of the
  standard.  For tables: what \<open>gpt_restore\<close> writes passes the checks and is found again; on a disk whose bytes are
  laid out as the DOS format says, probe, listing and lookup agree with that layout.  The Macintosh, Amiga and CD
  formats are modelled as the code reads them, which is not their byte order: small lemmas show that media in
  the true byte order are refused, and nothing else is claimed of these three.  For images: an accepted sparse image leaves on the device the
  blocks its chunks denote and touches no block outside the partition.  For DRAM: working memory passes
  the test, a stuck data line or a dead address line does not, and training settles each delay in the
  middle of the window of settings the search chooses; the tables it fills survive a restart, and a restart
  uses them instead of training again.  For sessions: bounds and tables are
  invariants, every known command is answered, and a download followed by a flash puts the image on the
  device.

  \<^bold>\<open>Bounds and fuel.\<close>  A loop bounded by a counter recurses on that counter, which is therefore enough
  fuel by construction.  A loop that only data can stop (a terminating zero, a chain of
  partition tables) is a partial function into options; that it ends is proved where the data is
  well-formed.

  \<^bold>\<open>Not modelled.\<close>  Drivers that only move register values and delays and have no result to reason
  about: the SDHCI host (drivers/mmc/comip\_mmc.c), NAND, PMIC and chargers, I2C, GPIO, pin
  multiplexing, LEDs, keypad, UARTs, timers, the display pipeline and the USB device controller.  Their contracts, where a
  modelled part relies on one, are the parameters above.  Also left out: the assembly of
  arch/arm (start-up, caches, division helpers), the start-up sequence of board.c, the board files other
  than those named above, the factory tools behind USB (targetloader, usbtty, epautoconf, f\_udl), tables of
  constants (register maps, machine numbers, timing tables, board configurations) and build tools.
\<close>

end
